(* ===== verification/APGO_Prelude.thy ===== *)
theory APGO_Prelude
  imports Main "HOL-Library.Word" "HOL-Library.AList"
begin

text \<open>
  Shared vocabulary of the development: the Go types the node's source uses (bytes,
  fixed-width integers, \<open>time.Time\<close>, \<open>map[K]V\<close>, \<open>error\<close> results), the big-endian
  codec of \<open>encoding/binary\<close>, and the generic lemmas the component theories rest on.

  Conventions.
  \<^item> A \<open>byte\<close> is an \<open>8 word\<close>, \<open>uint64\<close> a \<open>64 word\<close>; Go's \<open>int\<close>/\<open>int64\<close> is an \<open>int\<close>
    whose wrap-around is written out with \<open>wrap64\<close> where it can matter.
  \<^item> \<open>time.Time\<close> is an \<open>int\<close>, nanoseconds since Go's zero time (so the zero value is 0);
    \<open>a.Sub(b)\<close> is \<open>time_sub a b\<close>, which saturates at the \<open>time.Duration\<close> range as Go does.
  \<^item> A Go map is an association list \<open>('k \<times> 'v) list\<close> with distinct keys (\<open>gwf\<close>).
    \<open>range\<close> over the map is the list order, which stands for the arbitrary order of Go:
    every theorem holds for every order of the list.
\<close>

unbundle bit_operations_syntax

named_theorems gomap_simps \<open>rewriting of lookups in updated Go maps\<close>
named_theorems wf_intros \<open>preservation of the distinct-keys invariant of Go maps\<close>

type_synonym byte = "8 word"
type_synonym u16 = "16 word"
type_synonym u32 = "32 word"
type_synonym u64 = "64 word"
type_synonym go_time = int
type_synonym duration = int

text \<open>A node's 32-byte X25519 static public key, \<open>[32]byte\<close> in the source.\<close>

type_synonym node_key = "byte list"

abbreviation zero_key :: node_key where
  "zero_key \<equiv> replicate 32 0"

section \<open>Durations and times\<close>

definition second :: duration where "second = 1000000000"

definition minute :: duration where "minute = 60 * second"

definition hour :: duration where "hour = 60 * minute"

definition max_duration :: duration where "max_duration = 2 ^ 63 - 1"

definition min_duration :: duration where "min_duration = - (2 ^ 63)"

definition time_sub :: "go_time \<Rightarrow> go_time \<Rightarrow> duration" where
  "time_sub a b =
     (if a - b > max_duration then max_duration
      else if a - b < min_duration then min_duration
      else a - b)"

lemmas duration_defs = second_def minute_def hour_def max_duration_def min_duration_def

text \<open>\<open>time.Unix(sec, 0)\<close> and \<open>t.Unix()\<close>; the epoch is 62135596800 seconds after Go's zero time.\<close>

definition time_Unix :: "int \<Rightarrow> go_time" where
  "time_Unix sec = (sec + 62135596800) * second"

definition unix_of :: "go_time \<Rightarrow> int" where
  "unix_of t = t div second - 62135596800"

lemma time_sub_mono: "a \<le> a' \<Longrightarrow> time_sub a b \<le> time_sub a' b"
  by (auto simp: time_sub_def max_duration_def min_duration_def)

lemma time_sub_antimono: "b \<le> b' \<Longrightarrow> time_sub a b' \<le> time_sub a b"
  by (auto simp: time_sub_def max_duration_def min_duration_def)

lemma time_sub_self [simp]: "time_sub a a = 0"
  by (simp add: time_sub_def max_duration_def min_duration_def)

lemma time_sub_less_iff:
  "d \<le> max_duration \<Longrightarrow> min_duration < d \<Longrightarrow> time_sub a b < d \<longleftrightarrow> a - b < d"
  by (auto simp: time_sub_def max_duration_def min_duration_def)

lemma time_sub_greater_iff:
  "d < max_duration \<Longrightarrow> min_duration \<le> d \<Longrightarrow> d < time_sub a b \<longleftrightarrow> d < a - b"
  by (auto simp: time_sub_def max_duration_def min_duration_def)

section \<open>64-bit signed arithmetic\<close>

definition wrap64 :: "int \<Rightarrow> int" where
  "wrap64 x = (x + 2 ^ 63) mod 2 ^ 64 - 2 ^ 63"

definition int64_range :: "int \<Rightarrow> bool" where
  "int64_range x \<longleftrightarrow> - (2 ^ 63) \<le> x \<and> x < 2 ^ 63"

lemma wrap64_id: "int64_range x \<Longrightarrow> wrap64 x = x"
  by (simp add: wrap64_def int64_range_def)

lemma wrap64_range: "int64_range (wrap64 x)"
  by (simp add: wrap64_def int64_range_def pos_mod_bound add.commute less_diff_eq)

lemma wrap64_overflow: "2 ^ 63 \<le> x \<Longrightarrow> x < 2 ^ 63 + 2 ^ 63 \<Longrightarrow> wrap64 x = x - 2 ^ 64"
proof -
  assume a: "2 ^ 63 \<le> x" and b: "x < 2 ^ 63 + 2 ^ 63"
  have "(x + 2 ^ 63) mod 2 ^ 64 = (x + 2 ^ 63 - 2 ^ 64) mod (2 ^ 64 :: int)"
    by (rule minus_mod_self2 [symmetric])
  also have "\<dots> = x + 2 ^ 63 - 2 ^ 64"
    using a b by (intro mod_pos_pos_trivial) auto
  finally show ?thesis by (simp add: wrap64_def)
qed

section \<open>Big-endian integers\<close>

lemma unat_byte_lt: "unat (b :: byte) < 256"
proof -
  have "unat b < 2 ^ LENGTH(8)" by (rule unsigned_less)
  then show ?thesis by simp
qed

text \<open>\<open>binary.BigEndian.UintN\<close> and \<open>PutUintN\<close>, over the natural number the bytes denote.\<close>

definition be_nat :: "byte list \<Rightarrow> nat" where
  "be_nat bs = foldl (\<lambda>a b. a * 256 + unat b) 0 bs"

fun be_put :: "nat \<Rightarrow> nat \<Rightarrow> byte list" where
  "be_put 0 n = []"
| "be_put (Suc k) n = be_put k (n div 256) @ [of_nat n]"

lemma length_be_put [simp]: "length (be_put k n) = k"
  by (induction k arbitrary: n) auto

lemma be_nat_Nil [simp]: "be_nat [] = 0"
  by (simp add: be_nat_def)

lemma be_nat_snoc [simp]: "be_nat (bs @ [b]) = be_nat bs * 256 + unat b"
  by (simp add: be_nat_def)

lemma be_nat_put: "be_nat (be_put k n) = n mod 256 ^ k"
proof (induction k arbitrary: n)
  case 0
  then show ?case by simp
next
  case (Suc k)
  have "be_nat (be_put (Suc k) n) = (n div 256) mod 256 ^ k * 256 + n mod 256"
    by (simp add: Suc unat_of_nat take_bit_eq_mod)
  also have "\<dots> = n mod 256 ^ Suc k"
    by (simp add: mod_mult2_eq mult.commute)
  finally show ?case .
qed

lemma be_nat_bound: "be_nat bs < 256 ^ length bs"
proof (induction bs rule: rev_induct)
  case Nil
  then show ?case by simp
next
  case (snoc b bs)
  have "unat b < 256" by (rule unat_byte_lt)
  moreover from snoc have "Suc (be_nat bs) * 256 \<le> 256 ^ length bs * 256"
    by (intro mult_le_mono1) simp
  ultimately show ?case by simp
qed

lemma be_put_be_nat: "length bs = k \<Longrightarrow> be_put k (be_nat bs) = bs"
proof (induction k arbitrary: bs)
  case 0
  then show ?case by simp
next
  case (Suc k)
  then obtain cs b where bs: "bs = cs @ [b]" and len: "length cs = k"
    by (metis append_butlast_last_id length_0_conv length_append_singleton nat.distinct(1) nat.inject)
  have lt: "unat b < 256" by (rule unat_byte_lt)
  then have "(be_nat cs * 256 + unat b) div 256 = be_nat cs" by simp
  moreover have "(word_of_nat (be_nat cs * 256 + unat b) :: byte) = b"
  proof -
    have "(word_of_nat (be_nat cs * 256) :: byte) = of_nat (be_nat cs) * 256" by simp
    also have "(256 :: byte) = 0" by simp
    finally show ?thesis by simp
  qed
  ultimately show ?case using Suc.IH [OF len] by (simp add: bs)
qed

definition be_u16 :: "byte list \<Rightarrow> u16" where
  "be_u16 bs = of_nat (be_nat (take 2 bs))"

definition be_u32 :: "byte list \<Rightarrow> u32" where
  "be_u32 bs = of_nat (be_nat (take 4 bs))"

definition be_u64 :: "byte list \<Rightarrow> u64" where
  "be_u64 bs = of_nat (be_nat (take 8 bs))"

definition put_u16 :: "u16 \<Rightarrow> byte list" where "put_u16 w = be_put 2 (unat w)"

definition put_u32 :: "u32 \<Rightarrow> byte list" where "put_u32 w = be_put 4 (unat w)"

definition put_u64 :: "u64 \<Rightarrow> byte list" where "put_u64 w = be_put 8 (unat w)"

lemma length_put_u [simp]:
  "length (put_u16 a) = 2" "length (put_u32 b) = 4" "length (put_u64 c) = 8"
  by (simp_all add: put_u16_def put_u32_def put_u64_def)

lemma be_u16_put [simp]: "be_u16 (put_u16 w @ r) = w"
proof -
  have "unat w < 2 ^ LENGTH(16)" by (rule unsigned_less)
  then show ?thesis
    by (simp add: be_u16_def put_u16_def be_nat_put del: be_put.simps)
qed

lemma be_u32_put [simp]: "be_u32 (put_u32 w @ r) = w"
proof -
  have "unat w < 2 ^ LENGTH(32)" by (rule unsigned_less)
  then show ?thesis
    by (simp add: be_u32_def put_u32_def be_nat_put del: be_put.simps)
qed

lemma be_nat_put_u32 [simp]: "be_nat (put_u32 v) = unat v"
proof -
  have "unat v < 2 ^ LENGTH(32)" by (rule unsigned_less)
  then show ?thesis by (simp add: put_u32_def be_nat_put)
qed

lemma put_be_u32: "length b = 4 \<Longrightarrow> put_u32 (be_u32 b) = b"
proof -
  assume l: "length b = 4"
  have "be_nat b < 2 ^ 32" using be_nat_bound [of b] l by simp
  then show ?thesis using l be_put_be_nat [of b 4] by (simp add: put_u32_def be_u32_def unat_of_nat)
qed

lemma be_u64_put [simp]: "be_u64 (put_u64 w @ r) = w"
proof -
  have "unat w < 2 ^ LENGTH(64)" by (rule unsigned_less)
  then show ?thesis
    by (simp add: be_u64_def put_u64_def be_nat_put del: be_put.simps)
qed

section \<open>Go maps\<close>

abbreviation gget :: "('k \<times> 'v) list \<Rightarrow> 'k \<Rightarrow> 'v option" where
  "gget \<equiv> map_of"

abbreviation gput :: "'k \<Rightarrow> 'v \<Rightarrow> ('k \<times> 'v) list \<Rightarrow> ('k \<times> 'v) list" where
  "gput \<equiv> AList.update"

abbreviation gdel :: "'k \<Rightarrow> ('k \<times> 'v) list \<Rightarrow> ('k \<times> 'v) list" where
  "gdel \<equiv> AList.delete"

definition gwf :: "('k \<times> 'v) list \<Rightarrow> bool" where
  "gwf m \<longleftrightarrow> distinct (map fst m)"

text \<open>Deleting, while ranging over a map, every entry that satisfies a predicate.\<close>

definition gdrop :: "('k \<Rightarrow> 'v \<Rightarrow> bool) \<Rightarrow> ('k \<times> 'v) list \<Rightarrow> ('k \<times> 'v) list" where
  "gdrop p m = filter (\<lambda>(k, v). \<not> p k v) m"

text \<open>Rewriting, while ranging over a map, every value in place.\<close>

definition gmap :: "('k \<Rightarrow> 'v \<Rightarrow> 'v) \<Rightarrow> ('k \<times> 'v) list \<Rightarrow> ('k \<times> 'v) list" where
  "gmap f m = map (\<lambda>(k, v). (k, f k v)) m"

lemma gget_gput [gomap_simps]: "gget (gput k v m) k' = (if k' = k then Some v else gget m k')"
  by (simp add: update_conv')

lemma gget_gdel [gomap_simps]: "gget (gdel k m) k' = (if k' = k then None else gget m k')"
  by (simp add: delete_conv')

lemma gget_gdrop [gomap_simps]:
  "gwf m \<Longrightarrow> gget (gdrop p m) k = (case gget m k of None \<Rightarrow> None | Some v \<Rightarrow> if p k v then None else Some v)"
proof (induction m)
  case Nil
  then show ?case by (simp add: gdrop_def)
next
  case (Cons a m)
  obtain k0 v0 where a: "a = (k0, v0)" by (cases a)
  from Cons.prems a have wf: "gwf m" and fresh: "k0 \<notin> fst ` set m" by (auto simp: gwf_def)
  from fresh have "gget m k0 = None" by (simp add: map_of_eq_None_iff)
  with Cons.IH [OF wf] a show ?case by (auto simp: gdrop_def split: option.splits)
qed

lemma gget_gmap [gomap_simps]: "gget (gmap f m) k = map_option (f k) (gget m k)"
  by (induction m) (auto simp: gmap_def)

lemma gwf_Nil [wf_intros, simp]: "gwf []"
  by (simp add: gwf_def)

lemma gwf_gput [wf_intros]: "gwf m \<Longrightarrow> gwf (gput k v m)"
  by (simp add: gwf_def distinct_update)

lemma gwf_gdel [wf_intros]: "gwf m \<Longrightarrow> gwf (gdel k m)"
  by (simp add: gwf_def distinct_delete)

lemma gwf_gdrop [wf_intros]: "gwf m \<Longrightarrow> gwf (gdrop p m)"
  unfolding gwf_def gdrop_def by (rule distinct_map_filter)

lemma gwf_gmap [wf_intros]: "gwf (gmap f m) = gwf m"
  by (simp add: gwf_def gmap_def case_prod_beta comp_def)

lemma set_gget: "gwf m \<Longrightarrow> (k, v) \<in> set m \<longleftrightarrow> gget m k = Some v"
  by (simp add: gwf_def)

lemma length_gput: "length (gput k v m) = (if gget m k = None then Suc (length m) else length m)"
  by (induction m) auto

lemma length_gdrop_le: "length (gdrop p m) \<le> length m"
  by (simp add: gdrop_def)

lemma length_gmap [simp]: "length (gmap f m) = length m"
  by (simp add: gmap_def)

lemma length_gdel_le: "length (gdel k m) \<le> length m"
  by (simp add: AList.delete_eq)

lemma set_gput_subset: "set (gput k v m) \<subseteq> insert (k, v) (set m)"
  by (induction m) auto

lemma set_gdel: "set (gdel k m) = {x \<in> set m. fst x \<noteq> k}"
  by (auto simp: AList.delete_eq)

lemma set_gdrop: "set (gdrop p m) = {(k, v). (k, v) \<in> set m \<and> \<not> p k v}"
  by (auto simp: gdrop_def)

lemma gput_fresh: "k \<notin> fst ` set m \<Longrightarrow> gput k v m = m @ [(k, v)]"
  by (induction m) auto

text \<open>Sums over the values of a map.\<close>

definition gsum :: "('v \<Rightarrow> int) \<Rightarrow> ('k \<times> 'v) list \<Rightarrow> int" where
  "gsum f m = sum_list (map (\<lambda>(k, v). f v) m)"

lemma gsum_Nil [simp]: "gsum f [] = 0"
  by (simp add: gsum_def)

lemma gsum_gput:
  "gsum f (gput k v m) = gsum f m + f v - (case gget m k of None \<Rightarrow> 0 | Some w \<Rightarrow> f w)"
  by (induction m) (auto simp: gsum_def split: option.splits)

lemma gsum_gdel:
  "gwf m \<Longrightarrow> gsum f (gdel k m) = gsum f m - (case gget m k of None \<Rightarrow> 0 | Some w \<Rightarrow> f w)"
proof (induction m)
  case (Cons a m)
  obtain k0 v0 where a: "a = (k0, v0)" by (cases a)
  with Cons.prems have wf: "gwf m" and fresh: "k0 \<notin> fst ` set m" by (auto simp: gwf_def)
  show ?case
  proof (cases "k0 = k")
    case True
    with fresh have "gdel k m = m" by (force simp: AList.delete_eq filter_id_conv)
    with True a show ?thesis by (simp add: gsum_def)
  next
    case False
    with Cons.IH [OF wf] a show ?thesis by (simp add: gsum_def)
  qed
qed simp

lemma gsum_nonneg: "(\<And>v. 0 \<le> f v) \<Longrightarrow> 0 \<le> gsum f m"
  by (auto simp: gsum_def intro!: sum_list_nonneg)

lemma gsum_ge_member:
  "gwf m \<Longrightarrow> gget m k = Some c \<Longrightarrow> (\<And>v. 0 \<le> f v) \<Longrightarrow> f c \<le> gsum f m"
  using gsum_gdel [of m f k] gsum_nonneg [of f "gdel k m"] by simp

lemma gsum_gdrop_le: "(\<And>v. 0 \<le> f v) \<Longrightarrow> gsum f (gdrop p m) \<le> gsum f m"
proof (induction m)
  case (Cons a m)
  from Cons.IH Cons.prems have "gsum f (gdrop p m) \<le> gsum f m" "0 \<le> f (snd a)" by auto
  then show ?case by (cases a) (simp add: gsum_def gdrop_def)
qed (simp add: gdrop_def)

lemma gsum_gmap_le: "(\<And>k v. f (g k v) \<le> f v) \<Longrightarrow> gsum f (gmap g m) \<le> gsum f m"
  by (induction m) (auto simp: gsum_def gmap_def intro: add_mono)

section \<open>Runs\<close>

text \<open>Running a list of events; every event is collected with its answer.\<close>

fun run_steps :: "('e \<Rightarrow> 's \<Rightarrow> 'a \<times> 's) \<Rightarrow> 'e list \<Rightarrow> 's \<Rightarrow> ('e \<times> 'a) list \<times> 's" where
  "run_steps step [] s = ([], s)"
| "run_steps step (e # es) s =
     (let (a, s1) = step e s; (as, s2) = run_steps step es s1 in ((e, a) # as, s2))"

locale step_invariant =
  fixes step :: "'e \<Rightarrow> 's \<Rightarrow> 'a \<times> 's" and adm :: "'e \<Rightarrow> bool" and inv :: "'s \<Rightarrow> bool" and good :: "'e \<Rightarrow> 'a \<Rightarrow> bool"
  assumes step_inv: "adm e \<Longrightarrow> inv s \<Longrightarrow> inv (snd (step e s))"
    and step_good: "adm e \<Longrightarrow> inv s \<Longrightarrow> good e (fst (step e s))"
begin

lemma run_inv: "list_all adm es \<Longrightarrow> inv s \<Longrightarrow>
    inv (snd (run_steps step es s)) \<and> list_all (\<lambda>(e, a). good e a) (fst (run_steps step es s))"
proof (induction es arbitrary: s)
  case (Cons e es)
  from Cons.prems have "adm e" "inv s" by auto
  with step_inv step_good have "inv (snd (step e s))" "good e (fst (step e s))" by blast+
  with Cons show ?case by (auto simp: case_prod_beta Let_def)
qed simp

lemma run_events: "map fst (fst (run_steps step es s)) = es"
  by (induction es arbitrary: s) (auto simp: case_prod_beta Let_def)

end

lemma run_steps_snoc:
  "run_steps step (es @ [e]) s =
     (let (as, s1) = run_steps step es s; (a, s2) = step e s1 in (as @ [(e, a)], s2))"
  by (induction es arbitrary: s) (auto simp: case_prod_beta Let_def)

text \<open>Rate limits: the times at which requests for key \<open>k\<close> were granted in a run, and what a limiter
  has to keep so that they are at least \<open>gap\<close> apart. \<open>since k u t s\<close>: in state \<open>s\<close> at time \<open>t\<close>, the
  grant of \<open>u\<close> is remembered or no longer matters.\<close>

fun grant_times :: "('e \<Rightarrow> go_time) \<Rightarrow> ('e \<Rightarrow> 'k option) \<Rightarrow> 'k \<Rightarrow> ('e \<times> bool) list \<Rightarrow> go_time list" where
  "grant_times etime asks k [] = []"
| "grant_times etime asks k ((e, a) # as) =
     (if a \<and> asks e = Some k then etime e # grant_times etime asks k as else grant_times etime asks k as)"

locale spaced_grants =
  fixes step :: "'e \<Rightarrow> 's \<Rightarrow> bool \<times> 's" and etime :: "'e \<Rightarrow> go_time" and asks :: "'e \<Rightarrow> 'k option"
    and inv :: "'s \<Rightarrow> bool" and since :: "'k \<Rightarrow> go_time \<Rightarrow> go_time \<Rightarrow> 's \<Rightarrow> bool" and gap :: duration
  assumes inv_step: "inv s \<Longrightarrow> inv (snd (step e s))"
    and since_new: "inv s \<Longrightarrow> asks e = Some k \<Longrightarrow> fst (step e s) \<Longrightarrow> since k (etime e) (etime e) (snd (step e s))"
    and since_step: "inv s \<Longrightarrow> since k u t s \<Longrightarrow> u \<le> t \<Longrightarrow> t \<le> etime e \<Longrightarrow> since k u (etime e) (snd (step e s))"
    and since_gap: "inv s \<Longrightarrow> since k u t s \<Longrightarrow> u \<le> t \<Longrightarrow> t \<le> etime e \<Longrightarrow> asks e = Some k \<Longrightarrow> fst (step e s) \<Longrightarrow>
      u + gap \<le> etime e"
begin

lemma later_grants:
  "inv s \<Longrightarrow> since k u t s \<Longrightarrow> u \<le> t \<Longrightarrow> sorted (t # map etime es) \<Longrightarrow>
     list_all (\<lambda>v. u + gap \<le> v) (grant_times etime asks k (fst (run_steps step es s)))"
proof (induction es arbitrary: s t)
  case (Cons e es)
  from Cons.prems have le: "t \<le> etime e" by simp
  note st = since_step [OF Cons.prems(1-3) le]
  have "list_all (\<lambda>v. u + gap \<le> v) (grant_times etime asks k (fst (run_steps step es (snd (step e s)))))"
    by (rule Cons.IH [OF inv_step [OF Cons.prems(1)] st]) (use Cons.prems le in auto)
  with since_gap [OF Cons.prems(1-3) le] show ?case by (simp add: case_prod_beta Let_def)
qed simp

lemma grants_spaced:
  "inv s \<Longrightarrow> sorted (map etime es) \<Longrightarrow>
     sorted_wrt (\<lambda>a b. a + gap \<le> b) (grant_times etime asks k (fst (run_steps step es s)))"
proof (induction es arbitrary: s)
  case (Cons e es)
  have rest: "sorted_wrt (\<lambda>a b. a + gap \<le> b) (grant_times etime asks k (fst (run_steps step es (snd (step e s)))))"
    by (rule Cons.IH) (use Cons.prems inv_step in auto)
  have "list_all (\<lambda>v. etime e + gap \<le> v) (grant_times etime asks k (fst (run_steps step es (snd (step e s)))))"
    if "fst (step e s)" "asks e = Some k"
    by (rule later_grants [OF inv_step [OF Cons.prems(1)] since_new [OF Cons.prems(1) that(2,1)]]) (use Cons.prems in auto)
  with rest show ?case by (auto simp: case_prod_beta Let_def list_all_iff)
qed simp

end

end
