(* ===== verification/Go_Strings.thy ===== *)
theory Go_Strings
  imports APGO_Prelude
begin

text \<open>
  The parts of Go's \<open>strconv\<close>, \<open>strings\<close> and \<open>encoding/base64\<close> the node uses: decimal printing
  and \<open>ParseInt\<close>, standard base64 (padded, newlines ignored), trimming and ASCII case folding,
  and the lemma that makes the \<open>|\<close>-separated canonical strings of signed records readable in
  one way only. A Go string is a byte sequence, here a \<open>string\<close> (a list of 8-bit \<open>char\<close>).
\<close>

section \<open>Decimal integers\<close>

definition digit_char :: "nat \<Rightarrow> char" where
  "digit_char d = char_of (48 + d)"

definition digit_val :: "char \<Rightarrow> nat option" where
  "digit_val c = (let n = of_char c :: nat in if 48 \<le> n \<and> n \<le> 57 then Some (n - 48) else None)"

fun show_nat :: "nat \<Rightarrow> string" where
  "show_nat n = (if n < 10 then [digit_char n] else show_nat (n div 10) @ [digit_char (n mod 10)])"

declare show_nat.simps [simp del]

definition show_int :: "int \<Rightarrow> string" where
  "show_int i = (if i < 0 then CHR ''-'' # show_nat (nat (- i)) else show_nat (nat i))"

fun digits_val :: "nat \<Rightarrow> string \<Rightarrow> nat option" where
  "digits_val acc [] = Some acc"
| "digits_val acc (c # cs) =
     (case digit_val c of None \<Rightarrow> None | Some d \<Rightarrow> digits_val (acc * 10 + d) cs)"

definition parse_int64 :: "string \<Rightarrow> int option" where
  "parse_int64 s =
     (case s of
        [] \<Rightarrow> None
      | c # cs \<Rightarrow>
          let neg = (c = CHR ''-''); ds = (if neg \<or> c = CHR ''+'' then cs else s) in
          if ds = [] then None
          else case digits_val 0 ds of
              None \<Rightarrow> None
            | Some v \<Rightarrow>
                if neg then (if v \<le> 2 ^ 63 then Some (- int v) else None)
                else if v < 2 ^ 63 then Some (int v) else None)"

lemma digit_val_char [simp]: "d < 10 \<Longrightarrow> digit_val (digit_char d) = Some d"
  by (simp add: digit_val_def digit_char_def Let_def)

lemma digit_char_neq [simp]:
  "d < 10 \<Longrightarrow> digit_char d \<noteq> CHR ''-''" "d < 10 \<Longrightarrow> digit_char d \<noteq> CHR ''+''"
  "d < 10 \<Longrightarrow> digit_char d \<noteq> CHR ''|''" "d < 10 \<Longrightarrow> digit_char d \<noteq> CHR ''e''"
  "d < 10 \<Longrightarrow> digit_char d \<noteq> CHR '':''"
  using digit_val_char [of d] by (auto simp: digit_val_def Let_def split: if_splits)

lemma digits_val_append: "digits_val acc (xs @ ys) = Option.bind (digits_val acc xs) (\<lambda>a. digits_val a ys)"
  by (induction xs arbitrary: acc) (auto split: option.splits)

lemma digits_val_show_nat: "digits_val 0 (show_nat n) = Some n"
proof (induction n rule: show_nat.induct)
  case (1 n)
  show ?case
  proof (cases "n < 10")
    case True
    then show ?thesis by (simp add: show_nat.simps)
  next
    case False
    with 1 show ?thesis by (subst show_nat.simps) (simp add: digits_val_append)
  qed
qed

lemma show_nat_nonempty [simp]: "show_nat n \<noteq> []"
  by (subst show_nat.simps) simp

lemma set_show_nat: "c \<in> set (show_nat n) \<Longrightarrow> \<exists>d < 10. c = digit_char d"
proof (induction n rule: show_nat.induct)
  case (1 n)
  show ?case
  proof (cases "n < 10")
    case True
    with 1 show ?thesis by (auto simp: show_nat.simps [of n])
  next
    case False
    with 1 have "c \<in> set (show_nat (n div 10)) \<or> c = digit_char (n mod 10)"
      by (auto simp: show_nat.simps [of n])
    with 1 False show ?thesis by force
  qed
qed

lemma hd_show_nat: "\<exists>d < 10. hd (show_nat n) = digit_char d"
  using set_show_nat hd_in_set show_nat_nonempty by blast

lemma parse_show_int: "int64_range i \<Longrightarrow> parse_int64 (show_int i) = Some i"
proof (cases "i < 0")
  case True
  assume "int64_range i"
  with True have "nat (- i) \<le> 2 ^ 63" by (simp add: int64_range_def nat_le_iff)
  with True show ?thesis by (simp add: parse_int64_def show_int_def Let_def digits_val_show_nat)
next
  case False
  assume "int64_range i"
  with False have lt: "nat i < 2 ^ 63" by (simp add: int64_range_def nat_less_iff)
  obtain c cs where s: "show_nat (nat i) = c # cs" by (cases "show_nat (nat i)") auto
  then obtain d where "d < 10" "c = digit_char d" using hd_show_nat [of "nat i"] by auto
  then have "c \<noteq> CHR ''-''" "c \<noteq> CHR ''+''" by auto
  with False lt s show ?thesis
    using digits_val_show_nat [of "nat i"]
    by (simp add: parse_int64_def show_int_def Let_def del: digits_val.simps)
qed

lemma set_show_int: "c \<in> set (show_int i) \<Longrightarrow> c = CHR ''-'' \<or> (\<exists>d < 10. c = digit_char d)"
  by (auto simp: show_int_def dest: set_show_nat split: if_splits)

lemma show_int_no_bar [simp]: "CHR ''|'' \<notin> set (show_int i)"
proof
  assume "CHR ''|'' \<in> set (show_int i)"
  from set_show_int [OF this] obtain d where "d < 10" "CHR ''|'' = digit_char d" by auto
  then show False using digit_char_neq(3) [of d] by simp
qed

lemma show_int_no_e [simp]: "CHR ''e'' \<notin> set (show_int i)"
proof
  assume "CHR ''e'' \<in> set (show_int i)"
  from set_show_int [OF this] obtain d where "d < 10" "CHR ''e'' = digit_char d" by auto
  then show False using digit_char_neq(4) [of d] by simp
qed

lemma show_int_inj: "show_int i = show_int j \<longleftrightarrow> i = j"
proof
  have nat_inj: "a = b" if "show_nat a = show_nat b" for a b
    by (metis digits_val_show_nat option.inject that)
  have neg: "show_nat n \<noteq> CHR ''-'' # xs" "CHR ''-'' # xs \<noteq> show_nat n" for n xs
    by (metis hd_show_nat digit_char_neq(1) list.sel(1))+
  assume eq: "show_int i = show_int j"
  have "i < 0 \<longleftrightarrow> j < 0"
    using eq neg by (auto simp: show_int_def split: if_splits)
  moreover from this eq have "show_nat (nat \<bar>i\<bar>) = show_nat (nat \<bar>j\<bar>)"
    by (auto simp: show_int_def split: if_splits)
  then have "nat \<bar>i\<bar> = nat \<bar>j\<bar>" by (rule nat_inj)
  ultimately show "i = j" by auto
qed simp

section \<open>Fields separated by a bar\<close>

lemma bar_split:
  assumes "CHR ''|'' \<notin> set xs" and "CHR ''|'' \<notin> set xs'"
    and "xs @ CHR ''|'' # ys = xs' @ CHR ''|'' # ys'"
  shows "xs = xs' \<and> ys = ys'"
proof -
  have "takeWhile (\<lambda>c. c \<noteq> CHR ''|'') (zs @ CHR ''|'' # ws) = zs" if "CHR ''|'' \<notin> set zs" for zs ws
    using that by (subst takeWhile_append2) auto
  with assms have "xs = xs'" by metis
  with assms(3) show ?thesis by simp
qed

section \<open>Base64\<close>

definition b64_alphabet :: string where
  "b64_alphabet = ''ABCDEFGHIJKLMNOPQRSTUVWXYZabcdefghijklmnopqrstuvwxyz0123456789+/''"

definition b64_val :: "char \<Rightarrow> nat option" where
  "b64_val c = map_of (zip b64_alphabet [0..<64]) c"

definition b64_char :: "nat \<Rightarrow> char" where
  "b64_char k = b64_alphabet ! k"

fun b64_quanta :: "string \<Rightarrow> byte list option" where
  "b64_quanta [] = Some []"
| "b64_quanta (a # b # c # d # r) =
     (case (b64_val a, b64_val b) of
        (Some x, Some y) \<Rightarrow>
          if c = CHR ''='' then
            (if d = CHR ''='' \<and> r = [] then Some [of_nat (x * 4 + y div 16)] else None)
          else (case b64_val c of
              None \<Rightarrow> None
            | Some z \<Rightarrow>
                if d = CHR ''='' then
                  (if r = [] then Some [of_nat (x * 4 + y div 16), of_nat (y mod 16 * 16 + z div 4)]
                   else None)
                else (case b64_val d of
                    None \<Rightarrow> None
                  | Some w \<Rightarrow>
                      map_option (\<lambda>t. of_nat (x * 4 + y div 16) # of_nat (y mod 16 * 16 + z div 4) #
                          of_nat (z mod 4 * 64 + w) # t) (b64_quanta r)))
      | _ \<Rightarrow> None)"
| "b64_quanta _ = None"

text \<open>\<open>base64.StdEncoding.DecodeString\<close>: carriage returns and line feeds are skipped.\<close>

definition b64_decode :: "string \<Rightarrow> byte list option" where
  "b64_decode s = b64_quanta (filter (\<lambda>c. c \<noteq> CHR 0x0A \<and> c \<noteq> CHR 0x0D) s)"

fun b64_encode :: "byte list \<Rightarrow> string" where
  "b64_encode [] = []"
| "b64_encode [a] = [b64_char (unat a div 4), b64_char (unat a mod 4 * 16), CHR ''='', CHR ''='']"
| "b64_encode [a, b] =
     [b64_char (unat a div 4), b64_char (unat a mod 4 * 16 + unat b div 16),
      b64_char (unat b mod 16 * 4), CHR ''='']"
| "b64_encode (a # b # c # r) =
     b64_char (unat a div 4) # b64_char (unat a mod 4 * 16 + unat b div 16) #
     b64_char (unat b mod 16 * 4 + unat c div 64) # b64_char (unat c mod 64) # b64_encode r"

lemma length_b64_alphabet: "length b64_alphabet = 64"
  by (simp add: b64_alphabet_def)

lemma distinct_b64_alphabet: "distinct b64_alphabet"
  by (simp add: b64_alphabet_def)

lemma b64_val_char [simp]: "k < 64 \<Longrightarrow> b64_val (b64_char k) = Some k"
  using map_of_zip_nth [of b64_alphabet "[0..<64]" k]
  by (simp add: b64_val_def b64_char_def length_b64_alphabet distinct_b64_alphabet)

lemma b64_val_SomeD: "b64_val c = Some k \<Longrightarrow> c \<in> set b64_alphabet"
  by (auto simp: b64_val_def dest!: map_of_SomeD in_set_zipE elim: in_set_zipE)

lemma b64_val_special [simp]:
  "b64_val (CHR ''='') = None" "b64_val (CHR ''|'') = None"
  "b64_val (CHR 0x0A) = None" "b64_val (CHR 0x0D) = None"
  by (simp_all add: b64_val_def b64_alphabet_def upt_rec numeral_eq_Suc)

lemma b64_char_neq [simp]:
  "k < 64 \<Longrightarrow> b64_char k \<noteq> CHR ''=''" "k < 64 \<Longrightarrow> b64_char k \<noteq> CHR 0x0A"
  "k < 64 \<Longrightarrow> b64_char k \<noteq> CHR 0x0D" "k < 64 \<Longrightarrow> b64_char k \<noteq> CHR ''|''"
  by (metis b64_val_char b64_val_special option.distinct(1))+

lemma b64_quanta_chars:
  "b64_quanta s = Some bs \<Longrightarrow> c \<in> set s \<Longrightarrow> c = CHR ''='' \<or> b64_val c \<noteq> None"
  by (induction s arbitrary: bs rule: b64_quanta.induct)
    (auto split: option.splits if_splits)

lemma b64_decode_no_bar: "b64_decode s = Some bs \<Longrightarrow> CHR ''|'' \<notin> set s"
  using b64_quanta_chars [of "filter (\<lambda>c. c \<noteq> CHR 0x0A \<and> c \<noteq> CHR 0x0D) s" bs "CHR ''|''"]
  by (auto simp: b64_decode_def)

lemma byte_sextets:
  fixes a b :: byte
  shows "unat a div 4 < 64" "unat a mod 4 * 16 + unat b div 16 < 64"
    "unat b mod 16 * 4 + unat a div 64 < 64" "unat a mod 64 < 64" "unat a mod 4 * 16 < 64"
    "unat b mod 16 * 4 < 64"
  using unat_byte_lt [of a] unat_byte_lt [of b] by auto

lemma b64_bytes:
  fixes a b c :: byte
  shows "unat a div 4 * 4 + (unat a mod 4 * 16 + unat b div 16) div 16 = unat a"
    "(unat a mod 4 * 16 + unat b div 16) mod 16 * 16 + (unat b mod 16 * 4 + unat c div 64) div 4 = unat b"
    "(unat b mod 16 * 4 + unat c div 64) mod 4 * 64 + unat c mod 64 = unat c"
proof -
  have b: "unat b div 16 < 16" and c: "unat c div 64 < 4"
    using unat_byte_lt [of b] unat_byte_lt [of c] by auto
  then have "(unat a mod 4 * 16 + unat b div 16) div 16 = unat a mod 4"
    "(unat a mod 4 * 16 + unat b div 16) mod 16 = unat b div 16"
    "(unat b mod 16 * 4 + unat c div 64) div 4 = unat b mod 16"
    "(unat b mod 16 * 4 + unat c div 64) mod 4 = unat c div 64"
    by auto
  then show "unat a div 4 * 4 + (unat a mod 4 * 16 + unat b div 16) div 16 = unat a"
    "(unat a mod 4 * 16 + unat b div 16) mod 16 * 16 + (unat b mod 16 * 4 + unat c div 64) div 4 = unat b"
    "(unat b mod 16 * 4 + unat c div 64) mod 4 * 64 + unat c mod 64 = unat c"
    by simp_all
qed

lemma byte_div_small [simp]:
  fixes b :: byte
  shows "unat b div 16 div 16 = 0" "unat b div 16 mod 16 = unat b div 16"
    "unat b div 64 div 4 = 0" "unat b div 64 mod 4 = unat b div 64"
proof -
  have "unat b div 16 < 16" "unat b div 64 < 4" using unat_byte_lt [of b] by auto
  then show "unat b div 16 div 16 = 0" "unat b div 16 mod 16 = unat b div 16"
    "unat b div 64 div 4 = 0" "unat b div 64 mod 4 = unat b div 64" by (simp_all only: div_less mod_less)
qed

lemma b64_quanta_encode: "b64_quanta (b64_encode bs) = Some bs"
proof (induction bs rule: b64_encode.induct)
  case (2 a)
  have "unat a div 4 * 4 + unat a mod 4 * 16 div 16 = unat a" by simp
  then show ?case by (simp add: byte_sextets del: of_nat_add of_nat_mult)
next
  case (3 a b)
  have "unat b mod 16 * 4 div 4 = unat b mod 16" by simp
  moreover have "(unat a mod 4 * 16 + unat b div 16) mod 16 * 16 + unat b mod 16 = unat b"
    using b64_bytes(2) [of a b 0] by simp
  ultimately show ?case using b64_bytes(1) [of a b]
    by (simp add: byte_sextets del: of_nat_add of_nat_mult)
next
  case (4 a b c r)
  then show ?case by (simp add: byte_sextets b64_bytes del: of_nat_add of_nat_mult)
qed simp

lemma b64_encode_no_newline: "c \<in> set (b64_encode bs) \<Longrightarrow> c \<noteq> CHR 0x0A \<and> c \<noteq> CHR 0x0D"
  by (induction bs rule: b64_encode.induct) (auto simp: byte_sextets)

lemma b64_decode_encode: "b64_decode (b64_encode bs) = Some bs"
proof -
  have "filter (\<lambda>c. c \<noteq> CHR 0x0A \<and> c \<noteq> CHR 0x0D) (b64_encode bs) = b64_encode bs"
    by (simp add: filter_id_conv b64_encode_no_newline)
  then show ?thesis by (simp add: b64_decode_def b64_quanta_encode)
qed

declare b64_encode.simps [simp del]

section \<open>Trimming and case folding\<close>

definition is_space :: "char \<Rightarrow> bool" where
  "is_space c \<longleftrightarrow> c \<in> {CHR '' '', CHR 0x09, CHR 0x0A, CHR 0x0B, CHR 0x0C, CHR 0x0D}"

definition trim_space :: "string \<Rightarrow> string" where
  "trim_space s = rev (dropWhile is_space (rev (dropWhile is_space s)))"

definition lower_char :: "char \<Rightarrow> char" where
  "lower_char c = (let n = of_char c :: nat in if 65 \<le> n \<and> n \<le> 90 then char_of (n + 32) else c)"

definition to_lower :: "string \<Rightarrow> string" where
  "to_lower s = map lower_char s"

end
