(* ===== verification/Replay_Window.thy ===== *)
theory Replay_Window
  imports APGO_Prelude
begin

text \<open>
  Anti-replay windows. The program has two of them, both bitmaps over the distance to the
  highest nonce seen: the 512-nonce window of a session (\<open>client/sessions.go\<close>) and the
  1024-nonce window of the end-to-end relay and of public exits (\<open>client/e2erelay.go\<close>).
  Both are shown to implement one abstract window over a set of nonces, stated as the
  locale \<open>replay_window\<close>; what a receiver may conclude (a nonce is accepted at most once,
  an unseen nonce inside the window is accepted) is proved once, inside the locale.
\<close>

section \<open>The abstract window\<close>

text \<open>
  \<open>None\<close>: nothing received yet. \<open>Some (h, S)\<close>: the highest nonce is \<open>h\<close> and \<open>S\<close> holds the
  nonces received among the last \<open>W\<close>.
\<close>

type_synonym awindow = "(nat \<times> nat set) option"

fun aw_ok :: "nat \<Rightarrow> awindow \<Rightarrow> nat \<Rightarrow> bool" where
  "aw_ok W None n = True"
| "aw_ok W (Some (h, S)) n = (h < n \<or> (h - n < W \<and> n \<notin> S))"

fun aw_mark :: "nat \<Rightarrow> awindow \<Rightarrow> nat \<Rightarrow> awindow" where
  "aw_mark W None n = Some (n, {n})"
| "aw_mark W (Some (h, S)) n =
     (if h < n then Some (n, insert n {m \<in> S. n - m < W})
      else if h - n < W then Some (h, insert n S)
      else Some (h, S))"

text \<open>The window remembers every received nonce that is still inside it, and only those.\<close>

fun aw_covers :: "nat \<Rightarrow> awindow \<Rightarrow> nat set \<Rightarrow> bool" where
  "aw_covers W None A = (A = {})"
| "aw_covers W (Some (h, S)) A =
     (h \<in> A \<and> S \<subseteq> A \<and> (\<forall>m \<in> A. m \<le> h) \<and> (\<forall>m \<in> A. h - m < W \<longrightarrow> m \<in> S))"

lemma aw_ok_fresh: "aw_covers W a A \<Longrightarrow> aw_ok W a n \<Longrightarrow> n \<notin> A"
  by (cases "(W, a, n)" rule: aw_ok.cases) fastforce+

lemma aw_ok_complete:
  "aw_covers W a A \<Longrightarrow> n \<notin> A \<Longrightarrow> (\<forall>m \<in> A. m - n < W) \<Longrightarrow> aw_ok W a n"
  by (cases "(W, a, n)" rule: aw_ok.cases) auto

lemma aw_ok_near: "aw_covers W a A \<Longrightarrow> aw_ok W a n \<Longrightarrow> 0 < W \<Longrightarrow> m \<in> A \<Longrightarrow> m - n < W"
  by (cases "(W, a, n)" rule: aw_ok.cases) fastforce+

lemma aw_covers_mark:
  "aw_covers W a A \<Longrightarrow> aw_ok W a n \<Longrightarrow> 0 < W \<Longrightarrow> aw_covers W (aw_mark W a n) (insert n A)"
  by (cases "(W, a, n)" rule: aw_ok.cases) auto

section \<open>The interface of a replay window\<close>

text \<open>
  \<open>ok\<close> and \<open>mark\<close> are the two calls a receiver makes, \<open>init\<close> the state of a new window,
  \<open>view\<close> the abstract window a state stands for.
\<close>

locale replay_window =
  fixes W :: nat
    and init :: 's
    and ok :: "'s \<Rightarrow> u64 \<Rightarrow> bool"
    and mark :: "'s \<Rightarrow> u64 \<Rightarrow> 's"
    and inv :: "'s \<Rightarrow> bool"
    and view :: "'s \<Rightarrow> awindow"
  assumes W_pos: "0 < W"
    and inv_init: "inv init"
    and inv_mark: "inv s \<Longrightarrow> inv (mark s n)"
    and view_init: "view init = None"
    and ok_view: "inv s \<Longrightarrow> ok s n = aw_ok W (view s) (unat n)"
    and mark_view: "inv s \<Longrightarrow> view (mark s n) = aw_mark W (view s) (unat n)"
begin

definition tracks :: "'s \<Rightarrow> u64 set \<Rightarrow> bool" where
  "tracks s A \<longleftrightarrow> inv s \<and> aw_covers W (view s) (unat ` A)"

lemma tracks_init: "tracks init {}"
  by (simp add: tracks_def inv_init view_init)

lemma tracks_inv: "tracks s A \<Longrightarrow> inv s"
  by (simp add: tracks_def)

lemma tracks_ok_fresh: "tracks s A \<Longrightarrow> ok s n \<Longrightarrow> n \<notin> A"
  using aw_ok_fresh [of W "view s" "unat ` A" "unat n"] by (auto simp: tracks_def ok_view)

lemma tracks_ok_complete:
  assumes "tracks s A" and "n \<notin> A" and "\<And>m. m \<in> A \<Longrightarrow> unat m - unat n < W"
  shows "ok s n"
proof -
  have "unat n \<notin> unat ` A"
    using assms(2) by (auto dest: word_unat_eq_iff [THEN iffD2])
  then show ?thesis
    using assms aw_ok_complete [of W "view s" "unat ` A" "unat n"]
    by (auto simp: tracks_def ok_view)
qed

lemma tracks_ok_near: "tracks s A \<Longrightarrow> ok s n \<Longrightarrow> m \<in> A \<Longrightarrow> unat m - unat n < W"
  using aw_ok_near [of W "view s" "unat ` A" "unat n" "unat m"] W_pos by (simp add: tracks_def ok_view)

lemma tracks_not_ok: "tracks s A \<Longrightarrow> n \<in> A \<Longrightarrow> \<not> ok s n"
  using tracks_ok_fresh by blast

lemma tracks_mark: "tracks s A \<Longrightarrow> ok s n \<Longrightarrow> tracks (mark s n) (insert n A)"
  using aw_covers_mark [OF _ _ W_pos] by (simp add: tracks_def ok_view mark_view inv_mark)

text \<open>Offering nonces in any order: each is marked exactly when it is acceptable.\<close>

lemma tracks_offer_all:
  "tracks s A \<Longrightarrow> \<exists>B. tracks (foldl (\<lambda>s n. if ok s n then mark s n else s) s ns) B \<and>
     A \<subseteq> B \<and> B \<subseteq> A \<union> set ns \<and> (\<forall>n \<in> set ns. n \<in> B \<or> (\<exists>m \<in> B. W \<le> unat m - unat n))"
proof (induction ns arbitrary: s A)
  case Nil
  then show ?case by auto
next
  case (Cons n ns)
  let ?s = "if ok s n then mark s n else s" and ?A = "if ok s n then insert n A else A"
  have "tracks ?s ?A" using Cons.prems by (simp add: tracks_mark)
  from Cons.IH [OF this] obtain B where B: "tracks (foldl (\<lambda>s n. if ok s n then mark s n else s) ?s ns) B"
    "?A \<subseteq> B" "B \<subseteq> ?A \<union> set ns" "\<forall>n \<in> set ns. n \<in> B \<or> (\<exists>m \<in> B. W \<le> unat m - unat n)" by blast
  have "n \<in> B \<or> (\<exists>m \<in> B. W \<le> unat m - unat n)"
  proof (cases "ok s n")
    case False
    then have "n \<in> A \<or> (\<exists>m \<in> A. W \<le> unat m - unat n)"
      using tracks_ok_complete [OF Cons.prems] by (meson not_less)
    with B(2) False show ?thesis by auto
  qed (use B(2) in auto)
  moreover have "A \<subseteq> B" "B \<subseteq> A \<union> set (n # ns)" using B(2,3) by (auto split: if_splits)
  ultimately show ?case using B(1,4) by (intro exI [of _ B]) simp
qed

text \<open>
  After any offers, the next nonce is accepted exactly if it is new and fewer than \<open>W\<close> behind
  every nonce offered, whether that one was itself accepted or not.
\<close>

lemma offered_iff:
  "ok (foldl (\<lambda>s n. if ok s n then mark s n else s) init ns) n \<longleftrightarrow>
     n \<notin> set ns \<and> (\<forall>m \<in> set ns. unat m - unat n < W)" (is "ok ?s n \<longleftrightarrow> _")
proof -
  obtain B where B: "tracks ?s B" "B \<subseteq> set ns"
    "\<forall>n \<in> set ns. n \<in> B \<or> (\<exists>m \<in> B. W \<le> unat m - unat n)"
    using tracks_offer_all [OF tracks_init, of ns] by auto
  show ?thesis
  proof
    assume ok: "ok ?s n"
    have near: "unat m - unat n < W" if "m \<in> B" for m using that by (rule tracks_ok_near [OF B(1) ok])
    have "n \<notin> B" using B(1) ok by (rule tracks_ok_fresh)
    then have "n \<notin> set ns" using B(3) near by (meson not_less)
    moreover have "unat m - unat n < W" if "m \<in> set ns" for m
    proof -
      have "m \<in> B \<or> (\<exists>b \<in> B. W \<le> unat b - unat m)" using B(3) that by blast
      then show ?thesis
      proof
        assume "\<exists>b \<in> B. W \<le> unat b - unat m"
        then obtain b where "b \<in> B" "W \<le> unat b - unat m" by blast
        then show ?thesis using near [of b] W_pos by linarith
      qed (rule near)
    qed
    ultimately show "n \<notin> set ns \<and> (\<forall>m \<in> set ns. unat m - unat n < W)" by blast
  next
    assume new: "n \<notin> set ns \<and> (\<forall>m \<in> set ns. unat m - unat n < W)"
    show "ok ?s n" by (rule tracks_ok_complete [OF B(1)]) (use B(2) new in auto)
  qed
qed

corollary offered_exact:
  assumes "\<And>m. m \<in> set ns \<Longrightarrow> unat m - unat n < W"
  shows "ok (foldl (\<lambda>s n. if ok s n then mark s n else s) init ns) n \<longleftrightarrow> n \<notin> set ns"
  using assms by (simp add: offered_iff)

end

section \<open>Bitmaps of words\<close>

text \<open>Bit \<open>d\<close> of a little-endian array of 64-bit words.\<close>

definition wbit :: "u64 list \<Rightarrow> nat \<Rightarrow> bool" where
  "wbit w d \<longleftrightarrow> bit (w ! (d div 64)) (d mod 64)"

text \<open>
  An in-place loop \<open>for i := n-1; i >= 0; i--\<close> that assigns \<open>w[i]\<close> from entries at or below
  \<open>i\<close> reads only values it has not overwritten yet.
\<close>

definition loop_down :: "(u64 list \<Rightarrow> nat \<Rightarrow> u64) \<Rightarrow> nat \<Rightarrow> u64 list \<Rightarrow> u64 list" where
  "loop_down g n w = foldl (\<lambda>w i. w[i := g w i]) w (rev [0..<n])"

lemma loop_down_map:
  assumes "\<And>w w' i. i < n \<Longrightarrow> (\<And>j. j \<le> i \<Longrightarrow> w ! j = w' ! j) \<Longrightarrow> g w i = g w' i"
    and "n \<le> length w"
  shows "loop_down g n w = map (g w) [0..<n] @ drop n w"
  using assms
proof (induction n arbitrary: w)
  case 0
  then show ?case by (simp add: loop_down_def)
next
  case (Suc n)
  let ?w' = "w[n := g w n]"
  have "loop_down g (Suc n) w = loop_down g n ?w'"
    by (simp add: loop_down_def)
  also have "\<dots> = map (g ?w') [0..<n] @ drop n ?w'"
    using Suc.prems(2) by (intro Suc.IH) (auto intro: Suc.prems(1))
  also have "map (g ?w') [0..<n] = map (g w) [0..<n]"
  proof (rule map_cong [OF refl])
    fix i assume "i \<in> set [0..<n]"
    then show "g ?w' i = g w i" by (intro Suc.prems(1)) auto
  qed
  also have "drop n ?w' = g w n # drop (Suc n) w"
    using Suc.prems(2) by (simp add: Cons_nth_drop_Suc [symmetric])
  finally show ?case by simp
qed

lemma length_loop_down [simp]: "length (loop_down g n w) = length w"
proof -
  have "length (foldl (\<lambda>w i. w[i := g w i]) w xs) = length w" for xs
    by (induction xs arbitrary: w) auto
  then show ?thesis by (simp add: loop_down_def)
qed

text \<open>Word \<open>i\<close> of a bitmap moved up by \<open>64 * ws + bs\<close> positions.\<close>

definition shifted_word :: "nat \<Rightarrow> nat \<Rightarrow> u64 list \<Rightarrow> nat \<Rightarrow> u64" where
  "shifted_word ws bs w i =
     (if ws \<le> i then push_bit bs (w ! (i - ws)) OR
        (if 0 < bs \<and> 0 < i - ws then drop_bit (64 - bs) (w ! (i - ws - 1)) else 0)
      else 0)"

lemma bit_shifted_word:
  assumes "bs < 64" and "j < 64"
  shows "bit (shifted_word ws bs w i) j \<longleftrightarrow>
    64 * ws + bs \<le> 64 * i + j \<and> wbit w (64 * i + j - (64 * ws + bs))"
proof (cases "ws \<le> i")
  case False
  then show ?thesis using assms by (auto simp: shifted_word_def)
next
  case True
  then obtain k where i: "i = ws + k" using le_Suc_ex by blast
  show ?thesis
  proof (cases "bs \<le> j")
    case True
    then have "64 * i + j - (64 * ws + bs) = 64 * k + (j - bs)" by (simp add: i)
    moreover have "(64 * k + (j - bs)) div 64 = k" "(64 * k + (j - bs)) mod 64 = j - bs"
      using assms by auto
    moreover have "\<not> bit x (64 + j - bs)" for x :: u64
      using True by (auto dest: bit_imp_le_length)
    ultimately show ?thesis
      using True assms by (auto simp: i shifted_word_def wbit_def bit_simps)
  next
    case False
    show ?thesis
    proof (cases k)
      case 0
      with False show ?thesis using assms by (auto simp: i shifted_word_def bit_simps)
    next
      case (Suc k')
      have "64 * i + j - (64 * ws + bs) = 64 * k' + (64 + j - bs)"
        using assms False by (simp add: i Suc)
      moreover have "64 + j - bs < 64" using False assms by simp
      then have "(64 * k' + (64 + j - bs)) div 64 = k'"
        "(64 * k' + (64 + j - bs)) mod 64 = 64 + j - bs"
        by (metis div_less div_mult_self4 numeral_eq_iff add.right_neutral zero_neq_numeral,
            metis mod_less mod_mult_self4)
      moreover have "64 - bs + j = 64 + j - bs" using assms by simp
      ultimately show ?thesis
        using False assms by (auto simp: i Suc shifted_word_def wbit_def bit_simps)
    qed
  qed
qed

lemma wbit_shifted:
  assumes "\<And>i. i < n \<Longrightarrow> w' ! i = shifted_word (s div 64) (s mod 64) w i" and "d < n * 64"
  shows "wbit w' d \<longleftrightarrow> s \<le> d \<and> wbit w (d - s)"
proof -
  have "d div 64 < n" using assms(2) by (simp add: less_mult_imp_div_less)
  then have "wbit w' d \<longleftrightarrow> bit (shifted_word (s div 64) (s mod 64) w (d div 64)) (d mod 64)"
    by (simp add: wbit_def assms(1))
  also have "\<dots> \<longleftrightarrow> s \<le> d \<and> wbit w (d - s)"
    by (subst bit_shifted_word) (simp_all add: mult.commute [of 64])
  finally show ?thesis .
qed

text \<open>The abstract window of a bitmap whose bit 0 stands for the highest nonce \<open>h\<close>.\<close>

definition bitmap_view :: "nat \<Rightarrow> u64 \<Rightarrow> u64 list \<Rightarrow> awindow" where
  "bitmap_view W h w = Some (unat h, {m. m \<le> unat h \<and> unat h - m < W \<and> wbit w (unat h - m)})"

lemma unat_diff: "n \<le> h \<Longrightarrow> unat ((h :: u64) - n) = unat h - unat n"
  by (simp add: unat_sub_if' word_le_nat_alt)

lemma unat_mod_64: "unat ((d :: u64) mod 64) = unat d mod 64"
  by (simp add: unat_mod)

lemma unat_div_64: "unat ((d :: u64) div 64) = unat d div 64"
  by (simp add: unat_div)

lemma and_exp_eq_0: "(x AND 2 ^ k = (0 :: u64)) \<longleftrightarrow> \<not> bit x k" if "k < 64"
proof
  assume *: "x AND 2 ^ k = 0"
  have "bit (x AND 2 ^ k) k \<longleftrightarrow> bit x k" using that by (simp add: bit_simps)
  with * show "\<not> bit x k" by simp
next
  assume "\<not> bit x k"
  then show "x AND 2 ^ k = 0" by (auto intro!: bit_eqI simp: bit_simps)
qed

lemma bitmap_view_advance:
  assumes h: "h < n" and len: "length w' = N" "0 < N"
    and bits: "\<And>d. d < N * 64 \<Longrightarrow> wbit w' d \<longleftrightarrow> unat (n - h) \<le> d \<and> wbit w (d - unat (n - h))"
  shows "bitmap_view (N * 64) n (w'[0 := w' ! 0 OR 1]) = aw_mark (N * 64) (bitmap_view (N * 64) h w) (unat n)"
proof -
  have lt: "unat h < unat n" using h by (simp add: word_less_nat_alt)
  have s: "unat (n - h) = unat n - unat h" using h by (simp add: unat_diff less_imp_le)
  have upd: "wbit (w'[0 := w' ! 0 OR 1]) d \<longleftrightarrow> d = 0 \<or> wbit w' d" if "d < N * 64" for d
    using that len by (cases "d div 64 = 0") (auto simp: wbit_def bit_simps bit_1_iff nth_list_update)
  show ?thesis
    using lt len by (auto simp: bitmap_view_def upd bits s)
qed

lemma bitmap_view_set:
  assumes n: "n \<le> h" and len: "length w = N" and d: "d = unat (h - n)" "d < N * 64"
  shows "bitmap_view (N * 64) h (w[d div 64 := w ! (d div 64) OR push_bit (d mod 64) 1]) =
         aw_mark (N * 64) (bitmap_view (N * 64) h w) (unat n)"
proof -
  let ?w' = "w[d div 64 := w ! (d div 64) OR 2 ^ (d mod 64)]"
  have dd: "d = unat h - unat n" using n d by (simp add: unat_diff)
  have le: "unat n \<le> unat h" using n by (simp add: word_le_nat_alt)
  have idx: "d div 64 < N" using d by (simp add: less_mult_imp_div_less)
  have upd: "wbit ?w' e \<longleftrightarrow> e = d \<or> wbit w e" for e
  proof -
    have "bit (2 ^ (d mod 64) :: u64) (e mod 64) \<longleftrightarrow> e mod 64 = d mod 64"
      by (auto simp: bit_exp_iff)
    moreover have "e = d \<longleftrightarrow> e div 64 = d div 64 \<and> e mod 64 = d mod 64"
      by (metis div_mult_mod_eq)
    ultimately show ?thesis using idx len by (auto simp: wbit_def bit_or_iff nth_list_update)
  qed
  have "bitmap_view (N * 64) h ?w' = aw_mark (N * 64) (bitmap_view (N * 64) h w) (unat n)"
    using le d(2) dd unfolding bitmap_view_def upd by auto
  then show ?thesis by simp
qed

section \<open>The session window (sessions.go)\<close>

definition replayWindowWords :: nat where "replayWindowWords = 8"

definition replayWindowBits :: nat where "replayWindowBits = replayWindowWords * 64"

text \<open>The anti-replay fields of \<open>session\<close>.\<close>

record replay =
  recvHighest :: u64
  recvWindow :: "u64 list"
  recvAny :: bool

definition replayCheck :: "'a replay_scheme \<Rightarrow> u64 \<Rightarrow> bool" where
  "replayCheck s nonce =
     (if \<not> recvAny s then True
      else if recvHighest s < nonce then True
      else let diff = recvHighest s - nonce in
        if replayWindowBits \<le> unat diff then False
        else recvWindow s ! unat (diff div 64) AND push_bit (unat (diff mod 64)) 1 = 0)"

definition shiftWindow :: "nat \<Rightarrow> u64 list \<Rightarrow> u64 list" where
  "shiftWindow shift w =
     (if replayWindowBits \<le> shift then map (\<lambda>_. 0) w
      else
        let wordShift = shift div 64; bitShift = shift mod 64;
          w1 = (if 0 < wordShift
                then loop_down (\<lambda>w i. if wordShift \<le> i then w ! (i - wordShift) else 0)
                       replayWindowWords w
                else w)
        in if 0 < bitShift
           then loop_down (\<lambda>w i. push_bit bitShift (w ! i) OR
                    (if 0 < i then drop_bit (64 - bitShift) (w ! (i - 1)) else 0))
                  replayWindowWords w1
           else w1)"

definition replayMark :: "'a replay_scheme \<Rightarrow> u64 \<Rightarrow> 'a replay_scheme" where
  "replayMark s nonce =
     (if \<not> recvAny s then
        s\<lparr>recvAny := True, recvHighest := nonce,
          recvWindow := (map (\<lambda>_. 0) (recvWindow s))[0 := 1]\<rparr>
      else if recvHighest s < nonce then
        let w = shiftWindow (unat (nonce - recvHighest s)) (recvWindow s)
        in s\<lparr>recvHighest := nonce, recvWindow := w[0 := w ! 0 OR 1]\<rparr>
      else
        let diff = recvHighest s - nonce in
        if unat diff < replayWindowBits then
          s\<lparr>recvWindow := (recvWindow s)[unat (diff div 64) :=
              recvWindow s ! unat (diff div 64) OR push_bit (unat (diff mod 64)) 1]\<rparr>
        else s)"

section \<open>The relay window (e2erelay.go)\<close>

definition e2eWindowWords :: nat where "e2eWindowWords = 16"

record e2eWindow =
  win_any :: bool
  win_hi :: u64
  win_bits :: "u64 list"

definition new_e2eWindow :: e2eWindow where
  "new_e2eWindow = \<lparr>win_any = False, win_hi = 0, win_bits = replicate e2eWindowWords 0\<rparr>"

definition win_ok :: "e2eWindow \<Rightarrow> u64 \<Rightarrow> bool" where
  "win_ok w n =
     (if \<not> win_any w \<or> win_hi w < n then True
      else let d = win_hi w - n in
        if e2eWindowWords * 64 \<le> unat d then False
        else win_bits w ! unat (d div 64) AND push_bit (unat (d mod 64)) 1 = 0)"

definition win_shift :: "nat \<Rightarrow> u64 list \<Rightarrow> u64 list" where
  "win_shift s b =
     (if e2eWindowWords * 64 \<le> s then replicate e2eWindowWords 0
      else let ws = s div 64; bs = s mod 64 in
        loop_down (\<lambda>b j. if ws \<le> j then
            (let src = j - ws; v = push_bit bs (b ! src)
             in if 0 < bs \<and> 1 \<le> src then v OR drop_bit (64 - bs) (b ! (src - 1)) else v)
          else 0) e2eWindowWords b)"

definition win_mark :: "e2eWindow \<Rightarrow> u64 \<Rightarrow> e2eWindow" where
  "win_mark w n =
     (if \<not> win_any w then
        w\<lparr>win_any := True, win_hi := n, win_bits := 1 # replicate (e2eWindowWords - 1) 0\<rparr>
      else if win_hi w < n then
        let b = win_shift (unat (n - win_hi w)) (win_bits w)
        in w\<lparr>win_hi := n, win_bits := b[0 := b ! 0 OR 1]\<rparr>
      else
        let d = win_hi w - n in
        if unat d < e2eWindowWords * 64 then
          w\<lparr>win_bits := (win_bits w)[unat (d div 64) :=
              win_bits w ! unat (d div 64) OR push_bit (unat (d mod 64)) 1]\<rparr>
        else w)"

section \<open>Both bitmaps implement the abstract window\<close>

definition replay_inv :: "'a replay_scheme \<Rightarrow> bool" where
  "replay_inv s \<longleftrightarrow> length (recvWindow s) = replayWindowWords"

definition replay_view :: "'a replay_scheme \<Rightarrow> awindow" where
  "replay_view s = (if recvAny s then bitmap_view replayWindowBits (recvHighest s) (recvWindow s) else None)"

definition win_inv :: "e2eWindow \<Rightarrow> bool" where
  "win_inv w \<longleftrightarrow> length (win_bits w) = e2eWindowWords"

definition win_view :: "e2eWindow \<Rightarrow> awindow" where
  "win_view w = (if win_any w then bitmap_view (e2eWindowWords * 64) (win_hi w) (win_bits w) else None)"

lemma nth_shiftWindow:
  assumes "length w = replayWindowWords" and "shift < replayWindowBits" and "i < replayWindowWords"
  shows "shiftWindow shift w ! i = shifted_word (shift div 64) (shift mod 64) w i"
proof -
  let ?ws = "shift div 64" and ?bs = "shift mod 64"
  define w1 where "w1 = map (\<lambda>i. if ?ws \<le> i then w ! (i - ?ws) else 0) [0..<replayWindowWords]"
  have w1: "(if 0 < ?ws then loop_down (\<lambda>w i. if ?ws \<le> i then w ! (i - ?ws) else 0) replayWindowWords w
      else w) = w1"
  proof (cases "0 < ?ws")
    case True
    then show ?thesis unfolding w1_def
      by (subst loop_down_map) (auto simp: assms)
  next
    case False
    then show ?thesis using assms(1) by (auto simp: w1_def intro!: nth_equalityI)
  qed
  have len: "length w1 = replayWindowWords" by (simp add: w1_def)
  show ?thesis
  proof (cases "0 < ?bs")
    case True
    have "shiftWindow shift w = map (\<lambda>i. push_bit ?bs (w1 ! i) OR
        (if 0 < i then drop_bit (64 - ?bs) (w1 ! (i - 1)) else 0)) [0..<replayWindowWords]"
      using assms True unfolding shiftWindow_def Let_def w1
      by (subst loop_down_map) (auto simp: len)
    then show ?thesis
      using assms True by (auto simp: w1_def shifted_word_def)
  next
    case False
    then show ?thesis
      using assms unfolding shiftWindow_def Let_def w1 by (auto simp: w1_def shifted_word_def)
  qed
qed

lemma length_shiftWindow [simp]: "length (shiftWindow s w) = length w"
  by (simp add: shiftWindow_def Let_def)

lemma wbit_shiftWindow:
  assumes "length w = replayWindowWords" and "d < replayWindowBits"
  shows "wbit (shiftWindow s w) d \<longleftrightarrow> s \<le> d \<and> wbit w (d - s)"
proof (cases "replayWindowBits \<le> s")
  case True
  have "d div 64 < length w" using assms by (simp add: replayWindowBits_def less_mult_imp_div_less)
  then have "\<not> wbit (shiftWindow s w) d" using True by (simp add: shiftWindow_def wbit_def)
  then show ?thesis using True assms(2) by simp
next
  case False
  then show ?thesis
    using assms by (intro wbit_shifted [where n = replayWindowWords])
      (simp_all add: nth_shiftWindow replayWindowBits_def)
qed

lemma nth_win_shift:
  assumes "length b = e2eWindowWords" and "s < e2eWindowWords * 64" and "i < e2eWindowWords"
  shows "win_shift s b ! i = shifted_word (s div 64) (s mod 64) b i"
  using assms unfolding win_shift_def Let_def
  by (subst loop_down_map) (auto simp: shifted_word_def)

lemma length_win_shift: "length b = e2eWindowWords \<Longrightarrow> length (win_shift s b) = e2eWindowWords"
  by (simp add: win_shift_def Let_def)

lemma wbit_win_shift:
  assumes "length b = e2eWindowWords" and "d < e2eWindowWords * 64"
  shows "wbit (win_shift s b) d \<longleftrightarrow> s \<le> d \<and> wbit b (d - s)"
proof (cases "e2eWindowWords * 64 \<le> s")
  case True
  have "d div 64 < e2eWindowWords" using assms by (simp add: less_mult_imp_div_less)
  then have "\<not> wbit (win_shift s b) d" using True by (simp add: win_shift_def wbit_def)
  then show ?thesis using True assms(2) by simp
next
  case False
  then show ?thesis
    using assms by (intro wbit_shifted [where n = e2eWindowWords]) (simp_all add: nth_win_shift)
qed

text \<open>Testing bit \<open>h - n\<close> is asking the abstract window for \<open>n\<close>.\<close>

lemma bitmap_check:
  assumes "\<not> h < n"
  shows "(if W \<le> unat (h - n) then False else w ! unat ((h - n) div 64) AND push_bit (unat ((h - n) mod 64)) 1 = (0 :: u64))
     = aw_ok W (bitmap_view W h w) (unat n)"
proof -
  have n: "n \<le> h" using assms by simp
  then have d: "unat (h - n) = unat h - unat n" by (rule unat_diff)
  have le: "unat n \<le> unat h" using n by (simp add: word_le_nat_alt)
  show ?thesis
    using le by (auto simp: bitmap_view_def wbit_def d unat_mod_64 unat_div_64 and_exp_eq_0)
qed

lemma bitmap_view_first:
  assumes "0 < N" and "length w = N"
  shows "bitmap_view (N * 64) n ((map (\<lambda>_. 0) w)[0 := 1]) = Some (unat n, {unat n})"
proof -
  have "wbit ((map (\<lambda>_. 0) w)[0 := 1]) d \<longleftrightarrow> d = 0" if "d < N * 64" for d
  proof (cases "d div 64 = 0")
    case True
    then show ?thesis using assms by (auto simp: wbit_def bit_1_iff nth_list_update)
  next
    case False
    moreover have "d div 64 < N" using that by (simp add: less_mult_imp_div_less)
    ultimately show ?thesis using assms by (auto simp: wbit_def nth_list_update)
  qed
  with assms(1) show ?thesis by (auto simp: bitmap_view_def)
qed

lemma replay_inv_mark: "replay_inv s \<Longrightarrow> replay_inv (replayMark s n)"
  by (simp add: replay_inv_def replayMark_def Let_def)

lemma replayCheck_view: "replayCheck s n = aw_ok replayWindowBits (replay_view s) (unat n)"
proof (cases "recvAny s \<and> \<not> recvHighest s < n")
  case True
  then show ?thesis
    using bitmap_check [of "recvHighest s" n replayWindowBits "recvWindow s"]
    by (simp add: replayCheck_def replay_view_def Let_def)
next
  case False
  then show ?thesis
    by (auto simp: replayCheck_def replay_view_def bitmap_view_def word_less_nat_alt)
qed

lemma replayMark_view:
  assumes "replay_inv s"
  shows "replay_view (replayMark s n) = aw_mark replayWindowBits (replay_view s) (unat n)"
proof -
  have len: "length (recvWindow s) = replayWindowWords" using assms by (simp add: replay_inv_def)
  have pos: "0 < replayWindowWords" by (simp add: replayWindowWords_def)
  consider "\<not> recvAny s" | "recvAny s" "recvHighest s < n" | "recvAny s" "n \<le> recvHighest s"
    by fastforce
  then show ?thesis
  proof cases
    case 1
    then show ?thesis
      using bitmap_view_first [OF pos len, of n]
      by (simp add: replayMark_def replay_view_def replayWindowBits_def)
  next
    case 2
    with len pos show ?thesis
      by (simp add: replayMark_def replay_view_def replayWindowBits_def Let_def
          bitmap_view_advance wbit_shiftWindow [unfolded replayWindowBits_def])
  next
    case 3
    show ?thesis
    proof (cases "unat (recvHighest s - n) < replayWindowBits")
      case True
      with 3 len show ?thesis
        using bitmap_view_set [OF 3(2) len refl]
        by (simp add: replayMark_def replay_view_def replayWindowBits_def Let_def
            unat_mod_64 unat_div_64 leD)
    next
      case False
      with 3 show ?thesis
        by (auto simp: replayMark_def replay_view_def bitmap_view_def Let_def leD unat_diff
            word_le_nat_alt word_less_nat_alt)
    qed
  qed
qed

lemma win_inv_mark: "win_inv w \<Longrightarrow> win_inv (win_mark w n)"
  by (simp add: win_inv_def win_mark_def Let_def length_win_shift) (simp add: e2eWindowWords_def)

lemma win_ok_view: "win_ok w n = aw_ok (e2eWindowWords * 64) (win_view w) (unat n)"
proof (cases "win_any w \<and> \<not> win_hi w < n")
  case True
  then show ?thesis
    using bitmap_check [of "win_hi w" n "e2eWindowWords * 64" "win_bits w"]
    by (simp add: win_ok_def win_view_def Let_def)
next
  case False
  then show ?thesis
    by (auto simp: win_ok_def win_view_def bitmap_view_def word_less_nat_alt)
qed

lemma win_mark_view:
  assumes "win_inv w"
  shows "win_view (win_mark w n) = aw_mark (e2eWindowWords * 64) (win_view w) (unat n)"
proof -
  have len: "length (win_bits w) = e2eWindowWords" using assms by (simp add: win_inv_def)
  have pos: "0 < e2eWindowWords" by (simp add: e2eWindowWords_def)
  consider "\<not> win_any w" | "win_any w" "win_hi w < n" | "win_any w" "n \<le> win_hi w"
    by fastforce
  then show ?thesis
  proof cases
    case 1
    have "1 # replicate (e2eWindowWords - 1) 0 = (map (\<lambda>_. 0 :: u64) (win_bits w))[0 := 1]"
      by (simp add: map_replicate_const len) (simp add: e2eWindowWords_def numeral_eq_Suc)
    with 1 show ?thesis
      using bitmap_view_first [OF pos len, of n] by (simp add: win_mark_def win_view_def)
  next
    case 2
    with len pos show ?thesis
      by (simp add: win_mark_def win_view_def Let_def bitmap_view_advance wbit_win_shift length_win_shift)
  next
    case 3
    show ?thesis
    proof (cases "unat (win_hi w - n) < e2eWindowWords * 64")
      case True
      with 3 len show ?thesis
        using bitmap_view_set [OF 3(2) len refl]
        by (simp add: win_mark_def win_view_def Let_def unat_mod_64 unat_div_64 leD)
    next
      case False
      with 3 show ?thesis
        by (auto simp: win_mark_def win_view_def bitmap_view_def Let_def leD unat_diff
            word_le_nat_alt word_less_nat_alt)
    qed
  qed
qed

text \<open>A new session's window, and the two interpretations.\<close>

definition new_replay :: replay where
  "new_replay = \<lparr>recvHighest = 0, recvWindow = replicate replayWindowWords 0, recvAny = False\<rparr>"

interpretation session_window: replay_window
  replayWindowBits new_replay replayCheck replayMark replay_inv replay_view
proof unfold_locales
  show "0 < replayWindowBits" by (simp add: replayWindowBits_def replayWindowWords_def)
  show "replay_inv new_replay" by (simp add: replay_inv_def new_replay_def)
  show "replay_view new_replay = None" by (simp add: replay_view_def new_replay_def)
qed (simp_all add: replay_inv_mark replayCheck_view replayMark_view)

interpretation relay_window: replay_window
  "e2eWindowWords * 64" new_e2eWindow win_ok win_mark win_inv win_view
proof unfold_locales
  show "0 < e2eWindowWords * 64" by (simp add: e2eWindowWords_def)
  show "win_inv new_e2eWindow" by (simp add: win_inv_def new_e2eWindow_def)
  show "win_view new_e2eWindow = None" by (simp add: win_view_def new_e2eWindow_def)
qed (simp_all add: win_inv_mark win_ok_view win_mark_view)

section \<open>Properties\<close>

text \<open>
  C2: The 512-nonce session window is exact. After any sequence of nonces has been offered to
  a fresh session, in any order and with any duplicates, \<open>replayCheck\<close> accepts a nonce if and
  only if it was never offered and it is at most 511 behind every nonce offered: no replay is
  accepted, no nonce that has fallen out of the window is accepted, and no reordered packet
  inside the window is refused.
\<close>

theorem session_replay_exact:
  "replayCheck (foldl (\<lambda>s n. if replayCheck s n then replayMark s n else s) new_replay ns) n
    \<longleftrightarrow> n \<notin> set ns \<and> (\<forall>m \<in> set ns. unat m - unat n < 512)"
  using session_window.offered_iff [of ns n]
  by (simp add: replayWindowBits_def replayWindowWords_def)

theorem session_replay_exact_witness:
  "replayCheck (foldl (\<lambda>s n. if replayCheck s n then replayMark s n else s) new_replay [7, 600, 5]) 100 \<and>
   \<not> replayCheck (foldl (\<lambda>s n. if replayCheck s n then replayMark s n else s) new_replay [7, 600, 5]) 88 \<and>
   \<not> replayCheck (foldl (\<lambda>s n. if replayCheck s n then replayMark s n else s) new_replay [7, 600, 5]) 600"
  unfolding session_replay_exact by simp

text \<open>
  C3: The 1024-nonce window shared by the end-to-end relay and the public exits is exact in
  the same sense: after any offers to a fresh window, a nonce is accepted if and only if it was
  never offered and it is at most 1023 behind every nonce offered.
\<close>

theorem relay_replay_exact:
  "win_ok (foldl (\<lambda>w n. if win_ok w n then win_mark w n else w) new_e2eWindow ns) n
    \<longleftrightarrow> n \<notin> set ns \<and> (\<forall>m \<in> set ns. unat m - unat n < 1024)"
  using relay_window.offered_iff [of ns n] by (simp add: e2eWindowWords_def)

theorem relay_replay_exact_witness:
  "win_ok (foldl (\<lambda>w n. if win_ok w n then win_mark w n else w) new_e2eWindow [7, 1100, 7]) 100 \<and>
   \<not> win_ok (foldl (\<lambda>w n. if win_ok w n then win_mark w n else w) new_e2eWindow [7, 1100, 7]) 76 \<and>
   \<not> win_ok (foldl (\<lambda>w n. if win_ok w n then win_mark w n else w) new_e2eWindow [7, 1100, 7]) 1100"
  unfolding relay_replay_exact by simp

end
