(* ===== verification/Data_Plane.thy ===== *)
theory Data_Plane
  imports Replay_Window
begin

text \<open>
  The data plane of one session: \<open>sendPacket\<close>, \<open>recvPacket\<close> and the two layers they apply,
  the post-quantum wrapper (\<open>client/pq.go\<close>) and the LZ4 frame (\<open>client/main.go\<close>).

  Parameters stand for code outside the repository: \<open>enc\<close>/\<open>dec\<close> are the Noise cipher states
  (\<open>s.send\<close>/\<open>s.recv\<close> after \<open>SetNonce\<close>), \<open>seal\<close>/\<open>opn\<close> the ML-KEM layer's AEAD, \<open>lz4c\<close>/\<open>lz4d\<close>
  the LZ4 writer and reader. \<open>sync.Pool\<close> buffers and the UDP socket have no counterpart: a
  call returns the bytes it would write.
\<close>

section \<open>Wire constants\<close>

definition PktMsg1 :: byte where "PktMsg1 = 1"
definition PktMsg2 :: byte where "PktMsg2 = 2"
definition PktMsg3 :: byte where "PktMsg3 = 3"
definition PktData :: byte where "PktData = 4"
definition PktCookieReply :: byte where "PktCookieReply = 5"

lemmas pkt_defs = PktMsg1_def PktMsg2_def PktMsg3_def PktData_def PktCookieReply_def

definition IsOverlayPacket :: "byte \<Rightarrow> bool" where
  "IsOverlayPacket b \<longleftrightarrow>
     b = PktMsg1 \<or> b = PktMsg2 \<or> b = PktMsg3 \<or> b = PktData \<or> b = PktCookieReply"

definition bytes_of :: "string \<Rightarrow> byte list" where
  "bytes_of s = map of_char s"

definition str_of :: "byte list \<Rightarrow> string" where
  "str_of bs = map (\<lambda>b. char_of (unat b)) bs"

lemma unat_of_char: "unat (of_char c :: byte) = of_char c"
proof -
  have "unat (word_of_nat (of_char c) :: byte) = of_char c mod 2 ^ LENGTH(8)" by (rule unat_of_nat)
  moreover have "(of_char c :: nat) mod 2 ^ LENGTH(8) = of_char c" by simp
  ultimately show ?thesis by (simp only: of_nat_of_char)
qed

lemma str_of_bytes_of [simp]: "str_of (bytes_of s) = s"
  by (simp add: str_of_def bytes_of_def o_def unat_of_char)

lemma bytes_of_inj: "bytes_of s = bytes_of t \<longleftrightarrow> s = t"
  by (metis str_of_bytes_of)

definition ctlMagic :: "byte list" where "ctlMagic = bytes_of ''OVLYCTL1''"

definition pqMagic :: "byte list" where "pqMagic = bytes_of ''OVLYPQ1'' @ [0]"

definition compressedTag :: "byte list" where "compressedTag = [0xCF, 0x4C, 0x36, 0x42]"

definition has_prefix :: "'a list \<Rightarrow> 'a list \<Rightarrow> bool" where
  "has_prefix xs p \<longleftrightarrow> take (length p) xs = p"

lemma has_prefix_append [simp]: "has_prefix (p @ xs) p"
  by (simp add: has_prefix_def)

section \<open>Compression frames\<close>

datatype compress_error = PayloadTooSmall | CompressBackedOff | Lz4Failed | CompressNoGain

definition compressMinSize :: nat where "compressMinSize = 64"
definition compressGiveUpAfter :: int where "compressGiveUpAfter = 32"
definition compressRetryEvery :: int where "compressRetryEvery = 512"

definition compressWorthTrying :: "int \<Rightarrow> bool" where
  "compressWorthTrying n =
     (if n < compressGiveUpAfter then True
      else (n - compressGiveUpAfter) mod compressRetryEvery = 0)"

text \<open>The counter \<open>compressSkip\<close> is passed in and returned.\<close>

definition compressAndFrameTo ::
  "(byte list \<Rightarrow> byte list option) \<Rightarrow> int \<Rightarrow> byte list \<Rightarrow> (compress_error + byte list) \<times> int" where
  "compressAndFrameTo lz4c skip data =
     (if length data < compressMinSize then (Inl PayloadTooSmall, skip)
      else if \<not> compressWorthTrying skip then (Inl CompressBackedOff, skip + 1)
      else case lz4c data of
          None \<Rightarrow> (Inl Lz4Failed, skip + 1)
        | Some z \<Rightarrow>
            let result = compressedTag @ put_u32 (of_nat (length data)) @ z in
            if length data \<le> length result then (Inl CompressNoGain, skip + 1)
            else (Inr result, 0))"

datatype decompress_error = FrameTooShort | WrongTag | ZeroLength | Lz4Decode | LengthMismatch

definition decompressAndUnframe ::
  "(byte list \<Rightarrow> byte list option) \<Rightarrow> byte list \<Rightarrow> decompress_error + byte list" where
  "decompressAndUnframe lz4d data =
     (if length data < 8 then Inl FrameTooShort
      else if take 4 data \<noteq> compressedTag then Inl WrongTag
      else let originalLen = be_u32 (drop 4 data) in
        if originalLen = 0 then Inl ZeroLength
        else case lz4d (drop 8 data) of
            None \<Rightarrow> Inl Lz4Decode
          | Some buf \<Rightarrow>
              if (of_nat (length buf) :: u32) \<noteq> originalLen then Inl LengthMismatch
              else Inr buf)"

section \<open>The post-quantum layer\<close>

record pqPeer =
  nonceSalt :: "byte list"
  nonceCtr :: u64

definition pqNonceSize :: nat where "pqNonceSize = 12"

definition nextNonce :: "pqPeer \<Rightarrow> byte list \<times> pqPeer" where
  "nextNonce p =
     (let c = nonceCtr p + 1 in (take 4 (nonceSalt p) @ put_u64 c, p\<lparr>nonceCtr := c\<rparr>))"

text \<open>\<open>None\<close> is a peer whose layer is not established (\<open>p == nil || p.aead == nil\<close>).\<close>

definition pqWrapTo ::
  "(byte list \<Rightarrow> byte list \<Rightarrow> byte list) \<Rightarrow> pqPeer option \<Rightarrow> byte list
   \<Rightarrow> byte list option \<times> pqPeer option" where
  "pqWrapTo seal mp pkt =
     (case mp of
        None \<Rightarrow> (None, None)
      | Some p \<Rightarrow> let (nonce, p') = nextNonce p in (Some (pqMagic @ nonce @ seal nonce pkt), Some p'))"

definition pqUnwrap ::
  "(byte list \<Rightarrow> byte list \<Rightarrow> byte list option) \<Rightarrow> pqPeer option \<Rightarrow> byte list \<Rightarrow> byte list option" where
  "pqUnwrap opn mp pt =
     (case mp of
        None \<Rightarrow> None
      | Some p \<Rightarrow>
          let body = drop (length pqMagic) pt in
          if length body < pqNonceSize then None
          else opn (take pqNonceSize body) (drop pqNonceSize body))"

definition isPQPacket :: "byte list \<Rightarrow> bool" where
  "isPQPacket pt = has_prefix pt pqMagic"

definition pqResetFrame :: byte where "pqResetFrame = of_char (CHR ''j'')"

definition isPQNegotiation :: "byte list \<Rightarrow> bool" where
  "isPQNegotiation payload =
     (let n = length ctlMagic in
      n < length payload \<and> has_prefix payload ctlMagic \<and>
      (payload ! n = of_char (CHR ''M'') \<or> payload ! n = of_char (CHR ''m'') \<or> payload ! n = pqResetFrame))"

section \<open>Sending and receiving\<close>

record sender =
  sendNonce :: u64
  pqLayer :: "pqPeer option"
  compressSkip :: int

definition sendPacket ::
  "bool \<Rightarrow> bool \<Rightarrow> (byte list \<Rightarrow> byte list \<Rightarrow> byte list) \<Rightarrow> (byte list \<Rightarrow> byte list option)
   \<Rightarrow> (u64 \<Rightarrow> byte list \<Rightarrow> byte list option) \<Rightarrow> sender \<Rightarrow> byte list \<Rightarrow> byte list option \<times> sender" where
  "sendPacket pqEnabled compEnabled seal lz4c enc s payload =
     (let (payload1, s1) =
        (if pqEnabled \<and> \<not> isPQNegotiation payload then
           (case pqWrapTo seal (pqLayer s) payload of
              (Some w, pq') \<Rightarrow> (w, s\<lparr>pqLayer := pq'\<rparr>)
            | (None, pq') \<Rightarrow> (payload, s\<lparr>pqLayer := pq'\<rparr>))
         else (payload, s));
      (toEncrypt, s2) =
        (if compEnabled then
           (case compressAndFrameTo lz4c (compressSkip s1) payload1 of
              (Inr c, k) \<Rightarrow> (c, s1\<lparr>compressSkip := k\<rparr>)
            | (Inl _, k) \<Rightarrow> (payload1, s1\<lparr>compressSkip := k\<rparr>))
         else (payload1, s1));
      nonce = sendNonce s2;
      s3 = s2\<lparr>sendNonce := nonce + 1\<rparr>
      in case enc nonce toEncrypt of
           None \<Rightarrow> (None, s3)
         | Some ct \<Rightarrow> (Some (PktData # put_u64 nonce @ put_u16 (of_nat (length ct)) @ ct), s3))"

datatype recv_error = UnexpectedEOF | ReplayedNonce | DecryptFailed | DecompressFailed

definition recvPacket ::
  "(u64 \<Rightarrow> byte list \<Rightarrow> byte list option) \<Rightarrow> (byte list \<Rightarrow> byte list option)
   \<Rightarrow> replay \<Rightarrow> byte list \<Rightarrow> (recv_error + byte list) \<times> replay" where
  "recvPacket dec lz4d s body =
     (if length body < 10 then (Inl UnexpectedEOF, s)
      else
        let nonce = be_u64 body; n = unat (be_u16 (drop 8 body)) in
        if length body < 10 + n then (Inl UnexpectedEOF, s)
        else if \<not> replayCheck s nonce then (Inl ReplayedNonce, s)
        else case dec nonce (take n (drop 10 body)) of
            None \<Rightarrow> (Inl DecryptFailed, s)
          | Some pt \<Rightarrow>
              let s' = replayMark s nonce in
              if 8 \<le> length pt \<and> take 4 pt = compressedTag then
                (case decompressAndUnframe lz4d pt of
                   Inl _ \<Rightarrow> (Inl DecompressFailed, s')
                 | Inr d \<Rightarrow> (Inr d, s'))
              else (Inr pt, s'))"

text \<open>
  The read loop's calls on one session: the nonce and plaintext of every datagram that was
  handed up, in order.
\<close>

fun recv_all ::
  "(u64 \<Rightarrow> byte list \<Rightarrow> byte list option) \<Rightarrow> (byte list \<Rightarrow> byte list option)
   \<Rightarrow> replay \<Rightarrow> byte list list \<Rightarrow> (u64 \<times> byte list) list" where
  "recv_all dec lz4d s [] = []"
| "recv_all dec lz4d s (b # bs) =
     (case recvPacket dec lz4d s b of
        (Inl _, s') \<Rightarrow> recv_all dec lz4d s' bs
      | (Inr pt, s') \<Rightarrow> (be_u64 b, pt) # recv_all dec lz4d s' bs)"

section \<open>No nonce is delivered twice\<close>

lemma recvPacket_cases:
  "recvPacket dec lz4d s b = (r, s') \<Longrightarrow>
     (s' = s \<and> isl r) \<or> (s' = replayMark s (be_u64 b) \<and> replayCheck s (be_u64 b))"
  by (auto simp: recvPacket_def Let_def split: if_splits option.splits sum.splits)

lemma recv_all_fresh:
  "session_window.tracks s A \<Longrightarrow>
     distinct (map fst (recv_all dec lz4d s bs)) \<and> set (map fst (recv_all dec lz4d s bs)) \<inter> A = {}"
proof (induction bs arbitrary: s A)
  case Nil
  then show ?case by simp
next
  case (Cons b bs)
  obtain r s' where r: "recvPacket dec lz4d s b = (r, s')" by fastforce
  from recvPacket_cases [OF r] show ?case
  proof (elim disjE conjE)
    assume "s' = s" "isl r"
    then show ?thesis using Cons r by (cases r) auto
  next
    assume s': "s' = replayMark s (be_u64 b)" and ok: "replayCheck s (be_u64 b)"
    from Cons.prems ok have "be_u64 b \<notin> A" by (rule session_window.tracks_ok_fresh)
    moreover from Cons.prems ok have "session_window.tracks s' (insert (be_u64 b) A)"
      unfolding s' by (rule session_window.tracks_mark)
    from Cons.IH [OF this] have "distinct (map fst (recv_all dec lz4d s' bs))"
      "set (map fst (recv_all dec lz4d s' bs)) \<inter> insert (be_u64 b) A = {}" by auto
    ultimately show ?thesis using r by (cases r) auto
  qed
qed

section \<open>A packet sent is the packet received\<close>

lemma length_take_put [simp]:
  "take 8 (put_u64 a @ xs) = put_u64 a" "drop 8 (put_u64 a @ xs) = xs"
  "take 4 (put_u32 b @ xs) = put_u32 b" "drop 4 (put_u32 b @ xs) = xs"
  "take 2 (put_u16 c @ xs) = put_u16 c" "drop 2 (put_u16 c @ xs) = xs"
  by simp_all

lemma drop_10_put: "drop 10 (put_u64 a @ put_u16 b @ xs) = xs"
  by simp

lemma decompress_compress:
  assumes "compressAndFrameTo lz4c k data = (Inr z, k')"
    and "\<And>x y. lz4c x = Some y \<Longrightarrow> lz4d y = Some x" and "length data < 2 ^ 32"
  shows "decompressAndUnframe lz4d z = Inr data \<and> 8 \<le> length z \<and> take 4 z = compressedTag"
proof -
  obtain y where y: "lz4c data = Some y" and z: "z = compressedTag @ put_u32 (of_nat (length data)) @ y"
    and len: "compressMinSize \<le> length data"
    using assms(1) by (auto simp: compressAndFrameTo_def Let_def split: if_splits option.splits)
  have "(of_nat (length data) :: u32) \<noteq> 0"
    using len assms(3) by (auto simp: compressMinSize_def word_unat_eq_iff unat_of_nat take_bit_eq_mod)
  with y z assms(2) show ?thesis
    by (auto simp: decompressAndUnframe_def compressedTag_def Let_def)
qed

lemma pqUnwrap_wrap:
  assumes "pqWrapTo seal (Some p) pkt = (Some w, pq')"
    and "\<And>n x. opn n (seal n x) = Some x" and "length (nonceSalt p) = 4"
  shows "isPQPacket w \<and> pqUnwrap opn (Some q) w = Some pkt"
  using assms
  by (auto simp: pqWrapTo_def nextNonce_def Let_def isPQPacket_def pqUnwrap_def pqNonceSize_def
      has_prefix_def)

lemma sendPacket_frame:
  assumes "sendPacket pqE compE seal lz4c enc s payload = (Some frame, s')"
  obtains pt z ct where
    "frame = PktData # put_u64 (sendNonce s) @ put_u16 (of_nat (length ct)) @ ct"
    and "enc (sendNonce s) z = Some ct"
    and "pt = payload \<or> (\<exists>p pq'. pqLayer s = Some p \<and> pqWrapTo seal (Some p) payload = (Some pt, pq'))"
    and "z = pt \<or> (\<exists>k k'. compressAndFrameTo lz4c k pt = (Inr z, k'))"
    and "sendNonce s' = sendNonce s + 1"
proof -
  define r1 where "r1 = (if pqE \<and> \<not> isPQNegotiation payload then
           (case pqWrapTo seal (pqLayer s) payload of
              (Some w, pq') \<Rightarrow> (w, s\<lparr>pqLayer := pq'\<rparr>)
            | (None, pq') \<Rightarrow> (payload, s\<lparr>pqLayer := pq'\<rparr>))
         else (payload, s))"
  obtain pt s1 where r1: "r1 = (pt, s1)" by fastforce
  define r2 where "r2 = (if compE then
           (case compressAndFrameTo lz4c (compressSkip s1) pt of
              (Inr c, k) \<Rightarrow> (c, s1\<lparr>compressSkip := k\<rparr>)
            | (Inl _, k) \<Rightarrow> (pt, s1\<lparr>compressSkip := k\<rparr>))
         else (pt, s1))"
  obtain z s2 where r2: "r2 = (z, s2)" by fastforce
  have s1: "sendNonce s1 = sendNonce s"
    and pt: "pt = payload \<or> (\<exists>p pq'. pqLayer s = Some p \<and> pqWrapTo seal (Some p) payload = (Some pt, pq'))"
    using r1 unfolding r1_def
    by (auto simp: pqWrapTo_def Let_def split: if_splits option.splits prod.splits)
  have s2: "sendNonce s2 = sendNonce s1"
    and z: "z = pt \<or> (\<exists>k k'. compressAndFrameTo lz4c k pt = (Inr z, k'))"
    using r2 unfolding r2_def by (auto split: if_splits prod.splits sum.splits)
  from assms obtain ct where "enc (sendNonce s) z = Some ct"
    "frame = PktData # put_u64 (sendNonce s) @ put_u16 (of_nat (length ct)) @ ct"
    "sendNonce s' = sendNonce s + 1"
    unfolding sendPacket_def r1_def [symmetric] r1 prod.case Let_def r2_def [symmetric] r2
    by (auto simp: s1 s2 split: option.splits)
  with pt z that show thesis by blast
qed

section \<open>Properties\<close>

text \<open>
  C1: Replay defence of the receive path. Whatever datagrams an attacker delivers to a
  session, replayed, reordered or forged, \<open>recvPacket\<close> never hands up two plaintexts with
  the same nonce.
\<close>

theorem recv_no_replay: "distinct (map fst (recv_all dec lz4d new_replay bodies))"
  using recv_all_fresh [OF session_window.tracks_init] by blast

text \<open>
  C5: Round trip of the data plane. If the ciphers and the LZ4 codec invert each other, the
  ciphertext fits the 16-bit length field, and the (possibly post-quantum wrapped) payload
  does not itself begin with the LZ4 tag, then the frame \<open>sendPacket\<close> writes, received by a
  session that has not seen its nonce, yields the payload: directly, or as a post-quantum
  packet that \<open>pqUnwrap\<close> opens to it.
\<close>

theorem send_recv_roundtrip:
  assumes noise: "\<And>n x c. enc n x = Some c \<Longrightarrow> dec n c = Some x \<and> length c < 65536"
    and lz4: "\<And>x y. lz4c x = Some y \<Longrightarrow> lz4d y = Some x"
    and aead: "\<And>n x. opn n (seal n x) = Some x"
    and tag: "\<And>n x. length (seal n x) = length x + 16"
    and salt: "\<And>p. pqLayer s = Some p \<Longrightarrow> length (nonceSalt p) = 4"
    and plain: "take 4 payload \<noteq> compressedTag" "length payload < 65536"
    and sent: "sendPacket pqE compE seal lz4c enc s payload = (Some frame, s')"
    and fresh: "replayCheck r (sendNonce s)"
  shows "\<exists>pt. recvPacket dec lz4d r (tl frame) = (Inr pt, replayMark r (sendNonce s)) \<and>
    (pt = payload \<or> (\<exists>p. pqLayer s = Some p \<and> isPQPacket pt \<and> pqUnwrap opn (Some p) pt = Some payload))"
proof -
  obtain pt z ct where frame: "frame = PktData # put_u64 (sendNonce s) @ put_u16 (of_nat (length ct)) @ ct"
    and enc: "enc (sendNonce s) z = Some ct"
    and pt: "pt = payload \<or> (\<exists>p pq'. pqLayer s = Some p \<and> pqWrapTo seal (Some p) payload = (Some pt, pq'))"
    and z: "z = pt \<or> (\<exists>k k'. compressAndFrameTo lz4c k pt = (Inr z, k'))"
    using sendPacket_frame [OF sent] by metis
  have dec: "dec (sendNonce s) ct = Some z" "length ct < 65536" using noise [OF enc] by auto
  have ptl: "take 4 pt \<noteq> compressedTag \<and> length pt < 2 ^ 32"
    using pt plain salt tag by (auto simp: pqWrapTo_def nextNonce_def Let_def pqMagic_def bytes_of_def compressedTag_def)
  have "recvPacket dec lz4d r (tl frame) = (Inr pt, replayMark r (sendNonce s))"
  proof (cases "z = pt")
    case True
    with ptl dec fresh show ?thesis
      by (simp add: recvPacket_def frame Let_def drop_10_put unat_of_nat take_bit_eq_mod)
  next
    case False
    with z obtain k k' where "compressAndFrameTo lz4c k pt = (Inr z, k')" by blast
    then have "decompressAndUnframe lz4d z = Inr pt \<and> 8 \<le> length z \<and> take 4 z = compressedTag"
      using lz4 ptl by (intro decompress_compress) auto
    with dec fresh show ?thesis
      by (simp add: recvPacket_def frame Let_def drop_10_put unat_of_nat take_bit_eq_mod)
  qed
  moreover have "pt = payload \<or> (\<exists>p. pqLayer s = Some p \<and> isPQPacket pt \<and> pqUnwrap opn (Some p) pt = Some payload)"
    using pt salt pqUnwrap_wrap [where seal = seal and opn = opn] aead by blast
  ultimately show ?thesis by blast
qed

text \<open>The codecs of the witness: one string compresses, and the ciphers append a marker.\<close>

definition demo_lz4c :: "byte list \<Rightarrow> byte list option" where
  "demo_lz4c x = (if x = replicate 70 7 then Some [70, 7] else None)"

definition demo_lz4d :: "byte list \<Rightarrow> byte list option" where
  "demo_lz4d y = (if y = [70, 7] then Some (replicate 70 7) else None)"

definition demo_enc :: "u64 \<Rightarrow> byte list \<Rightarrow> byte list option" where
  "demo_enc n x = (if length x < 60000 then Some (map (\<lambda>b. b XOR ucast n) x @ replicate 16 0) else None)"

definition demo_dec :: "u64 \<Rightarrow> byte list \<Rightarrow> byte list option" where
  "demo_dec n c = Some (map (\<lambda>b. b XOR ucast n) (take (length c - 16) c))"

definition demo_seal :: "byte list \<Rightarrow> byte list \<Rightarrow> byte list" where
  "demo_seal n x = x @ replicate 16 0"

definition demo_opn :: "byte list \<Rightarrow> byte list \<Rightarrow> byte list option" where
  "demo_opn n c = Some (take (length c - 16) c)"

definition demo_sender :: sender where
  "demo_sender = \<lparr>sendNonce = 41, pqLayer = Some \<lparr>nonceSalt = [1, 2, 3, 4], nonceCtr = 9\<rparr>, compressSkip = 0\<rparr>"

theorem send_recv_roundtrip_witness:
  "\<exists>frame s' pt. sendPacket True True demo_seal demo_lz4c demo_enc demo_sender [0x45, 1, 2] = (Some frame, s') \<and>
     recvPacket demo_dec demo_lz4d new_replay (tl frame) = (Inr pt, replayMark new_replay (sendNonce demo_sender)) \<and>
     (pt = [0x45, 1, 2] \<or>
       (\<exists>p. pqLayer demo_sender = Some p \<and> isPQPacket pt \<and> pqUnwrap demo_opn (Some p) pt = Some [0x45, 1, 2]))"
proof -
  obtain frame s' where
    sent: "sendPacket True True demo_seal demo_lz4c demo_enc demo_sender [0x45, 1, 2] = (Some frame, s')"
    by (simp add: sendPacket_def isPQNegotiation_def ctlMagic_def bytes_of_def has_prefix_def pqWrapTo_def
        nextNonce_def demo_sender_def demo_seal_def compressAndFrameTo_def compressMinSize_def demo_enc_def
        pqMagic_def Let_def)
  have "\<exists>pt. recvPacket demo_dec demo_lz4d new_replay (tl frame) =
        (Inr pt, replayMark new_replay (sendNonce demo_sender)) \<and>
      (pt = [0x45, 1, 2] \<or>
        (\<exists>p. pqLayer demo_sender = Some p \<and> isPQPacket pt \<and> pqUnwrap demo_opn (Some p) pt = Some [0x45, 1, 2]))"
    by (rule send_recv_roundtrip [OF _ _ _ _ _ _ _ sent])
      (auto simp: demo_enc_def demo_dec_def demo_lz4c_def demo_lz4d_def demo_seal_def demo_opn_def
        demo_sender_def compressedTag_def replayCheck_def new_replay_def xor.assoc comp_def split: if_splits)
  with sent show ?thesis by blast
qed

end
