(* ===== verification/Net_Addr.thy ===== *)
theory Net_Addr
  imports APGO_Prelude
begin

text \<open>
  Endpoints: Go's \<open>net.IP\<close> and \<open>*net.UDPAddr\<close>, the address classes of the standard library,
  and the node's own classification of a path (\<open>routeClass\<close>, \<open>isPrivateUDPAddr\<close>,
  \<open>isAttachedLANAddr\<close>, \<open>isSyntheticRelayAddr\<close>).

  An IP is in normal form: four bytes for IPv4 (a v4-mapped IPv6 address is IPv4, as
  \<open>To4\<close>, \<open>Equal\<close> and \<open>String\<close> have it), sixteen for IPv6. Two endpoints are equal exactly if
  \<open>UDPAddr.String()\<close> renders them equal, so maps keyed by that string are keyed by the
  endpoint here, and \<open>sameUDPAddr\<close> is equality. The subnets the OS reports
  (\<open>localIPv4Nets\<close>) are the argument \<open>nets\<close>, a list of network address and prefix length.
\<close>

datatype ip_addr = V4 "byte list" | V6 "byte list"

record udp_addr =
  ua_IP :: "ip_addr option"
  ua_Port :: nat
  ua_Zone :: string

type_synonym ip_nets = "(byte list \<times> nat) list"

section \<open>Standard-library address classes\<close>

fun is_private :: "ip_addr \<Rightarrow> bool" where
  "is_private (V4 b) \<longleftrightarrow>
     b ! 0 = 10 \<or> b ! 0 = 172 \<and> b ! 1 AND 0xF0 = 16 \<or> b ! 0 = 192 \<and> b ! 1 = 168"
| "is_private (V6 b) \<longleftrightarrow> b ! 0 AND 0xFE = 0xFC"

fun is_link_local :: "ip_addr \<Rightarrow> bool" where
  "is_link_local (V4 b) \<longleftrightarrow> b ! 0 = 169 \<and> b ! 1 = 254"
| "is_link_local (V6 b) \<longleftrightarrow> b ! 0 = 0xFE \<and> b ! 1 AND 0xC0 = 0x80"

fun is_loopback :: "ip_addr \<Rightarrow> bool" where
  "is_loopback (V4 b) \<longleftrightarrow> b ! 0 = 127"
| "is_loopback (V6 b) \<longleftrightarrow> b = replicate 15 0 @ [1]"

fun is_multicast :: "ip_addr \<Rightarrow> bool" where
  "is_multicast (V4 b) \<longleftrightarrow> b ! 0 AND 0xF0 = 0xE0"
| "is_multicast (V6 b) \<longleftrightarrow> b ! 0 = 0xFF"

fun is_unspecified :: "ip_addr \<Rightarrow> bool" where
  "is_unspecified (V4 b) \<longleftrightarrow> b = [0, 0, 0, 0]"
| "is_unspecified (V6 b) \<longleftrightarrow> b = replicate 16 0"

definition is_global_unicast :: "ip_addr \<Rightarrow> bool" where
  "is_global_unicast ip \<longleftrightarrow>
     ip \<noteq> V4 [255, 255, 255, 255] \<and> \<not> is_unspecified ip \<and> \<not> is_loopback ip \<and>
     \<not> is_multicast ip \<and> \<not> is_link_local ip"

fun to4 :: "ip_addr option \<Rightarrow> byte list option" where
  "to4 (Some (V4 b)) = Some b"
| "to4 _ = None"

text \<open>\<open>net.IPNet.Contains\<close> for a canonical IPv4 mask: the first \<open>ones\<close> bits agree.\<close>

definition net_contains :: "byte list \<times> nat \<Rightarrow> byte list \<Rightarrow> bool" where
  "net_contains n b \<longleftrightarrow> be_nat (fst n) div 2 ^ (32 - snd n) = be_nat b div 2 ^ (32 - snd n)"

section \<open>Path classes\<close>

definition minLANPrefixLen :: nat where "minLANPrefixLen = 16"

definition isAttachedLANAddr :: "ip_nets \<Rightarrow> udp_addr option \<Rightarrow> bool" where
  "isAttachedLANAddr nets a =
     (case a of None \<Rightarrow> False
      | Some a \<Rightarrow>
          (case to4 (ua_IP a) of None \<Rightarrow> False
           | Some ip \<Rightarrow> list_ex (\<lambda>n. \<not> snd n < minLANPrefixLen \<and> net_contains n ip) nets))"

definition isSyntheticRelayAddr :: "udp_addr option \<Rightarrow> bool" where
  "isSyntheticRelayAddr a =
     (case a of None \<Rightarrow> False
      | Some a \<Rightarrow> (case to4 (ua_IP a) of None \<Rightarrow> False | Some b \<Rightarrow> b ! 0 = 240))"

definition isGlobalIPv6 :: "ip_addr option \<Rightarrow> bool" where
  "isGlobalIPv6 ip =
     (case ip of None \<Rightarrow> False
      | Some i \<Rightarrow>
          if to4 ip \<noteq> None then False
          else is_global_unicast i \<and> \<not> is_private i \<and> \<not> is_link_local i)"

definition routeClassPublicV4 :: int where "routeClassPublicV4 = 0"
definition routeClassGlobalV6 :: int where "routeClassGlobalV6 = 1"
definition routeClassPrivate :: int where "routeClassPrivate = 2"
definition routeClassLAN :: int where "routeClassLAN = 3"

lemmas routeClass_consts =
  routeClassPublicV4_def routeClassGlobalV6_def routeClassPrivate_def routeClassLAN_def

definition routeClass :: "ip_nets \<Rightarrow> udp_addr option \<Rightarrow> int" where
  "routeClass nets a =
     (case a of None \<Rightarrow> routeClassPublicV4
      | Some u \<Rightarrow>
          (case ua_IP u of None \<Rightarrow> routeClassPublicV4
           | Some ip \<Rightarrow>
               if isAttachedLANAddr nets a then routeClassLAN
               else if is_private ip \<or> is_link_local ip \<or> is_loopback ip then routeClassPrivate
               else if isGlobalIPv6 (Some ip) then routeClassGlobalV6
               else routeClassPublicV4))"

definition isPrivateUDPAddr :: "ip_nets \<Rightarrow> udp_addr option \<Rightarrow> bool" where
  "isPrivateUDPAddr nets a =
     (case a of None \<Rightarrow> False
      | Some u \<Rightarrow>
          (case ua_IP u of None \<Rightarrow> False
           | Some ip \<Rightarrow>
               if isAttachedLANAddr nets a then True
               else is_private ip \<or> is_link_local ip \<or> is_loopback ip))"

section \<open>The two classifications agree\<close>

lemma isPrivate_iff_class: "isPrivateUDPAddr nets a \<longleftrightarrow> routeClassPrivate \<le> routeClass nets a"
  by (auto simp: isPrivateUDPAddr_def routeClass_def routeClass_consts split: option.splits)

lemma routeClass_bounds: "0 \<le> routeClass nets a \<and> routeClass nets a \<le> 3"
  by (auto simp: routeClass_def routeClass_consts split: option.splits)

lemma synthetic_class:
  assumes "isSyntheticRelayAddr (Some a)" and "\<not> isAttachedLANAddr nets (Some a)"
  shows "routeClass nets (Some a) = routeClassPublicV4"
proof -
  from assms(1) obtain b where b: "ua_IP a = Some (V4 b)" "b ! 0 = 240"
    by (auto simp: isSyntheticRelayAddr_def split: option.splits elim: to4.elims)
  then show ?thesis using assms(2)
    by (simp add: routeClass_def isGlobalIPv6_def)
qed

abbreviation udp4 :: "byte list \<Rightarrow> nat \<Rightarrow> udp_addr" where
  "udp4 b p \<equiv> \<lparr>ua_IP = Some (V4 b), ua_Port = p, ua_Zone = []\<rparr>"

end
