(* ===== verification/Bencode.thy ===== *)
theory Bencode
  imports Go_Strings Data_Plane Net_Addr "HOL-Library.Char_ord" "HOL-Library.List_Lexorder"
begin

text \<open>
  The bencode codec, \<open>client/bencode.go\<close> and \<open>client/bencode_encode.go\<close>, which reads tracker
  responses and every DHT datagram, and the peer lists decoded from it (\<open>client/main.go\<close>).

  Byte strings are \<open>string\<close>. \<open>interface{}\<close> values are the datatype \<open>bval\<close>: the decoder yields
  \<open>BInt\<close>, \<open>BStr\<close>, \<open>BList\<close> and \<open>BDict\<close> (a Go map); the encoder also accepts \<open>BBytes\<close>
  (\<open>[]byte\<close>) and \<open>BStrs\<close> (\<open>[]string\<close>), and rejects any other type (\<open>BOther\<close>).
  A decoder run ends in a value, an error, or \<open>BPanic\<close>, the run-time panic of a slice out of
  range. \<open>BFuel\<close> marks exhausted fuel; \<open>bdecode\<close> starts with enough for every input.
\<close>

datatype bval = BInt int | BStr string | BBytes string | BList "bval list" | BStrs "string list"
  | BDict "(string \<times> bval) list" | BOther

datatype berror = NestingTooDeep | UnexpectedEnd | UnterminatedInt | BadInt | UnterminatedLen | BadLen
  | StringExceeds | UnterminatedList | UnterminatedDict | KeyNotString | UnexpectedByte | UnsupportedType

datatype 'a bres = BOk 'a | BErr berror | BPanic | BFuel

definition bdecodeMaxDepth :: nat where "bdecodeMaxDepth = 32"

fun indexByte :: "string \<Rightarrow> char \<Rightarrow> nat option" where
  "indexByte [] c = None"
| "indexByte (b # bs) c = (if b = c then Some 0 else map_option Suc (indexByte bs c))"

definition is_digit :: "char \<Rightarrow> bool" where
  "is_digit c \<longleftrightarrow> CHR ''0'' \<le> c \<and> c \<le> CHR ''9''"

section \<open>Decoding\<close>

definition bdecodeInt :: "string \<Rightarrow> (bval \<times> string) bres" where
  "bdecodeInt data =
     (case indexByte data (CHR ''e'') of
        None \<Rightarrow> BErr UnterminatedInt
      | Some end' \<Rightarrow>
          (case parse_int64 (take (end' - 1) (drop 1 data)) of
             None \<Rightarrow> BErr BadInt
           | Some n \<Rightarrow> BOk (BInt n, drop (end' + 1) data)))"

text \<open>The sum \<open>colon+1+slen\<close> is a machine integer; the slice \<open>data[lo:hi]\<close> needs \<open>lo \<le> hi\<close>.\<close>

definition bdecodeStr :: "string \<Rightarrow> (bval \<times> string) bres" where
  "bdecodeStr data =
     (case indexByte data (CHR '':'') of
        None \<Rightarrow> BErr UnterminatedLen
      | Some colon \<Rightarrow>
          (case parse_int64 (take colon data) of
             None \<Rightarrow> BErr BadLen
           | Some slen \<Rightarrow>
               if slen < 0 then BErr BadLen
               else
                 let lo = int colon + 1; hi = wrap64 (int colon + 1 + slen) in
                 if hi > int (length data) then BErr StringExceeds
                 else if hi < lo then BPanic
                 else BOk (BStr (take (nat (hi - lo)) (drop (nat lo) data)), drop (nat hi) data)))"

fun bdecodeValue :: "nat \<Rightarrow> string \<Rightarrow> nat \<Rightarrow> (bval \<times> string) bres"
and bdecodeList :: "nat \<Rightarrow> string \<Rightarrow> nat \<Rightarrow> bval list \<Rightarrow> (bval \<times> string) bres"
and bdecodeDict :: "nat \<Rightarrow> string \<Rightarrow> nat \<Rightarrow> (string \<times> bval) list \<Rightarrow> (bval \<times> string) bres" where
  "bdecodeValue 0 data depth = BFuel"
| "bdecodeValue (Suc n) data depth =
     (if bdecodeMaxDepth < depth then BErr NestingTooDeep
      else if data = [] then BErr UnexpectedEnd
      else if hd data = CHR ''i'' then bdecodeInt data
      else if is_digit (hd data) then bdecodeStr data
      else if hd data = CHR ''l'' then bdecodeList n (tl data) depth []
      else if hd data = CHR ''d'' then bdecodeDict n (tl data) depth []
      else BErr UnexpectedByte)"
| "bdecodeList 0 rest depth acc = BFuel"
| "bdecodeList (Suc n) rest depth acc =
     (if rest = [] then BErr UnterminatedList
      else if hd rest = CHR ''e'' then BOk (BList acc, tl rest)
      else case bdecodeValue n rest (depth + 1) of
          BOk (v, rest') \<Rightarrow> bdecodeList n rest' depth (acc @ [v])
        | BErr e \<Rightarrow> BErr e | BPanic \<Rightarrow> BPanic | BFuel \<Rightarrow> BFuel)"
| "bdecodeDict 0 rest depth acc = BFuel"
| "bdecodeDict (Suc n) rest depth acc =
     (if rest = [] then BErr UnterminatedDict
      else if hd rest = CHR ''e'' then BOk (BDict acc, tl rest)
      else case bdecodeValue n rest (depth + 1) of
          BOk (k, rest') \<Rightarrow>
            (case k of
               BStr key \<Rightarrow>
                 (case bdecodeValue n rest' (depth + 1) of
                    BOk (v, rest'') \<Rightarrow> bdecodeDict n rest'' depth (gput key v acc)
                  | BErr e \<Rightarrow> BErr e | BPanic \<Rightarrow> BPanic | BFuel \<Rightarrow> BFuel)
             | _ \<Rightarrow> BErr KeyNotString)
        | BErr e \<Rightarrow> BErr e | BPanic \<Rightarrow> BPanic | BFuel \<Rightarrow> BFuel)"

definition bdecode :: "string \<Rightarrow> bval bres" where
  "bdecode data =
     (case bdecodeValue (2 * length data + 1) data 0 of
        BOk (v, rest) \<Rightarrow> BOk v
      | BErr e \<Rightarrow> BErr e | BPanic \<Rightarrow> BPanic | BFuel \<Rightarrow> BFuel)"

section \<open>Encoding\<close>

text \<open>Appending pieces to \<open>out\<close> until one of them fails.\<close>

fun cat_res :: "(berror + string) list \<Rightarrow> berror + string" where
  "cat_res [] = Inr []"
| "cat_res (Inl e # rs) = Inl e"
| "cat_res (Inr s # rs) = (case cat_res rs of Inl e \<Rightarrow> Inl e | Inr t \<Rightarrow> Inr (s @ t))"

definition wrap_res :: "char \<Rightarrow> berror + string \<Rightarrow> berror + string" where
  "wrap_res c r = (case r of Inl e \<Rightarrow> Inl e | Inr s \<Rightarrow> Inr (c # s @ ''e''))"

definition bencodeStr :: "nat \<Rightarrow> string \<Rightarrow> berror + string" where
  "bencodeStr depth s =
     (if bdecodeMaxDepth < depth then Inl NestingTooDeep
      else Inr (show_int (int (length s)) @ '':'' @ s))"

fun bencodeInto :: "nat \<Rightarrow> bval \<Rightarrow> berror + string" where
  "bencodeInto depth (BStr s) = bencodeStr depth s"
| "bencodeInto depth (BBytes s) = bencodeStr depth s"
| "bencodeInto depth (BInt i) =
     (if bdecodeMaxDepth < depth then Inl NestingTooDeep else Inr (''i'' @ show_int i @ ''e''))"
| "bencodeInto depth (BList vs) =
     (if bdecodeMaxDepth < depth then Inl NestingTooDeep
      else wrap_res (CHR ''l'') (cat_res (map (bencodeInto (depth + 1)) vs)))"
| "bencodeInto depth (BStrs ss) =
     (if bdecodeMaxDepth < depth then Inl NestingTooDeep
      else wrap_res (CHR ''l'') (cat_res (map (bencodeStr (depth + 1)) ss)))"
| "bencodeInto depth (BDict kvs) =
     (if bdecodeMaxDepth < depth then Inl NestingTooDeep
      else wrap_res (CHR ''d'')
        (cat_res (concat (map (\<lambda>(k, r). [bencodeStr (depth + 1) k, r])
           (sort_key fst (map (\<lambda>(k, v). (k, bencodeInto (depth + 1) v)) kvs))))))"
| "bencodeInto depth BOther = (if bdecodeMaxDepth < depth then Inl NestingTooDeep else Inl UnsupportedType)"

definition bencode :: "bval \<Rightarrow> berror + string" where
  "bencode v = bencodeInto 0 v"

section \<open>Reading decoded dictionaries\<close>

definition bdictStr :: "(string \<times> bval) list \<Rightarrow> string \<Rightarrow> string option" where
  "bdictStr d key = (case gget d key of Some (BStr s) \<Rightarrow> Some s | _ \<Rightarrow> None)"

definition bdictDict :: "(string \<times> bval) list \<Rightarrow> string \<Rightarrow> (string \<times> bval) list option" where
  "bdictDict d key = (case gget d key of Some (BDict m) \<Rightarrow> Some m | _ \<Rightarrow> None)"

definition bdictList :: "(string \<times> bval) list \<Rightarrow> string \<Rightarrow> bval list option" where
  "bdictList d key = (case gget d key of Some (BList l) \<Rightarrow> Some l | _ \<Rightarrow> None)"

definition bdictInt :: "(string \<times> bval) list \<Rightarrow> string \<Rightarrow> int option" where
  "bdictInt d key = (case gget d key of Some (BInt n) \<Rightarrow> Some n | _ \<Rightarrow> None)"

section \<open>Tracker responses\<close>

text \<open>\<open>net.IP.String\<close>: dotted decimal, or hexadecimal groups with the first longest run of two or
  more zero groups elided; \<open>net.JoinHostPort\<close>.\<close>

definition hex_digit :: "nat \<Rightarrow> char" where
  "hex_digit d = (if d < 10 then digit_char d else char_of (87 + d))"

fun show_hex :: "nat \<Rightarrow> string" where
  "show_hex n = (if n < 16 then [hex_digit n] else show_hex (n div 16) @ [hex_digit (n mod 16)])"

declare show_hex.simps [simp del]

fun join :: "string \<Rightarrow> string list \<Rightarrow> string" where
  "join sep [] = []"
| "join sep [x] = x"
| "join sep (x # y # xs) = x @ sep @ join sep (y # xs)"

fun ip_groups :: "byte list \<Rightarrow> nat list" where
  "ip_groups (a # b # bs) = (unat a * 256 + unat b) # ip_groups bs"
| "ip_groups _ = []"

definition zero_run :: "nat list \<Rightarrow> nat \<times> nat" where
  "zero_run gs = foldl (\<lambda>(s, e) i. let j = i + length (takeWhile (\<lambda>g. g = 0) (drop i gs)) in
     if 2 \<le> j - i \<and> j - i > e - s then (i, j) else (s, e)) (255, 255) [0..<8]"

definition v4_string :: "byte list \<Rightarrow> string" where
  "v4_string b = join ''.'' (map (\<lambda>x. show_nat (unat x)) (take 4 b))"

definition v6_string :: "byte list \<Rightarrow> string" where
  "v6_string b =
     (if take 12 b = replicate 10 0 @ [255, 255] then v4_string (drop 12 b)
      else let gs = ip_groups b; (s, e) = zero_run gs; hx = map show_hex gs in
        if s = 255 then join '':'' hx else join '':'' (take s hx) @ ''::'' @ join '':'' (drop e hx))"

definition joinHostPort :: "string \<Rightarrow> string \<Rightarrow> string" where
  "joinHostPort host port =
     (if CHR '':'' \<in> set host then ''['' @ host @ '']:'' @ port else host @ '':'' @ port)"

record TrackerResponse =
  tr_Interval :: int
  tr_Peers :: "string list"

datatype tracker_error = TrDecode berror | TrPanic | NotADict | TrackerFailure string

fun parseCompactPeers :: "byte list \<Rightarrow> string list" where
  "parseCompactPeers (a # b # c # d # p # q # body) =
     joinHostPort (v4_string [a, b, c, d]) (show_nat (unat (be_u16 [p, q]))) # parseCompactPeers body"
| "parseCompactPeers _ = []"

function parseCompactPeers6 :: "byte list \<Rightarrow> string list" where
  "parseCompactPeers6 body =
     (if 18 \<le> length body then
        joinHostPort (v6_string (take 16 body)) (show_nat (unat (be_u16 (take 2 (drop 16 body))))) #
          parseCompactPeers6 (drop 18 body)
      else [])"
  by pat_completeness auto
termination
  by (relation "measure length") auto

definition dict_peer :: "bval \<Rightarrow> string list" where
  "dict_peer p =
     (case p of
        BDict pd \<Rightarrow>
          (let ip = (case bdictStr pd ''ip'' of None \<Rightarrow> [] | Some s \<Rightarrow> s);
             port = (case bdictInt pd ''port'' of None \<Rightarrow> 0 | Some n \<Rightarrow> n)
           in if ip = [] \<or> port \<le> 0 \<or> 65536 \<le> port then [] else [joinHostPort ip (show_int port)])
      | _ \<Rightarrow> [])"

definition parseTrackerBencode :: "string \<Rightarrow> tracker_error + TrackerResponse" where
  "parseTrackerBencode body =
     (case bdecode body of
        BErr e \<Rightarrow> Inl (TrDecode e)
      | BPanic \<Rightarrow> Inl TrPanic
      | BFuel \<Rightarrow> Inl TrPanic
      | BOk v \<Rightarrow>
          (case v of
             BDict dict \<Rightarrow>
               (case bdictStr dict ''failure reason'' of
                  Some reason \<Rightarrow> Inl (TrackerFailure reason)
                | None \<Rightarrow>
                    let interval = (case bdictInt dict ''interval'' of None \<Rightarrow> 0 | Some iv \<Rightarrow> iv);
                      peers = (case gget dict ''peers'' of
                          Some (BStr s) \<Rightarrow> parseCompactPeers (bytes_of s)
                        | Some (BList ps) \<Rightarrow> concat (map dict_peer ps)
                        | _ \<Rightarrow> []);
                      peers6 = (case bdictStr dict ''peers6'' of
                          None \<Rightarrow> [] | Some s \<Rightarrow> parseCompactPeers6 (bytes_of s))
                    in Inr \<lparr>tr_Interval = interval, tr_Peers = peers @ peers6\<rparr>)
           | _ \<Rightarrow> Inl NotADict))"

text \<open>\<open>parsePeersFromTracker\<close>: the first occurrence of each endpoint, in order.\<close>

fun dedup_peers :: "string list \<Rightarrow> string list \<Rightarrow> string list" where
  "dedup_peers seen [] = []"
| "dedup_peers seen (p # ps) = (if p \<in> set seen then dedup_peers seen ps else p # dedup_peers (p # seen) ps)"

definition parsePeersFromTracker :: "TrackerResponse \<Rightarrow> string list" where
  "parsePeersFromTracker resp = dedup_peers [] (tr_Peers resp)"

section \<open>The decoder consumes input and never runs out of fuel\<close>

lemma indexByte_bound: "indexByte data c = Some i \<Longrightarrow> i < length data"
  by (induction data arbitrary: i) (auto split: if_splits)

lemma indexByte_append: "c \<notin> set xs \<Longrightarrow> indexByte (xs @ c # ys) c = Some (length xs)"
  by (induction xs) auto

lemma bdecodeInt_consumes: "bdecodeInt data = BOk (v, r) \<Longrightarrow> length r < length data"
  using indexByte_bound [of data "CHR ''e''"]
  by (auto simp: bdecodeInt_def split: option.splits)

lemma bdecodeStr_consumes: "bdecodeStr data = BOk (v, r) \<Longrightarrow> length r < length data"
  using indexByte_bound [of data "CHR '':''"]
  by (auto simp: bdecodeStr_def Let_def split: option.splits if_splits)

lemma bdecode_leaf_fuel [simp]: "bdecodeInt data \<noteq> BFuel" "bdecodeStr data \<noteq> BFuel"
  by (auto simp: bdecodeInt_def bdecodeStr_def Let_def split: option.splits)

lemma tl_shorter: "data \<noteq> [] \<Longrightarrow> length (tl data) < length data"
  by (cases data) auto

lemma bdecode_consumes:
  "bdecodeValue n data depth = BOk (v, r) \<Longrightarrow> length r < length data"
  "bdecodeList n data depth acc = BOk (v, r) \<Longrightarrow> length r < length data"
  "bdecodeDict n data depth acc' = BOk (v, r) \<Longrightarrow> length r < length data"
proof (induction n data depth and n data depth acc and n data depth acc' arbitrary: v r and v r and v r
    rule: bdecodeValue_bdecodeList_bdecodeDict.induct)
  case (2 n data depth)
  then show ?case
    using tl_shorter [of data]
    by (auto dest: bdecodeInt_consumes bdecodeStr_consumes split: if_splits)
next
  case (4 n rest depth acc)
  from "4.prems" show ?case
    using tl_shorter [of rest] "4.IH"
    by (auto split: if_splits bres.splits) (meson less_trans)+
next
  case (6 n rest depth acc)
  from "6.prems" show ?case
    using tl_shorter [of rest] "6.IH"
    by (auto split: if_splits bres.splits bval.splits) (metis less_trans)
qed auto

lemma bdecode_enough_fuel:
  "(2 * length data + 1 \<le> n \<longrightarrow> bdecodeValue n data depth \<noteq> BFuel) \<and>
   (2 * length data + 2 \<le> n \<longrightarrow> bdecodeList n data depth acc \<noteq> BFuel) \<and>
   (2 * length data + 2 \<le> n \<longrightarrow> bdecodeDict n data depth acc' \<noteq> BFuel)"
proof (induction n arbitrary: data depth acc acc')
  case (Suc n)
  have V: "bdecodeValue n d k \<noteq> BFuel" if "2 * length d + 1 \<le> n" for d k
    using Suc.IH that by blast
  have L: "bdecodeList n d k a \<noteq> BFuel" if "2 * length d + 2 \<le> n" for d k a
    using Suc.IH that by blast
  have D: "bdecodeDict n d k a \<noteq> BFuel" if "2 * length d + 2 \<le> n" for d k a
    using Suc.IH that by blast
  have "bdecodeValue (Suc n) data depth \<noteq> BFuel" if "2 * length data + 1 \<le> Suc n"
    using that by (cases data) (auto intro!: L D)
  moreover have "bdecodeList (Suc n) data depth acc \<noteq> BFuel" if "2 * length data + 2 \<le> Suc n"
  proof -
    have "bdecodeList n r depth a \<noteq> BFuel" if "bdecodeValue n data (depth + 1) = BOk (v, r)" for v r a
      using bdecode_consumes(1) [OF that] \<open>2 * length data + 2 \<le> Suc n\<close> by (intro L) linarith
    with V [of data "depth + 1"] that show ?thesis by (auto split: bres.splits)
  qed
  moreover have "bdecodeDict (Suc n) data depth acc' \<noteq> BFuel" if "2 * length data + 2 \<le> Suc n"
  proof -
    have *: "bdecodeValue n r (depth + 1) \<noteq> BFuel" if "bdecodeValue n data (depth + 1) = BOk (k, r)" for k r
      using bdecode_consumes(1) [OF that] \<open>2 * length data + 2 \<le> Suc n\<close> by (intro V) linarith
    have "bdecodeDict n r' depth a \<noteq> BFuel"
      if "bdecodeValue n data (depth + 1) = BOk (k, r)" "bdecodeValue n r (depth + 1) = BOk (v, r')" for k r v r' a
      using bdecode_consumes(1) [OF that(1)] bdecode_consumes(1) [OF that(2)] \<open>2 * length data + 2 \<le> Suc n\<close>
      by (intro D) linarith
    with * V [of data "depth + 1"] that show ?thesis by (auto split: bres.splits bval.splits)
  qed
  ultimately show ?case by blast
qed simp

section \<open>Decoding what was encoded\<close>

text \<open>
  What the decoder makes of an encoded value: byte slices and string slices come back as
  strings and lists, and a map in the order of its keys.
\<close>

fun bnorm :: "bval \<Rightarrow> bval" where
  "bnorm (BInt i) = BInt i"
| "bnorm (BStr s) = BStr s"
| "bnorm (BBytes s) = BStr s"
| "bnorm (BList vs) = BList (map bnorm vs)"
| "bnorm (BStrs ss) = BList (map BStr ss)"
| "bnorm (BDict kvs) = BDict (sort_key fst (map (\<lambda>(k, v). (k, bnorm v)) kvs))"
| "bnorm BOther = BOther"

text \<open>Values of Go: 64-bit integers, strings that fit in memory, maps with distinct keys.\<close>

definition str_ok :: "string \<Rightarrow> bool" where
  "str_ok s \<longleftrightarrow> length s < 2 ^ 62 - 1"

fun bwf :: "bval \<Rightarrow> bool" where
  "bwf (BInt i) = int64_range i"
| "bwf (BStr s) = str_ok s"
| "bwf (BBytes s) = str_ok s"
| "bwf (BList vs) = list_all bwf vs"
| "bwf (BStrs ss) = list_all str_ok ss"
| "bwf (BDict kvs) = (distinct (map fst kvs) \<and> list_all (\<lambda>(k, v). str_ok k \<and> bwf v) kvs)"
| "bwf BOther = True"

definition reads :: "nat \<Rightarrow> string \<Rightarrow> bval \<Rightarrow> bool" where
  "reads depth s w \<longleftrightarrow> s \<noteq> [] \<and> hd s \<noteq> CHR ''e'' \<and>
     (\<forall>n rest. 2 * length s + 1 \<le> n \<longrightarrow> bdecodeValue n (s @ rest) depth = BOk (w, rest))"

lemma length_show_nat: "length (show_nat n) \<le> n + 1"
proof (induction n rule: show_nat.induct)
  case (1 n)
  then show ?case by (subst show_nat.simps) auto
qed

lemma is_digit_char: "d < 10 \<Longrightarrow> is_digit (digit_char d)"
proof -
  assume "d < 10"
  then have "d \<in> {0, 1, 2, 3, 4, 5, 6, 7, 8, 9}" by auto
  then show ?thesis by (auto simp: is_digit_def digit_char_def less_eq_char_def)
qed

lemma digit_not_letter: "is_digit c \<Longrightarrow> c \<noteq> CHR ''i'' \<and> c \<noteq> CHR ''e'' \<and> c \<noteq> CHR ''l'' \<and> c \<noteq> CHR ''d''"
  by (auto simp: is_digit_def less_eq_char_def)

lemma show_int_no_colon: "CHR '':'' \<notin> set (show_int i)"
proof
  assume "CHR '':'' \<in> set (show_int i)"
  then obtain d where "d < 10" "CHR '':'' = digit_char d" by (auto dest: set_show_int)
  with digit_char_neq(5) [of d] show False by simp
qed

lemma bencodeStr_reads:
  assumes "bencodeStr depth s = Inr t" and "str_ok s"
  shows "reads depth t (BStr s)"
proof -
  let ?l = "show_int (int (length s))"
  have t: "t = ?l @ CHR '':'' # s" and d: "\<not> bdecodeMaxDepth < depth"
    using assms(1) by (auto simp: bencodeStr_def split: if_splits)
  have l: "?l = show_nat (length s)" by (simp add: show_int_def)
  obtain c where c: "c < 10" "hd (show_nat (length s)) = digit_char c" using hd_show_nat by blast
  then have hd: "is_digit (hd (?l @ x))" for x by (simp add: l is_digit_char)
  have len: "int64_range (int (length s))" using assms(2) by (simp add: str_ok_def int64_range_def)
  have hi: "wrap64 (int (length ?l) + 1 + int (length s)) = int (length ?l) + 1 + int (length s)"
    using length_show_nat [of "length s"] assms(2) by (intro wrap64_id) (simp add: int64_range_def str_ok_def l)
  have "bdecodeStr (t @ rest) = BOk (BStr s, rest)" for rest
    using indexByte_append [OF show_int_no_colon, of "int (length s)" "s @ rest"] len
    by (simp add: bdecodeStr_def t parse_show_int hi Let_def nat_add_distrib nat_diff_distrib del: of_nat_add)
  moreover have "bdecodeValue (Suc n) (t @ rest) depth = bdecodeStr (t @ rest)" for n rest
    using d hd [of "CHR '':'' # s @ rest"] digit_not_letter by (auto simp: t)
  ultimately show ?thesis
    using hd [of "CHR '':'' # s"] digit_not_letter
    by (auto simp: reads_def t Suc_le_D dest!: Suc_le_D)
qed

lemma bencodeInt_reads:
  assumes "\<not> bdecodeMaxDepth < depth" and "int64_range i"
  shows "reads depth (''i'' @ show_int i @ ''e'') (BInt i)"
proof -
  have "indexByte (CHR ''i'' # show_int i @ CHR ''e'' # rest) (CHR ''e'') = Some (Suc (length (show_int i)))" for rest
    using indexByte_append [OF show_int_no_e, of i rest] by simp
  then have "bdecodeInt (CHR ''i'' # show_int i @ CHR ''e'' # rest) = BOk (BInt i, rest)" for rest
    using assms(2) by (simp add: bdecodeInt_def parse_show_int)
  with assms(1) show ?thesis by (auto simp: reads_def dest!: Suc_le_D)
qed

lemma cat_res_Inr: "cat_res rs = Inr s \<Longrightarrow> \<exists>ss. rs = map Inr ss \<and> s = concat ss"
proof (induction rs arbitrary: s)
  case (Cons r rs)
  then obtain t u where "r = Inr t" "cat_res rs = Inr u" "s = t @ u"
    by (cases r) (auto split: sum.splits)
  with Cons.IH [of u] obtain ss where "rs = map Inr ss" "u = concat ss" by auto
  with \<open>r = Inr t\<close> \<open>s = t @ u\<close> show ?case by (intro exI [of _ "t # ss"]) simp
qed simp

lemma wrap_res_Inr: "wrap_res c r = Inr s \<Longrightarrow> \<exists>t. r = Inr t \<and> s = c # t @ ''e''"
  by (auto simp: wrap_res_def split: sum.splits)

lemma readsD: "reads depth s w \<Longrightarrow> 2 * length s + 1 \<le> n \<Longrightarrow> bdecodeValue n (s @ rest) depth = BOk (w, rest)"
  by (auto simp: reads_def)

lemma bdecodeList_reads:
  assumes "list_all2 (reads (depth + 1)) ss ws" and "2 * length (concat ss) + 4 \<le> n"
  shows "bdecodeList n (concat ss @ CHR ''e'' # rest) depth acc = BOk (BList (acc @ ws), rest)"
  using assms
proof (induction ss ws arbitrary: n acc rule: list_all2_induct)
  case Nil
  then obtain k where "n = Suc k" by (cases n) auto
  then show ?case by simp
next
  case (Cons s ss w ws)
  from Cons.prems obtain k where n: "n = Suc k" by (cases n) auto
  have s: "s \<noteq> []" "hd s \<noteq> CHR ''e''" using Cons.hyps by (auto simp: reads_def)
  then obtain l where l: "length s = Suc l" by (cases s) auto
  have "bdecodeValue k (s @ concat ss @ CHR ''e'' # rest) (depth + 1) = BOk (w, concat ss @ CHR ''e'' # rest)"
    by (rule readsD) (use Cons.hyps Cons.prems n in auto)
  moreover have "bdecodeList k (concat ss @ CHR ''e'' # rest) depth (acc @ [w]) = BOk (BList ((acc @ [w]) @ ws), rest)"
  proof (rule Cons.IH)
    have "2 * (length s + length (concat ss)) + 4 \<le> Suc k" using Cons.prems n by simp
    with l show "2 * length (concat ss) + 4 \<le> k" by simp
  qed
  ultimately show ?case using s n by simp
qed

definition reads_entry :: "nat \<Rightarrow> string \<times> string \<Rightarrow> string \<times> bval \<Rightarrow> bool" where
  "reads_entry depth st kw \<longleftrightarrow> reads depth (fst st) (BStr (fst kw)) \<and> reads depth (snd st) (snd kw)"

lemma bdecodeDict_reads:
  assumes "list_all2 (reads_entry (depth + 1)) sts kws"
    and "2 * length (concat (map (\<lambda>(s, t). s @ t) sts)) + 4 \<le> n"
    and "distinct (map fst kws)" "fst ` set kws \<inter> fst ` set acc = {}"
  shows "bdecodeDict n (concat (map (\<lambda>(s, t). s @ t) sts) @ CHR ''e'' # rest) depth acc = BOk (BDict (acc @ kws), rest)"
  using assms
proof (induction sts kws arbitrary: n acc rule: list_all2_induct)
  case Nil
  then obtain k where "n = Suc k" by (cases n) auto
  then show ?case by simp
next
  case (Cons st sts kw kws)
  obtain s t where st: "st = (s, t)" by (cases st)
  obtain key w where kw: "kw = (key, w)" by (cases kw)
  let ?tail = "concat (map (\<lambda>(s, t). s @ t) sts) @ CHR ''e'' # rest"
  from Cons.prems obtain k where n: "n = Suc k" by (cases n) auto
  have r: "reads (depth + 1) s (BStr key)" "reads (depth + 1) t w"
    using Cons.hyps by (simp_all add: reads_entry_def st kw)
  then have s: "s \<noteq> []" "hd s \<noteq> CHR ''e''" by (auto simp: reads_def)
  then obtain l where l: "length s = Suc l" by (cases s) auto
  have "bdecodeValue k (s @ t @ ?tail) (depth + 1) = BOk (BStr key, t @ ?tail)"
    "bdecodeValue k (t @ ?tail) (depth + 1) = BOk (w, ?tail)"
    using Cons.prems(1) n by (auto intro!: readsD r [simplified] simp: st)
  moreover have "bdecodeDict k ?tail depth (acc @ [(key, w)]) = BOk (BDict ((acc @ [(key, w)]) @ kws), rest)"
  proof (rule Cons.IH)
    have "2 * (length s + length t + length (concat (map (\<lambda>(s, t). s @ t) sts))) + 4 \<le> Suc k"
      using Cons.prems(1) n by (simp add: st)
    with l show "2 * length (concat (map (\<lambda>(s, t). s @ t) sts)) + 4 \<le> k" by simp
  qed (use Cons.prems kw in auto)
  moreover have "gput key w acc = acc @ [(key, w)]"
    by (rule gput_fresh) (use Cons.prems(3) kw in auto)
  ultimately show ?case using s n by (simp add: st kw)
qed

lemma insort_key_map_snd:
  "insort_key fst (k, f v) (map (\<lambda>(k, v). (k, f v)) xs) = map (\<lambda>(k, v). (k, f v)) (insort_key fst (k, v) xs)"
  by (induction xs) auto

lemma sort_key_map_snd:
  "sort_key fst (map (\<lambda>(k, v). (k, f v)) xs) = map (\<lambda>(k, v). (k, f v)) (sort_key fst xs)"
  by (induction xs) (auto simp: insort_key_map_snd)

lemma dict_entries:
  assumes "cat_res (concat (map (\<lambda>(k, r). [bencodeStr d k, r]) (map (\<lambda>(k, v). (k, f v)) kvs))) = Inr s"
  shows "\<exists>sts. s = concat (map (\<lambda>(s, t). s @ t) sts) \<and>
    list_all2 (\<lambda>st kv. bencodeStr d (fst kv) = Inr (fst st) \<and> f (snd kv) = Inr (snd st)) sts kvs"
  using assms
proof (induction kvs arbitrary: s)
  case (Cons kv kvs)
  obtain k v where kv: "kv = (k, v)" by (cases kv)
  with Cons.prems obtain a b u where "bencodeStr d k = Inr a" "f v = Inr b" "s = a @ b @ u"
    "cat_res (concat (map (\<lambda>(k, r). [bencodeStr d k, r]) (map (\<lambda>(k, v). (k, f v)) kvs))) = Inr u"
    by (cases "bencodeStr d k"; cases "f v") (auto split: sum.splits)
  with Cons.IH [of u] kv obtain sts where "s = concat (map (\<lambda>(s, t). s @ t) ((a, b) # sts))"
    "list_all2 (\<lambda>st kv. bencodeStr d (fst kv) = Inr (fst st) \<and> f (snd kv) = Inr (snd st)) ((a, b) # sts) (kv # kvs)"
    by auto
  then show ?case by blast
qed auto

lemma bracket_reads:
  assumes "\<not> bdecodeMaxDepth < depth" and "c = CHR ''l'' \<or> c = CHR ''d''"
    and "\<And>n rest. 2 * length t + 4 \<le> n \<Longrightarrow>
      (if c = CHR ''l'' then bdecodeList n (t @ CHR ''e'' # rest) depth []
       else bdecodeDict n (t @ CHR ''e'' # rest) depth []) = BOk (w, rest)"
  shows "reads depth (c # t @ ''e'') w"
proof -
  have "\<not> is_digit c" using assms(2) digit_not_letter by blast
  moreover have "bdecodeValue n ((c # t @ ''e'') @ rest) depth = BOk (w, rest)"
    if n: "2 * length (c # t @ ''e'') + 1 \<le> n" for n rest
  proof -
    from n obtain m where m: "n = Suc m" by (cases n) auto
    with n assms(3) [of m rest] \<open>\<not> is_digit c\<close> assms(1,2) show ?thesis by auto
  qed
  ultimately show ?thesis using assms(2) by (auto simp: reads_def)
qed

lemma bencodeInto_reads: "bencodeInto depth v = Inr s \<Longrightarrow> bwf v \<Longrightarrow> reads depth s (bnorm v)"
proof (induction depth v arbitrary: s rule: bencodeInto.induct)
  case (3 depth i)
  then show ?case by (auto split: if_splits dest: bencodeInt_reads)
next
  case (4 depth vs)
  from "4.prems" obtain t where d: "\<not> bdecodeMaxDepth < depth" and s: "s = CHR ''l'' # t @ ''e''"
    and t: "cat_res (map (bencodeInto (depth + 1)) vs) = Inr t" by (auto split: if_splits dest: wrap_res_Inr)
  from cat_res_Inr [OF t] obtain ss where ss: "map (bencodeInto (depth + 1)) vs = map Inr ss" "t = concat ss" by blast
  have "list_all2 (reads (depth + 1)) ss (map bnorm vs)"
  proof (rule list_all2_all_nthI)
    show len: "length ss = length (map bnorm vs)" using arg_cong [OF ss(1), of length] by simp
    show "reads (depth + 1) (ss ! i) (map bnorm vs ! i)" if "i < length ss" for i
    proof -
      have "bencodeInto (depth + 1) (vs ! i) = Inr (ss ! i)"
        using arg_cong [OF ss(1), of "\<lambda>x. x ! i"] that len by simp
      with "4.IH" [OF d nth_mem] "4.prems"(2) that len show ?thesis by (simp add: list_all_length)
    qed
  qed
  then show ?case unfolding s bnorm.simps
    by (intro bracket_reads d) (simp_all add: bdecodeList_reads ss(2))
next
  case (5 depth zs)
  from "5.prems" obtain t where d: "\<not> bdecodeMaxDepth < depth" and s: "s = CHR ''l'' # t @ ''e''"
    and t: "cat_res (map (bencodeStr (depth + 1)) zs) = Inr t" by (auto split: if_splits dest: wrap_res_Inr)
  from cat_res_Inr [OF t] obtain ss where ss: "map (bencodeStr (depth + 1)) zs = map Inr ss" "t = concat ss" by blast
  have "list_all2 (reads (depth + 1)) ss (map BStr zs)"
  proof (rule list_all2_all_nthI)
    show len: "length ss = length (map BStr zs)" using arg_cong [OF ss(1), of length] by simp
    show "reads (depth + 1) (ss ! i) (map BStr zs ! i)" if "i < length ss" for i
      using arg_cong [OF ss(1), of "\<lambda>x. x ! i"] that len "5.prems"(2)
      by (simp add: list_all_length bencodeStr_reads)
  qed
  then show ?case unfolding s bnorm.simps
    by (intro bracket_reads d) (simp_all add: bdecodeList_reads ss(2))
next
  case (6 depth kvs)
  let ?srt = "sort_key fst kvs"
  from "6.prems" obtain t where d: "\<not> bdecodeMaxDepth < depth" and s: "s = CHR ''d'' # t @ ''e''"
    and t: "cat_res (concat (map (\<lambda>(k, r). [bencodeStr (depth + 1) k, r])
           (map (\<lambda>(k, v). (k, bencodeInto (depth + 1) v)) ?srt))) = Inr t"
    by (auto split: if_splits dest: wrap_res_Inr simp: sort_key_map_snd simp del: map_map)
  from dict_entries [OF t] obtain sts where sts: "t = concat (map (\<lambda>(s, t). s @ t) sts)"
    "list_all2 (\<lambda>st kv. bencodeStr (depth + 1) (fst kv) = Inr (fst st) \<and> bencodeInto (depth + 1) (snd kv) = Inr (snd st)) sts ?srt"
    by blast
  have ok: "str_ok k" "bwf v" if "(k, v) \<in> set ?srt" for k v
    using "6.prems"(2) that by (auto simp: list_all_iff)
  have "list_all2 (\<lambda>st kv. reads_entry (depth + 1) st (fst kv, bnorm (snd kv))) sts ?srt"
  proof (rule list.rel_mono_strong [OF sts(2)])
    fix st kv assume "st \<in> set sts" "kv \<in> set ?srt" and
      "bencodeStr (depth + 1) (fst kv) = Inr (fst st) \<and> bencodeInto (depth + 1) (snd kv) = Inr (snd st)"
    with ok "6.IH" [OF d _ prod.collapse [symmetric]] show "reads_entry (depth + 1) st (fst kv, bnorm (snd kv))"
      by (cases kv) (force simp: reads_entry_def intro: bencodeStr_reads)
  qed
  then have r: "list_all2 (reads_entry (depth + 1)) sts (map (\<lambda>(k, v). (k, bnorm v)) ?srt)"
    by (simp add: list_all2_map2 case_prod_beta)
  have keys: "distinct (map fst (map (\<lambda>(k, v). (k, bnorm v)) ?srt))"
    using "6.prems"(2) by (auto simp: case_prod_beta comp_def distinct_map inj_on_def)
  show ?case unfolding s bnorm.simps sort_key_map_snd
    by (intro bracket_reads d) (use bdecodeDict_reads [OF r _ keys, of _ "[]"] in \<open>simp_all add: sts(1)\<close>)
qed (auto intro: bencodeStr_reads split: if_splits)

lemma deep_lists:
  assumes "33 < depth + n" "depth \<le> 33" "2 * n + 1 \<le> m"
  shows "bdecodeValue m (replicate n (CHR ''l'') @ rest) depth = BErr NestingTooDeep"
  using assms
proof (induction n arbitrary: m depth)
  case 0
  then show ?case by simp
next
  case (Suc n)
  define k where "k = m - 2"
  with Suc.prems have m: "m = Suc (Suc k)" by simp
  have "\<not> is_digit (CHR ''l'')" using digit_not_letter by blast
  show ?case
  proof (cases "bdecodeMaxDepth < depth")
    case True
    then show ?thesis by (simp add: m)
  next
    case False
    then have "depth \<le> 32" by (simp add: bdecodeMaxDepth_def)
    with Suc.prems obtain j where n: "n = Suc j" by (cases n) auto
    have "bdecodeValue k (replicate n (CHR ''l'') @ rest) (depth + 1) = BErr NestingTooDeep"
      by (rule Suc.IH) (use Suc.prems \<open>depth \<le> 32\<close> m in auto)
    with False \<open>\<not> is_digit (CHR ''l'')\<close> show ?thesis by (simp add: m n)
  qed
qed

lemma huge_length_panics:
  assumes "int64_range i" "0 \<le> i" "2 ^ 63 \<le> int (length (show_int i)) + 1 + i" "length (show_int i) < 2 ^ 62"
  shows "bdecodeStr (show_int i @ '':'' @ rest) = BPanic"
proof -
  have w: "wrap64 (int (length (show_int i)) + 1 + i) = int (length (show_int i)) + 1 + i - 2 ^ 64"
    using assms by (intro wrap64_overflow) (auto simp: int64_range_def)
  have "int (length (show_int i)) + 1 + i - 2 ^ 64 < 0" using assms(1,4) by (simp add: int64_range_def)
  then show ?thesis
    using indexByte_append [OF show_int_no_colon, of i rest] assms(1,2)
    by (simp add: bdecodeStr_def parse_show_int w Let_def)
qed

section \<open>Properties\<close>

text \<open>
  The codec is inverse. Every value the encoder accepts decodes, from its encoding, to the
  same value, with byte and string slices as strings and lists and dictionaries in key order.
\<close>

theorem bencode_roundtrip:
  assumes "bencode v = Inr s" and "bwf v"
  shows "bdecode s = BOk (bnorm v)"
  using bencodeInto_reads [of 0 v s] readsD [of 0 s "bnorm v" "2 * length s + 1" "[]"] assms
  by (simp add: bencode_def bdecode_def)

theorem bencode_roundtrip_witness:
  "bdecode ''d1:ad2:id3:abce1:q4:ping1:t2:aae'' =
     BOk (BDict [(''a'', BDict [(''id'', BStr ''abc'')]), (''q'', BStr ''ping''), (''t'', BStr ''aa'')])"
proof -
  let ?v = "BDict [(''t'', BBytes ''aa''), (''q'', BStr ''ping''), (''a'', BDict [(''id'', BBytes ''abc'')])]"
  have "bencode ?v = Inr ''d1:ad2:id3:abce1:q4:ping1:t2:aae''" by code_simp
  moreover have "bwf ?v" by (simp add: str_ok_def)
  moreover have "bnorm ?v = BDict [(''a'', BDict [(''id'', BStr ''abc'')]), (''q'', BStr ''ping''), (''t'', BStr ''aa'')]"
    by code_simp
  ultimately show ?thesis using bencode_roundtrip [of ?v] by simp
qed

text \<open>
  The decoder ends on every input, and its recursion is bounded: 34 or more nested lists
  are refused, whatever follows them.
\<close>

theorem bdecode_bounded:
  "bdecode data \<noteq> BFuel \<and> bdecode (replicate (n + 34) (CHR ''l'') @ rest) = BErr NestingTooDeep"
proof
  show "bdecode data \<noteq> BFuel"
    using bdecode_enough_fuel [of data "2 * length data + 1" 0]
    by (auto simp: bdecode_def simp del: bdecodeValue.simps split: bres.splits)
  show "bdecode (replicate (n + 34) (CHR ''l'') @ rest) = BErr NestingTooDeep"
    unfolding bdecode_def by (subst deep_lists) auto
qed

text \<open>
  C10: One short datagram crashes the decoder. A declared string length so close to the largest
  integer that adding the offset of its first byte wraps passes the bounds check, and slicing
  with the negative end panics, here as the first key of a dictionary, the form of every DHT
  message.
\<close>

theorem bdecode_length_overflow:
  assumes "int64_range i" "0 \<le> i" "2 ^ 63 \<le> int (length (show_int i)) + 1 + i" "length (show_int i) < 2 ^ 62"
  shows "bdecode (''d'' @ show_int i @ '':'' @ rest) = BPanic"
proof -
  obtain c where "c < 10" "hd (show_nat (nat i)) = digit_char c" using hd_show_nat by blast
  then have hd: "is_digit (hd (show_int i @ '':'' @ rest))" using assms(2) by (simp add: show_int_def is_digit_char)
  then have ne: "hd (show_int i @ '':'' @ rest) \<notin> {CHR ''e'', CHR ''i''}" using digit_not_letter by blast
  have "\<not> is_digit (CHR ''d'')" using digit_not_letter by blast
  define k where "k = 2 * length (show_int i @ '':'' @ rest)"
  then have k: "2 * length (''d'' @ show_int i @ '':'' @ rest) + 1 = Suc (Suc (Suc k))" by simp
  show ?thesis
    unfolding bdecode_def k
    using hd ne \<open>\<not> is_digit (CHR ''d'')\<close> huge_length_panics [OF assms, of rest]
    by (simp add: bdecodeMaxDepth_def)
qed

theorem bdecode_length_overflow_witness: "bdecode ''d9223372036854775807:'' = BPanic"
proof -
  have d: "map digit_char [0, 1, 2, 3, 4, 5, 6, 7, 8, 9] = ''0123456789''" by code_simp
  have s: "show_int 9223372036854775807 = ''9223372036854775807''"
    using d by (simp add: show_int_def show_nat.simps)
  have "bdecode (''d'' @ show_int 9223372036854775807 @ '':'' @ []) = BPanic"
    by (rule bdecode_length_overflow) (simp_all add: s int64_range_def)
  then show ?thesis by (simp add: s)
qed

end
