(* ===== verification/Bandwidth.thy ===== *)
theory Bandwidth
  imports Go_Strings Complex_Main
begin

text \<open>
  Metering of donated bandwidth, \<open>client/bandwidth.go\<close>: the token bucket, the period quota
  and the parser of human-readable limits.

  A \<open>float64\<close> is an exact \<open>rat\<close>: rounding is not modelled. The state file of the quota is the
  field \<open>bw_file\<close>; a missing or unreadable file is \<open>None\<close>.
\<close>

section \<open>Token bucket\<close>

record tokenBucket =
  tb_rate :: rat
  tb_burst :: rat
  tb_tokens :: rat
  tb_lastFill :: go_time

definition SetRate :: "tokenBucket \<Rightarrow> int \<Rightarrow> tokenBucket" where
  "SetRate b bytesPerSec =
     (let b = b\<lparr>tb_rate := of_int bytesPerSec\<rparr> in
      if bytesPerSec \<le> 0 then b\<lparr>tb_burst := 0, tb_tokens := 0\<rparr>
      else
        let burst = of_int bytesPerSec; burst = (if burst < 65536 then 65536 else burst);
          b = b\<lparr>tb_burst := burst\<rparr>
        in if tb_tokens b > burst then b\<lparr>tb_tokens := burst\<rparr> else b)"

definition newTokenBucket :: "go_time \<Rightarrow> int \<Rightarrow> tokenBucket" where
  "newTokenBucket now bytesPerSec =
     (let b = SetRate \<lparr>tb_rate = 0, tb_burst = 0, tb_tokens = 0, tb_lastFill = now\<rparr> bytesPerSec
      in b\<lparr>tb_tokens := tb_burst b\<rparr>)"

definition seconds :: "duration \<Rightarrow> rat" where
  "seconds d = of_int d / 1000000000"

definition Allow :: "tokenBucket \<Rightarrow> go_time \<Rightarrow> int \<Rightarrow> bool \<times> tokenBucket" where
  "Allow b now n =
     (if tb_rate b \<le> 0 then (True, b)
      else
        let elapsed = seconds (time_sub now (tb_lastFill b));
          b = b\<lparr>tb_lastFill := now, tb_tokens := tb_tokens b + elapsed * tb_rate b\<rparr>;
          b = (if tb_tokens b > tb_burst b then b\<lparr>tb_tokens := tb_burst b\<rparr> else b)
        in if tb_tokens b < of_int n then (False, b)
           else (True, b\<lparr>tb_tokens := tb_tokens b - of_int n\<rparr>))"

section \<open>Period quota\<close>

record quotaCounters =
  qc_PeriodStart :: go_time
  qc_BytesUp :: int
  qc_BytesDown :: int
  qc_Circuits :: int

record bandwidthLimiter =
  bw_up :: tokenBucket
  bw_down :: tokenBucket
  quotaBytes :: int
  periodDays :: int
  bw_counters :: quotaCounters
  bw_path :: string
  bw_dirty :: bool
  bw_file :: "quotaCounters option"

definition bw_load :: "go_time \<Rightarrow> bandwidthLimiter \<Rightarrow> bandwidthLimiter" where
  "bw_load now l =
     (if bw_path l = [] then l\<lparr>bw_counters := (bw_counters l)\<lparr>qc_PeriodStart := now\<rparr>\<rparr>
      else case bw_file l of
          None \<Rightarrow> l\<lparr>bw_counters := (bw_counters l)\<lparr>qc_PeriodStart := now\<rparr>\<rparr>
        | Some c \<Rightarrow> l\<lparr>bw_counters := (if qc_PeriodStart c = 0 then c\<lparr>qc_PeriodStart := now\<rparr> else c)\<rparr>)"

definition bw_save :: "bandwidthLimiter \<Rightarrow> bandwidthLimiter" where
  "bw_save l =
     (if \<not> bw_dirty l \<or> bw_path l = [] then l else l\<lparr>bw_dirty := False, bw_file := Some (bw_counters l)\<rparr>)"

definition zero_counters :: quotaCounters where
  "zero_counters = \<lparr>qc_PeriodStart = 0, qc_BytesUp = 0, qc_BytesDown = 0, qc_Circuits = 0\<rparr>"

definition newBandwidthLimiter ::
  "go_time \<Rightarrow> int \<Rightarrow> int \<Rightarrow> int \<Rightarrow> int \<Rightarrow> string \<Rightarrow> quotaCounters option \<Rightarrow> bandwidthLimiter" where
  "newBandwidthLimiter now upBps downBps quota days path file =
     bw_load now \<lparr>bw_up = newTokenBucket now upBps, bw_down = newTokenBucket now downBps, quotaBytes = quota,
       periodDays = (if days \<le> 0 then 30 else days), bw_counters = zero_counters, bw_path = path, bw_dirty = False,
       bw_file = file\<rparr>"

definition rollPeriodLocked :: "bandwidthLimiter \<Rightarrow> go_time \<Rightarrow> bandwidthLimiter" where
  "rollPeriodLocked l now =
     (if time_sub now (qc_PeriodStart (bw_counters l)) < wrap64 (periodDays l * 24 * hour) then l
      else l\<lparr>bw_counters := zero_counters\<lparr>qc_PeriodStart := now\<rparr>, bw_dirty := True\<rparr>)"

definition used_bytes :: "bandwidthLimiter \<Rightarrow> int" where
  "used_bytes l = qc_BytesUp (bw_counters l) + qc_BytesDown (bw_counters l)"

definition QuotaExceeded :: "bandwidthLimiter \<Rightarrow> go_time \<Rightarrow> bool \<times> bandwidthLimiter" where
  "QuotaExceeded l now =
     (let l = rollPeriodLocked l now in
      if quotaBytes l \<le> 0 then (False, l) else (quotaBytes l \<le> used_bytes l, l))"

definition AllowUp :: "bandwidthLimiter \<Rightarrow> go_time \<Rightarrow> int \<Rightarrow> bool \<times> bandwidthLimiter" where
  "AllowUp l now n =
     (let (q, l) = QuotaExceeded l now in
      if q then (False, l)
      else
        let (ok, b) = Allow (bw_up l) now n; l = l\<lparr>bw_up := b\<rparr> in
        if \<not> ok then (False, l)
        else (True, l\<lparr>bw_counters := (bw_counters l)\<lparr>qc_BytesUp := qc_BytesUp (bw_counters l) + n\<rparr>, bw_dirty := True\<rparr>))"

definition AllowDown :: "bandwidthLimiter \<Rightarrow> go_time \<Rightarrow> int \<Rightarrow> bool \<times> bandwidthLimiter" where
  "AllowDown l now n =
     (let (q, l) = QuotaExceeded l now in
      if q then (False, l)
      else
        let (ok, b) = Allow (bw_down l) now n; l = l\<lparr>bw_down := b\<rparr> in
        if \<not> ok then (False, l)
        else (True, l\<lparr>bw_counters := (bw_counters l)\<lparr>qc_BytesDown := qc_BytesDown (bw_counters l) + n\<rparr>, bw_dirty := True\<rparr>))"

definition NoteCircuit :: "bandwidthLimiter \<Rightarrow> bandwidthLimiter" where
  "NoteCircuit l = l\<lparr>bw_counters := (bw_counters l)\<lparr>qc_Circuits := qc_Circuits (bw_counters l) + 1\<rparr>, bw_dirty := True\<rparr>"

definition Configure :: "bandwidthLimiter \<Rightarrow> int \<Rightarrow> int \<Rightarrow> int \<Rightarrow> int \<Rightarrow> bandwidthLimiter" where
  "Configure l upBps downBps quota days =
     (let l = l\<lparr>bw_up := SetRate (bw_up l) upBps, bw_down := SetRate (bw_down l) downBps, quotaBytes := quota\<rparr>;
        l = (if days > 0 then l\<lparr>periodDays := days\<rparr> else l)
      in l\<lparr>bw_dirty := True\<rparr>)"

section \<open>Parsing a limit\<close>

text \<open>\<open>strconv.ParseFloat\<close> on digits and points: at least one digit, at most one point.\<close>

definition dec_val :: "string \<Rightarrow> rat" where
  "dec_val s = foldl (\<lambda>a c. a * 10 + of_nat (case digit_val c of None \<Rightarrow> 0 | Some d \<Rightarrow> d)) 0 s"

definition parseFloatSafe :: "string \<Rightarrow> rat" where
  "parseFloatSafe s =
     (let i = takeWhile (\<lambda>c. c \<noteq> CHR ''.'') s; r = dropWhile (\<lambda>c. c \<noteq> CHR ''.'') s; f = drop 1 r in
      if CHR ''.'' \<in> set f \<or> i @ f = [] then 0
      else dec_val i + dec_val f / 10 ^ length f)"

definition has_suffix :: "string \<Rightarrow> string \<Rightarrow> bool" where
  "has_suffix s t \<longleftrightarrow> length t \<le> length s \<and> drop (length s - length t) s = t"

definition hasSuffixAny :: "string \<Rightarrow> string list \<Rightarrow> bool" where
  "hasSuffixAny s ts = list_ex (\<lambda>t. has_suffix s (to_lower t)) ts"

definition hasPrefixAny :: "string \<Rightarrow> string list \<Rightarrow> bool" where
  "hasPrefixAny s ts = list_ex (\<lambda>t. take (length t) s = t) ts"

definition trimLowerSpace :: "string \<Rightarrow> string" where
  "trimLowerSpace s = to_lower (trim_space s)"

fun trimSuffixAny :: "string \<Rightarrow> string list \<Rightarrow> string" where
  "trimSuffixAny s [] = s"
| "trimSuffixAny s (t # ts) = (if has_suffix s t then trim_space (take (length s - length t) s) else trimSuffixAny s ts)"

definition parseRate :: "string \<Rightarrow> int" where
  "parseRate s =
     (let s = trimLowerSpace s in
      if s = [] \<or> s = ''0'' \<or> s = ''unlimited'' \<or> s = ''none'' then 0
      else
        let num = (\<lambda>c. digit_val c \<noteq> None \<or> c = CHR ''.''); pre = takeWhile num s in
        if pre = [] then 0
        else
          let val = parseFloatSafe pre;
            unit = trimSuffixAny (trimLowerSpace (dropWhile num s)) [''/s'', ''ps'', ''per second'', ''sec''];
            bits = (hasSuffixAny unit [''bit'', ''bits'', ''b''] \<and> \<not> hasSuffixAny unit [''byte'', ''bytes'', ''B'']);
            binary = hasSuffixAny unit [''ib'', ''ib/s'', ''ibps''];
            k = (if binary then 1024 else 1000);
            mult = (if hasPrefixAny unit [''k''] then k else if hasPrefixAny unit [''m''] then k ^ 2
              else if hasPrefixAny unit [''g''] then k ^ 3 else if hasPrefixAny unit [''t''] then k ^ 4 else 1);
            out = val * mult;
            out = (if bits then out / 8 else out)
          in if out < 0 then 0 else \<lfloor>out\<rfloor>)"

section \<open>The bucket bounds what it admits\<close>

text \<open>Bytes admitted by a run of calls \<open>(time, size)\<close>.\<close>

fun bucket_run :: "tokenBucket \<Rightarrow> (go_time \<times> int) list \<Rightarrow> int" where
  "bucket_run b [] = 0"
| "bucket_run b ((t, n) # cs) = (let (ok, b') = Allow b t n in (if ok then n else 0) + bucket_run b' cs)"

lemma seconds_time_sub: "b \<le> a \<Longrightarrow> 0 \<le> seconds (time_sub a b) \<and> seconds (time_sub a b) \<le> of_int (a - b) / 1000000000"
  by (auto simp: seconds_def time_sub_def max_duration_def min_duration_def divide_right_mono simp del: of_int_diff)

lemma Allow_step:
  assumes "Allow b t n = (ok, b')" "0 < tb_rate b" "0 \<le> tb_tokens b" "0 \<le> tb_burst b" "tb_lastFill b \<le> t" "0 \<le> n"
  shows "tb_rate b' = tb_rate b" "tb_burst b' = tb_burst b" "tb_lastFill b' = t" "0 \<le> tb_tokens b'"
    "of_int (if ok then n else 0) + tb_tokens b' \<le> tb_tokens b + tb_rate b * (of_int (t - tb_lastFill b) / 1000000000)"
proof -
  let ?e = "seconds (time_sub t (tb_lastFill b))"
  let ?f = "min (tb_burst b) (tb_tokens b + ?e * tb_rate b)"
  have e: "0 \<le> ?e" "?e \<le> of_int (t - tb_lastFill b) / 1000000000"
    using seconds_time_sub [OF assms(5)] by auto
  from mult_left_mono [OF e(2), of "tb_rate b"] assms(2)
  have le: "?f \<le> tb_tokens b + tb_rate b * (of_int (t - tb_lastFill b) / 1000000000)"
    by (simp add: mult.commute min.coboundedI2)
  have pos: "0 \<le> ?f" using assms(2-4) e(1) by simp
  have "Allow b t n = (if ?f < of_int n then (False, b\<lparr>tb_lastFill := t, tb_tokens := ?f\<rparr>)
      else (True, b\<lparr>tb_lastFill := t, tb_tokens := ?f - of_int n\<rparr>))"
    using assms(2) by (auto simp: Allow_def Let_def min_def)
  with assms(1) have "b' = (if ok then b\<lparr>tb_lastFill := t, tb_tokens := ?f - of_int n\<rparr> else b\<lparr>tb_lastFill := t, tb_tokens := ?f\<rparr>)"
    "ok \<longleftrightarrow> \<not> ?f < of_int n" by (auto split: if_splits)
  then show "tb_rate b' = tb_rate b" "tb_burst b' = tb_burst b" "tb_lastFill b' = t" "0 \<le> tb_tokens b'"
    "of_int (if ok then n else 0) + tb_tokens b' \<le> tb_tokens b + tb_rate b * (of_int (t - tb_lastFill b) / 1000000000)"
    using le pos by auto
qed

lemma bucket_run_bound:
  assumes "0 < tb_rate b" "0 \<le> tb_tokens b" "0 \<le> tb_burst b"
    and "sorted (tb_lastFill b # map fst cs)" "\<forall>c\<in>set cs. 0 \<le> snd c"
  shows "of_int (bucket_run b cs) \<le> tb_tokens b + tb_rate b * (of_int (last (tb_lastFill b # map fst cs) - tb_lastFill b) / 1000000000)"
  using assms
proof (induction cs arbitrary: b)
  case (Cons c cs)
  obtain t n where c: "c = (t, n)" by (cases c)
  obtain ok b' where a: "Allow b t n = (ok, b')" by fastforce
  note st = Allow_step [OF a Cons.prems(1-3)]
  have tn: "tb_lastFill b \<le> t" "0 \<le> n" using Cons.prems(4,5) c by auto
  have "of_int (bucket_run b' cs) \<le> tb_tokens b' + tb_rate b' * (of_int (last (tb_lastFill b' # map fst cs) - tb_lastFill b') / 1000000000)"
    by (rule Cons.IH) (use st [OF tn] Cons.prems c in auto)
  then have "of_int (bucket_run b' cs) \<le> tb_tokens b' + tb_rate b * (of_int (last (t # map fst cs) - t) / 1000000000)"
    using st(1,3) [OF tn] by simp
  moreover have "tb_rate b * (of_int (last (t # map fst cs) - t) / 1000000000) + tb_rate b * (of_int (t - tb_lastFill b) / 1000000000)
      = tb_rate b * (of_int (last (t # map fst cs) - tb_lastFill b) / 1000000000)"
    by (simp add: field_simps)
  moreover have "of_int (bucket_run b (c # cs)) = (of_int (if ok then n else 0) + of_int (bucket_run b' cs) :: rat)"
    by (simp add: c a)
  ultimately show ?case using st(5) [OF tn] by (simp add: c)
qed simp

section \<open>Properties\<close>

text \<open>
  The rate ceiling holds over every interval. A bucket created at \<open>t0\<close> with a positive
  rate admits, in any run of calls up to time \<open>t\<close>, at most its burst (one second of traffic,
  at least 64 KiB) plus the rate times the elapsed seconds.
\<close>

theorem token_bucket_ceiling:
  assumes "0 < rate" and "sorted (t0 # map fst calls)" and "\<forall>c\<in>set calls. 0 \<le> snd c"
  shows "of_int (bucket_run (newTokenBucket t0 rate) calls) \<le>
    max (of_int rate) 65536 + (of_int rate :: rat) * (of_int (last (t0 # map fst calls) - t0) / 1000000000)"
proof -
  have b: "tb_rate (newTokenBucket t0 rate) = of_int rate" "tb_tokens (newTokenBucket t0 rate) = max (of_int rate) 65536"
    "tb_burst (newTokenBucket t0 rate) = max (of_int rate) 65536" "tb_lastFill (newTokenBucket t0 rate) = t0"
    using assms(1) by (auto simp: newTokenBucket_def SetRate_def Let_def max_def)
  have pos: "0 < tb_rate (newTokenBucket t0 rate)" "0 \<le> tb_tokens (newTokenBucket t0 rate)" "0 \<le> tb_burst (newTokenBucket t0 rate)"
    unfolding b using assms(1) by auto
  from bucket_run_bound [OF pos] assms(2,3) show ?thesis unfolding b by blast
qed

theorem token_bucket_ceiling_witness:
  "of_int (bucket_run (newTokenBucket 0 1000) [(0, 60000), (0, 60000), (1000000000, 6000)]) \<le> (66536 :: rat) \<and>
   bucket_run (newTokenBucket 0 1000) [(0, 60000), (0, 60000), (1000000000, 6000)] = 66000"
proof
  show "bucket_run (newTokenBucket 0 1000) [(0, 60000), (0, 60000), (1000000000, 6000)] = 66000"
    by (simp add: newTokenBucket_def SetRate_def Allow_def Let_def seconds_def time_sub_def duration_defs)
  show "of_int (bucket_run (newTokenBucket 0 1000) [(0, 60000), (0, 60000), (1000000000, 6000)]) \<le> (66536 :: rat)"
    using token_bucket_ceiling [of 1000 0 "[(0, 60000), (0, 60000), (1000000000, 6000)]"] by (simp del: bucket_run.simps)
qed

definition charge :: "bandwidthLimiter \<Rightarrow> bool \<times> go_time \<times> int \<Rightarrow> bandwidthLimiter" where
  "charge l c = (case c of (up, now, n) \<Rightarrow> snd (if up then AllowUp l now n else AllowDown l now n))"

lemma roll_used: "used_bytes (rollPeriodLocked l now) = used_bytes l \<or> used_bytes (rollPeriodLocked l now) = 0"
  by (simp add: rollPeriodLocked_def used_bytes_def zero_counters_def)

lemma roll_quota [simp]: "quotaBytes (rollPeriodLocked l now) = quotaBytes l"
  by (simp add: rollPeriodLocked_def)

lemma charge_quota [simp]: "quotaBytes (charge l c) = quotaBytes l"
  by (auto simp: charge_def AllowUp_def AllowDown_def QuotaExceeded_def Let_def split: prod.splits if_splits)

lemma charge_used:
  assumes "0 < quotaBytes l" "used_bytes l < quotaBytes l + N" "0 \<le> N" "snd (snd c) \<le> N"
  shows "used_bytes (charge l c) < quotaBytes l + N"
proof -
  obtain up now n where c: "c = (up, now, n)" by (cases c)
  let ?r = "rollPeriodLocked l now"
  have r: "used_bytes ?r < quotaBytes l + N" using roll_used [of l now] assms by auto
  have "used_bytes (charge l c) = used_bytes ?r \<or> used_bytes (charge l c) = used_bytes ?r + n \<and> used_bytes ?r < quotaBytes l"
    using assms(1)
    by (auto simp: c charge_def AllowUp_def AllowDown_def QuotaExceeded_def Let_def used_bytes_def split: prod.splits if_splits)
  with r assms(4) c show ?thesis by auto
qed

text \<open>
  The period budget is exceeded by less than one packet. With a quota, whatever charges
  of at most \<open>N\<close> bytes are attempted in whichever direction and at whatever times, the bytes
  counted in the current period stay below the quota plus \<open>N\<close>.
\<close>

theorem quota_overshoot_bounded:
  assumes "0 < quotaBytes l" "used_bytes l < quotaBytes l + N" "0 \<le> N" and "\<forall>c\<in>set cs. snd (snd c) \<le> N"
  shows "used_bytes (foldl charge l cs) < quotaBytes l + N"
  using assms
proof (induction cs arbitrary: l)
  case (Cons c cs)
  have "used_bytes (foldl charge (charge l c) cs) < quotaBytes (charge l c) + N"
    by (rule Cons.IH) (use Cons.prems charge_used [of l N c] in auto)
  then show ?case by simp
qed simp

definition demo_limiter :: bandwidthLimiter where
  "demo_limiter = newBandwidthLimiter 1 0 0 1000 30 [] None"

theorem quota_overshoot_bounded_witness:
  "used_bytes (foldl charge demo_limiter (replicate 9 (True, 2, 400))) < 1400 \<and>
   used_bytes (foldl charge demo_limiter [(True, 2, 400), (False, 2, 400), (True, 2, 400)]) = 1200"
proof
  have q: "quotaBytes demo_limiter = 1000" "used_bytes demo_limiter = 0"
    by (simp_all add: demo_limiter_def newBandwidthLimiter_def bw_load_def used_bytes_def zero_counters_def)
  then show "used_bytes (foldl charge demo_limiter (replicate 9 (True, 2, 400))) < 1400"
    using quota_overshoot_bounded [of demo_limiter 400 "replicate 9 (True, 2, 400)"] by (simp del: foldl_Cons)
  show "used_bytes (foldl charge demo_limiter [(True, 2, 400), (False, 2, 400), (True, 2, 400)]) = 1200"
    by (simp add: demo_limiter_def newBandwidthLimiter_def bw_load_def used_bytes_def zero_counters_def charge_def
        AllowUp_def AllowDown_def QuotaExceeded_def rollPeriodLocked_def Allow_def newTokenBucket_def SetRate_def
        time_sub_def duration_defs wrap64_def)
qed

end
