(* ===== verification/Public_Relay.thy ===== *)
theory Public_Relay
  imports Bandwidth Net_Addr
begin

text \<open>
  The public relay, \<open>client/publicrelay.go\<close>, server side: strangers present a group key,
  the relay pairs members of the same group and switches opaque datagrams between them.

  The relay's socket is the list of datagrams a call sends. \<open>crypto/rand\<close> is an argument: the
  list \<open>rnd\<close> of the 32-bit values drawn next. A call that would still be drawing ids when the
  list ends is \<open>None\<close>; \<open>newCircuitID_returns\<close> says which draws suffice. The map from hex group
  to reservations is keyed by the group itself, \<open>perIP\<close> by the IP.
\<close>

section \<open>Wire constants\<close>

definition PktRelay :: byte where "PktRelay = 0x10"
definition relayReserve :: byte where "relayReserve = 1"
definition relayReserveOK :: byte where "relayReserveOK = 2"
definition relayDeny :: byte where "relayDeny = 3"
definition relayConnect :: byte where "relayConnect = 4"
definition relayConnectOK :: byte where "relayConnectOK = 5"
definition relayOpen :: byte where "relayOpen = 6"
definition relayData :: byte where "relayData = 7"
definition relayClose :: byte where "relayClose = 8"
definition relayKeepalive :: byte where "relayKeepalive = 9"

lemmas relay_sub_defs = relayReserve_def relayReserveOK_def relayDeny_def relayConnect_def relayConnectOK_def
  relayOpen_def relayData_def relayClose_def relayKeepalive_def

definition denyDisabled :: byte where "denyDisabled = 1"
definition denyFull :: byte where "denyFull = 2"
definition denyQuota :: byte where "denyQuota = 3"
definition denyRate :: byte where "denyRate = 4"
definition denyNoGroup :: byte where "denyNoGroup = 5"

definition relayReservationTTL :: duration where "relayReservationTTL = 120 * second"
definition relayCircuitIdle :: duration where "relayCircuitIdle = 120 * second"
definition relayMaxPayload :: nat where "relayMaxPayload = 1500"

section \<open>State\<close>

record relayReservation =
  rr_addr :: udp_addr
  rr_group :: "byte list"
  rr_expires :: go_time

record relayCircuit =
  rc_id :: u32
  rc_a :: udp_addr
  rc_b :: udp_addr
  rc_created :: go_time
  rc_lastSeen :: go_time
  rc_bytes :: int
  rc_bucket :: tokenBucket

type_synonym datagram = "udp_addr \<times> byte list"

record publicRelay =
  pr_enabled :: bool
  pr_limits :: bandwidthLimiter
  reservations :: "(byte list \<times> relayReservation list) list"
  circuits :: "(u32 \<times> relayCircuit) list"
  perIP :: "(ip_addr option \<times> int) list"
  maxCircuits :: int
  maxPerIP :: int
  maxReservations :: int
  perCircuitBps :: int
  statCircuits :: u64
  statBytes :: u64
  statDenied :: u64
  statThrottled :: u64

definition startPublicRelay :: "bandwidthLimiter \<Rightarrow> int \<Rightarrow> int \<Rightarrow> int \<Rightarrow> publicRelay" where
  "startPublicRelay limits maxC maxI bps =
     \<lparr>pr_enabled = False, pr_limits = limits, reservations = [], circuits = [], perIP = [],
      maxCircuits = (if maxC \<le> 0 then 64 else maxC), maxPerIP = (if maxI \<le> 0 then 4 else maxI),
      maxReservations = 256, perCircuitBps = bps,
      statCircuits = 0, statBytes = 0, statDenied = 0, statThrottled = 0\<rparr>"

definition relay_send :: "udp_addr \<Rightarrow> byte \<Rightarrow> byte list \<Rightarrow> datagram" where
  "relay_send addr sub body = (addr, PktRelay # sub # body)"

definition deny :: "publicRelay \<Rightarrow> udp_addr \<Rightarrow> byte \<Rightarrow> publicRelay \<times> datagram list" where
  "deny r addr reason = (r\<lparr>statDenied := statDenied r + 1\<rparr>, [relay_send addr relayDeny [reason]])"

definition per_ip :: "publicRelay \<Rightarrow> udp_addr \<Rightarrow> int" where
  "per_ip r addr = (case gget (perIP r) (ua_IP addr) of None \<Rightarrow> 0 | Some n \<Rightarrow> n)"

definition set_per_ip :: "udp_addr \<Rightarrow> int \<Rightarrow> publicRelay \<Rightarrow> publicRelay" where
  "set_per_ip addr n r = r\<lparr>perIP := gput (ua_IP addr) n (perIP r)\<rparr>"

section \<open>Reservations\<close>

fun refresh_res :: "udp_addr \<Rightarrow> go_time \<Rightarrow> relayReservation list \<Rightarrow> relayReservation list option" where
  "refresh_res addr expires [] = None"
| "refresh_res addr expires (x # xs) =
     (if rr_addr x = addr then Some (x\<lparr>rr_expires := expires\<rparr> # xs)
      else map_option (Cons x) (refresh_res addr expires xs))"

definition res_of :: "publicRelay \<Rightarrow> byte list \<Rightarrow> relayReservation list" where
  "res_of r grp = (case gget (reservations r) grp of None \<Rightarrow> [] | Some l \<Rightarrow> l)"

definition reserve :: "publicRelay \<Rightarrow> go_time \<Rightarrow> byte list \<Rightarrow> udp_addr \<Rightarrow> bool \<times> publicRelay" where
  "reserve r now grp addr =
     (let total = gsum (\<lambda>v. int (length v)) (reservations r);
        list = res_of r grp;
        expires = now + relayReservationTTL
      in case refresh_res addr expires list of
          Some list' \<Rightarrow> (True, r\<lparr>reservations := gput grp list' (reservations r)\<rparr>)
        | None \<Rightarrow>
            if maxReservations r \<le> total then (False, r)
            else (True, r\<lparr>reservations :=
              gput grp (list @ [\<lparr>rr_addr = addr, rr_group = grp, rr_expires = expires\<rparr>]) (reservations r)\<rparr>))"

section \<open>Circuits\<close>

fun newCircuitIDLocked :: "(u32 \<times> relayCircuit) list \<Rightarrow> u32 list \<Rightarrow> (u32 \<times> u32 list) option" where
  "newCircuitIDLocked cs [] = None"
| "newCircuitIDLocked cs (x # rnd) =
     (let id = x AND 0x00FFFFFF in
      if id = 0 then newCircuitIDLocked cs rnd
      else if gget cs id \<noteq> None then newCircuitIDLocked cs rnd
      else Some (id, rnd))"

definition open_circuit :: "publicRelay \<Rightarrow> go_time \<Rightarrow> u32 \<Rightarrow> udp_addr \<Rightarrow> udp_addr \<Rightarrow> publicRelay" where
  "open_circuit r now cid a b =
     (let c = \<lparr>rc_id = cid, rc_a = a, rc_b = b, rc_created = now, rc_lastSeen = now, rc_bytes = 0,
          rc_bucket = newTokenBucket now (perCircuitBps r)\<rparr>;
        r = r\<lparr>circuits := gput cid c (circuits r)\<rparr>;
        r = set_per_ip b (per_ip r b + 1) r
      in set_per_ip a (per_ip r a + 1) r)"

fun connect_loop ::
  "go_time \<Rightarrow> udp_addr \<Rightarrow> relayReservation list \<Rightarrow> publicRelay \<Rightarrow> u32 list
   \<Rightarrow> (publicRelay \<times> (u32 \<times> udp_addr) list \<times> u32 list) option" where
  "connect_loop now addr [] r rnd = Some (r, [], rnd)"
| "connect_loop now addr (res # list) r rnd =
     (if rr_expires res < now \<or> rr_addr res = addr then connect_loop now addr list r rnd
      else if maxCircuits r \<le> int (length (circuits r)) then Some (r, [], rnd)
      else if maxPerIP r \<le> per_ip r addr then Some (r, [], rnd)
      else case newCircuitIDLocked (circuits r) rnd of
          None \<Rightarrow> None
        | Some (cid, rnd') \<Rightarrow>
            (case connect_loop now addr list (open_circuit r now cid (rr_addr res) addr) rnd' of
               None \<Rightarrow> None
             | Some (r', opened, rnd'') \<Rightarrow> Some (r', (cid, rr_addr res) # opened, rnd'')))"

definition announce_opened :: "udp_addr \<Rightarrow> publicRelay \<Rightarrow> (u32 \<times> udp_addr) list \<Rightarrow> publicRelay \<times> datagram list" where
  "announce_opened addr r opened =
     (foldl (\<lambda>r _. r\<lparr>statCircuits := statCircuits r + 1, pr_limits := NoteCircuit (pr_limits r)\<rparr>) r opened,
      concat (map (\<lambda>(cid, a). [relay_send addr relayConnectOK (put_u32 cid), relay_send a relayOpen (put_u32 cid)]) opened))"

definition connect ::
  "publicRelay \<Rightarrow> go_time \<Rightarrow> u32 list \<Rightarrow> byte list \<Rightarrow> udp_addr \<Rightarrow> (publicRelay \<times> datagram list) option" where
  "connect r now rnd grp addr =
     (let list = res_of r grp in
      if list = [] then Some (deny r addr denyNoGroup)
      else if maxPerIP r \<le> per_ip r addr \<or> maxCircuits r \<le> int (length (circuits r)) then Some (deny r addr denyFull)
      else case connect_loop now addr list r rnd of
          None \<Rightarrow> None
        | Some (r', opened, _) \<Rightarrow>
            if opened = [] then Some (deny r' addr denyNoGroup)
            else Some (announce_opened addr r' opened))"

definition dec_per_ip :: "udp_addr \<Rightarrow> publicRelay \<Rightarrow> publicRelay" where
  "dec_per_ip a r = (if per_ip r a > 0 then set_per_ip a (per_ip r a - 1) r else r)"

definition closeCircuit :: "publicRelay \<Rightarrow> u32 \<Rightarrow> byte \<Rightarrow> publicRelay \<times> datagram list" where
  "closeCircuit r cid reason =
     (case gget (circuits r) cid of
        None \<Rightarrow> (r, [])
      | Some c \<Rightarrow>
          (dec_per_ip (rc_b c) (dec_per_ip (rc_a c) (r\<lparr>circuits := gdel cid (circuits r)\<rparr>)),
           [relay_send (rc_a c) relayClose (put_u32 cid @ [reason]), relay_send (rc_b c) relayClose (put_u32 cid @ [reason])]))"

text \<open>\<open>forward\<close>: whether the circuit is this relay's, the new state and what is sent.\<close>

definition forward ::
  "publicRelay \<Rightarrow> go_time \<Rightarrow> u32 \<Rightarrow> byte list \<Rightarrow> udp_addr \<Rightarrow> bool \<times> publicRelay \<times> datagram list" where
  "forward r now cid payload from =
     (if length payload = 0 \<or> relayMaxPayload < length payload then (False, r, [])
      else case gget (circuits r) cid of
          None \<Rightarrow> (False, r, [])
        | Some c \<Rightarrow>
            if from \<noteq> rc_a c \<and> from \<noteq> rc_b c then (False, r, [])
            else
              let dst = (if from = rc_a c then rc_b c else rc_a c);
                n = int (length payload);
                c = c\<lparr>rc_lastSeen := now, rc_bytes := rc_bytes c + n\<rparr>;
                r = r\<lparr>circuits := gput cid c (circuits r)\<rparr>
              in if \<not> pr_enabled r then (True, closeCircuit r cid denyDisabled)
                 else
                   let (ok, bkt) = Allow (rc_bucket c) now n;
                     r = r\<lparr>circuits := gput cid (c\<lparr>rc_bucket := bkt\<rparr>) (circuits r)\<rparr>
                   in if \<not> ok then (True, r\<lparr>statThrottled := statThrottled r + 1\<rparr>, [])
                      else
                        let (okD, l) = AllowDown (pr_limits r) now n;
                          (okU, l) = (if okD then AllowUp l now n else (False, l));
                          r = r\<lparr>pr_limits := l\<rparr>
                        in if \<not> okD \<or> \<not> okU then
                             let r = r\<lparr>statThrottled := statThrottled r + 1\<rparr>;
                               (q, l) = QuotaExceeded (pr_limits r) now;
                               r = r\<lparr>pr_limits := l\<rparr>
                             in (True, if q then closeCircuit r cid denyQuota else (r, []))
                           else (True, r\<lparr>statBytes := statBytes r + of_nat (length payload)\<rparr>,
                                 [(dst, PktRelay # relayData # put_u32 cid @ payload)]))"

section \<open>Handlers\<close>

definition compact_peer :: "udp_addr \<Rightarrow> byte list" where
  "compact_peer addr = (case to4 (ua_IP addr) of None \<Rightarrow> [] | Some v4 \<Rightarrow> v4 @ put_u16 (of_nat (ua_Port addr)))"

definition handleServer ::
  "publicRelay \<Rightarrow> go_time \<Rightarrow> u32 list \<Rightarrow> byte \<Rightarrow> byte list \<Rightarrow> udp_addr \<Rightarrow> (publicRelay \<times> datagram list) option" where
  "handleServer r now rnd sub body raddr =
     (if \<not> pr_enabled r then Some (deny r raddr denyDisabled)
      else
        let (q, l) = QuotaExceeded (pr_limits r) now; r = r\<lparr>pr_limits := l\<rparr> in
        if q then Some (deny r raddr denyQuota)
        else if sub = relayReserve \<or> sub = relayKeepalive then
          (if length body < 20 then Some (r, [])
           else let (ok, r) = reserve r now (take 20 body) raddr in
             if \<not> ok then Some (deny r raddr denyFull)
             else Some (r, [relay_send raddr relayReserveOK (put_u16 (of_int (relayReservationTTL div second)) @ compact_peer raddr)]))
        else if sub = relayConnect then
          (if length body < 20 then Some (r, []) else connect r now rnd (take 20 body) raddr)
        else Some (r, []))"

definition close_all :: "publicRelay \<Rightarrow> u32 list \<Rightarrow> byte \<Rightarrow> publicRelay \<times> datagram list" where
  "close_all r ids reason =
     foldl (\<lambda>(r, out) cid. let (r', o') = closeCircuit r cid reason in (r', out @ o')) (r, []) ids"

text \<open>One tick of the janitor.\<close>

definition janitor :: "publicRelay \<Rightarrow> go_time \<Rightarrow> publicRelay \<times> datagram list" where
  "janitor r now =
     (let kept = gmap (\<lambda>_ l. filter (\<lambda>res. now < rr_expires res) l) (reservations r);
        r1 = r\<lparr>reservations := gdrop (\<lambda>_ l. l = []) kept\<rparr>;
        stale = map fst (filter (\<lambda>(_, c). relayCircuitIdle < time_sub now (rc_lastSeen c)) (circuits r1))
      in close_all r1 stale denyRate)"

definition SetEnabled :: "publicRelay \<Rightarrow> bool \<Rightarrow> publicRelay \<times> datagram list" where
  "SetEnabled r on =
     (let was = pr_enabled r; r = r\<lparr>pr_enabled := on\<rparr> in
      if was \<and> \<not> on then close_all (r\<lparr>reservations := []\<rparr>) (map fst (circuits r)) denyDisabled
      else (r, []))"

section \<open>The accounting invariant\<close>

definition ends_at :: "ip_addr option \<Rightarrow> relayCircuit \<Rightarrow> int" where
  "ends_at ip c = of_bool (ua_IP (rc_a c) = ip) + of_bool (ua_IP (rc_b c) = ip)"

definition ip_count :: "publicRelay \<Rightarrow> ip_addr option \<Rightarrow> int" where
  "ip_count r ip = (case gget (perIP r) ip of None \<Rightarrow> 0 | Some n \<Rightarrow> n)"

definition relay_inv :: "publicRelay \<Rightarrow> bool" where
  "relay_inv r \<longleftrightarrow> gwf (circuits r) \<and> int (length (circuits r)) \<le> maxCircuits r \<and>
     gsum (\<lambda>l. int (length l)) (reservations r) \<le> maxReservations r \<and>
     (\<forall>ip. ip_count r ip = gsum (ends_at ip) (circuits r))"

lemma ends_at_nonneg [simp]: "0 \<le> ends_at ip c"
  by (simp add: ends_at_def)

lemma per_ip_count: "per_ip r a = ip_count r (ua_IP a)"
  by (simp add: per_ip_def ip_count_def)

lemma ip_count_set: "ip_count (set_per_ip a n r) ip = (if ip = ua_IP a then n else ip_count r ip)"
  by (simp add: ip_count_def set_per_ip_def gomap_simps)

lemma set_per_ip_frame [simp]:
  "circuits (set_per_ip a n r) = circuits r" "reservations (set_per_ip a n r) = reservations r"
  "maxCircuits (set_per_ip a n r) = maxCircuits r" "maxReservations (set_per_ip a n r) = maxReservations r"
  "maxPerIP (set_per_ip a n r) = maxPerIP r" "pr_enabled (set_per_ip a n r) = pr_enabled r"
  "perCircuitBps (set_per_ip a n r) = perCircuitBps r"
  by (simp_all add: set_per_ip_def)

lemma dec_per_ip_frame [simp]:
  "circuits (dec_per_ip a r) = circuits r" "reservations (dec_per_ip a r) = reservations r"
  "maxCircuits (dec_per_ip a r) = maxCircuits r" "maxReservations (dec_per_ip a r) = maxReservations r"
  "pr_enabled (dec_per_ip a r) = pr_enabled r"
  by (simp_all add: dec_per_ip_def)

lemma ip_count_circuits [simp]: "ip_count (r\<lparr>circuits := cs\<rparr>) ip = ip_count r ip"
  by (simp add: ip_count_def)

lemma relay_inv_open:
  assumes "relay_inv r" "gget (circuits r) cid = None" "int (length (circuits r)) < maxCircuits r"
  shows "relay_inv (open_circuit r now cid a b)"
  using assms
  by (auto simp: relay_inv_def open_circuit_def Let_def per_ip_count ip_count_set gsum_gput length_gput gwf_gput ends_at_def)

lemma relay_inv_close: "relay_inv r \<Longrightarrow> relay_inv (fst (closeCircuit r cid reason))"
proof (cases "gget (circuits r) cid")
  case None
  then show "relay_inv r \<Longrightarrow> ?thesis" by (simp add: closeCircuit_def)
next
  case (Some c)
  assume inv: "relay_inv r"
  then have wf: "gwf (circuits r)" and cnt: "ip_count r ip = gsum (ends_at ip) (circuits r)" for ip
    by (auto simp: relay_inv_def)
  have ge: "ends_at ip c \<le> ip_count r ip" for ip
    unfolding cnt by (rule gsum_ge_member [OF wf Some]) simp
  let ?r = "dec_per_ip (rc_b c) (dec_per_ip (rc_a c) (r\<lparr>circuits := gdel cid (circuits r)\<rparr>))"
  have "ip_count ?r ip = ip_count r ip - ends_at ip c" for ip
    using ge [of "ua_IP (rc_a c)"] ge [of "ua_IP (rc_b c)"]
    by (auto simp: dec_per_ip_def per_ip_count ip_count_set ends_at_def)
  moreover have "gsum (ends_at ip) (gdel cid (circuits r)) = gsum (ends_at ip) (circuits r) - ends_at ip c" for ip
    using gsum_gdel [OF wf, of "ends_at ip" cid] Some by simp
  moreover have "int (length (gdel cid (circuits r))) \<le> maxCircuits r"
    using inv length_gdel_le [of cid "circuits r"] by (simp add: relay_inv_def)
  ultimately show ?thesis using inv Some by (simp add: closeCircuit_def relay_inv_def cnt gwf_gdel)
qed

lemma relay_inv_touch:
  assumes "relay_inv r" "gget (circuits r) cid = Some c" "rc_a c' = rc_a c" "rc_b c' = rc_b c"
  shows "relay_inv (r\<lparr>circuits := gput cid c' (circuits r)\<rparr>)"
  using assms by (simp add: relay_inv_def gwf_gput length_gput gsum_gput ends_at_def)

lemma relay_inv_stats [simp]:
  "relay_inv (r\<lparr>statCircuits := x\<rparr>) = relay_inv r" "relay_inv (r\<lparr>statBytes := x\<rparr>) = relay_inv r"
  "relay_inv (r\<lparr>statDenied := x\<rparr>) = relay_inv r" "relay_inv (r\<lparr>statThrottled := x\<rparr>) = relay_inv r"
  "relay_inv (r\<lparr>pr_limits := l\<rparr>) = relay_inv r" "relay_inv (r\<lparr>pr_enabled := e\<rparr>) = relay_inv r"
  by (simp_all add: relay_inv_def ip_count_def)

lemma relay_inv_deny [simp]: "relay_inv (fst (deny r a x)) = relay_inv r"
  by (simp add: deny_def)

lemma refresh_length: "refresh_res addr e l = Some l' \<Longrightarrow> length l' = length l \<and> l \<noteq> []"
  by (induction l arbitrary: l') (auto split: if_splits)

lemma relay_inv_reserve: "relay_inv r \<Longrightarrow> relay_inv (snd (reserve r now grp addr))"
proof -
  assume inv: "relay_inv r"
  have "gsum (\<lambda>l. int (length l)) (reservations (snd (reserve r now grp addr))) \<le> maxReservations r"
  proof (cases "refresh_res addr (now + relayReservationTTL) (res_of r grp)")
    case None
    with inv show ?thesis
      by (auto simp: reserve_def relay_inv_def gsum_gput Let_def res_of_def split: option.splits)
  next
    case (Some l')
    from refresh_length [OF this] Some inv show ?thesis
      by (auto simp: reserve_def relay_inv_def gsum_gput Let_def res_of_def split: option.splits)
  qed
  moreover have "circuits (snd (reserve r now grp addr)) = circuits r" "perIP (snd (reserve r now grp addr)) = perIP r"
    "maxCircuits (snd (reserve r now grp addr)) = maxCircuits r" "maxReservations (snd (reserve r now grp addr)) = maxReservations r"
    by (auto simp: reserve_def Let_def split: option.splits)
  ultimately show ?thesis using inv by (simp add: relay_inv_def ip_count_def)
qed

lemma newCircuitID_fresh:
  "newCircuitIDLocked cs rnd = Some (cid, rnd') \<Longrightarrow> cid \<noteq> 0 \<and> gget cs cid = None \<and> (\<exists>x\<in>set rnd. cid = x AND 0x00FFFFFF)"
  by (induction rnd) (auto simp: Let_def split: if_splits)

text \<open>Drawing ends as soon as one value masks to a non-zero id that is not in use.\<close>

lemma newCircuitID_returns:
  assumes "x \<in> set rnd" "x AND 0x00FFFFFF \<noteq> 0" "gget cs (x AND 0x00FFFFFF) = None"
  shows "\<exists>cid rnd'. newCircuitIDLocked cs rnd = Some (cid, rnd')"
  using assms by (induction rnd) (auto simp: Let_def)

lemma connect_loop_ok:
  assumes "connect_loop now addr list r rnd = Some (r', opened, rnd')" and "relay_inv r"
  shows "relay_inv r' \<and>
    (\<forall>(cid, a) \<in> set opened. a \<noteq> addr \<and> (\<exists>res\<in>set list. rr_addr res = a \<and> \<not> rr_expires res < now)) \<and>
    (\<forall>cid c. gget (circuits r') cid = Some c \<longrightarrow>
       gget (circuits r) cid = Some c \<or> rc_b c = addr \<and> (cid, rc_a c) \<in> set opened)"
  using assms
proof (induction now addr list r rnd arbitrary: r' opened rnd' rule: connect_loop.induct)
  case (2 now addr res list r rnd)
  show ?case
  proof (cases "rr_expires res < now \<or> rr_addr res = addr")
    case True
    with "2.IH"(1) [OF True] "2.prems" show ?thesis by fastforce
  next
    case False
    show ?thesis
    proof (cases "maxCircuits r \<le> int (length (circuits r)) \<or> maxPerIP r \<le> per_ip r addr")
      case True
      with "2.prems" False show ?thesis by (auto split: if_splits)
    next
      case cap: False
      with "2.prems" False obtain cid rest more where id: "newCircuitIDLocked (circuits r) rnd = Some (cid, rest)"
        and rec: "connect_loop now addr list (open_circuit r now cid (rr_addr res) addr) rest = Some (r', more, rnd')"
        and op: "opened = (cid, rr_addr res) # more"
        by (auto split: option.splits if_splits prod.splits)
      let ?o = "open_circuit r now cid (rr_addr res) addr"
      have fresh: "gget (circuits r) cid = None" using newCircuitID_fresh [OF id] by blast
      have inv: "relay_inv ?o" by (rule relay_inv_open [OF "2.prems"(2) fresh]) (use cap in simp)
      have "gget (circuits ?o) k = Some c \<Longrightarrow> gget (circuits r) k = Some c \<or> k = cid \<and> rc_a c = rr_addr res \<and> rc_b c = addr" for k c
        by (auto simp: open_circuit_def Let_def gomap_simps split: if_splits)
      with "2.IH"(2) [OF False _ _ id refl rec inv] cap op False show ?thesis by fastforce
    qed
  qed
qed auto

lemma announce_inv: "relay_inv (fst (announce_opened addr r opened)) = relay_inv r"
  "circuits (fst (announce_opened addr r opened)) = circuits r"
proof -
  have "relay_inv (foldl (\<lambda>r _. r\<lparr>statCircuits := statCircuits r + 1, pr_limits := NoteCircuit (pr_limits r)\<rparr>) r opened) = relay_inv r \<and>
    circuits (foldl (\<lambda>r _. r\<lparr>statCircuits := statCircuits r + 1, pr_limits := NoteCircuit (pr_limits r)\<rparr>) r opened) = circuits r"
    by (induction opened arbitrary: r) auto
  then show "relay_inv (fst (announce_opened addr r opened)) = relay_inv r"
    "circuits (fst (announce_opened addr r opened)) = circuits r"
    by (simp_all add: announce_opened_def)
qed

lemma connect_ok:
  assumes "connect r now rnd grp addr = Some (r', out)" and "relay_inv r"
  shows "relay_inv r' \<and> (\<forall>cid c. gget (circuits r') cid = Some c \<longrightarrow> gget (circuits r) cid = Some c \<or>
    rc_b c = addr \<and> rc_a c \<noteq> addr \<and> (\<exists>res\<in>set (res_of r grp). rr_addr res = rc_a c \<and> \<not> rr_expires res < now))"
proof -
  have keep: "circuits (fst (deny q a x)) = circuits q" for q a x by (simp add: deny_def)
  show ?thesis
  proof (cases "res_of r grp = [] \<or> maxPerIP r \<le> per_ip r addr \<or> maxCircuits r \<le> int (length (circuits r))")
    case True
    with assms have "r' = fst (deny r addr denyNoGroup) \<or> r' = fst (deny r addr denyFull)"
      by (auto simp: connect_def Let_def deny_def split: if_splits)
    with assms(2) keep show ?thesis by auto
  next
    case False
    with assms(1) obtain r1 opened rest where l: "connect_loop now addr (res_of r grp) r rnd = Some (r1, opened, rest)"
      and r': "r' = fst (deny r1 addr denyNoGroup) \<or> r' = fst (announce_opened addr r1 opened)"
      by (auto simp: connect_def Let_def deny_def announce_opened_def split: option.splits prod.splits if_splits)
    then have "circuits r' = circuits r1" "relay_inv r' = relay_inv r1" using keep announce_inv by auto
    with connect_loop_ok [OF l assms(2)] show ?thesis by fastforce
  qed
qed

lemma close_all_inv: "relay_inv r \<Longrightarrow> relay_inv (fst (close_all r ids reason))"
proof -
  assume "relay_inv r"
  then have "relay_inv (fst (foldl (\<lambda>(r, out) cid. let (r', o') = closeCircuit r cid reason in (r', out @ o')) (r, out) ids))" for out
  proof (induction ids arbitrary: r out)
    case (Cons i ids)
    have "relay_inv (fst (closeCircuit r i reason))" by (rule relay_inv_close [OF Cons.prems])
    then show ?case using Cons.IH by (simp add: case_prod_beta Let_def)
  qed simp
  then show ?thesis by (simp add: close_all_def)
qed

lemma forward_inv: "relay_inv r \<Longrightarrow> relay_inv (fst (snd (forward r now cid payload from)))"
proof (cases "gget (circuits r) cid")
  case None
  then show "relay_inv r \<Longrightarrow> ?thesis" by (simp add: forward_def)
next
  case (Some c)
  assume inv: "relay_inv r"
  let ?c1 = "c\<lparr>rc_lastSeen := now, rc_bytes := rc_bytes c + int (length payload)\<rparr>"
  let ?r1 = "r\<lparr>circuits := gput cid ?c1 (circuits r)\<rparr>"
  have 1: "relay_inv ?r1" by (rule relay_inv_touch [OF inv Some]) simp_all
  have 2: "relay_inv (?r1\<lparr>circuits := gput cid (?c1\<lparr>rc_bucket := b\<rparr>) (circuits ?r1)\<rparr>)" for b
    by (rule relay_inv_touch [OF 1, of _ ?c1]) (simp_all add: gomap_simps)
  show ?thesis
    using inv 1 2 Some
    by (auto simp: forward_def Let_def relay_inv_close split: prod.splits if_splits)
qed

lemma janitor_inv: "relay_inv r \<Longrightarrow> relay_inv (fst (janitor r now))"
proof -
  assume inv: "relay_inv r"
  let ?kept = "gmap (\<lambda>_ l. filter (\<lambda>res. now < rr_expires res) l) (reservations r)"
  have "gsum (\<lambda>l. int (length l)) (gdrop (\<lambda>_ l. l = []) ?kept) \<le> gsum (\<lambda>l. int (length l)) ?kept"
    by (rule gsum_gdrop_le) simp
  also have "\<dots> \<le> gsum (\<lambda>l. int (length l)) (reservations r)"
    by (rule gsum_gmap_le) simp
  also have "\<dots> \<le> maxReservations r" using inv by (simp add: relay_inv_def)
  finally have "relay_inv (r\<lparr>reservations := gdrop (\<lambda>_ l. l = []) ?kept\<rparr>)"
    using inv by (simp add: relay_inv_def ip_count_def)
  then show ?thesis by (simp add: janitor_def Let_def close_all_inv)
qed

lemma SetEnabled_inv: "relay_inv r \<Longrightarrow> 0 \<le> maxReservations r \<Longrightarrow> relay_inv (fst (SetEnabled r on))"
proof -
  assume inv: "relay_inv r" "0 \<le> maxReservations r"
  have "relay_inv (r\<lparr>pr_enabled := on, reservations := []\<rparr>)"
    using inv by (simp add: relay_inv_def ip_count_def)
  with inv show ?thesis by (auto simp: SetEnabled_def Let_def close_all_inv)
qed

lemma handleServer_inv:
  assumes "handleServer r now rnd sub body raddr = Some (r', out)" "relay_inv r"
  shows "relay_inv r'"
proof -
  let ?r = "r\<lparr>pr_limits := snd (QuotaExceeded (pr_limits r) now)\<rparr>"
  have inv: "relay_inv ?r" using assms(2) by simp
  have "r' \<in> {fst (deny r raddr denyDisabled), fst (deny ?r raddr denyQuota), ?r, snd (reserve ?r now (take 20 body) raddr),
      fst (deny (snd (reserve ?r now (take 20 body) raddr)) raddr denyFull)} \<or>
      connect ?r now rnd (take 20 body) raddr = Some (r', out)"
    using assms(1) by (auto simp: handleServer_def deny_def Let_def split: prod.splits if_splits)
  with inv assms(2) relay_inv_reserve [OF inv] connect_ok [OF _ inv] show ?thesis by auto
qed

lemma inv_maxReservations: "relay_inv r \<Longrightarrow> 0 \<le> maxReservations r"
  using gsum_nonneg [of "\<lambda>l. int (length l)" "reservations r"] by (simp add: relay_inv_def)

section \<open>Runs of the relay\<close>

datatype relay_event =
    Request go_time "u32 list" byte "byte list" udp_addr
  | Datagram go_time u32 "byte list" udp_addr
  | Tick go_time
  | Switch bool

fun relay_step :: "publicRelay \<Rightarrow> relay_event \<Rightarrow> (publicRelay \<times> datagram list) option" where
  "relay_step r (Request now rnd sub body raddr) = handleServer r now rnd sub body raddr"
| "relay_step r (Datagram now cid payload from) = Some (snd (forward r now cid payload from))"
| "relay_step r (Tick now) = Some (janitor r now)"
| "relay_step r (Switch on) = Some (SetEnabled r on)"

inductive relay_reachable :: "publicRelay \<Rightarrow> publicRelay \<Rightarrow> bool" for r0 where
  start: "relay_reachable r0 r0"
| step: "relay_reachable r0 r \<Longrightarrow> relay_step r e = Some (r', out) \<Longrightarrow> relay_reachable r0 r'"

inductive_cases relay_stepE: "relay_reachable r0 r"

lemma relay_step_inv: "relay_step r e = Some (r', out) \<Longrightarrow> relay_inv r \<Longrightarrow> relay_inv r'"
proof (cases e)
  case (Request now rnd sub body raddr)
  then show "relay_step r e = Some (r', out) \<Longrightarrow> relay_inv r \<Longrightarrow> relay_inv r'" by (auto intro: handleServer_inv)
next
  case (Datagram now cid payload src)
  assume "relay_step r e = Some (r', out)" "relay_inv r"
  with Datagram forward_inv [of r now cid payload src] show ?thesis by simp
next
  case (Tick now)
  assume "relay_step r e = Some (r', out)" "relay_inv r"
  with Tick janitor_inv [of r now] show ?thesis by simp
next
  case (Switch on)
  assume "relay_step r e = Some (r', out)" "relay_inv r"
  with Switch SetEnabled_inv [of r on] inv_maxReservations show ?thesis by simp
qed

lemma reachable_inv: "relay_reachable r0 r \<Longrightarrow> relay_inv r0 \<Longrightarrow> relay_inv r"
  by (induction rule: relay_reachable.induct) (auto intro: relay_step_inv)

lemma start_inv: "relay_inv (startPublicRelay limits maxC maxI bps)"
  by (simp add: relay_inv_def startPublicRelay_def ip_count_def)

section \<open>Properties\<close>

text \<open>
  Donated resources stay within their caps and the accounting never drifts. In every state
  reachable from startup by requests, data, janitor ticks and switching the service, the relay
  holds at most its maximum of circuits and of reservations, and the counter of every IP is
  exactly the number of ends of open circuits at that IP.
\<close>

theorem relay_resources_bounded:
  assumes "relay_reachable (startPublicRelay limits maxC maxI bps) r"
  shows "int (length (circuits r)) \<le> maxCircuits r \<and>
    gsum (\<lambda>l. int (length l)) (reservations r) \<le> maxReservations r \<and>
    ip_count r ip = gsum (ends_at ip) (circuits r)"
  using reachable_inv [OF assms start_inv] by (simp add: relay_inv_def)

abbreviation demo_alice :: udp_addr where "demo_alice \<equiv> udp4 [203, 0, 113, 5] 3006"
abbreviation demo_bob :: udp_addr where "demo_bob \<equiv> udp4 [198, 51, 100, 9] 4000"

definition demo_relay_on :: publicRelay where
  "demo_relay_on = fst (SetEnabled (startPublicRelay demo_limiter 0 0 0) True)"

definition demo_reserved :: publicRelay where
  "demo_reserved = demo_relay_on\<lparr>reservations :=
     [(replicate 20 5, [\<lparr>rr_addr = demo_alice, rr_group = replicate 20 5, rr_expires = 1 + 120 * second\<rparr>])]\<rparr>"

lemma demo_relay_on_simps [simp]:
  "pr_enabled demo_relay_on = True" "circuits demo_relay_on = []" "reservations demo_relay_on = []"
  "perIP demo_relay_on = []" "maxCircuits demo_relay_on = 64" "maxPerIP demo_relay_on = 4"
  "maxReservations demo_relay_on = 256" "pr_limits demo_relay_on = demo_limiter"
  by (simp_all add: demo_relay_on_def SetEnabled_def startPublicRelay_def Let_def)

lemma demo_quota [simp]: "QuotaExceeded demo_limiter 1 = (False, demo_limiter)"
  by (simp add: demo_limiter_def newBandwidthLimiter_def bw_load_def QuotaExceeded_def rollPeriodLocked_def
      used_bytes_def zero_counters_def duration_defs wrap64_def Let_def)

lemma demo_reserve:
  "relay_step demo_relay_on (Request 1 [] relayReserve (replicate 20 5) demo_alice) =
     Some (demo_reserved, [relay_send demo_alice relayReserveOK (put_u16 (of_int (relayReservationTTL div second)) @ compact_peer demo_alice)])"
  by (simp add: handleServer_def reserve_def res_of_def Let_def relayReservationTTL_def demo_reserved_def)

theorem relay_resources_bounded_witness:
  "relay_reachable (startPublicRelay demo_limiter 0 0 0) demo_reserved \<and>
   gsum (\<lambda>l. int (length l)) (reservations demo_reserved) \<le> 256"
proof
  have "relay_step (startPublicRelay demo_limiter 0 0 0) (Switch True) = Some (demo_relay_on, [])"
    by (simp add: demo_relay_on_def SetEnabled_def startPublicRelay_def Let_def)
  from relay_reachable.step [OF relay_reachable.start this]
  have "relay_reachable (startPublicRelay demo_limiter 0 0 0) demo_relay_on" .
  from relay_reachable.step [OF this demo_reserve]
  show r: "relay_reachable (startPublicRelay demo_limiter 0 0 0) demo_reserved" .
  from relay_resources_bounded [OF r] show "gsum (\<lambda>l. int (length l)) (reservations demo_reserved) \<le> 256"
    by (simp add: demo_reserved_def)
qed

text \<open>
  The relay never bridges two groups. Every circuit a connect request adds has the caller
  at one end and, at the other, an endpoint with an unexpired reservation under the very group
  the caller presented.
\<close>

theorem connect_within_group:
  assumes "relay_inv r" and "connect r now rnd grp addr = Some (r', out)"
    and "gget (circuits r') cid = Some c" and "gget (circuits r) cid \<noteq> Some c"
  shows "rc_b c = addr \<and> rc_a c \<noteq> addr \<and>
    (\<exists>res\<in>set (res_of r grp). rr_addr res = rc_a c \<and> \<not> rr_expires res < now)"
  using connect_ok [OF assms(2,1)] assms(3,4) by blast

definition demo_connected :: publicRelay where
  "demo_connected = fst (the (connect demo_reserved 2 [0, 7] (replicate 20 5) demo_bob))"

lemma demo_connect:
  "connect demo_reserved 2 [0, 7] (replicate 20 5) demo_bob =
     Some (demo_connected, snd (the (connect demo_reserved 2 [0, 7] (replicate 20 5) demo_bob))) \<and>
   circuits demo_connected = [(7, \<lparr>rc_id = 7, rc_a = demo_alice, rc_b = demo_bob, rc_created = 2, rc_lastSeen = 2,
     rc_bytes = 0, rc_bucket = newTokenBucket 2 (perCircuitBps demo_relay_on)\<rparr>)]"
  by (simp add: demo_connected_def connect_def res_of_def demo_reserved_def per_ip_def duration_defs
      open_circuit_def announce_opened_def set_per_ip_def Let_def)

theorem connect_within_group_witness:
  "\<exists>c. gget (circuits demo_connected) 7 = Some c \<and> rc_b c = demo_bob \<and> rc_a c = demo_alice"
proof -
  have inv: "relay_inv demo_reserved"
    by (simp add: relay_inv_def demo_reserved_def ip_count_def gsum_def)
  obtain c where c: "gget (circuits demo_connected) 7 = Some c" "rc_a c = demo_alice"
    using demo_connect by fastforce
  have none: "gget (circuits demo_reserved) 7 \<noteq> Some c" by (simp add: demo_reserved_def)
  from connect_within_group [OF inv conjunct1 [OF demo_connect] c(1) none] c show ?thesis by blast
qed

text \<open>
  A circuit carries bytes between its two ends only. What \<open>forward\<close> sends on a circuit's
  behalf goes to one end, was sent by the other, and carries the payload unchanged; a datagram
  from any other endpoint changes nothing and sends nothing.
\<close>

theorem forward_between_ends:
  assumes "gget (circuits r) cid = Some c"
  shows "(from \<noteq> rc_a c \<and> from \<noteq> rc_b c \<longrightarrow> forward r now cid payload from = (False, r, [])) \<and>
    (\<forall>dst body. (dst, PktRelay # relayData # body) \<in> set (snd (snd (forward r now cid payload from))) \<longrightarrow>
       body = put_u32 cid @ payload \<and> (from = rc_a c \<and> dst = rc_b c \<or> from = rc_b c \<and> dst = rc_a c))"
proof -
  have close: "(dst, PktRelay # relayData # body) \<notin> set (snd (closeCircuit q k x))" for q k x dst body
    by (auto simp: closeCircuit_def relay_send_def relayData_def relayClose_def split: option.splits)
  show ?thesis
    using assms close
    by (auto simp: forward_def Let_def split: prod.splits if_splits)
qed

theorem forward_between_ends_witness:
  "forward demo_connected 3 7 [1, 2, 3] (udp4 [192, 0, 2, 66] 1) = (False, demo_connected, [])"
proof -
  obtain c where "gget (circuits demo_connected) 7 = Some c" "rc_a c = demo_alice" "rc_b c = demo_bob"
    using demo_connect by fastforce
  with forward_between_ends [of demo_connected 7 c "udp4 [192, 0, 2, 66] 1" 3 "[1, 2, 3]"] show ?thesis by simp
qed

lemma close_removes:
  "circuits (fst (closeCircuit r cid reason)) = (case gget (circuits r) cid of None \<Rightarrow> circuits r | Some _ \<Rightarrow> gdel cid (circuits r))"
  by (simp add: closeCircuit_def split: option.splits)

lemma close_frame:
  "reservations (fst (closeCircuit r cid reason)) = reservations r" "pr_enabled (fst (closeCircuit r cid reason)) = pr_enabled r"
  by (simp_all add: closeCircuit_def split: option.splits)

lemma gdel_absent: "gget m k = None \<Longrightarrow> gdel k m = m"
  by (induction m) (auto split: if_splits)

lemma close_all_circuits:
  "circuits (fst (close_all r ids reason)) = foldl (\<lambda>m k. gdel k m) (circuits r) ids \<and>
   reservations (fst (close_all r ids reason)) = reservations r \<and> pr_enabled (fst (close_all r ids reason)) = pr_enabled r"
proof -
  let ?f = "\<lambda>(r, out) cid. let (r', o') = closeCircuit r cid reason in (r', out @ o')"
  have "circuits (fst (foldl ?f (r, out) ids)) = foldl (\<lambda>m k. gdel k m) (circuits r) ids \<and>
    reservations (fst (foldl ?f (r, out) ids)) = reservations r \<and> pr_enabled (fst (foldl ?f (r, out) ids)) = pr_enabled r" for out
  proof (induction ids arbitrary: r out)
    case (Cons i ids)
    have "circuits (fst (closeCircuit r i reason)) = gdel i (circuits r)"
      by (cases "gget (circuits r) i") (auto simp: close_removes gdel_absent)
    with Cons.IH [of "fst (closeCircuit r i reason)"] show ?case
      by (simp add: case_prod_beta Let_def close_frame)
  qed simp
  then show ?thesis by (simp add: close_all_def)
qed

lemma gdel_all: "fst ` set m \<subseteq> set ks \<Longrightarrow> foldl (\<lambda>m k. gdel k m) m ks = []"
proof (induction ks arbitrary: m)
  case (Cons k ks)
  have "fst ` set (gdel k m) \<subseteq> set ks" using Cons.prems by (auto simp: set_gdel)
  then show ?case using Cons.IH by simp
qed simp

text \<open>
  Switching the relay off takes effect at once. After turning an enabled relay off there is
  no circuit and no reservation left and every IP counter is zero; in that state a request
  creates neither and no datagram is forwarded.
\<close>

theorem switch_off_is_immediate:
  assumes "relay_inv r" "pr_enabled r" and "q = fst (SetEnabled r False)"
  shows "circuits q = [] \<and> reservations q = [] \<and> ip_count q ip = 0 \<and>
    circuits (fst (the (handleServer q now rnd sub body raddr))) = [] \<and>
    reservations (fst (the (handleServer q now rnd sub body raddr))) = [] \<and>
    forward q now cid payload src = (False, q, [])"
proof -
  have q: "circuits q = []" "reservations q = []" "\<not> pr_enabled q"
    using assms(2,3) by (auto simp: SetEnabled_def Let_def close_all_circuits gdel_all)
  moreover have "relay_inv q" using assms SetEnabled_inv inv_maxReservations by blast
  then have "ip_count q ip = 0" using q(1) by (simp add: relay_inv_def)
  ultimately show ?thesis by (simp add: handleServer_def deny_def forward_def)
qed

theorem switch_off_is_immediate_witness:
  "length (circuits demo_connected) = 1 \<and> circuits (fst (SetEnabled demo_connected False)) = []"
proof
  show "length (circuits demo_connected) = 1" using demo_connect by simp
  have "relay_inv demo_reserved"
    by (simp add: relay_inv_def demo_reserved_def ip_count_def gsum_def)
  then have "relay_inv demo_connected" using connect_ok [OF conjunct1 [OF demo_connect]] by blast
  moreover have "pr_enabled demo_connected"
    by (simp add: demo_connected_def connect_def res_of_def demo_reserved_def per_ip_def duration_defs
      open_circuit_def announce_opened_def set_per_ip_def Let_def)
  ultimately show "circuits (fst (SetEnabled demo_connected False)) = []"
    using switch_off_is_immediate [OF _ _ refl] by blast
qed

text \<open>
  The per-IP cap binds callers only. A waiting endpoint is handed a further circuit
  whatever number its IP already has: its counter passes the cap.
\<close>

theorem reserver_cap_not_enforced:
  assumes "res_of r grp = [res]" "\<not> rr_expires res < now" "ua_IP (rr_addr res) \<noteq> ua_IP addr"
    and "per_ip r addr < maxPerIP r" "int (length (circuits r)) < maxCircuits r"
    and "newCircuitIDLocked (circuits r) rnd = Some (cid, rest)"
    and "maxPerIP r \<le> per_ip r (rr_addr res)"
  shows "\<exists>r' out. connect r now rnd grp addr = Some (r', out) \<and> per_ip r' (rr_addr res) = per_ip r (rr_addr res) + 1 \<and>
    maxPerIP r' < per_ip r' (rr_addr res)"
proof -
  have ne: "rr_addr res \<noteq> addr" using assms(3) by auto
  let ?o = "open_circuit r now cid (rr_addr res) addr"
  have o: "per_ip ?o (rr_addr res) = per_ip r (rr_addr res) + 1" "maxPerIP ?o = maxPerIP r"
    using assms(3) by (simp_all add: open_circuit_def Let_def per_ip_count ip_count_set)
  have "connect r now rnd grp addr = Some (announce_opened addr ?o [(cid, rr_addr res)])"
    using assms ne by (simp add: connect_def Let_def)
  moreover have "per_ip (fst (announce_opened addr ?o [(cid, rr_addr res)])) (rr_addr res) = per_ip ?o (rr_addr res)"
    "maxPerIP (fst (announce_opened addr ?o [(cid, rr_addr res)])) = maxPerIP ?o"
    by (simp_all add: announce_opened_def per_ip_def)
  ultimately show ?thesis using o assms(7) by (metis prod.collapse zle_add1_eq_le)
qed

theorem reserver_cap_not_enforced_witness:
  "\<exists>r' out. connect (demo_reserved\<lparr>perIP := [(ua_IP demo_alice, 9)]\<rparr>) 2 [7] (replicate 20 5) demo_bob = Some (r', out) \<and>
     per_ip r' demo_alice = 10"
proof -
  let ?r = "demo_reserved\<lparr>perIP := [(ua_IP demo_alice, 9)]\<rparr>"
  let ?res = "\<lparr>rr_addr = demo_alice, rr_group = replicate 20 5, rr_expires = 1 + 120 * second\<rparr>"
  have "\<exists>r' out. connect ?r 2 [7] (replicate 20 5) demo_bob = Some (r', out) \<and>
      per_ip r' (rr_addr ?res) = per_ip ?r (rr_addr ?res) + 1 \<and> maxPerIP r' < per_ip r' (rr_addr ?res)"
    by (rule reserver_cap_not_enforced [where cid = 7 and rest = "[]"])
      (simp_all add: demo_reserved_def res_of_def per_ip_def duration_defs)
  then show ?thesis by (auto simp: per_ip_def)
qed

end
