(* ===== verification/DHT.thy ===== *)
theory DHT
  imports Bencode Public_Relay
begin

text \<open>
  The Kademlia node, \<open>client/dht.go\<close>: the routing table, the compact encodings, transactions,
  announce tokens, the peer store, and the handler of every DHT datagram.

  Node ids and secrets are byte lists. Parameters: \<open>mac secret ip\<close> is the first eight bytes of
  HMAC-SHA1 of the 16-byte address, and \<open>fresh\<close> the 16 bytes the next token rotation would read
  from \<open>crypto/rand\<close>. A handler returns \<open>None\<close> where the process panics. Reply channels are
  represented by their transaction ids; the iterative lookup is not modelled.
\<close>

definition dhtK :: nat where "dhtK = 8"
definition dhtNodeTimeout :: duration where "dhtNodeTimeout = 15 * minute"
definition dhtMaxFailures :: int where "dhtMaxFailures = 3"
definition dhtMaxPeersPerKey :: nat where "dhtMaxPeersPerKey = 128"
definition dhtMaxStoredKeys :: nat where "dhtMaxStoredKeys = 2048"
definition dhtMaxInflight :: int where "dhtMaxInflight = 512"

record dhtNode =
  dn_id :: "byte list"
  dn_addr :: udp_addr
  dn_lastSeen :: go_time
  dn_failures :: int

record dhtRoutingTable =
  rt_self :: "byte list"
  rt_buckets :: "dhtNode list list"

record dhtState =
  dht_table :: dhtRoutingTable
  dht_selfID :: "byte list"
  dht_enabled :: bool
  dht_tx :: "(string \<times> (string \<times> bval) list option) list"
  dht_txSeq :: u32
  dht_txCount :: int
  dht_peers :: "(string \<times> (string \<times> go_time) list) list"
  tokCur :: "byte list"
  tokPrev :: "byte list"
  tokRotate :: go_time
  statTx :: u64
  statRx :: u64

section \<open>Distances\<close>

text \<open>The index of the highest set bit of a byte counted from the top, as the inner loop finds it.\<close>

fun top_bit :: "byte \<Rightarrow> nat \<Rightarrow> nat option" where
  "top_bit x 0 = (if bit x 0 then Some 7 else None)"
| "top_bit x (Suc b) = (if bit x (Suc b) then Some (7 - Suc b) else top_bit x b)"

fun prefix_from :: "nat \<Rightarrow> byte list \<Rightarrow> byte list \<Rightarrow> nat" where
  "prefix_from i (a # as) (b # bs) =
     (let x = a XOR b in
      if x = 0 then prefix_from (i + 1) as bs
      else case top_bit x 7 of Some k \<Rightarrow> i * 8 + k | None \<Rightarrow> prefix_from (i + 1) as bs)"
| "prefix_from i _ _ = 159"

definition dhtCommonPrefix :: "byte list \<Rightarrow> byte list \<Rightarrow> nat" where
  "dhtCommonPrefix a b = prefix_from 0 a b"

fun dhtXORLess :: "byte list \<Rightarrow> byte list \<Rightarrow> byte list \<Rightarrow> bool" where
  "dhtXORLess (t # ts) (a # as) (b # bs) =
     (let da = a XOR t; db = b XOR t in if da \<noteq> db then da < db else dhtXORLess ts as bs)"
| "dhtXORLess _ _ _ = False"

definition xor_dist :: "byte list \<Rightarrow> byte list \<Rightarrow> byte list" where
  "xor_dist target a = map2 (XOR) a target"

section \<open>Routing table\<close>

definition dhtRoutableAddr :: "udp_addr \<Rightarrow> bool" where
  "dhtRoutableAddr a =
     (if ua_Port a \<le> 0 \<or> 65535 < ua_Port a then False
      else case ua_IP a of None \<Rightarrow> False
        | Some ip \<Rightarrow>
            if is_unspecified ip \<or> is_loopback ip \<or> is_link_local ip \<or> is_multicast ip \<or> is_private ip then False
            else (case ip of
                V4 v4 \<Rightarrow> \<not> (v4 ! 0 = 0 \<or> v4 ! 0 = 100 \<and> 64 \<le> v4 ! 1 \<and> v4 ! 1 \<le> 127)
              | V6 _ \<Rightarrow> True))"

fun refresh_node :: "go_time \<Rightarrow> byte list \<Rightarrow> udp_addr \<Rightarrow> dhtNode list \<Rightarrow> dhtNode list option" where
  "refresh_node now nid addr [] = None"
| "refresh_node now nid addr (n # ns) =
     (if dn_id n = nid then Some (n\<lparr>dn_addr := addr, dn_lastSeen := now, dn_failures := 0\<rparr> # ns)
      else map_option (Cons n) (refresh_node now nid addr ns))"

text \<open>The scan for the worst node of a full bucket: the index and age of the best candidate.\<close>

fun worst_node :: "go_time \<Rightarrow> nat \<Rightarrow> (nat \<times> go_time) option \<Rightarrow> dhtNode list \<Rightarrow> (nat \<times> go_time) option" where
  "worst_node now i w [] = w"
| "worst_node now i w (n # ns) =
     (if dhtMaxFailures \<le> dn_failures n \<or> dhtNodeTimeout < time_sub now (dn_lastSeen n) then
        (case w of
           None \<Rightarrow> worst_node now (i + 1) (Some (i, dn_lastSeen n)) ns
         | Some (j, t) \<Rightarrow>
             if dn_lastSeen n < t then worst_node now (i + 1) (Some (i, dn_lastSeen n)) ns
             else worst_node now (i + 1) w ns)
      else worst_node now (i + 1) w ns)"

definition new_node :: "go_time \<Rightarrow> byte list \<Rightarrow> udp_addr \<Rightarrow> dhtNode" where
  "new_node now nid addr = \<lparr>dn_id = nid, dn_addr = addr, dn_lastSeen = now, dn_failures = 0\<rparr>"

definition dht_Add :: "dhtRoutingTable \<Rightarrow> go_time \<Rightarrow> byte list \<Rightarrow> udp_addr \<Rightarrow> dhtRoutingTable" where
  "dht_Add t now nid addr =
     (if nid = rt_self t then t
      else if \<not> dhtRoutableAddr addr then t
      else
        let idx = dhtCommonPrefix (rt_self t) nid; b = rt_buckets t ! idx;
          put = (\<lambda>b'. t\<lparr>rt_buckets := (rt_buckets t)[idx := b']\<rparr>)
        in case refresh_node now nid addr b of
            Some b' \<Rightarrow> put b'
          | None \<Rightarrow>
              if length b < dhtK then put (b @ [new_node now nid addr])
              else (case worst_node now 0 None b of
                  None \<Rightarrow> t
                | Some (wi, _) \<Rightarrow> put (b[wi := new_node now nid addr])))"

fun fail_node :: "byte list \<Rightarrow> dhtNode list \<Rightarrow> dhtNode list" where
  "fail_node nid [] = []"
| "fail_node nid (n # ns) =
     (if dn_id n = nid then
        (let n' = n\<lparr>dn_failures := dn_failures n + 1\<rparr> in if dhtMaxFailures \<le> dn_failures n' then ns else n' # ns)
      else n # fail_node nid ns)"

definition dht_fail :: "dhtRoutingTable \<Rightarrow> byte list \<Rightarrow> dhtRoutingTable" where
  "dht_fail t nid =
     (let idx = dhtCommonPrefix (rt_self t) nid in t\<lparr>rt_buckets := (rt_buckets t)[idx := fail_node nid (rt_buckets t ! idx)]\<rparr>)"

text \<open>\<open>Closest\<close>: \<open>sort.Slice\<close> by \<open>dhtXORLess\<close>, which is the order of the XOR distances.\<close>

definition Closest :: "dhtRoutingTable \<Rightarrow> byte list \<Rightarrow> nat \<Rightarrow> dhtNode list" where
  "Closest t target n = take n (sort_key (\<lambda>x. xor_dist target (dn_id x)) (concat (rt_buckets t)))"

definition Count :: "dhtRoutingTable \<Rightarrow> nat" where
  "Count t = sum_list (map length (rt_buckets t))"

section \<open>Compact encodings\<close>

definition dhtCompactNode :: "byte list \<Rightarrow> udp_addr \<Rightarrow> byte list option" where
  "dhtCompactNode nid addr =
     (case to4 (ua_IP addr) of None \<Rightarrow> None | Some v4 \<Rightarrow> Some (nid @ v4 @ put_u16 (of_nat (ua_Port addr))))"

function dhtParseNodes :: "byte list \<Rightarrow> dhtNode list" where
  "dhtParseNodes b =
     (if 26 \<le> length b then
        \<lparr>dn_id = take 20 b, dn_addr = udp4 (take 4 (drop 20 b)) (unat (be_u16 (drop 24 b))), dn_lastSeen = 0, dn_failures = 0\<rparr>
          # dhtParseNodes (drop 26 b)
      else [])"
  by pat_completeness auto
termination
  by (relation "measure length") auto

declare dhtParseNodes.simps [simp del]

definition parse_value :: "bval \<Rightarrow> string list" where
  "parse_value v =
     (case v of
        BStr s \<Rightarrow>
          (if length s \<noteq> 6 then []
           else let b = bytes_of s; port = unat (be_u16 (drop 4 b)) in
             if port = 0 then [] else [joinHostPort (v4_string (take 4 b)) (show_nat port)])
      | _ \<Rightarrow> [])"

definition dhtParseValues :: "bval list \<Rightarrow> string list" where
  "dhtParseValues l = concat (map parse_value l)"

section \<open>Transactions\<close>

definition nextTx :: "dhtState \<Rightarrow> string option \<times> dhtState" where
  "nextTx d =
     (if dhtMaxInflight \<le> dht_txCount d then (None, d)
      else
        let s = dht_txSeq d + 1; tx = str_of (put_u16 (of_nat (unat s))) in
        (Some tx, d\<lparr>dht_txSeq := s, dht_tx := gput tx None (dht_tx d), dht_txCount := dht_txCount d + 1\<rparr>))"

definition releaseTx :: "dhtState \<Rightarrow> string \<Rightarrow> dhtState" where
  "releaseTx d tx =
     (if gget (dht_tx d) tx \<noteq> None then d\<lparr>dht_tx := gdel tx (dht_tx d), dht_txCount := dht_txCount d - 1\<rparr> else d)"

section \<open>Tokens\<close>

definition rotateTokens :: "byte list \<Rightarrow> go_time \<Rightarrow> dhtState \<Rightarrow> dhtState" where
  "rotateTokens fresh now d =
     (if time_sub now (tokRotate d) < 5 * minute then d
      else d\<lparr>tokPrev := tokCur d, tokCur := fresh, tokRotate := now\<rparr>)"

fun to16 :: "ip_addr option \<Rightarrow> byte list" where
  "to16 (Some (V4 b)) = replicate 10 0 @ [255, 255] @ b"
| "to16 (Some (V6 b)) = b"
| "to16 None = []"

definition tokenFor :: "(byte list \<Rightarrow> byte list \<Rightarrow> string) \<Rightarrow> udp_addr \<Rightarrow> byte list \<Rightarrow> string" where
  "tokenFor mac addr secret = mac secret (to16 (ua_IP addr))"

definition issueToken ::
  "(byte list \<Rightarrow> byte list \<Rightarrow> string) \<Rightarrow> byte list \<Rightarrow> go_time \<Rightarrow> dhtState \<Rightarrow> udp_addr \<Rightarrow> string \<times> dhtState" where
  "issueToken mac fresh now d addr = (let d = rotateTokens fresh now d in (tokenFor mac addr (tokCur d), d))"

definition validToken :: "(byte list \<Rightarrow> byte list \<Rightarrow> string) \<Rightarrow> dhtState \<Rightarrow> udp_addr \<Rightarrow> string \<Rightarrow> bool" where
  "validToken mac d addr tok =
     (if tok = [] then False else tok = tokenFor mac addr (tokCur d) \<or> tok = tokenFor mac addr (tokPrev d))"

section \<open>Peer store\<close>

definition oldest_peer :: "go_time \<Rightarrow> (string \<times> go_time) list \<Rightarrow> string \<times> go_time" where
  "oldest_peer now m = foldl (\<lambda>(o', ot) (k, t). if t < ot then (k, t) else (o', ot)) ([], now) m"

definition storePeer :: "go_time \<Rightarrow> dhtState \<Rightarrow> string \<Rightarrow> udp_addr \<Rightarrow> dhtState" where
  "storePeer now d key addr =
     (let c = str_of (compact_peer addr) in
      if c = [] then d
      else
        let (m, ps) =
          (case gget (dht_peers d) key of
             Some m \<Rightarrow> (m, dht_peers d)
           | None \<Rightarrow> ([], if dhtMaxStoredKeys \<le> length (dht_peers d) then tl (dht_peers d) else dht_peers d));
          m = (if dhtMaxPeersPerKey \<le> length m then
                 (let old = fst (oldest_peer now m) in if old \<noteq> [] then gdel old m else m)
               else m)
        in d\<lparr>dht_peers := gput key (gput c now m) ps\<rparr>)"

text \<open>The loop of \<open>storedPeers\<close>: what it returns and what it leaves in the map.\<close>

fun stored_scan :: "go_time \<Rightarrow> nat \<Rightarrow> (string \<times> go_time) list \<Rightarrow> string list \<times> (string \<times> go_time) list" where
  "stored_scan cutoff n [] = ([], [])"
| "stored_scan cutoff n ((k, t) # m) =
     (if t < cutoff then stored_scan cutoff n m
      else if 32 \<le> n + 1 then ([k], (k, t) # m)
      else let (out, m') = stored_scan cutoff (n + 1) m in (k # out, (k, t) # m'))"

definition storedPeers :: "go_time \<Rightarrow> dhtState \<Rightarrow> string \<Rightarrow> string list \<times> dhtState" where
  "storedPeers now d key =
     (case gget (dht_peers d) key of
        None \<Rightarrow> ([], d)
      | Some m \<Rightarrow>
          let (out, m') = stored_scan (now - 30 * minute) 0 m in (out, d\<lparr>dht_peers := gput key m' (dht_peers d)\<rparr>))"

section \<open>Messages\<close>

type_synonym krpc_out = "(udp_addr \<times> string) list"

definition respond :: "dhtState \<Rightarrow> string \<Rightarrow> udp_addr \<Rightarrow> (string \<times> bval) list \<Rightarrow> dhtState \<times> krpc_out" where
  "respond d tx addr r =
     (case bencode (BDict [(''t'', BStr tx), (''y'', BStr ''r''), (''r'', BDict (gput ''id'' (BStr (str_of (dht_selfID d))) r))]) of
        Inl _ \<Rightarrow> (d, [])
      | Inr msg \<Rightarrow> (d\<lparr>statTx := statTx d + 1\<rparr>, [(addr, msg)]))"

definition closestCompact :: "dhtState \<Rightarrow> byte list \<Rightarrow> string" where
  "closestCompact d target =
     str_of (concat (map (\<lambda>n. case dhtCompactNode (dn_id n) (dn_addr n) of None \<Rightarrow> [] | Some c \<Rightarrow> c)
       (Closest (dht_table d) target dhtK)))"

definition announce_port :: "(string \<times> bval) list \<Rightarrow> udp_addr \<Rightarrow> nat" where
  "announce_port a raddr =
     (if (case bdictInt a ''implied_port'' of None \<Rightarrow> True | Some i \<Rightarrow> i = 0)
      then (case bdictInt a ''port'' of
          Some p \<Rightarrow> if 0 < p \<and> p < 65536 then nat p else ua_Port raddr
        | None \<Rightarrow> ua_Port raddr)
      else ua_Port raddr)"

definition str_or_empty :: "(string \<times> bval) list \<Rightarrow> string \<Rightarrow> string" where
  "str_or_empty d key = (case bdictStr d key of None \<Rightarrow> [] | Some s \<Rightarrow> s)"

definition handleQuery ::
  "(byte list \<Rightarrow> byte list \<Rightarrow> string) \<Rightarrow> byte list \<Rightarrow> go_time \<Rightarrow> dhtState \<Rightarrow> (string \<times> bval) list \<Rightarrow> udp_addr
   \<Rightarrow> dhtState \<times> krpc_out" where
  "handleQuery mac fresh now d msg raddr =
     (let tx = str_or_empty msg ''t''; q = str_or_empty msg ''q'' in
      case bdictDict msg ''a'' of
        None \<Rightarrow> (d, [])
      | Some a \<Rightarrow>
          (case bdictStr a ''id'' of
             None \<Rightarrow> (d, [])
           | Some idStr \<Rightarrow>
               if length idStr \<noteq> 20 then (d, [])
               else
                 let d = d\<lparr>dht_table := dht_Add (dht_table d) now (bytes_of idStr) raddr\<rparr> in
                 if q = ''ping'' then respond d tx raddr []
                 else if q = ''find_node'' then
                   (case bdictStr a ''target'' of
                      None \<Rightarrow> (d, [])
                    | Some target \<Rightarrow>
                        if length target \<noteq> 20 then (d, [])
                        else respond d tx raddr [(''nodes'', BStr (closestCompact d (bytes_of target)))])
                 else if q = ''get_peers'' then
                   (case bdictStr a ''info_hash'' of
                      None \<Rightarrow> (d, [])
                    | Some ih \<Rightarrow>
                        if length ih \<noteq> 20 then (d, [])
                        else
                          let (tok, d) = issueToken mac fresh now d raddr; (peers, d) = storedPeers now d ih in
                          respond d tx raddr
                            [(''token'', BStr tok),
                             (if peers \<noteq> [] then (''values'', BList (map BStr peers))
                              else (''nodes'', BStr (closestCompact d (bytes_of ih))))])
                 else if q = ''announce_peer'' then
                   (case bdictStr a ''info_hash'' of
                      None \<Rightarrow> (d, [])
                    | Some ih \<Rightarrow>
                        if length ih \<noteq> 20 then (d, [])
                        else if \<not> validToken mac d raddr (str_or_empty a ''token'') then (d, [])
                        else
                          let d = storePeer now d ih (raddr\<lparr>ua_Port := announce_port a raddr, ua_Zone := []\<rparr>) in
                          respond d tx raddr [])
                 else (d, [])))"

definition handle_reply :: "go_time \<Rightarrow> dhtState \<Rightarrow> (string \<times> bval) list \<Rightarrow> udp_addr \<Rightarrow> dhtState" where
  "handle_reply now d msg raddr =
     (let tx = str_or_empty msg ''t'' in
      case bdictDict msg ''r'' of
        None \<Rightarrow> d
      | Some r \<Rightarrow>
          let d = (case bdictStr r ''id'' of
              None \<Rightarrow> d
            | Some idStr \<Rightarrow>
                if length idStr = 20 then d\<lparr>dht_table := dht_Add (dht_table d) now (bytes_of idStr) raddr\<rparr> else d)
          in case gget (dht_tx d) tx of
              Some None \<Rightarrow> d\<lparr>dht_tx := gput tx (Some r) (dht_tx d)\<rparr>
            | _ \<Rightarrow> d)"

definition dhtHandlePacket ::
  "(byte list \<Rightarrow> byte list \<Rightarrow> string) \<Rightarrow> byte list \<Rightarrow> go_time \<Rightarrow> dhtState \<Rightarrow> string \<Rightarrow> udp_addr
   \<Rightarrow> (dhtState \<times> krpc_out) option" where
  "dhtHandlePacket mac fresh now d data raddr =
     (if \<not> dht_enabled d then Some (d, [])
      else case bdecode data of
          BPanic \<Rightarrow> None
        | BFuel \<Rightarrow> None
        | BErr _ \<Rightarrow> Some (d, [])
        | BOk v \<Rightarrow>
            (case v of
               BDict msg \<Rightarrow>
                 let d = d\<lparr>statRx := statRx d + 1\<rparr>; y = str_or_empty msg ''y'' in
                 if y = ''r'' then Some (handle_reply now d msg raddr, [])
                 else if y = ''q'' then Some (handleQuery mac fresh now d msg raddr)
                 else Some (d, [])
             | _ \<Rightarrow> Some (d, [])))"

section \<open>The routing table\<close>

lemma top_bit_le: "top_bit x b = Some k \<Longrightarrow> b \<le> 7 \<Longrightarrow> k \<le> 7"
  by (induction b) (auto split: if_splits)

lemma prefix_from_bound: "i + length a \<le> 20 \<Longrightarrow> prefix_from i a b < 160"
proof (induction i a b rule: prefix_from.induct)
  case (1 i a as b bs)
  have "i * 8 + k < 160" if "top_bit (a XOR b) 7 = Some k" for k
    using top_bit_le [OF that] "1.prems" by simp
  with 1 show ?case by (auto simp: Let_def split: option.splits)
qed auto

lemma dhtCommonPrefix_bound: "length a = 20 \<Longrightarrow> dhtCommonPrefix a b < 160"
  unfolding dhtCommonPrefix_def by (rule prefix_from_bound) simp

definition bucket_ok :: "byte list \<Rightarrow> nat \<Rightarrow> dhtNode list \<Rightarrow> bool" where
  "bucket_ok self i b \<longleftrightarrow> length b \<le> dhtK \<and> distinct (map dn_id b) \<and>
     (\<forall>n\<in>set b. dhtCommonPrefix self (dn_id n) = i \<and> dn_id n \<noteq> self \<and> dhtRoutableAddr (dn_addr n))"

definition table_ok :: "dhtRoutingTable \<Rightarrow> bool" where
  "table_ok t \<longleftrightarrow> length (rt_self t) = 20 \<and> length (rt_buckets t) = 160 \<and>
     (\<forall>i < 160. bucket_ok (rt_self t) i (rt_buckets t ! i))"

lemma refresh_node_Some:
  assumes "refresh_node now nid addr b = Some b'"
  shows "map dn_id b' = map dn_id b" "length b' = length b" "nid \<in> dn_id ` set b"
    "n \<in> set b' \<Longrightarrow> n \<in> set b \<or> dn_id n = nid \<and> dn_addr n = addr"
proof -
  have "map dn_id b' = map dn_id b \<and> length b' = length b \<and> nid \<in> dn_id ` set b \<and>
      (\<forall>n\<in>set b'. n \<in> set b \<or> dn_id n = nid \<and> dn_addr n = addr)"
    using assms by (induction b arbitrary: b') (auto split: if_splits)
  then show "map dn_id b' = map dn_id b" "length b' = length b" "nid \<in> dn_id ` set b"
    "n \<in> set b' \<Longrightarrow> n \<in> set b \<or> dn_id n = nid \<and> dn_addr n = addr" by auto
qed

lemma refresh_node_None: "refresh_node now nid addr b = None \<Longrightarrow> nid \<notin> dn_id ` set b"
  by (induction b) (auto split: if_splits)

lemma worst_node_index:
  "worst_node now i w b = Some (j, t) \<Longrightarrow> w = Some (j, t) \<or> i \<le> j \<and> j < i + length b"
  by (induction now i w b rule: worst_node.induct) (fastforce split: if_splits option.splits)+

lemma bucket_ok_update:
  assumes "table_ok t" "idx < 160" "bucket_ok (rt_self t) idx b'"
  shows "table_ok (t\<lparr>rt_buckets := (rt_buckets t)[idx := b']\<rparr>)"
  using assms by (auto simp: table_ok_def nth_list_update)

lemma dht_Add_ok: "table_ok t \<Longrightarrow> table_ok (dht_Add t now nid addr)"
proof -
  assume t: "table_ok t"
  let ?i = "dhtCommonPrefix (rt_self t) nid"
  let ?b = "rt_buckets t ! ?i"
  show ?thesis
  proof (cases "nid = rt_self t \<or> \<not> dhtRoutableAddr addr")
    case True
    with t show ?thesis by (auto simp: dht_Add_def)
  next
    case False
    have i: "?i < 160" using t by (simp add: table_ok_def dhtCommonPrefix_bound)
    then have b: "bucket_ok (rt_self t) ?i ?b" using t by (simp add: table_ok_def)
    show ?thesis
    proof (cases "refresh_node now nid addr ?b")
      case (Some b')
      note r = refresh_node_Some [OF Some]
      have "bucket_ok (rt_self t) ?i b'"
        using b r(1,2) r(4) False by (auto simp: bucket_ok_def)
      with Some False t i show ?thesis by (simp add: dht_Add_def Let_def bucket_ok_update)
    next
      case None
      note new = refresh_node_None [OF None]
      have app: "bucket_ok (rt_self t) ?i (?b @ [new_node now nid addr])" if "length ?b < dhtK"
        using b new False that by (auto simp: bucket_ok_def new_node_def)
      have upd: "bucket_ok (rt_self t) ?i (?b[j := new_node now nid addr])" for j
      proof -
        have "distinct ((map dn_id ?b)[j := nid])"
          by (rule distinct_list_update) (use b new in \<open>auto simp: bucket_ok_def\<close>)
        with b False show ?thesis
          by (auto simp: bucket_ok_def new_node_def map_update dest!: set_update_subset_insert [THEN subsetD])
      qed
      from None False t i app upd show ?thesis
        by (auto simp: dht_Add_def Let_def bucket_ok_update split: option.splits)
    qed
  qed
qed

lemma fail_node_ok: "bucket_ok self i b \<Longrightarrow> bucket_ok self i (fail_node nid b)"
proof -
  have sub: "dn_id ` set (fail_node nid b) \<subseteq> dn_id ` set b" for b
    by (induction b) (auto simp: Let_def)
  have "length (fail_node nid b) \<le> length b" by (induction b) (auto simp: Let_def)
  moreover have "distinct (map dn_id b) \<Longrightarrow> distinct (map dn_id (fail_node nid b))"
    by (induction b) (use sub in \<open>auto simp: Let_def\<close>)
  moreover have "n \<in> set (fail_node nid b) \<Longrightarrow> \<exists>m\<in>set b. dn_id n = dn_id m \<and> dn_addr n = dn_addr m" for n
    by (induction b) (auto simp: Let_def split: if_splits)
  ultimately show "bucket_ok self i b \<Longrightarrow> ?thesis"
    unfolding bucket_ok_def by (metis le_trans)
qed

lemma dht_fail_ok: "table_ok t \<Longrightarrow> table_ok (dht_fail t nid)"
  unfolding dht_fail_def Let_def
  by (rule bucket_ok_update) (auto simp: table_ok_def dhtCommonPrefix_bound fail_node_ok)

lemma respond_frame [simp]:
  "dht_table (fst (respond d tx addr r)) = dht_table d" "dht_peers (fst (respond d tx addr r)) = dht_peers d"
  by (auto simp: respond_def split: sum.splits)

lemma token_frame [simp]:
  "dht_table (rotateTokens fresh now d) = dht_table d" "dht_peers (rotateTokens fresh now d) = dht_peers d"
  by (simp_all add: rotateTokens_def)

lemma peers_frame [simp]:
  "dht_table (storePeer now d key addr) = dht_table d" "dht_table (snd (storedPeers now d key)) = dht_table d"
  by (auto simp: storePeer_def storedPeers_def Let_def split: option.splits prod.splits)

lemma handleQuery_table:
  "dht_table (fst (handleQuery mac fresh now d msg raddr)) \<in> {dht_table d} \<union> range (\<lambda>nid. dht_Add (dht_table d) now nid raddr)"
  by (auto simp: handleQuery_def issueToken_def Let_def case_prod_beta split: option.splits)

lemma handle_reply_table:
  "dht_table (handle_reply now d msg raddr) \<in> {dht_table d} \<union> range (\<lambda>nid. dht_Add (dht_table d) now nid raddr)"
  by (auto simp: handle_reply_def Let_def split: option.splits)

lemma dhtHandlePacket_table:
  assumes "dhtHandlePacket mac fresh now d data raddr = Some (d', out)" "table_ok (dht_table d)"
  shows "table_ok (dht_table d')"
proof -
  have "dht_table d' \<in> {dht_table d} \<union> range (\<lambda>nid. dht_Add (dht_table d) now nid raddr)"
    using assms(1) handleQuery_table [of mac fresh now "d\<lparr>statRx := statRx d + 1\<rparr>" _ raddr]
      handle_reply_table [of now "d\<lparr>statRx := statRx d + 1\<rparr>" _ raddr]
    by (auto simp: dhtHandlePacket_def Let_def split: if_splits bres.splits bval.splits) (metis fst_conv)+
  then show ?thesis using assms(2) dht_Add_ok by auto
qed

lemma dhtXORLess_dist:
  "length a = length target \<Longrightarrow> length b = length target \<Longrightarrow>
     dhtXORLess target a b \<longleftrightarrow> xor_dist target a < xor_dist target b"
proof (induction target a b rule: dhtXORLess.induct)
  case (1 t ts a as b bs)
  then show ?case by (auto simp: xor_dist_def Let_def Cons_less_Cons)
qed (auto simp: xor_dist_def)

lemma take_sort_key:
  assumes "x \<in> set (take k (sort_key f xs))" "y \<in> set xs" "y \<notin> set (take k (sort_key f xs))"
  shows "f x \<le> f y"
proof -
  let ?s = "sort_key f xs"
  from assms(1) obtain i where i: "i < length ?s" "i < k" "?s ! i = x" by (auto simp: in_set_conv_nth)
  from assms(2) have "y \<in> set ?s" by simp
  then obtain j where j: "j < length ?s" "?s ! j = y" by (meson in_set_conv_nth)
  have "k \<le> j"
  proof (rule ccontr)
    assume "\<not> k \<le> j"
    then have "take k ?s ! j = y" "j < length (take k ?s)" using j by auto
    with assms(3) show False by (metis nth_mem)
  qed
  have "map f ?s ! i \<le> map f ?s ! j"
    by (rule sorted_nth_mono) (use i j \<open>k \<le> j\<close> in auto)
  with i j show ?thesis by simp
qed

section \<open>The peer store\<close>

definition stored :: "dhtState \<Rightarrow> string \<Rightarrow> string set" where
  "stored d key = (case gget (dht_peers d) key of None \<Rightarrow> {} | Some m \<Rightarrow> fst ` set m)"

lemma keys_gput: "fst ` set (gput k v m) = insert k (fst ` set m)"
  by (induction m) auto

lemma keys_gdel: "fst ` set (gdel k m) \<subseteq> fst ` set m"
  by (auto simp: set_gdel)

lemma map_of_tl: "gwf m \<Longrightarrow> gget (tl m) k = Some v \<Longrightarrow> gget m k = Some v"
  by (cases m) (force simp: gwf_def dest: map_of_SomeD)+

lemma storePeer_stored:
  assumes "gwf (dht_peers d)" "c \<in> stored (storePeer now d key addr) k"
  shows "c \<in> stored d k \<or> k = key \<and> c = str_of (compact_peer addr)"
proof (cases "gget (dht_peers d) key")
  case None
  with assms show ?thesis
    by (auto simp: storePeer_def Let_def stored_def gomap_simps keys_gput dhtMaxPeersPerKey_def
        dest!: map_of_tl split: if_splits option.splits)
next
  case (Some m)
  with assms show ?thesis
    using keys_gdel [of "fst (oldest_peer now m)" m]
    by (auto simp: storePeer_def Let_def stored_def gomap_simps keys_gput split: if_splits option.splits)
qed

lemma stored_scan_keys: "fst ` set (snd (stored_scan t n m)) \<subseteq> fst ` set m"
proof (induction t n m rule: stored_scan.induct)
  case (2 cutoff n k t m)
  then show ?case by (cases "stored_scan cutoff (n + 1) m") (auto simp: Let_def; blast)
qed simp

lemma storedPeers_stored: "stored (snd (storedPeers now d key)) k \<subseteq> stored d k"
proof (cases "gget (dht_peers d) key")
  case None
  then show ?thesis by (simp add: storedPeers_def)
next
  case (Some m)
  with stored_scan_keys [of "now - 30 * minute" 0 m] show ?thesis
    by (auto simp: storedPeers_def Let_def stored_def gomap_simps case_prod_beta split: option.splits)
qed

lemma stored_frame [simp]:
  "stored (d\<lparr>dht_table := t\<rparr>) k = stored d k" "stored (fst (respond d tx a r)) k = stored d k"
  "stored (rotateTokens fresh now d) k = stored d k"
  by (simp_all add: stored_def)

lemma validToken_table [simp]: "validToken mac (d\<lparr>dht_table := t\<rparr>) = validToken mac d"
  by (simp add: validToken_def fun_eq_iff)

lemma oldest_peer_key:
  "fst (foldl (\<lambda>(o', ot) (k, t). if t < ot then (k, t) else (o', ot)) (k0, t0) m) \<in> insert k0 (fst ` set m)"
proof (induction m arbitrary: k0 t0)
  case (Cons x m)
  obtain k1 t1 where x: "x = (k1, t1)" by (cases x)
  from Cons.IH [of k0 t0] Cons.IH [of k1 t1] x show ?case by (cases "t1 < t0") auto
qed simp

lemma oldest_peer_found:
  assumes "(k, t) \<in> set m" "t < t0"
  shows "fst (foldl (\<lambda>(o', ot) (k, t). if t < ot then (k, t) else (o', ot)) (k0, t0) m) \<in> fst ` set m"
  using assms
proof (induction m arbitrary: k0 t0)
  case (Cons x m)
  obtain k1 t1 where x: "x = (k1, t1)" by (cases x)
  show ?case
  proof (cases "t1 < t0")
    case True
    with x oldest_peer_key [of k1 t1 m] show ?thesis by auto
  next
    case False
    with Cons x have "fst (foldl (\<lambda>(o', ot) (k, t). if t < ot then (k, t) else (o', ot)) (k0, t0) m) \<in> fst ` set m"
      by auto
    with False x show ?thesis by simp
  qed
qed simp

definition store_ok :: "go_time \<Rightarrow> dhtState \<Rightarrow> bool" where
  "store_ok now d \<longleftrightarrow> gwf (dht_peers d) \<and> length (dht_peers d) \<le> dhtMaxStoredKeys \<and>
     (\<forall>(key, m) \<in> set (dht_peers d). gwf m \<and> length m \<le> dhtMaxPeersPerKey \<and> (\<forall>(c, t) \<in> set m. c \<noteq> [] \<and> t < now))"

lemma gdel_length: "k \<in> fst ` set m \<Longrightarrow> length (gdel k m) < length m"
proof -
  assume "k \<in> fst ` set m"
  then obtain v where "(k, v) \<in> set m" by auto
  then show ?thesis unfolding AList.delete_eq by (rule length_filter_less) simp
qed

lemma gput_length_le: "length (gput k v m) \<le> Suc (length m)"
  by (simp add: length_gput)

lemma storePeer_ok:
  assumes ok: "store_ok now d" and later: "now < later"
  shows "store_ok later (storePeer now d key addr)"
proof (cases "str_of (compact_peer addr) = []")
  case True
  with ok later show ?thesis by (fastforce simp: storePeer_def store_ok_def)
next
  case False
  define m where "m = (case gget (dht_peers d) key of None \<Rightarrow> [] | Some m \<Rightarrow> m)"
  define ps where "ps = (case gget (dht_peers d) key of Some _ \<Rightarrow> dht_peers d
    | None \<Rightarrow> if dhtMaxStoredKeys \<le> length (dht_peers d) then tl (dht_peers d) else dht_peers d)"
  define m1 where "m1 = (if dhtMaxPeersPerKey \<le> length m then
    (let old = fst (oldest_peer now m) in if old \<noteq> [] then gdel old m else m) else m)"
  have eq: "dht_peers (storePeer now d key addr) = gput key (gput (str_of (compact_peer addr)) now m1) ps"
    using False by (simp add: storePeer_def Let_def m_def ps_def m1_def split: option.splits)
  have each: "gwf x \<and> length x \<le> dhtMaxPeersPerKey \<and> (\<forall>(c, t) \<in> set x. c \<noteq> [] \<and> t < now)" if "(k, x) \<in> set (dht_peers d)" for k x
    using ok that by (auto simp: store_ok_def)
  have m: "gwf m" "length m \<le> dhtMaxPeersPerKey" "\<forall>(c, t) \<in> set m. c \<noteq> [] \<and> t < now"
    using each [OF map_of_SomeD, of key] by (cases "gget (dht_peers d) key"; force simp: m_def)+
  have "length m1 < dhtMaxPeersPerKey"
  proof (cases "dhtMaxPeersPerKey \<le> length m")
    case True
    then obtain c t where ct: "(c, t) \<in> set m" by (cases m) (auto simp: dhtMaxPeersPerKey_def)
    with m(3) have "fst (oldest_peer now m) \<in> fst ` set m"
      unfolding oldest_peer_def by (intro oldest_peer_found) auto
    moreover from this m(3) have "fst (oldest_peer now m) \<noteq> []" by auto
    ultimately show ?thesis using gdel_length [of "fst (oldest_peer now m)" m] True m(2) by (simp add: m1_def)
  qed (simp add: m1_def)
  moreover have "gwf m1" "set m1 \<subseteq> set m"
    using m(1) by (auto simp: m1_def Let_def gwf_gdel set_gdel)
  ultimately have new: "gwf (gput (str_of (compact_peer addr)) now m1)"
    "length (gput (str_of (compact_peer addr)) now m1) \<le> dhtMaxPeersPerKey"
    "\<forall>(c, t) \<in> set (gput (str_of (compact_peer addr)) now m1). c \<noteq> [] \<and> t < later"
    using m(3) False later gput_length_le [of "str_of (compact_peer addr)" now m1]
      set_gput_subset [of "str_of (compact_peer addr)" now m1]
    by (auto simp: gwf_gput) fastforce+
  have ps: "gwf ps" "set ps \<subseteq> set (dht_peers d)"
    using ok by (cases "dht_peers d"; auto simp: ps_def store_ok_def gwf_def split: option.splits)+
  have len: "length (gput key x ps) \<le> dhtMaxStoredKeys" for x
    using ok gput_length_le [of key x ps]
    by (auto simp: ps_def store_ok_def length_gput dhtMaxStoredKeys_def split: option.splits if_splits)
  show ?thesis
    unfolding store_ok_def eq
    using new ps len each later set_gput_subset [of key "gput (str_of (compact_peer addr)) now m1" ps]
    by (fastforce simp: gwf_gput)
qed

section \<open>Properties\<close>

fun dht_run ::
  "(byte list \<Rightarrow> byte list \<Rightarrow> string) \<Rightarrow> dhtState \<Rightarrow> (byte list \<times> go_time \<times> string \<times> udp_addr) list \<Rightarrow> dhtState option" where
  "dht_run mac d [] = Some d"
| "dht_run mac d ((fresh, now, data, raddr) # ps) =
     (case dhtHandlePacket mac fresh now d data raddr of None \<Rightarrow> None | Some (d', _) \<Rightarrow> dht_run mac d' ps)"

text \<open>
  The routing table cannot be poisoned into the local network or grown. Whatever datagrams
  arrive from whatever addresses, every bucket keeps at most eight nodes with distinct ids,
  each in the bucket of its distance, none of them this node and all at routable addresses.
\<close>

theorem dht_table_safe:
  assumes "dht_run mac d packets = Some d'" and "table_ok (dht_table d)" and "i < 160"
  shows "length (rt_buckets (dht_table d') ! i) \<le> 8 \<and> distinct (map dn_id (rt_buckets (dht_table d') ! i)) \<and>
    (\<forall>n. n \<in> set (rt_buckets (dht_table d') ! i) \<longrightarrow>
       dhtCommonPrefix (rt_self (dht_table d')) (dn_id n) = i \<and> dn_id n \<noteq> rt_self (dht_table d') \<and> dhtRoutableAddr (dn_addr n))"
proof -
  from assms(1,2) have "table_ok (dht_table d')"
    by (induction mac d packets rule: dht_run.induct)
      (auto split: option.splits dest: dhtHandlePacket_table)
  with assms(3) show ?thesis by (simp add: table_ok_def bucket_ok_def dhtK_def)
qed

definition demo_dht :: dhtState where
  "demo_dht = \<lparr>dht_table = \<lparr>rt_self = replicate 20 0, rt_buckets = replicate 160 []\<rparr>, dht_selfID = replicate 20 0,
     dht_enabled = True, dht_tx = [], dht_txSeq = 0, dht_txCount = 0, dht_peers = [], tokCur = [1], tokPrev = [2],
     tokRotate = 0, statTx = 0, statRx = 0\<rparr>"

definition demo_mac :: "byte list \<Rightarrow> byte list \<Rightarrow> string" where
  "demo_mac secret ip = str_of (secret @ ip)"

definition demo_ping :: string where
  "demo_ping = ''d1:ad2:id20:aaaaaaaaaaaaaaaaaaaae1:q4:ping1:t2:xx1:y1:qe''"

lemma demo_table_ok: "table_ok (dht_table demo_dht)"
  by (simp add: table_ok_def demo_dht_def bucket_ok_def)

definition demo_ping_msg :: "(string \<times> bval) list" where
  "demo_ping_msg = [(''a'', BDict [(''id'', BStr ''aaaaaaaaaaaaaaaaaaaa'')]), (''q'', BStr ''ping''),
     (''t'', BStr ''xx''), (''y'', BStr ''q'')]"

lemma demo_ping_decodes: "bdecode demo_ping = BOk (BDict demo_ping_msg)"
proof -
  have "bencode (BDict demo_ping_msg) = Inr demo_ping" by code_simp
  moreover have "bwf (BDict demo_ping_msg)" by (simp add: demo_ping_msg_def str_ok_def)
  moreover have "bnorm (BDict demo_ping_msg) = BDict demo_ping_msg" by code_simp
  ultimately show ?thesis
    using bencodeInto_reads [of 0 "BDict demo_ping_msg"] readsD [of 0 demo_ping _ "2 * length demo_ping + 1" "[]"]
    by (auto simp: bencode_def bdecode_def)
qed

theorem dht_table_safe_witness:
  "\<exists>d'. dht_run demo_mac demo_dht [([], 1, demo_ping, udp4 [203, 0, 113, 5] 6881)] = Some d' \<and>
     length (rt_buckets (dht_table d') ! 1) \<le> 8"
proof -
  let ?d = "demo_dht\<lparr>statRx := statRx demo_dht + 1\<rparr>"
  let ?a = "udp4 [203, 0, 113, 5] 6881"
  have "dht_enabled demo_dht" by (simp add: demo_dht_def)
  then have "dhtHandlePacket demo_mac [] 1 demo_dht demo_ping ?a = Some (handleQuery demo_mac [] 1 ?d demo_ping_msg ?a)"
    by (simp add: dhtHandlePacket_def demo_ping_decodes Let_def str_or_empty_def bdictStr_def demo_ping_msg_def)
  then have run: "dht_run demo_mac demo_dht [([], 1, demo_ping, ?a)] =
      Some (fst (handleQuery demo_mac [] 1 ?d demo_ping_msg ?a))"
    by (simp add: case_prod_beta)
  from dht_table_safe [OF run demo_table_ok, of 1] run show ?thesis by auto
qed

text \<open>
  An address is listed as a peer only by itself. If a query makes an entry appear in the
  peer store, the query carried a non-empty token that this node computes for the sender's IP
  with its current or previous secret, and the entry is the sender's own IP with some port.
\<close>

theorem announce_needs_token:
  assumes "gwf (dht_peers d)" and "c \<in> stored (fst (handleQuery mac fresh now d msg raddr)) key" and "c \<notin> stored d key"
  shows "\<exists>a tok port. bdictDict msg ''a'' = Some a \<and> tok = str_or_empty a ''token'' \<and> tok \<noteq> [] \<and>
    (tok = tokenFor mac raddr (tokCur d) \<or> tok = tokenFor mac raddr (tokPrev d)) \<and>
    c = str_of (compact_peer (raddr\<lparr>ua_Port := port, ua_Zone := []\<rparr>))"
proof -
  obtain a idStr where a: "bdictDict msg ''a'' = Some a" "bdictStr a ''id'' = Some idStr" "length idStr = 20"
    using assms(2,3) by (auto simp: handleQuery_def Let_def split: option.splits if_splits)
  let ?d = "d\<lparr>dht_table := dht_Add (dht_table d) now (bytes_of idStr) raddr\<rparr>"
  have "validToken mac d raddr (str_or_empty a ''token'') \<and>
      (\<exists>ih. c \<in> stored (storePeer now ?d ih (raddr\<lparr>ua_Port := announce_port a raddr, ua_Zone := []\<rparr>)) key)"
    using assms(2,3) a storedPeers_stored [of now "rotateTokens fresh now ?d" _ key]
    by (auto simp: handleQuery_def issueToken_def Let_def case_prod_beta split: option.splits if_splits)
  then obtain ih where tok: "validToken mac d raddr (str_or_empty a ''token'')"
    and c: "c \<in> stored (storePeer now ?d ih (raddr\<lparr>ua_Port := announce_port a raddr, ua_Zone := []\<rparr>)) key" by blast
  have "c = str_of (compact_peer (raddr\<lparr>ua_Port := announce_port a raddr, ua_Zone := []\<rparr>))"
    using storePeer_stored [OF _ c] assms(1,3) by simp
  with tok a(1) show ?thesis by (auto simp: validToken_def split: if_splits)
qed

definition demo_announce :: "(string \<times> bval) list" where
  "demo_announce = [(''a'', BDict [(''id'', BStr ''aaaaaaaaaaaaaaaaaaaa''), (''info_hash'', BStr ''bbbbbbbbbbbbbbbbbbbb''),
     (''port'', BInt 6881), (''token'', BStr (demo_mac [1] (replicate 10 0 @ [255, 255, 203, 0, 113, 5])))]),
     (''q'', BStr ''announce_peer''), (''t'', BStr ''xx''), (''y'', BStr ''q'')]"

theorem announce_needs_token_witness:
  "\<exists>c a tok port. c \<in> stored (fst (handleQuery demo_mac [] 1 demo_dht demo_announce (udp4 [203, 0, 113, 5] 9))) ''bbbbbbbbbbbbbbbbbbbb'' \<and>
     bdictDict demo_announce ''a'' = Some a \<and> tok = str_or_empty a ''token'' \<and>
     c = str_of (compact_peer (udp4 [203, 0, 113, 5] port))"
proof -
  let ?r = "udp4 [203, 0, 113, 5] 9"
  let ?c = "str_of (compact_peer (udp4 [203, 0, 113, 5] 6881))"
  have "?c \<noteq> []" by (simp add: str_of_def compact_peer_def)
  then have in': "?c \<in> stored (fst (handleQuery demo_mac [] 1 demo_dht demo_announce ?r)) ''bbbbbbbbbbbbbbbbbbbb''"
    by (simp add: handleQuery_def demo_announce_def bdictDict_def bdictStr_def bdictInt_def str_or_empty_def Let_def
        validToken_def tokenFor_def demo_dht_def demo_mac_def str_of_def announce_port_def storePeer_def stored_def
        dhtMaxStoredKeys_def dhtMaxPeersPerKey_def)
  have wf: "gwf (dht_peers demo_dht)" and out: "?c \<notin> stored demo_dht ''bbbbbbbbbbbbbbbbbbbb''"
    by (simp_all add: demo_dht_def stored_def)
  from announce_needs_token [OF wf in' out] in' show ?thesis by (metis udp_addr.update_convs(2,3))
qed

text \<open>
  \<open>Closest\<close> returns the nearest nodes. It yields the requested number of nodes or all there
  are, in order of XOR distance, and no node it leaves out is nearer to the target than one it
  returns.
\<close>

theorem closest_nearest:
  assumes "\<And>x. x \<in> set (concat (rt_buckets t)) \<Longrightarrow> length (dn_id x) = length target"
  shows "length (Closest t target k) = min k (Count t) \<and>
    sorted (map (\<lambda>x. xor_dist target (dn_id x)) (Closest t target k)) \<and>
    (\<forall>x y. x \<in> set (Closest t target k) \<longrightarrow> y \<in> set (concat (rt_buckets t)) \<longrightarrow> y \<notin> set (Closest t target k) \<longrightarrow>
       \<not> dhtXORLess target (dn_id y) (dn_id x))"
proof (intro conjI allI impI)
  show "length (Closest t target k) = min k (Count t)"
    by (simp add: Closest_def Count_def length_concat min.commute)
  show "sorted (map (\<lambda>x. xor_dist target (dn_id x)) (Closest t target k))"
    by (simp add: Closest_def take_map [symmetric] sorted_wrt_take)
  fix x y assume x: "x \<in> set (Closest t target k)" and y: "y \<in> set (concat (rt_buckets t))" "y \<notin> set (Closest t target k)"
  have "xor_dist target (dn_id x) \<le> xor_dist target (dn_id y)"
    using x y unfolding Closest_def by (rule take_sort_key)
  moreover have "x \<in> set (concat (rt_buckets t))"
    using x by (auto simp: Closest_def dest: in_set_takeD)
  ultimately show "\<not> dhtXORLess target (dn_id y) (dn_id x)"
    using assms y(1) by (simp add: dhtXORLess_dist)
qed

definition demo_nodes :: dhtRoutingTable where
  "demo_nodes = \<lparr>rt_self = [0], rt_buckets = [[new_node 0 [6] demo_alice, new_node 0 [5] demo_alice], [new_node 0 [1] demo_bob]]\<rparr>"

theorem closest_nearest_witness:
  "length (Closest demo_nodes [4] 2) = 2 \<and> \<not> dhtXORLess [4] [1] [5]"
proof -
  have "length (dn_id x) = length [4 :: byte]" if "x \<in> set (concat (rt_buckets demo_nodes))" for x
    using that by (auto simp: demo_nodes_def new_node_def)
  from closest_nearest [of demo_nodes "[4]", OF this] show ?thesis
    by (simp add: Count_def demo_nodes_def)
qed

lemma store_ok_mono: "store_ok t d \<Longrightarrow> t \<le> t' \<Longrightarrow> store_ok t' d"
  by (fastforce simp: store_ok_def)

lemma announces_ok:
  assumes "\<And>t. t0 < t \<Longrightarrow> store_ok t d" and "sorted_wrt (<) (t0 # map fst calls)"
  shows "\<exists>t. store_ok t (foldl (\<lambda>d (now, key, addr). storePeer now d key addr) d calls)"
  using assms
proof (induction calls arbitrary: t0 d)
  case Nil
  from Nil.prems(1) [of "t0 + 1"] show ?case by auto
next
  case (Cons c cs)
  obtain now key addr where c: "c = (now, key, addr)" by (cases c)
  with Cons.prems have "store_ok now d" by simp
  then have "store_ok t (storePeer now d key addr)" if "now < t" for t
    using storePeer_ok that by blast
  from Cons.IH [OF this] Cons.prems(2) c show ?case by simp
qed

text \<open>
  The store that serves the swarm is bounded. However many announces are stored,
  at increasing times, the store holds at most 2048 keys with at most 128 peers each.
\<close>

theorem dht_store_bounded:
  assumes "store_ok t0 d" and "sorted_wrt (<) (t0 # map fst calls)"
  shows "length (dht_peers (foldl (\<lambda>d (now, key, addr). storePeer now d key addr) d calls)) \<le> 2048 \<and>
    (\<forall>key m. gget (dht_peers (foldl (\<lambda>d (now, key, addr). storePeer now d key addr) d calls)) key = Some m \<longrightarrow> length m \<le> 128)"
proof -
  have "\<exists>t. store_ok t (foldl (\<lambda>d (now, key, addr). storePeer now d key addr) d calls)"
    by (rule announces_ok [OF _ assms(2)]) (use assms(1) store_ok_mono in auto)
  then show ?thesis
    by (auto simp: store_ok_def dhtMaxStoredKeys_def dhtMaxPeersPerKey_def dest!: map_of_SomeD)
qed

theorem dht_store_bounded_witness:
  "length (dht_peers (foldl (\<lambda>d (now, key, addr). storePeer now d key addr) demo_dht
     [(1, ''k'', demo_alice), (2, ''l'', demo_bob)])) \<le> 2048"
proof -
  have "store_ok 0 demo_dht" by (simp add: store_ok_def demo_dht_def dhtMaxStoredKeys_def)
  from dht_store_bounded [OF this, of "[(1, ''k'', demo_alice), (2, ''l'', demo_bob)]"] show ?thesis by simp
qed

end
