(* ===== verification/Session_Table.thy ===== *)
theory Session_Table
  imports Data_Plane Net_Addr
begin

text \<open>
  The established sessions of a node and the learned routes that point at them:
  \<open>client/sessions.go\<close> (session table, liveness, back-off) and the parts of
  \<open>client/ip_learning.go\<close> that do not read the session table.

  The process-wide variables these operations share are the fields of one record \<open>mesh\<close>.
  A session is stored by value under its address; its cipher states have the parameter type
  \<open>'c\<close>, \<open>None\<close> being nil. Each operation takes the current time once: \<open>now\<close> stands for every
  \<open>time.Now()\<close> of the call. The callback \<open>onSessionLost\<close> is the list of addresses it would be
  started with; log output is not modelled.
\<close>

section \<open>State\<close>

record backoffState =
  bo_failures :: int
  bo_until :: go_time
  bo_everOK :: bool

record 'c session = replay +
  s_addr :: "udp_addr option"
  s_send :: "'c option"
  s_recv :: "'c option"
  s_established :: bool
  s_lastSeen :: go_time
  s_sendNonce :: u64
  s_decryptFails :: int
  s_msg3Frame :: "byte list"
  s_peerStatic :: node_key
  s_createdAt :: go_time
  s_initiator :: bool

record ip_entry =
  ie_addr :: udp_addr
  ie_seen :: go_time

type_synonym ip_table = "(string \<times> ip_entry) list"

record 'c mesh =
  byAddr :: "(udp_addr \<times> 'c session) list"
  peerBackoff :: "(udp_addr \<times> backoffState) list"
  onSessionLost :: bool
  onNeedRediscovery :: bool
  lastRediscovery :: go_time
  learned :: ip_table
  pqPeers :: "(node_key \<times> pqPeer) list"
  peerPQ :: "(node_key \<times> bool) list"
  gKeepaliveInterval :: duration
  sessionStaleTimeout :: duration

definition sessionIdleTimeout :: duration where "sessionIdleTimeout = 5 * minute"

text \<open>The two timers are set together from \<open>keepalive_seconds\<close> at startup.\<close>

definition applyKeepalive :: "int \<Rightarrow> 'c mesh \<Rightarrow> 'c mesh" where
  "applyKeepalive secs m =
     (let secs = (if secs = 0 then 10 else secs);
        k = (if secs < 5 then 5 else if 120 < secs then 120 else secs) * second
      in m\<lparr>gKeepaliveInterval := k, sessionStaleTimeout := 3 * k + 15 * second\<rparr>)"

section \<open>Learned overlay routes\<close>

definition ForgetAddr :: "udp_addr \<Rightarrow> ip_table \<Rightarrow> ip_table" where
  "ForgetAddr addr m = gdrop (\<lambda>_ e. ie_addr e = addr) m"

definition RemapAddr :: "go_time \<Rightarrow> udp_addr option \<Rightarrow> udp_addr option \<Rightarrow> ip_table \<Rightarrow> ip_table" where
  "RemapAddr now old newAddr m =
     (case (old, newAddr) of
        (Some o', Some n) \<Rightarrow> gmap (\<lambda>_ e. if ie_addr e = o' then e\<lparr>ie_addr := n, ie_seen := now\<rparr> else e) m
      | _ \<Rightarrow> m)"

definition Lookup :: "ip_table \<Rightarrow> string \<Rightarrow> udp_addr option" where
  "Lookup m ip = map_option ie_addr (gget m ip)"

text \<open>\<open>OverlayIPFor\<close>: the loop over the map, which gives up at the second match.\<close>

fun overlay_ip_scan :: "udp_addr \<Rightarrow> string \<Rightarrow> ip_table \<Rightarrow> string" where
  "overlay_ip_scan key found [] = found"
| "overlay_ip_scan key found ((ip, e) # m) =
     (if ie_addr e = key then (if found \<noteq> [] then [] else overlay_ip_scan key ip m)
      else overlay_ip_scan key found m)"

definition OverlayIPFor :: "udp_addr option \<Rightarrow> ip_table \<Rightarrow> string" where
  "OverlayIPFor addr m = (case addr of None \<Rightarrow> [] | Some a \<Rightarrow> overlay_ip_scan a [] m)"

definition ipLearnStaleTimeout :: duration where "ipLearnStaleTimeout = 5 * minute"

definition ipl_evict :: "go_time \<Rightarrow> ip_table \<Rightarrow> ip_table" where
  "ipl_evict now m = gdrop (\<lambda>_ e. ipLearnStaleTimeout < time_sub now (ie_seen e)) m"

section \<open>Liveness\<close>

definition GetByAddr :: "'c mesh \<Rightarrow> udp_addr option \<Rightarrow> 'c session option" where
  "GetByAddr m a = (case a of None \<Rightarrow> None | Some u \<Rightarrow> gget (byAddr m) u)"

definition Established :: "'c session option \<Rightarrow> bool" where
  "Established s = (case s of None \<Rightarrow> False | Some s \<Rightarrow> s_established s \<and> s_send s \<noteq> None \<and> s_recv s \<noteq> None)"

definition routeLiveTimeout :: "'c mesh \<Rightarrow> duration" where
  "routeLiveTimeout m = 2 * gKeepaliveInterval m + 2 * second"

definition RouteIsLive :: "'c mesh \<Rightarrow> go_time \<Rightarrow> udp_addr option \<Rightarrow> bool" where
  "RouteIsLive m now a =
     (case a of None \<Rightarrow> False
      | Some u \<Rightarrow>
          (case gget (byAddr m) u of None \<Rightarrow> False
           | Some s \<Rightarrow>
               if \<not> s_established s \<or> s_send s = None \<or> s_recv s = None then False
               else time_sub now (s_lastSeen s) \<le> routeLiveTimeout m))"

definition pqForget :: "node_key \<Rightarrow> 'c mesh \<Rightarrow> 'c mesh" where
  "pqForget k m = m\<lparr>pqPeers := gdel k (pqPeers m)\<rparr>"

definition forgetPeerPQStatus :: "node_key \<Rightarrow> 'c mesh \<Rightarrow> 'c mesh" where
  "forgetPeerPQStatus k m = m\<lparr>peerPQ := gdel k (peerPQ m)\<rparr>"

definition has_route :: "'c mesh \<Rightarrow> node_key \<Rightarrow> bool" where
  "has_route m k = list_ex (\<lambda>(_, s). s_established s \<and> s_peerStatic s = k) (byAddr m)"

definition dropPeerCryptoIfNoRoute :: "node_key \<Rightarrow> 'c mesh \<Rightarrow> 'c mesh" where
  "dropPeerCryptoIfNoRoute key m =
     (if key = zero_key then m
      else if has_route m key then m
      else forgetPeerPQStatus key (pqForget key m))"

definition session_dead :: "'c mesh \<Rightarrow> go_time \<Rightarrow> 'c session \<Rightarrow> bool" where
  "session_dead m now s \<longleftrightarrow>
     (if s_established s then sessionStaleTimeout m else sessionIdleTimeout) < time_sub now (s_lastSeen s)"

definition lost_sessions :: "'c mesh \<Rightarrow> go_time \<Rightarrow> (udp_addr \<times> node_key) list" where
  "lost_sessions m now =
     concat (map (\<lambda>(_, s). case s_addr s of None \<Rightarrow> []
        | Some a \<Rightarrow> if session_dead m now s \<and> s_established s then [(a, s_peerStatic s)] else []) (byAddr m))"

definition drop_lost :: "'c mesh \<Rightarrow> udp_addr \<times> node_key \<Rightarrow> 'c mesh" where
  "drop_lost m l = dropPeerCryptoIfNoRoute (snd l) (m\<lparr>learned := ForgetAddr (fst l) (learned m)\<rparr>)"

definition evictStale :: "'c mesh \<Rightarrow> go_time \<Rightarrow> 'c mesh \<times> udp_addr list" where
  "evictStale m now =
     (let lost = lost_sessions m now;
        m1 = m\<lparr>peerBackoff := gdrop (\<lambda>_ b. (if bo_everOK b then hour else 10 * minute) < time_sub now (bo_until b)) (peerBackoff m),
               byAddr := gdrop (\<lambda>_ s. session_dead m now s) (byAddr m)\<rparr>
      in (foldl drop_lost m1 lost, if onSessionLost m then map fst lost else []))"

definition Evict :: "'c mesh \<Rightarrow> udp_addr \<Rightarrow> 'c mesh" where
  "Evict m addr =
     (let key = (case gget (byAddr m) addr of None \<Rightarrow> zero_key | Some s \<Rightarrow> s_peerStatic s)
      in dropPeerCryptoIfNoRoute key (m\<lparr>byAddr := gdel addr (byAddr m)\<rparr>))"

definition TouchLastSeen :: "'c mesh \<Rightarrow> go_time \<Rightarrow> udp_addr \<Rightarrow> 'c mesh" where
  "TouchLastSeen m now addr =
     (case gget (byAddr m) addr of None \<Rightarrow> m
      | Some s \<Rightarrow> m\<lparr>byAddr := gput addr (s\<lparr>s_lastSeen := now, s_decryptFails := 0\<rparr>) (byAddr m)\<rparr>)"

definition desyncQuietPeriod :: "'c mesh \<Rightarrow> duration" where
  "desyncQuietPeriod m =
     (let slack = gKeepaliveInterval m div 2;
        slack = (if slack < 3 * second then 3 * second else slack)
      in gKeepaliveInterval m + slack)"

definition NoteDecryptFailure :: "'c mesh \<Rightarrow> go_time \<Rightarrow> udp_addr \<Rightarrow> 'c mesh \<times> udp_addr list" where
  "NoteDecryptFailure m now addr =
     (case gget (byAddr m) addr of None \<Rightarrow> (m, [])
      | Some s \<Rightarrow>
          if \<not> s_established s then (m, [])
          else
            let s1 = s\<lparr>s_decryptFails := s_decryptFails s + 1\<rparr>;
              quiet = time_sub now (s_lastSeen s)
            in if s_decryptFails s1 < 10 \<or> quiet < desyncQuietPeriod m
               then (m\<lparr>byAddr := gput addr s1 (byAddr m)\<rparr>, [])
               else (drop_lost (m\<lparr>byAddr := gdel addr (byAddr m)\<rparr>) (addr, s_peerStatic s),
                     if onSessionLost m then [addr] else []))"

definition rediscoveryMinGap :: duration where "rediscoveryMinGap = 20 * second"

text \<open>\<open>NudgeRediscovery\<close>: the result says whether the callback is started.\<close>

definition NudgeRediscovery :: "'c mesh \<Rightarrow> go_time \<Rightarrow> bool \<times> 'c mesh" where
  "NudgeRediscovery m now =
     (if \<not> onNeedRediscovery m \<or> time_sub now (lastRediscovery m) < rediscoveryMinGap then (False, m)
      else (True, m\<lparr>lastRediscovery := now\<rparr>))"

section \<open>Back-off\<close>

definition staleEndpointFailures :: int where "staleEndpointFailures = 5"
definition staleEndpointBackoff :: duration where "staleEndpointBackoff = 15 * minute"

definition new_backoff :: backoffState where
  "new_backoff = \<lparr>bo_failures = 0, bo_until = 0, bo_everOK = False\<rparr>"

definition backoff_of :: "'c mesh \<Rightarrow> udp_addr \<Rightarrow> backoffState" where
  "backoff_of m addr = (case gget (peerBackoff m) addr of None \<Rightarrow> new_backoff | Some b \<Rightarrow> b)"

definition failure_wait :: "backoffState \<Rightarrow> duration" where
  "failure_wait b =
     (let steps = [5, 10, 20, 40, 60];
        idx = bo_failures b - 1;
        idx = (if int (length steps) \<le> idx then int (length steps) - 1 else idx);
        wait = steps ! nat idx * second
      in if \<not> bo_everOK b \<and> staleEndpointFailures \<le> bo_failures b then staleEndpointBackoff else wait)"

definition RecordFailure :: "'c mesh \<Rightarrow> go_time \<Rightarrow> udp_addr \<Rightarrow> 'c mesh" where
  "RecordFailure m now addr =
     (let b = backoff_of m addr;
        b = b\<lparr>bo_failures := bo_failures b + 1\<rparr>
      in m\<lparr>peerBackoff := gput addr (b\<lparr>bo_until := now + failure_wait b\<rparr>) (peerBackoff m)\<rparr>)"

definition RecordSuccess :: "'c mesh \<Rightarrow> go_time \<Rightarrow> udp_addr \<Rightarrow> 'c mesh" where
  "RecordSuccess m now addr =
     m\<lparr>peerBackoff := gput addr (backoff_of m addr\<lparr>bo_failures := 0, bo_until := now, bo_everOK := True\<rparr>) (peerBackoff m)\<rparr>"

definition ResetBackoff :: "'c mesh \<Rightarrow> go_time \<Rightarrow> 'c mesh" where
  "ResetBackoff m now = m\<lparr>peerBackoff := gmap (\<lambda>_ b. b\<lparr>bo_failures := 0, bo_until := now\<rparr>) (peerBackoff m)\<rparr>"

definition ShouldSkip :: "'c mesh \<Rightarrow> go_time \<Rightarrow> udp_addr \<Rightarrow> bool" where
  "ShouldSkip m now addr = (case gget (peerBackoff m) addr of None \<Rightarrow> False | Some b \<Rightarrow> now < bo_until b)"

section \<open>Installing a session\<close>

definition same_peer_routes :: "'c mesh \<Rightarrow> udp_addr \<Rightarrow> node_key \<Rightarrow> 'c session list" where
  "same_peer_routes m addr key =
     (if key = zero_key then []
      else map snd (filter (\<lambda>(k, old). \<not> (k = addr \<or> \<not> s_established old \<or> s_peerStatic old \<noteq> key)) (byAddr m)))"

definition some_addrs :: "'c session list \<Rightarrow> udp_addr list" where
  "some_addrs xs = concat (map (\<lambda>s. case s_addr s of None \<Rightarrow> [] | Some a \<Rightarrow> [a]) xs)"

definition set_session :: "ip_nets \<Rightarrow> 'c mesh \<Rightarrow> go_time \<Rightarrow> udp_addr \<Rightarrow> 'c session \<Rightarrow> 'c mesh" where
  "set_session nets m now addr s =
     (let m1 = m\<lparr>byAddr := gput addr (s\<lparr>s_lastSeen := now\<rparr>) (byAddr m)\<rparr>;
        olds = same_peer_routes m1 addr (s_peerStatic s);
        others = some_addrs olds;
        takeover = \<not> list_ex (\<lambda>old. isPrivateUDPAddr nets (s_addr old) \<and> \<not> isPrivateUDPAddr nets (Some addr) \<and>
            time_sub now (s_lastSeen old) \<le> routeLiveTimeout m) olds
      in if others = [] then m1
         else if \<not> takeover then m1
         else m1\<lparr>learned := foldl (\<lambda>t o'. RemapAddr now (Some o') (Some addr) t) (learned m1) others\<rparr>)"

definition EstablishedPeerCount :: "'c mesh \<Rightarrow> nat" where
  "EstablishedPeerCount m =
     (let est = filter s_established (map snd (byAddr m))
      in length (remdups (map s_peerStatic (filter (\<lambda>s. s_peerStatic s \<noteq> zero_key) est))) +
         length (filter (\<lambda>s. s_peerStatic s = zero_key) est))"

definition EstablishedAddrs :: "'c mesh \<Rightarrow> udp_addr option list" where
  "EstablishedAddrs m = map s_addr (filter s_established (map snd (byAddr m)))"

section \<open>Damped decrypt-error log\<close>

record decryptErrState =
  de_windowStart :: go_time
  de_logged :: nat
  de_suppressed :: nat

text \<open>The result says whether the call prints a line.\<close>

definition logDecryptError ::
  "(string \<times> decryptErrState) list \<Rightarrow> go_time \<Rightarrow> string \<Rightarrow> bool \<times> (string \<times> decryptErrState) list" where
  "logDecryptError errs now addr =
     (let (st, errs) =
        (case gget errs addr of
           Some st \<Rightarrow> (st, errs)
         | None \<Rightarrow>
             (\<lparr>de_windowStart = 0, de_logged = 0, de_suppressed = 0\<rparr>,
              if 1024 < length errs then gdrop (\<lambda>_ old. de_windowStart old < now - 10 * minute) errs else errs))
      in if 30 * second < time_sub now (de_windowStart st)
         then (True, gput addr (st\<lparr>de_windowStart := now, de_logged := 1, de_suppressed := 0\<rparr>) errs)
         else if de_logged st < 3 then (True, gput addr (st\<lparr>de_logged := de_logged st + 1\<rparr>) errs)
         else (False, gput addr (st\<lparr>de_suppressed := de_suppressed st + 1\<rparr>) errs))"

section \<open>Frame lemmas\<close>

lemma forget_frame [simp]:
  "byAddr (pqForget k m) = byAddr m" "byAddr (forgetPeerPQStatus k m) = byAddr m"
  "learned (pqForget k m) = learned m" "learned (forgetPeerPQStatus k m) = learned m"
  "pqPeers (pqForget k m) = gdel k (pqPeers m)" "pqPeers (forgetPeerPQStatus k m) = pqPeers m"
  by (simp_all add: pqForget_def forgetPeerPQStatus_def)

lemma dropCrypto_frame [simp]:
  "byAddr (dropPeerCryptoIfNoRoute k m) = byAddr m" "learned (dropPeerCryptoIfNoRoute k m) = learned m"
  "gKeepaliveInterval (dropPeerCryptoIfNoRoute k m) = gKeepaliveInterval m"
  by (simp_all add: dropPeerCryptoIfNoRoute_def) (simp add: pqForget_def forgetPeerPQStatus_def)

lemma drop_lost_frame [simp]:
  "byAddr (drop_lost m l) = byAddr m" "learned (drop_lost m l) = ForgetAddr (fst l) (learned m)"
  "gKeepaliveInterval (drop_lost m l) = gKeepaliveInterval m"
  by (simp_all add: drop_lost_def)

lemma has_route_byAddr: "byAddr m = byAddr m' \<Longrightarrow> has_route m k = has_route m' k"
  by (simp add: has_route_def)

lemma pqPeers_drop_lost:
  "gget (pqPeers (drop_lost m l)) k =
     (if k = snd l \<and> k \<noteq> zero_key \<and> \<not> has_route m k then None else gget (pqPeers m) k)"
  by (auto simp: drop_lost_def dropPeerCryptoIfNoRoute_def gomap_simps has_route_byAddr [of "m\<lparr>learned := x\<rparr>" m for x])

lemma byAddr_foldl_drop_lost [simp]: "byAddr (foldl drop_lost m ls) = byAddr m"
  by (induction ls arbitrary: m) auto

lemma pqPeers_foldl_drop_lost:
  "gget (pqPeers (foldl drop_lost m ls)) k =
     (if k \<in> snd ` set ls \<and> k \<noteq> zero_key \<and> \<not> has_route m k then None else gget (pqPeers m) k)"
proof (induction ls arbitrary: m)
  case (Cons l ls)
  have "has_route (drop_lost m l) k = has_route m k" by (rule has_route_byAddr) simp
  then show ?case by (auto simp: Cons pqPeers_drop_lost)
qed simp

lemma ForgetAddr_set: "set (ForgetAddr a t) = {(ip, e) \<in> set t. ie_addr e \<noteq> a}"
  by (auto simp: ForgetAddr_def set_gdrop)

lemma learned_foldl_drop_lost:
  "set (learned (foldl drop_lost m ls)) = {(ip, e) \<in> set (learned m). ie_addr e \<notin> fst ` set ls}"
  by (induction ls arbitrary: m) (auto simp: ForgetAddr_set)

lemma Lookup_SomeD: "Lookup t ip = Some a \<Longrightarrow> \<exists>e. (ip, e) \<in> set t \<and> ie_addr e = a"
  by (auto simp: Lookup_def dest: map_of_SomeD)

lemma in_lost_sessions:
  "(a, k) \<in> set (lost_sessions m now) \<longleftrightarrow>
     (\<exists>key s. (key, s) \<in> set (byAddr m) \<and> session_dead m now s \<and> s_established s \<and>
        s_addr s = Some a \<and> s_peerStatic s = k)"
  by (force simp: lost_sessions_def split: option.splits if_splits)

section \<open>Traffic and failures on the sessions\<close>

datatype sess_event = Decrypted go_time udp_addr | Undecryptable go_time udp_addr

fun sess_run :: "'c mesh \<Rightarrow> sess_event list \<Rightarrow> 'c mesh" where
  "sess_run m [] = m"
| "sess_run m (Decrypted t a # es) = sess_run (TouchLastSeen m t a) es"
| "sess_run m (Undecryptable t a # es) = sess_run (fst (NoteDecryptFailure m t a)) es"

text \<open>
  \<open>heard T a seen es\<close>: at every undecryptable packet from \<open>a\<close>, the latest valid one (\<open>seen\<close>
  at the start) is less than \<open>T\<close> old.
\<close>

fun heard :: "duration \<Rightarrow> udp_addr \<Rightarrow> go_time \<Rightarrow> sess_event list \<Rightarrow> bool" where
  "heard T a seen [] = True"
| "heard T a seen (Decrypted t b # es) = heard T a (if b = a then t else seen) es"
| "heard T a seen (Undecryptable t b # es) = ((if b = a then time_sub t seen < T else True) \<and> heard T a seen es)"

lemma touch_keepalive [simp]: "desyncQuietPeriod (TouchLastSeen m t a) = desyncQuietPeriod m"
  by (simp add: TouchLastSeen_def desyncQuietPeriod_def split: option.splits)

lemma failure_keepalive [simp]: "desyncQuietPeriod (fst (NoteDecryptFailure m t a)) = desyncQuietPeriod m"
  by (simp add: NoteDecryptFailure_def desyncQuietPeriod_def Let_def split: option.splits)

lemma touch_get:
  "gget (byAddr (TouchLastSeen m t a)) b =
     (if b = a then map_option (\<lambda>s. s\<lparr>s_lastSeen := t, s_decryptFails := 0\<rparr>) (gget (byAddr m) a) else gget (byAddr m) b)"
  by (simp add: TouchLastSeen_def gomap_simps split: option.splits)

lemma failure_get_other: "b \<noteq> a \<Longrightarrow> gget (byAddr (fst (NoteDecryptFailure m t a))) b = gget (byAddr m) b"
  by (simp add: NoteDecryptFailure_def gomap_simps Let_def split: option.splits)

lemma failure_get_kept:
  assumes "gget (byAddr m) a = Some s" and "time_sub t (s_lastSeen s) < desyncQuietPeriod m"
  shows "\<exists>n. gget (byAddr (fst (NoteDecryptFailure m t a))) a = Some (s\<lparr>s_decryptFails := n\<rparr>)"
proof (cases "s_established s")
  case True
  with assms show ?thesis by (auto simp: NoteDecryptFailure_def gomap_simps Let_def)
next
  case False
  with assms(1) show ?thesis by (auto simp: NoteDecryptFailure_def intro!: exI [of _ "s_decryptFails s"])
qed

lemma sess_run_keeps:
  assumes "gget (byAddr m) a = Some s" and "heard (desyncQuietPeriod m) a (s_lastSeen s) es"
  shows "\<exists>t n. gget (byAddr (sess_run m es)) a = Some (s\<lparr>s_lastSeen := t, s_decryptFails := n\<rparr>)"
  using assms
proof (induction m es arbitrary: s rule: sess_run.induct)
  case (1 m)
  then have "gget (byAddr (sess_run m [])) a = Some (s\<lparr>s_lastSeen := s_lastSeen s, s_decryptFails := s_decryptFails s\<rparr>)"
    by simp
  then show ?case by blast
next
  case (2 m t b es)
  show ?case
  proof (cases "b = a")
    case True
    with 2 show ?thesis by (force simp: touch_get)
  next
    case False
    with 2 show ?thesis by (simp add: touch_get)
  qed
next
  case (3 m t b es)
  show ?case
  proof (cases "b = a")
    case True
    with 3 failure_get_kept [of m a s t]
    obtain n where "gget (byAddr (fst (NoteDecryptFailure m t b))) a = Some (s\<lparr>s_decryptFails := n\<rparr>)" by auto
    with 3 True show ?thesis by fastforce
  next
    case False
    with 3 show ?thesis by (simp add: failure_get_other)
  qed
qed

lemma failure_counts:
  assumes "gget (byAddr m) a = Some s" "s_established s" "desyncQuietPeriod m \<le> time_sub t (s_lastSeen s)"
  shows "gget (byAddr (fst (NoteDecryptFailure m t a))) a =
    (if s_decryptFails s < 9 then Some (s\<lparr>s_decryptFails := s_decryptFails s + 1\<rparr>) else None)"
  using assms by (auto simp: NoteDecryptFailure_def gomap_simps Let_def)

lemma failure_no_session: "gget (byAddr m) a = None \<Longrightarrow> sess_run m (map (\<lambda>t. Undecryptable t a) ts) = m"
  by (induction ts arbitrary: m) (auto simp: NoteDecryptFailure_def)

lemma failures_tear_down:
  assumes "gget (byAddr m) a = Some s" "s_established s"
    and "\<forall>t\<in>set ts. desyncQuietPeriod m \<le> time_sub t (s_lastSeen s)"
    and "10 - s_decryptFails s \<le> int (length ts)" "s_decryptFails s < 10"
  shows "gget (byAddr (sess_run m (map (\<lambda>t. Undecryptable t a) ts))) a = None"
  using assms
proof (induction ts arbitrary: m s)
  case (Cons t ts)
  let ?m = "fst (NoteDecryptFailure m t a)"
  from Cons.prems have get: "gget (byAddr ?m) a =
      (if s_decryptFails s < 9 then Some (s\<lparr>s_decryptFails := s_decryptFails s + 1\<rparr>) else None)"
    by (simp add: failure_counts)
  show ?case
  proof (cases "s_decryptFails s < 9")
    case True
    with get have g: "gget (byAddr ?m) a = Some (s\<lparr>s_decryptFails := s_decryptFails s + 1\<rparr>)" by simp
    have "gget (byAddr (sess_run ?m (map (\<lambda>t. Undecryptable t a) ts))) a = None"
      by (rule Cons.IH [OF g]) (use Cons.prems True in auto)
    then show ?thesis by simp
  next
    case False
    with get failure_no_session [of ?m a ts] show ?thesis by simp
  qed
qed auto

lemma failure_wait_everOK: "bo_everOK b \<Longrightarrow> 1 \<le> bo_failures b \<Longrightarrow> failure_wait b \<le> 60 * second"
proof -
  assume b: "bo_everOK b" "1 \<le> bo_failures b"
  consider "bo_failures b = 1" | "bo_failures b = 2" | "bo_failures b = 3" | "bo_failures b = 4"
    | "5 \<le> bo_failures b" using b(2) by linarith
  then show ?thesis
    by cases (use b in \<open>auto simp: failure_wait_def Let_def second_def nth_Cons' nat_eq_iff\<close>)
qed

lemma backoff_of_failure:
  "backoff_of (RecordFailure m t a) b =
     (if b = a then (backoff_of m a)\<lparr>bo_failures := bo_failures (backoff_of m a) + 1,
          bo_until := t + failure_wait ((backoff_of m a)\<lparr>bo_failures := bo_failures (backoff_of m a) + 1\<rparr>)\<rparr>
      else backoff_of m b)"
  by (simp add: RecordFailure_def backoff_of_def gomap_simps Let_def)

lemma failures_count:
  "bo_failures (backoff_of (foldl (\<lambda>m t. RecordFailure m t a) m ts) a) = bo_failures (backoff_of m a) + int (length ts)"
  "bo_everOK (backoff_of (foldl (\<lambda>m t. RecordFailure m t a) m ts) a) = bo_everOK (backoff_of m a)"
  by (induction ts arbitrary: m) (auto simp: backoff_of_failure)

lemma failure_skip:
  "ShouldSkip (RecordFailure m t a) now a \<longleftrightarrow>
     now < t + failure_wait ((backoff_of m a)\<lparr>bo_failures := bo_failures (backoff_of m a) + 1\<rparr>)"
  by (simp add: RecordFailure_def ShouldSkip_def gomap_simps Let_def)

lemma get_same_peer_routes:
  "old \<in> set (same_peer_routes m addr key) \<longleftrightarrow>
     key \<noteq> zero_key \<and> (\<exists>k. k \<noteq> addr \<and> (k, old) \<in> set (byAddr m) \<and> s_established old \<and> s_peerStatic old = key)"
  by (auto simp: same_peer_routes_def image_iff)

lemma Lookup_Remap:
  "Lookup (RemapAddr now (Some x) (Some n) t) ip = (if Lookup t ip = Some x then Some n else Lookup t ip)"
  by (cases "gget t ip") (auto simp: Lookup_def RemapAddr_def gomap_simps)

lemma Lookup_Remap_all:
  "Lookup (foldl (\<lambda>t x. RemapAddr now (Some x) (Some n) t) t xs) ip =
     (if Lookup t ip \<in> Some ` set xs then Some n else Lookup t ip)"
  by (induction xs arbitrary: t) (auto simp: Lookup_Remap)

lemma in_some_addrs: "a \<in> set (some_addrs xs) \<longleftrightarrow> (\<exists>s\<in>set xs. s_addr s = Some a)"
  by (force simp: some_addrs_def split: option.splits)

definition live_lan_route :: "ip_nets \<Rightarrow> 'c mesh \<Rightarrow> go_time \<Rightarrow> udp_addr \<Rightarrow> node_key \<Rightarrow> bool" where
  "live_lan_route nets m now addr key \<longleftrightarrow>
     (\<exists>b old. gget (byAddr m) b = Some old \<and> b \<noteq> addr \<and> s_established old \<and> s_peerStatic old = key \<and>
        isPrivateUDPAddr nets (s_addr old) \<and> time_sub now (s_lastSeen old) \<le> routeLiveTimeout m)"

lemma set_session_learned:
  assumes "gwf (byAddr m)" "s_peerStatic s \<noteq> zero_key"
  shows "Lookup (learned (set_session nets m now addr s)) ip =
    (if (isPrivateUDPAddr nets (Some addr) \<or> \<not> live_lan_route nets m now addr (s_peerStatic s)) \<and>
        (\<exists>b old a. gget (byAddr m) b = Some old \<and> b \<noteq> addr \<and> s_established old \<and>
           s_peerStatic old = s_peerStatic s \<and> s_addr old = Some a \<and> Lookup (learned m) ip = Some a)
     then Some addr else Lookup (learned m) ip)"
proof -
  let ?m1 = "m\<lparr>byAddr := gput addr (s\<lparr>s_lastSeen := now\<rparr>) (byAddr m)\<rparr>"
  let ?olds = "same_peer_routes ?m1 addr (s_peerStatic s)"
  have olds: "old \<in> set ?olds \<longleftrightarrow>
      (\<exists>b. b \<noteq> addr \<and> gget (byAddr m) b = Some old \<and> s_established old \<and> s_peerStatic old = s_peerStatic s)" for old
    using assms by (simp add: get_same_peer_routes set_gget gwf_gput gomap_simps) blast
  have take: "list_ex (\<lambda>old. isPrivateUDPAddr nets (s_addr old) \<and> \<not> isPrivateUDPAddr nets (Some addr) \<and>
            time_sub now (s_lastSeen old) \<le> routeLiveTimeout m) ?olds \<longleftrightarrow>
      \<not> isPrivateUDPAddr nets (Some addr) \<and> live_lan_route nets m now addr (s_peerStatic s)"
    by (simp add: list_ex_iff Bex_def olds live_lan_route_def) blast
  have img: "Lookup (learned m) ip \<in> Some ` set (some_addrs ?olds) \<longleftrightarrow>
      (\<exists>b old a. gget (byAddr m) b = Some old \<and> b \<noteq> addr \<and> s_established old \<and>
           s_peerStatic old = s_peerStatic s \<and> s_addr old = Some a \<and> Lookup (learned m) ip = Some a)"
    by (auto simp: image_iff in_some_addrs Bex_def olds)
  have "some_addrs ?olds = [] \<Longrightarrow> \<not> Lookup (learned m) ip \<in> Some ` set (some_addrs ?olds)" by simp
  then show ?thesis
    unfolding img [symmetric] set_session_def Let_def take
    by (auto simp: Lookup_Remap_all)
qed

section \<open>Properties\<close>

text \<open>
  C19: A third party cannot tear a working session down. While valid traffic from the peer
  is never older than \<open>desyncQuietPeriod\<close>, any flood of undecryptable packets with its source
  address, and any traffic of other peers, leaves the session in the table with its key, its
  ciphers and its replay window unchanged.
\<close>

theorem spoof_flood_keeps_session:
  assumes "gget (byAddr m) a = Some s" and "heard (desyncQuietPeriod m) a (s_lastSeen s) es"
  shows "\<exists>t n. gget (byAddr (sess_run m es)) a = Some (s\<lparr>s_lastSeen := t, s_decryptFails := n\<rparr>)"
  by (rule sess_run_keeps [OF assms])

definition demo_peer :: node_key where "demo_peer = replicate 32 7"

definition demo_session :: "udp_addr \<Rightarrow> unit session" where
  "demo_session a = \<lparr>recvHighest = 0, recvWindow = replicate 8 0, recvAny = False, s_addr = Some a,
     s_send = Some (), s_recv = Some (), s_established = True, s_lastSeen = 0, s_sendNonce = 0,
     s_decryptFails = 0, s_msg3Frame = [], s_peerStatic = demo_peer, s_createdAt = 0, s_initiator = True\<rparr>"

abbreviation demo_wan :: udp_addr where "demo_wan \<equiv> udp4 [203, 0, 113, 5] 3006"

definition demo_mesh :: "unit mesh" where
  "demo_mesh = \<lparr>byAddr = [(demo_wan, demo_session demo_wan)], peerBackoff = [], onSessionLost = True,
     onNeedRediscovery = True, lastRediscovery = 0,
     learned = [(''10.0.0.7'', \<lparr>ie_addr = demo_wan, ie_seen = 0\<rparr>)],
     pqPeers = [(demo_peer, \<lparr>nonceSalt = [1, 2, 3, 4], nonceCtr = 0\<rparr>)], peerPQ = [],
     gKeepaliveInterval = 10 * second, sessionStaleTimeout = 45 * second\<rparr>"

theorem spoof_flood_keeps_session_witness:
  "\<exists>t n. gget (byAddr (sess_run demo_mesh (map (\<lambda>t. Undecryptable t demo_wan) (replicate 100 (14 * second))))) demo_wan =
     Some ((demo_session demo_wan)\<lparr>s_lastSeen := t, s_decryptFails := n\<rparr>)"
proof (rule spoof_flood_keeps_session)
  have "heard (15 * second) demo_wan 0 (map (\<lambda>t. Undecryptable t demo_wan) (replicate n (14 * second)))" for n
    by (induction n) (auto simp: time_sub_def duration_defs)
  then show "heard (desyncQuietPeriod demo_mesh) demo_wan (s_lastSeen (demo_session demo_wan))
      (map (\<lambda>t. Undecryptable t demo_wan) (replicate 100 (14 * second)))"
    by (simp add: desyncQuietPeriod_def demo_mesh_def demo_session_def second_def del: map_replicate)
qed (simp add: demo_mesh_def)

text \<open>
  A desynchronised session does not linger. Once nothing valid has arrived for
  \<open>desyncQuietPeriod\<close>, at most ten undecryptable packets from the address remove its session.
\<close>

theorem desync_tears_down:
  assumes "gget (byAddr m) a = Some s" "s_established s" "0 \<le> s_decryptFails s" "s_decryptFails s < 10"
    and "\<forall>t\<in>set ts. desyncQuietPeriod m \<le> time_sub t (s_lastSeen s)" and "10 \<le> length ts"
  shows "gget (byAddr (sess_run m (map (\<lambda>t. Undecryptable t a) ts))) a = None"
  by (rule failures_tear_down [OF assms(1,2,5) _ assms(4)]) (use assms(3,6) in linarith)

theorem desync_tears_down_witness:
  "gget (byAddr (sess_run demo_mesh (map (\<lambda>t. Undecryptable t demo_wan) (replicate 10 (15 * second))))) demo_wan = None"
  by (rule desync_tears_down [where s = "demo_session demo_wan"])
    (auto simp: demo_mesh_def demo_session_def desyncQuietPeriod_def time_sub_def duration_defs)



text \<open>
  The retry schedule. For an endpoint that has never answered, after the n-th
  failure in a row \<open>ShouldSkip\<close> holds for exactly 5, 10, 20, 40 seconds and, from the fifth on,
  for 15 minutes.
\<close>

theorem never_answered_backoff:
  assumes "gget (peerBackoff m) a = None" and "ts \<noteq> []"
  shows "ShouldSkip (foldl (\<lambda>m t. RecordFailure m t a) m ts) now a \<longleftrightarrow>
    now < last ts + (if length ts < 5 then [5, 10, 20, 40] ! (length ts - 1) * second else 15 * minute)"
proof -
  from assms(2) obtain us t where ts: "ts = us @ [t]" by (metis rev_exhaust)
  let ?m = "foldl (\<lambda>m t. RecordFailure m t a) m us"
  have "backoff_of m a = new_backoff" using assms(1) by (simp add: backoff_of_def)
  then have b: "bo_failures (backoff_of ?m a) = int (length us)" "\<not> bo_everOK (backoff_of ?m a)"
    by (simp_all add: failures_count new_backoff_def)
  consider "length us = 0" | "length us = 1" | "length us = 2" | "length us = 3" | "4 \<le> length us" by linarith
  then have "failure_wait ((backoff_of ?m a)\<lparr>bo_failures := int (length us) + 1\<rparr>) =
      (if length us < 4 then [5, 10, 20, 40] ! length us * second else 15 * minute)"
    by cases (use b in \<open>auto simp: failure_wait_def staleEndpointFailures_def staleEndpointBackoff_def numeral_eq_Suc\<close>)
  then show ?thesis using b by (simp add: ts failure_skip)
qed

theorem never_answered_backoff_witness:
  "ShouldSkip (foldl (\<lambda>m t. RecordFailure m t demo_wan) demo_mesh [0, 10 * second, 30 * second]) (49 * second) demo_wan \<and>
   \<not> ShouldSkip (foldl (\<lambda>m t. RecordFailure m t demo_wan) demo_mesh [0, 10 * second, 30 * second]) (50 * second) demo_wan"
proof -
  have g: "gget (peerBackoff demo_mesh) demo_wan = None" by (simp add: demo_mesh_def)
  show ?thesis
    using never_answered_backoff [OF g, of "[0, 10 * second, 30 * second]" "49 * second"]
      never_answered_backoff [OF g, of "[0, 10 * second, 30 * second]" "50 * second"]
    by (simp add: second_def del: foldl_Cons)
qed

text \<open>
  A peer that once answered is never parked. After \<open>RecordSuccess\<close>, however many
  failures follow, it is dialled again at the latest 60 seconds after the last one.
\<close>

theorem known_good_backoff:
  assumes "ts \<noteq> []" and "last ts + 60 * second \<le> now"
  shows "\<not> ShouldSkip (foldl (\<lambda>m t. RecordFailure m t a) (RecordSuccess m t0 a) ts) now a"
proof -
  from assms(1) obtain us t where ts: "ts = us @ [t]" by (metis rev_exhaust)
  let ?m = "foldl (\<lambda>m t. RecordFailure m t a) (RecordSuccess m t0 a) us"
  have "backoff_of (RecordSuccess m t0 a) a = (backoff_of m a)\<lparr>bo_failures := 0, bo_until := t0, bo_everOK := True\<rparr>"
    by (simp add: RecordSuccess_def backoff_of_def gomap_simps)
  then have "bo_failures (backoff_of ?m a) = int (length us)" "bo_everOK (backoff_of ?m a)"
    by (simp_all add: failures_count)
  then have "failure_wait ((backoff_of ?m a)\<lparr>bo_failures := bo_failures (backoff_of ?m a) + 1\<rparr>) \<le> 60 * second"
    by (intro failure_wait_everOK) auto
  with assms(2) show ?thesis by (simp add: ts failure_skip)
qed

theorem known_good_backoff_witness:
  "\<not> ShouldSkip (foldl (\<lambda>m t. RecordFailure m t demo_wan) (RecordSuccess demo_mesh 0 demo_wan) [1, 2, 3, 4, 5, 6, 7])
     (7 + 60 * second) demo_wan"
  by (rule known_good_backoff) simp_all

text \<open>
  Routing preference when a session is installed. No other session is touched, and an
  overlay address routed over another established session of the same peer follows to the
  new address, except that a new WAN session leaves it where it is while the peer has a LAN
  session that is proven live.
\<close>

theorem set_session_routes:
  assumes "gwf (byAddr m)" "s_peerStatic s \<noteq> zero_key"
    and "gget (byAddr m) b = Some old" "b \<noteq> addr" "s_established old" "s_peerStatic old = s_peerStatic s"
    and "s_addr old = Some b" "Lookup (learned m) ip = Some b"
  shows "gget (byAddr (set_session nets m now addr s)) b = Some old \<and>
    gget (byAddr (set_session nets m now addr s)) addr = Some (s\<lparr>s_lastSeen := now\<rparr>) \<and>
    Lookup (learned (set_session nets m now addr s)) ip =
      (if \<not> isPrivateUDPAddr nets (Some addr) \<and> live_lan_route nets m now addr (s_peerStatic s)
       then Some b else Some addr)"
proof (intro conjI)
  have "byAddr (set_session nets m now addr s) = gput addr (s\<lparr>s_lastSeen := now\<rparr>) (byAddr m)"
    by (simp add: set_session_def Let_def)
  then show "gget (byAddr (set_session nets m now addr s)) b = Some old"
    "gget (byAddr (set_session nets m now addr s)) addr = Some (s\<lparr>s_lastSeen := now\<rparr>)"
    using assms(3,4) by (simp_all add: gomap_simps)
  show "Lookup (learned (set_session nets m now addr s)) ip =
      (if \<not> isPrivateUDPAddr nets (Some addr) \<and> live_lan_route nets m now addr (s_peerStatic s)
       then Some b else Some addr)"
    using assms by (subst set_session_learned) auto
qed

abbreviation demo_lan :: udp_addr where "demo_lan \<equiv> udp4 [192, 168, 1, 7] 3006"

theorem set_session_routes_witness:
  "Lookup (learned (set_session [] demo_mesh second demo_lan (demo_session demo_lan))) ''10.0.0.7'' = Some demo_lan"
proof -
  have "isPrivateUDPAddr [] (Some demo_lan)" by (simp add: isPrivateUDPAddr_def)
  moreover have "demo_peer \<noteq> zero_key" by (simp add: demo_peer_def)
  ultimately show ?thesis
    using set_session_routes [where m = demo_mesh and b = demo_wan and addr = demo_lan and s = "demo_session demo_lan"
        and old = "demo_session demo_wan" and ip = "''10.0.0.7''" and nets = "[]" and now = second]
    by (simp add: demo_mesh_def demo_session_def gwf_def Lookup_def)
qed

end
