(* ===== verification/Admin_Trust.thy ===== *)
theory Admin_Trust
  imports Go_Strings
begin

text \<open>
  The network admin key a node trusts: \<open>client/adminsig.go\<close> (the ML-DSA key and its
  verification), \<open>client/adminpin.go\<close> (the fingerprint pin, trust on first use) and the
  adoption of a seeded key in \<open>client/revocation.go\<close>.

  The signature scheme (\<open>github.com/cloudflare/circl\<close>) is the parameter \<open>sigscheme\<close>;
  SHA-256 with unpadded base64url enters only through the parameter \<open>fp\<close>, the digest part of
  \<open>adminKeyFingerprint\<close>.
\<close>

record 'pk sigscheme =
  pubKeySize :: nat
  unmarshalPub :: "byte list \<Rightarrow> 'pk option"
  sigVerify :: "'pk \<Rightarrow> byte list \<Rightarrow> byte list \<Rightarrow> bool"

record 'pk admin_state =
  adminPub :: "byte list"
  adminPubParsed :: "'pk option"
  adminPin :: string
  adminPubSaved :: "string option"

definition adminKeySet :: "'pk admin_state \<Rightarrow> bool" where
  "adminKeySet a \<longleftrightarrow> adminPubParsed a \<noteq> None"

definition adminPubValid :: "'pk sigscheme \<Rightarrow> byte list \<Rightarrow> bool" where
  "adminPubValid S raw =
     (if length raw \<noteq> pubKeySize S then False else unmarshalPub S raw \<noteq> None)"

definition setAdminPubBytes :: "'pk sigscheme \<Rightarrow> 'pk admin_state \<Rightarrow> byte list \<Rightarrow> bool \<times> 'pk admin_state" where
  "setAdminPubBytes S a raw =
     (case unmarshalPub S raw of
        None \<Rightarrow> (False, a)
      | Some pk \<Rightarrow> (True, a\<lparr>adminPub := raw, adminPubParsed := Some pk\<rparr>))"

definition clearAdminPub :: "'pk admin_state \<Rightarrow> 'pk admin_state" where
  "clearAdminPub a = a\<lparr>adminPub := [], adminPubParsed := None\<rparr>"

definition adminSameKey :: "'pk admin_state \<Rightarrow> byte list \<Rightarrow> bool" where
  "adminSameKey a raw \<longleftrightarrow> raw = adminPub a"

definition adminVerify :: "'pk sigscheme \<Rightarrow> 'pk admin_state \<Rightarrow> byte list \<Rightarrow> byte list \<Rightarrow> bool" where
  "adminVerify S a msg sig =
     (case adminPubParsed a of None \<Rightarrow> False | Some pk \<Rightarrow> sigVerify S pk msg sig)"

section \<open>Fingerprints and the pin\<close>

definition adminKeyFPPrefix :: string where "adminKeyFPPrefix = ''sha256:''"

definition adminKeyFingerprint :: "(byte list \<Rightarrow> string) \<Rightarrow> byte list \<Rightarrow> string" where
  "adminKeyFingerprint fp raw = (if raw = [] then [] else adminKeyFPPrefix @ fp raw)"

definition adminTOFUAllowed :: "string \<Rightarrow> bool" where
  "adminTOFUAllowed env =
     (let v = to_lower (trim_space env) in
      \<not> (v = ''0'' \<or> v = ''false'' \<or> v = ''no'' \<or> v = ''off''))"

definition adminKeyPinAllows :: "(byte list \<Rightarrow> string) \<Rightarrow> string \<Rightarrow> 'pk admin_state \<Rightarrow> byte list \<Rightarrow> bool" where
  "adminKeyPinAllows fp env a raw =
     (if adminPin a = [] then adminTOFUAllowed env
      else adminKeyFingerprint fp raw = adminPin a)"

text \<open>
  \<open>applyAdminKeyPin\<close>: the environment overrides the configuration; \<open>norm\<close> is
  \<open>normalizeAdminKeyFP\<close>, which yields the empty string for an unusable value.
\<close>

definition applyAdminKeyPin :: "(string \<Rightarrow> string) \<Rightarrow> string \<Rightarrow> string \<Rightarrow> 'pk admin_state \<Rightarrow> 'pk admin_state" where
  "applyAdminKeyPin norm env fromConfig a =
     (let v = (if trim_space env \<noteq> [] then env else fromConfig) in
      if trim_space v = [] then a\<lparr>adminPin := []\<rparr>
      else let n = norm v in if n = [] then a\<lparr>adminPin := []\<rparr> else a\<lparr>adminPin := n\<rparr>)"

section \<open>Adopting a key\<close>

definition setAdminPub :: "'pk sigscheme \<Rightarrow> bool \<Rightarrow> 'pk admin_state \<Rightarrow> byte list \<Rightarrow> bool \<Rightarrow> 'pk admin_state" where
  "setAdminPub S haveFile a raw persist =
     (let (ok, a') = setAdminPubBytes S a raw in
      if \<not> ok then a
      else if persist \<and> haveFile then a'\<lparr>adminPubSaved := Some (b64_encode raw)\<rparr>
      else a')"

text \<open>\<open>adoptSeededAdminPub\<close>: \<open>b64\<close> is the payload of a peer's \<open>P\<close> frame.\<close>

definition adoptSeededAdminPub ::
  "'pk sigscheme \<Rightarrow> (byte list \<Rightarrow> string) \<Rightarrow> string \<Rightarrow> bool \<Rightarrow> 'pk admin_state \<Rightarrow> string \<Rightarrow> 'pk admin_state" where
  "adoptSeededAdminPub S fp env haveFile a b64 =
     (if adminKeySet a then a
      else case b64_decode (trim_space b64) of
          None \<Rightarrow> a
        | Some raw \<Rightarrow>
            if \<not> adminPubValid S raw then a
            else if \<not> adminKeyPinAllows fp env a raw then a
            else setAdminPub S haveFile a raw True)"

text \<open>
  \<open>loadAdminPublicKey\<close>: an explicit \<open>ADMIN_PUBLIC_KEY\<close> wins; otherwise the seeded key on disk
  is used unless it contradicts the pin, in which case the file is removed.
\<close>

definition loadAdminPublicKey ::
  "'pk sigscheme \<Rightarrow> (byte list \<Rightarrow> string) \<Rightarrow> string \<Rightarrow> bool \<Rightarrow> 'pk admin_state \<Rightarrow> 'pk admin_state" where
  "loadAdminPublicKey S fp env haveFile a =
     (let (explicit, a1) =
        (if env = [] then (False, a)
         else case b64_decode env of
             None \<Rightarrow> (False, a)
           | Some raw \<Rightarrow> setAdminPubBytes S a raw)
      in if explicit then a1
         else if \<not> haveFile then a
         else case adminPubSaved a of
             None \<Rightarrow> a
           | Some data \<Rightarrow>
               (case b64_decode (trim_space data) of
                  None \<Rightarrow> a
                | Some raw \<Rightarrow>
                    if \<not> adminPubValid S raw then a
                    else if adminPin a \<noteq> [] \<and> adminKeyFingerprint fp raw \<noteq> adminPin a
                    then a\<lparr>adminPubSaved := None\<rparr>
                    else snd (setAdminPubBytes S a raw)))"

section \<open>Locking and pinning\<close>

fun seeds :: "'pk sigscheme \<Rightarrow> (byte list \<Rightarrow> string) \<Rightarrow> string \<Rightarrow> bool \<Rightarrow> 'pk admin_state \<Rightarrow> string list \<Rightarrow> 'pk admin_state" where
  "seeds S fp env haveFile a [] = a"
| "seeds S fp env haveFile a (b # bs) = seeds S fp env haveFile (adoptSeededAdminPub S fp env haveFile a b) bs"

lemma setAdminPub_pin [simp]: "adminPin (setAdminPub S h a raw p) = adminPin a"
  by (auto simp: setAdminPub_def setAdminPubBytes_def Let_def split: option.splits)

lemma adopt_pin [simp]: "adminPin (adoptSeededAdminPub S fp env h a b) = adminPin a"
  by (auto simp: adoptSeededAdminPub_def split: option.splits)

lemma adopt_locked: "adminKeySet a \<Longrightarrow> adoptSeededAdminPub S fp env h a b = a"
  by (simp add: adoptSeededAdminPub_def)

lemma seeds_locked: "adminKeySet a \<Longrightarrow> seeds S fp env h a bs = a"
  by (induction bs) (simp_all add: adopt_locked)

lemma adopt_allowed:
  assumes "\<not> adminKeySet a" and "adminKeySet (adoptSeededAdminPub S fp env h a b)"
  shows "adminKeyPinAllows fp env a (adminPub (adoptSeededAdminPub S fp env h a b))"
  using assms
  by (auto simp: adoptSeededAdminPub_def setAdminPub_def setAdminPubBytes_def Let_def
      split: option.splits if_splits)

lemma seeds_allowed:
  assumes "\<not> adminKeySet a" and "adminKeySet (seeds S fp env h a bs)"
  shows "adminKeyPinAllows fp env a (adminPub (seeds S fp env h a bs))"
  using assms
proof (induction bs arbitrary: a)
  case Nil
  then show ?case by simp
next
  case (Cons b bs)
  let ?a = "adoptSeededAdminPub S fp env h a b"
  show ?case
  proof (cases "adminKeySet ?a")
    case True
    with adopt_allowed [OF Cons.prems(1) True] show ?thesis by (simp add: seeds_locked)
  next
    case False
    with Cons show ?thesis by (auto simp: adminKeyPinAllows_def)
  qed
qed

section \<open>Properties\<close>

text \<open>
  C8: A pinned node cannot be seeded with another admin key. Starting without a trusted key
  and with a fingerprint pinned, after any sequence of keys offered by peers the node either
  still trusts none or trusts one whose fingerprint is the pin.
\<close>

theorem pinned_seed_only:
  assumes "\<not> adminKeySet a" and "adminPin a \<noteq> []"
    and "adminKeySet (seeds S fp env h a offers)"
  shows "adminKeyFingerprint fp (adminPub (seeds S fp env h a offers)) = adminPin a"
  using seeds_allowed [OF assms(1,3)] assms(2) by (simp add: adminKeyPinAllows_def)

definition demo_scheme :: "byte list sigscheme" where
  "demo_scheme = \<lparr>pubKeySize = 3, unmarshalPub = (\<lambda>r. if length r = 3 then Some r else None),
     sigVerify = (\<lambda>pk m s. s = pk @ m)\<rparr>"

definition demo_admin :: "byte list admin_state" where
  "demo_admin = \<lparr>adminPub = [], adminPubParsed = None, adminPin = ''sha256:x'', adminPubSaved = None\<rparr>"

definition demo_fp :: "byte list \<Rightarrow> string" where
  "demo_fp r = (if r = [0, 16, 131] then ''x'' else ''y'')"

theorem pinned_seed_only_witness:
  "adminPub (seeds demo_scheme demo_fp '''' True demo_admin [''////'', ''ABCD'']) = [0, 16, 131] \<and>
   adminKeyFingerprint demo_fp (adminPub (seeds demo_scheme demo_fp '''' True demo_admin [''////'', ''ABCD''])) =
     ''sha256:x''"
proof -
  let ?a = "seeds demo_scheme demo_fp '''' True demo_admin [''////'', ''ABCD'']"
  have a: "adminKeySet ?a \<and> adminPub ?a = [0, 16, 131]"
    by code_simp
  have "adminKeyFingerprint demo_fp (adminPub ?a) = adminPin demo_admin"
    by (rule pinned_seed_only) (use a in \<open>auto simp: adminKeySet_def demo_admin_def\<close>)
  with a show ?thesis by (simp add: demo_admin_def)
qed

end
