(* ===== verification/Seq_Store.thy ===== *)
theory Seq_Store
  imports APGO_Prelude
begin

text \<open>
  Gossiped admin records (approvals, revocations, policies) are all stored by the same
  rule: per key, a record replaces the stored one exactly if it ranks strictly higher. The
  locale \<open>newest_wins\<close> states that rule for an arbitrary store and proves what it buys:
  a store never goes back, handling a record twice changes nothing, and two nodes that have
  seen the same records agree, whatever the order and the number of copies.
\<close>

locale newest_wins =
  fixes get :: "'s \<Rightarrow> 'k \<Rightarrow> 'e option"
    and put :: "'s \<Rightarrow> 'k \<Rightarrow> 'e \<Rightarrow> 's"
    and rank :: "'e \<Rightarrow> 'r :: linorder"
  assumes get_put:
    "get (put s k e) k' =
       (if k' = k \<and> (case get s k of None \<Rightarrow> True | Some c \<Rightarrow> rank c < rank e) then Some e
        else get s k')"
begin

definition put_all :: "'s \<Rightarrow> ('k \<times> 'e) list \<Rightarrow> 's" where
  "put_all s xs = foldl (\<lambda>s (k, e). put s k e) s xs"

lemma put_all_Nil [simp]: "put_all s [] = s"
  by (simp add: put_all_def)

lemma put_all_Cons [simp]: "put_all s ((k, e) # xs) = put_all (put s k e) xs"
  by (simp add: put_all_def)

lemma put_mono: "get s k = Some c \<Longrightarrow> \<exists>d. get (put s k' e) k = Some d \<and> rank c \<le> rank d"
  by (auto simp: get_put)

lemma put_all_mono: "get s k = Some c \<Longrightarrow> \<exists>d. get (put_all s xs) k = Some d \<and> rank c \<le> rank d"
proof (induction xs arbitrary: s c)
  case (Cons x xs)
  obtain k' e where x: "x = (k', e)" by (cases x)
  from put_mono [OF Cons.prems] obtain d where "get (put s k' e) k = Some d" "rank c \<le> rank d" by blast
  with Cons.IH x show ?case by fastforce
qed auto

text \<open>What a key holds came from the store or from a record, and no record outranks it.\<close>

lemma put_all_source:
  "get (put_all s xs) k = Some e \<Longrightarrow> get s k = Some e \<or> (k, e) \<in> set xs"
proof (induction xs arbitrary: s)
  case (Cons x xs)
  obtain k' e' where x: "x = (k', e')" by (cases x)
  from Cons x show ?case by (fastforce simp: get_put split: if_splits)
qed auto

lemma put_all_max:
  "(k, e) \<in> set xs \<Longrightarrow> \<exists>d. get (put_all s xs) k = Some d \<and> rank e \<le> rank d"
proof (induction xs arbitrary: s)
  case (Cons x xs)
  obtain k' e' where x: "x = (k', e')" by (cases x)
  show ?case
  proof (cases "(k', e') = (k, e)")
    case True
    have "\<exists>d. get (put s k e) k = Some d \<and> rank e \<le> rank d"
      by (auto simp: get_put split: option.splits)
    then obtain d where d: "get (put s k e) k = Some d" "rank e \<le> rank d" by blast
    from put_all_mono [OF d(1), of xs] d(2) x True show ?thesis by fastforce
  next
    case False
    with Cons x show ?thesis by auto
  qed
qed auto

lemma put_all_None: "get s k = None \<Longrightarrow> k \<notin> fst ` set xs \<Longrightarrow> get (put_all s xs) k = None"
  using put_all_source [of s xs k] by (cases "get (put_all s xs) k") (auto simp: image_iff)

text \<open>Records that name the same key and have the same rank are copies of each other.\<close>

definition no_ties :: "'s \<Rightarrow> ('k \<times> 'e) list \<Rightarrow> bool" where
  "no_ties s xs \<longleftrightarrow>
     (\<forall>k e e'. ((k, e) \<in> set xs \<or> get s k = Some e) \<longrightarrow> ((k, e') \<in> set xs \<or> get s k = Some e') \<longrightarrow>
        rank e = rank e' \<longrightarrow> e = e')"

theorem convergence:
  assumes ties: "no_ties s xs" and same: "set xs = set ys"
  shows "get (put_all s xs) = get (put_all s ys)"
proof
  fix k
  have best: "get (put_all s us) k = Some e \<Longrightarrow> get (put_all s vs) k = Some e"
    if "set us = set xs" "set vs = set xs" for us vs e
  proof -
    assume e: "get (put_all s us) k = Some e"
    from put_all_source [OF e] that have src: "get s k = Some e \<or> (k, e) \<in> set vs" by auto
    then obtain d where d: "get (put_all s vs) k = Some d" and ed: "rank e \<le> rank d"
      using put_all_max [of k e vs s] put_all_mono [of s k e vs] by blast
    from put_all_source [OF d] that have srcd: "get s k = Some d \<or> (k, d) \<in> set us" by auto
    then obtain e' where "get (put_all s us) k = Some e'" and de: "rank d \<le> rank e'"
      using put_all_max [of k d us s] put_all_mono [of s k d us] by blast
    with e have "rank e = rank d" using ed by simp
    moreover have "(k, e) \<in> set xs \<or> get s k = Some e" "(k, d) \<in> set xs \<or> get s k = Some d"
      using src srcd that by auto
    ultimately have "e = d" using ties unfolding no_ties_def by blast
    with d show ?thesis by simp
  qed
  show "get (put_all s xs) k = get (put_all s ys) k"
  proof (cases "get (put_all s xs) k")
    case None
    then have "get (put_all s ys) k \<noteq> Some e" for e
      using best [OF same [symmetric] refl, of e] by force
    with None show ?thesis by (cases "get (put_all s ys) k") auto
  next
    case (Some e)
    from best [OF refl same [symmetric] this] Some show ?thesis by simp
  qed
qed

corollary duplicate_harmless: "get (put (put s k e) k e) = get (put s k e)"
  by (rule ext) (auto simp: get_put split: option.splits)

end

end
