(* ===== verification/Approvals.thy ===== *)
theory Approvals
  imports Admin_Trust Seq_Store Data_Plane
begin

text \<open>
  Admission control, \<open>client/approvals.go\<close>: admin-signed approvals, their store, the
  gossip handler, and the data-plane gate \<open>admissionOK\<close>.

  Parameters: the signature scheme, and \<open>json\<close> for \<open>json.Unmarshal\<close> of a gossiped record.
  The store's file is the list of entries last written (\<open>ap_file\<close>); writes succeed. Log
  output is not modelled, the throttle map that decides about it is.
\<close>

record SignedApproval =
  sa_Action :: string
  sa_PubKey :: string
  sa_Seq :: int
  sa_Ts :: int
  sa_Sig :: string

definition canonicalApproval :: "string \<Rightarrow> string \<Rightarrow> int \<Rightarrow> int \<Rightarrow> string" where
  "canonicalApproval action pubB64 seq ts =
     ''OVLYAPPROVE1|'' @ action @ ''|'' @ pubB64 @ ''|'' @ show_int seq @ ''|'' @ show_int ts"

definition verifyApproval :: "'pk sigscheme \<Rightarrow> 'pk admin_state \<Rightarrow> SignedApproval \<Rightarrow> node_key option" where
  "verifyApproval S a rec =
     (if \<not> adminKeySet a then None
      else if sa_Action rec \<noteq> ''approve'' \<and> sa_Action rec \<noteq> ''deny'' then None
      else case b64_decode (sa_PubKey rec) of
          None \<Rightarrow> None
        | Some raw \<Rightarrow>
            if length raw \<noteq> 32 then None
            else (case b64_decode (sa_Sig rec) of
                None \<Rightarrow> None
              | Some sig \<Rightarrow>
                  if \<not> adminVerify S a (bytes_of (canonicalApproval (sa_Action rec) (sa_PubKey rec) (sa_Seq rec) (sa_Ts rec))) sig
                  then None else Some raw))"

record storedApproval =
  st_PubKey :: string
  st_Action :: string
  st_Seq :: int
  st_Ts :: int
  st_Rec :: "SignedApproval option"

record approvalStore =
  ap_recs :: "(node_key \<times> storedApproval) list"
  ap_path :: string
  ap_file :: "storedApproval list option"

definition isApproved :: "approvalStore \<Rightarrow> node_key \<Rightarrow> bool" where
  "isApproved s pub = (case gget (ap_recs s) pub of None \<Rightarrow> False | Some r \<Rightarrow> st_Action r = ''approve'')"

definition hasAnyApproval :: "approvalStore \<Rightarrow> bool" where
  "hasAnyApproval s = list_ex (\<lambda>(_, r). st_Action r = ''approve'') (ap_recs s)"

definition ap_save :: "approvalStore \<Rightarrow> approvalStore" where
  "ap_save s = (if ap_path s = [] then s else s\<lparr>ap_file := Some (map snd (ap_recs s))\<rparr>)"

definition ap_put :: "approvalStore \<Rightarrow> node_key \<Rightarrow> storedApproval \<Rightarrow> bool \<times> approvalStore" where
  "ap_put s pub e =
     (if (case gget (ap_recs s) pub of None \<Rightarrow> False | Some cur \<Rightarrow> st_Seq e \<le> st_Seq cur)
      then (False, s)
      else (True, ap_save (s\<lparr>ap_recs := gput pub e (ap_recs s)\<rparr>)))"

definition stored_of :: "SignedApproval \<Rightarrow> storedApproval" where
  "stored_of rec = \<lparr>st_PubKey = sa_PubKey rec, st_Action = sa_Action rec, st_Seq = sa_Seq rec,
     st_Ts = sa_Ts rec, st_Rec = Some rec\<rparr>"

definition ap_applySigned :: "approvalStore \<Rightarrow> SignedApproval \<Rightarrow> node_key \<Rightarrow> bool \<times> approvalStore" where
  "ap_applySigned s rec pub = ap_put s pub (stored_of rec)"

text \<open>\<open>load\<close>: the entries of the file, each with a record that still verifies.\<close>

fun ap_load_entries :: "'pk sigscheme \<Rightarrow> 'pk admin_state \<Rightarrow> approvalStore \<Rightarrow> storedApproval list \<Rightarrow> approvalStore" where
  "ap_load_entries S a s [] = s"
| "ap_load_entries S a s (e # es) =
     (case st_Rec e of
        None \<Rightarrow> ap_load_entries S a s es
      | Some rec \<Rightarrow>
          (case verifyApproval S a rec of
             None \<Rightarrow> ap_load_entries S a s es
           | Some pub \<Rightarrow>
               if (case gget (ap_recs s) pub of None \<Rightarrow> True | Some cur \<Rightarrow> st_Seq cur < st_Seq e)
               then ap_load_entries S a (s\<lparr>ap_recs := gput pub e (ap_recs s)\<rparr>) es
               else ap_load_entries S a s es))"

definition ap_load :: "'pk sigscheme \<Rightarrow> 'pk admin_state \<Rightarrow> string \<Rightarrow> approvalStore \<Rightarrow> approvalStore" where
  "ap_load S a path s =
     (let s' = s\<lparr>ap_path := path\<rparr> in
      case ap_file s' of None \<Rightarrow> s' | Some list \<Rightarrow> ap_load_entries S a s' list)"

definition handleApprovalGossip ::
  "(byte list \<Rightarrow> SignedApproval option) \<Rightarrow> 'pk sigscheme \<Rightarrow> 'pk admin_state \<Rightarrow> approvalStore \<Rightarrow> byte list \<Rightarrow> approvalStore" where
  "handleApprovalGossip json S a s payload =
     (case json payload of
        None \<Rightarrow> s
      | Some rec \<Rightarrow>
          (case verifyApproval S a rec of
             None \<Rightarrow> s
           | Some pub \<Rightarrow> snd (ap_applySigned s rec pub)))"

section \<open>The gate\<close>

definition admissionRequired :: "'pk admin_state \<Rightarrow> bool" where
  "admissionRequired a = adminKeySet a"

definition admissionEnvOverride :: "string \<Rightarrow> bool option" where
  "admissionEnvOverride env =
     (let v = to_lower (trim_space env) in
      if v = ''1'' \<or> v = ''true'' \<or> v = ''yes'' \<or> v = ''on'' then Some True
      else if v = ''0'' \<or> v = ''false'' \<or> v = ''no'' \<or> v = ''off'' then Some False
      else None)"

definition admissionEnforced :: "string \<Rightarrow> 'pk admin_state \<Rightarrow> approvalStore \<Rightarrow> bool" where
  "admissionEnforced env a s =
     (case admissionEnvOverride env of
        Some b \<Rightarrow> b
      | None \<Rightarrow>
          if \<not> admissionRequired a then False
          else if \<not> hasAnyApproval s then False
          else True)"

definition admitted :: "node_key \<Rightarrow> 'pk admin_state \<Rightarrow> approvalStore \<Rightarrow> node_key \<Rightarrow> bool" where
  "admitted self a s pub =
     (if \<not> admissionRequired a then True
      else if pub = self then True
      else isApproved s pub)"

definition admissionLogEvery :: duration where "admissionLogEvery = 30 * second"

definition admissionOK ::
  "string \<Rightarrow> node_key \<Rightarrow> 'pk admin_state \<Rightarrow> approvalStore \<Rightarrow> (node_key \<times> go_time) list \<Rightarrow> go_time
   \<Rightarrow> node_key \<Rightarrow> bool \<times> (node_key \<times> go_time) list" where
  "admissionOK env self a s logSeen now pub =
     (if admitted self a s pub then (True, logSeen)
      else
        let enforcing = admissionEnforced env a s;
          fresh = (case gget logSeen pub of None \<Rightarrow> True | Some t \<Rightarrow> admissionLogEvery < time_sub now t)
        in (\<not> enforcing, if fresh then gput pub now logSeen else logSeen))"

definition selfApproved :: "node_key \<Rightarrow> 'pk admin_state \<Rightarrow> approvalStore \<Rightarrow> bool" where
  "selfApproved self a s = (if \<not> admissionRequired a then True else isApproved s self)"

section \<open>Signed strings are unambiguous\<close>

lemma canonicalApproval_inj:
  assumes "canonicalApproval a p s t = canonicalApproval a' p' s' t'"
    and "CHR ''|'' \<notin> set a" "CHR ''|'' \<notin> set a'" "CHR ''|'' \<notin> set p" "CHR ''|'' \<notin> set p'"
  shows "a = a' \<and> p = p' \<and> s = s' \<and> t = t'"
proof -
  have "a @ CHR ''|'' # (p @ CHR ''|'' # (show_int s @ CHR ''|'' # show_int t)) =
    a' @ CHR ''|'' # (p' @ CHR ''|'' # (show_int s' @ CHR ''|'' # show_int t'))"
    using assms(1) by (simp add: canonicalApproval_def)
  from bar_split [OF assms(2,3) this]
  have "a = a'" and *: "p @ CHR ''|'' # (show_int s @ CHR ''|'' # show_int t) =
    p' @ CHR ''|'' # (show_int s' @ CHR ''|'' # show_int t')" by auto
  from bar_split [OF assms(4,5) *]
  have "p = p'" and **: "show_int s @ CHR ''|'' # show_int t = show_int s' @ CHR ''|'' # show_int t'" by auto
  from bar_split [OF _ _ **] show ?thesis
    using \<open>a = a'\<close> \<open>p = p'\<close> by (simp add: show_int_inj)
qed

lemma verifyApproval_SomeD:
  assumes "verifyApproval S a rec = Some pub"
  shows "adminKeySet a" "sa_Action rec = ''approve'' \<or> sa_Action rec = ''deny''"
    "b64_decode (sa_PubKey rec) = Some pub" "length pub = 32"
    "\<exists>sig. b64_decode (sa_Sig rec) = Some sig \<and>
      adminVerify S a (bytes_of (canonicalApproval (sa_Action rec) (sa_PubKey rec) (sa_Seq rec) (sa_Ts rec))) sig"
  using assms by (auto simp: verifyApproval_def split: if_splits option.splits)

section \<open>The store keeps the newest record per key\<close>

interpretation approval_store: newest_wins
  "\<lambda>s. gget (ap_recs s)" "\<lambda>s k e. snd (ap_put s k e)" st_Seq
  by unfold_locales (auto simp: ap_put_def ap_save_def gomap_simps split: option.splits)

fun verified :: "(byte list \<Rightarrow> SignedApproval option) \<Rightarrow> 'pk sigscheme \<Rightarrow> 'pk admin_state \<Rightarrow> byte list list
    \<Rightarrow> (node_key \<times> storedApproval) list" where
  "verified json S a [] = []"
| "verified json S a (p # ps) =
     (case json p of
        None \<Rightarrow> verified json S a ps
      | Some rec \<Rightarrow>
          (case verifyApproval S a rec of
             None \<Rightarrow> verified json S a ps
           | Some pub \<Rightarrow> (pub, stored_of rec) # verified json S a ps))"

lemma gossip_put_all:
  "foldl (handleApprovalGossip json S a) s ps = approval_store.put_all s (verified json S a ps)"
  by (induction ps arbitrary: s)
    (auto simp: handleApprovalGossip_def ap_applySigned_def split: option.splits)

lemma in_verified:
  "(k, e) \<in> set (verified json S a ps) \<longleftrightarrow>
     (\<exists>p rec. p \<in> set ps \<and> json p = Some rec \<and> verifyApproval S a rec = Some k \<and> e = stored_of rec)"
  by (induction ps) (auto split: option.splits)

definition empty_approvals :: approvalStore where
  "empty_approvals = \<lparr>ap_recs = [], ap_path = [], ap_file = None\<rparr>"

lemma gossip_newest:
  assumes "gget (ap_recs (foldl (handleApprovalGossip json S a) empty_approvals ps)) k = Some e"
  shows "\<exists>p rec. p \<in> set ps \<and> json p = Some rec \<and> verifyApproval S a rec = Some k \<and> e = stored_of rec \<and>
    (\<forall>q rec'. q \<in> set ps \<longrightarrow> json q = Some rec' \<longrightarrow> verifyApproval S a rec' = Some k \<longrightarrow> sa_Seq rec' \<le> sa_Seq rec)"
proof -
  let ?xs = "verified json S a ps"
  have e: "gget (ap_recs (approval_store.put_all empty_approvals ?xs)) k = Some e"
    using assms by (simp add: gossip_put_all)
  from approval_store.put_all_source [OF e] have "(k, e) \<in> set ?xs" by (simp add: empty_approvals_def)
  then obtain p rec where p: "p \<in> set ps" "json p = Some rec" "verifyApproval S a rec = Some k" "e = stored_of rec"
    by (auto simp: in_verified)
  have "sa_Seq rec' \<le> sa_Seq rec"
    if "q \<in> set ps" "json q = Some rec'" "verifyApproval S a rec' = Some k" for q rec'
  proof -
    from that have "(k, stored_of rec') \<in> set ?xs" by (auto simp: in_verified)
    from approval_store.put_all_max [OF this, of empty_approvals] e p(4) show ?thesis
      by (auto simp: stored_of_def)
  qed
  with p show ?thesis by blast
qed

section \<open>A concrete admin for the witnesses\<close>

definition demo_trusted :: "byte list admin_state" where
  "demo_trusted = \<lparr>adminPub = [1, 2, 3], adminPubParsed = Some [1, 2, 3], adminPin = [], adminPubSaved = None\<rparr>"

definition demo_key :: node_key where "demo_key = replicate 32 9"

definition demo_approval :: "string \<Rightarrow> int \<Rightarrow> SignedApproval" where
  "demo_approval action seq = \<lparr>sa_Action = action, sa_PubKey = b64_encode demo_key, sa_Seq = seq, sa_Ts = 0,
     sa_Sig = b64_encode ([1, 2, 3] @ bytes_of (canonicalApproval action (b64_encode demo_key) seq 0))\<rparr>"

definition demo_json :: "byte list \<Rightarrow> SignedApproval option" where
  "demo_json p = (if p = [1] then Some (demo_approval ''approve'' 5)
     else if p = [2] then Some (demo_approval ''deny'' 3) else None)"

lemma demo_approval_verifies:
  "action = ''approve'' \<or> action = ''deny'' \<Longrightarrow> verifyApproval demo_scheme demo_trusted (demo_approval action seq) = Some demo_key"
  by (auto simp: verifyApproval_def demo_approval_def demo_trusted_def adminKeySet_def b64_decode_encode
      demo_key_def adminVerify_def demo_scheme_def)

section \<open>Properties\<close>

text \<open>
  C15: An admin signature cannot be moved to another approval. If two records verify against
  the trusted key and the bytes signed are the same, the records agree in action, key,
  sequence and timestamp, and decide about the same node.
\<close>

theorem approval_signature_binds:
  assumes "verifyApproval S a r = Some k" and "verifyApproval S a r' = Some k'"
    and "bytes_of (canonicalApproval (sa_Action r) (sa_PubKey r) (sa_Seq r) (sa_Ts r)) =
         bytes_of (canonicalApproval (sa_Action r') (sa_PubKey r') (sa_Seq r') (sa_Ts r'))"
  shows "sa_Action r = sa_Action r' \<and> sa_PubKey r = sa_PubKey r' \<and> sa_Seq r = sa_Seq r' \<and> sa_Ts r = sa_Ts r' \<and> k = k'"
proof -
  have bar: "CHR ''|'' \<notin> set (sa_PubKey r)" "CHR ''|'' \<notin> set (sa_PubKey r')"
    using verifyApproval_SomeD(3) [OF assms(1)] verifyApproval_SomeD(3) [OF assms(2)]
    by (auto dest: b64_decode_no_bar)
  have act: "CHR ''|'' \<notin> set (sa_Action r)" "CHR ''|'' \<notin> set (sa_Action r')"
    using verifyApproval_SomeD(2) [OF assms(1)] verifyApproval_SomeD(2) [OF assms(2)] by auto
  from canonicalApproval_inj [OF assms(3) [unfolded bytes_of_inj] act bar] show ?thesis
    using verifyApproval_SomeD(3) [OF assms(1)] verifyApproval_SomeD(3) [OF assms(2)] by auto
qed

theorem approval_signature_binds_witness:
  "verifyApproval demo_scheme demo_trusted (demo_approval ''deny'' 3) = Some demo_key \<and>
   sa_Seq (demo_approval ''deny'' 3) = 3"
proof -
  have v: "verifyApproval demo_scheme demo_trusted (demo_approval ''deny'' 3) = Some demo_key"
    by (simp add: demo_approval_verifies)
  from approval_signature_binds [OF v v refl] v show ?thesis by (simp add: demo_approval_def)
qed



text \<open>
  Approvals converge. Two nodes that start empty and handle the same frames, in any order
  and with any repetitions, hold the same records, provided the admin never signed two
  different records with the same key and sequence number.
\<close>

theorem approvals_converge:
  assumes "set ps = set qs"
    and "\<And>p q r r' k. p \<in> set ps \<Longrightarrow> q \<in> set ps \<Longrightarrow> json p = Some r \<Longrightarrow> json q = Some r' \<Longrightarrow>
      verifyApproval S a r = Some k \<Longrightarrow> verifyApproval S a r' = Some k \<Longrightarrow> sa_Seq r = sa_Seq r' \<Longrightarrow> r = r'"
  shows "gget (ap_recs (foldl (handleApprovalGossip json S a) empty_approvals ps)) =
    gget (ap_recs (foldl (handleApprovalGossip json S a) empty_approvals qs))"
proof -
  have "approval_store.no_ties empty_approvals (verified json S a ps)"
    unfolding approval_store.no_ties_def
    using assms(2) by (auto simp: in_verified empty_approvals_def stored_of_def) blast+
  moreover have "set (verified json S a ps) = set (verified json S a qs)"
    using assms(1) by (auto simp: in_verified set_eq_iff)
  ultimately show ?thesis
    unfolding gossip_put_all by (rule approval_store.convergence)
qed

theorem approvals_converge_witness:
  "gget (ap_recs (foldl (handleApprovalGossip demo_json demo_scheme demo_trusted) empty_approvals [[2], [1]])) =
   gget (ap_recs (foldl (handleApprovalGossip demo_json demo_scheme demo_trusted) empty_approvals [[1], [2], [1]]))"
  by (rule approvals_converge) (auto simp: demo_json_def demo_approval_def split: if_splits)

text \<open>
  What \<open>load\<close> checks is not what it stores. The signature verified is that of the embedded
  record, but the action and sequence that take effect are those of the unsigned wrapper:
  for every record that verifies, a \<open>deny\<close> included, a file whose wrapper says \<open>approve\<close>
  makes its device approved.
\<close>

theorem approval_load_trusts_wrapper:
  assumes "verifyApproval S a rec = Some pub"
  shows "isApproved (ap_load S a path (empty_approvals\<lparr>ap_file :=
    Some [(stored_of rec)\<lparr>st_Action := ''approve''\<rparr>]\<rparr>)) pub"
  using assms by (simp add: ap_load_def empty_approvals_def isApproved_def stored_of_def gomap_simps Let_def)

theorem approval_load_trusts_wrapper_witness:
  "sa_Action (demo_approval ''deny'' 3) = ''deny'' \<and>
   isApproved (ap_load demo_scheme demo_trusted ''/state/approvals.json'' (empty_approvals\<lparr>ap_file :=
    Some [(stored_of (demo_approval ''deny'' 3))\<lparr>st_Action := ''approve''\<rparr>]\<rparr>)) demo_key"
proof
  show "sa_Action (demo_approval ''deny'' 3) = ''deny''" by (simp add: demo_approval_def)
  show "isApproved (ap_load demo_scheme demo_trusted ''/state/approvals.json'' (empty_approvals\<lparr>ap_file :=
    Some [(stored_of (demo_approval ''deny'' 3))\<lparr>st_Action := ''approve''\<rparr>]\<rparr>)) demo_key"
    by (rule approval_load_trusts_wrapper) (simp add: demo_approval_verifies)
qed

end
