(* ===== verification/Provisions.thy ===== *)
theory Provisions
  imports Approvals
begin

text \<open>
  Admin-signed provisions (overlay address and name of a node key): \<open>client/provstore.go\<close>,
  the store with its ledger of addresses, and the record format and gossip handler of
  \<open>client/provision.go\<close>.

  \<open>ones\<close> is the prefix length of the configured overlay network (\<open>overlayCIDR\<close>), 24 without
  one; \<open>json\<close> is \<open>json.Unmarshal\<close>. The two files of the store are the fields \<open>pv_file\<close> and
  \<open>pv_ledger\<close>; \<open>None\<close> is an unreadable file. Fingerprints of retired keys, used in log lines
  only, are the keys.
\<close>

record SignedProvision =
  sp_PubKey :: string
  sp_Address :: string
  sp_Name :: string
  sp_Seq :: int
  sp_Ts :: int
  sp_Sig :: string

definition canonicalProvision :: "string \<Rightarrow> string \<Rightarrow> string \<Rightarrow> int \<Rightarrow> int \<Rightarrow> string" where
  "canonicalProvision pubB64 address name seq ts =
     ''OVLYPROV1|'' @ pubB64 @ ''|'' @ address @ ''|'' @ name @ ''|'' @ show_int seq @ ''|'' @ show_int ts"

definition verifyProvision :: "'pk sigscheme \<Rightarrow> 'pk admin_state \<Rightarrow> SignedProvision \<Rightarrow> node_key option" where
  "verifyProvision S a rec =
     (if \<not> adminKeySet a then None
      else case b64_decode (sp_PubKey rec) of
          None \<Rightarrow> None
        | Some raw \<Rightarrow>
            if length raw \<noteq> 32 then None
            else (case b64_decode (sp_Sig rec) of
                None \<Rightarrow> None
              | Some sig \<Rightarrow>
                  if \<not> adminVerify S a (bytes_of (canonicalProvision (sp_PubKey rec) (sp_Address rec) (sp_Name rec) (sp_Seq rec) (sp_Ts rec))) sig
                  then None else Some raw))"

section \<open>Addresses\<close>

definition normalizeOverlayAddr :: "nat \<Rightarrow> string \<Rightarrow> string" where
  "normalizeOverlayAddr ones a =
     (let a = trim_space a in
      if a = [] then [] else if CHR ''/'' \<in> set a then a else a @ ''/'' @ show_nat ones)"

definition stripMask :: "string \<Rightarrow> string" where
  "stripMask cidr = takeWhile (\<lambda>c. c \<noteq> CHR ''/'') cidr"

definition provAddrIP :: "nat \<Rightarrow> SignedProvision \<Rightarrow> string" where
  "provAddrIP ones rec = (if sp_Address rec = [] then [] else stripMask (normalizeOverlayAddr ones (sp_Address rec)))"

section \<open>The store\<close>

record provStore =
  pv_recs :: "(node_key \<times> SignedProvision) list"
  pv_path :: string
  addrSeq :: "(string \<times> int) list"
  pv_file :: "SignedProvision list option"
  pv_ledger :: "(string \<times> int) list option"

definition addr_seq :: "provStore \<Rightarrow> string \<Rightarrow> int" where
  "addr_seq s ip = (case gget (addrSeq s) ip of None \<Rightarrow> 0 | Some n \<Rightarrow> n)"

definition prov_refused :: "nat \<Rightarrow> provStore \<Rightarrow> node_key \<Rightarrow> SignedProvision \<Rightarrow> bool" where
  "prov_refused ones s pub rec \<longleftrightarrow>
     (case gget (pv_recs s) pub of None \<Rightarrow> False | Some cur \<Rightarrow> sp_Seq rec \<le> sp_Seq cur) \<or>
     (let ip = provAddrIP ones rec in
      ip \<noteq> [] \<and>
      ((case gget (addrSeq s) ip of None \<Rightarrow> False | Some best \<Rightarrow> sp_Seq rec < best) \<or>
       list_ex (\<lambda>(k, other). k \<noteq> pub \<and> provAddrIP ones other = ip \<and> sp_Seq rec < sp_Seq other) (pv_recs s)))"

definition prov_retires :: "nat \<Rightarrow> node_key \<Rightarrow> SignedProvision \<Rightarrow> node_key \<Rightarrow> SignedProvision \<Rightarrow> bool" where
  "prov_retires ones pub rec k other \<longleftrightarrow>
     k \<noteq> pub \<and> provAddrIP ones other = provAddrIP ones rec \<and> sp_Seq other < sp_Seq rec"

definition putLocked :: "nat \<Rightarrow> provStore \<Rightarrow> node_key \<Rightarrow> SignedProvision \<Rightarrow> bool \<times> node_key list \<times> provStore" where
  "putLocked ones s pub rec =
     (if prov_refused ones s pub rec then (False, [], s)
      else
        let s1 = s\<lparr>pv_recs := gput pub rec (pv_recs s)\<rparr>; ip = provAddrIP ones rec in
        if ip = [] then (True, [], s1)
        else
          (True, map fst (filter (\<lambda>(k, other). prov_retires ones pub rec k other) (pv_recs s1)),
           s1\<lparr>addrSeq := (if addr_seq s1 ip < sp_Seq rec then gput ip (sp_Seq rec) (addrSeq s1) else addrSeq s1),
              pv_recs := gdrop (prov_retires ones pub rec) (pv_recs s1)\<rparr>))"

definition pv_save :: "provStore \<Rightarrow> provStore" where
  "pv_save s = (if pv_path s = [] then s else s\<lparr>pv_file := Some (map snd (pv_recs s)), pv_ledger := Some (addrSeq s)\<rparr>)"

definition pv_put :: "nat \<Rightarrow> provStore \<Rightarrow> node_key \<Rightarrow> SignedProvision \<Rightarrow> bool \<times> provStore" where
  "pv_put ones s pub rec =
     (let (ok, _, s') = putLocked ones s pub rec in if \<not> ok then (False, s') else (True, pv_save s'))"

definition ownsAddress :: "nat \<Rightarrow> provStore \<Rightarrow> node_key \<Rightarrow> string \<Rightarrow> bool" where
  "ownsAddress ones s pub ip =
     (case gget (pv_recs s) pub of None \<Rightarrow> False
      | Some rec \<Rightarrow> provAddrIP ones rec = ip \<and> addr_seq s ip \<le> sp_Seq rec)"

text \<open>Merging the ledger file, and applying the store rules to records, oldest first (the
  insertion sort of the source is stable, as \<open>sort_key\<close> is).\<close>

definition merge_ledger :: "provStore \<Rightarrow> (string \<times> int) list \<Rightarrow> provStore" where
  "merge_ledger s ledger = foldl (\<lambda>s (k, v). if addr_seq s k < v then s\<lparr>addrSeq := gput k v (addrSeq s)\<rparr> else s) s ledger"

definition put_oldest_first :: "nat \<Rightarrow> provStore \<Rightarrow> (node_key \<times> SignedProvision) list \<Rightarrow> provStore" where
  "put_oldest_first ones s good =
     foldl (\<lambda>s (pub, rec). snd (snd (putLocked ones s pub rec))) s (sort_key (\<lambda>(_, rec). sp_Seq rec) good)"

definition pv_load :: "'pk sigscheme \<Rightarrow> 'pk admin_state \<Rightarrow> nat \<Rightarrow> string \<Rightarrow> provStore \<Rightarrow> provStore" where
  "pv_load S a ones path s =
     (let s1 = s\<lparr>pv_path := path\<rparr>;
        s2 = (case (if path = [] then None else pv_ledger s1) of None \<Rightarrow> s1 | Some ledger \<Rightarrow> merge_ledger s1 ledger)
      in case (if path = [] then None else pv_file s2) of
          None \<Rightarrow> s2
        | Some list \<Rightarrow>
            let good = concat (map (\<lambda>rec. case verifyProvision S a rec of None \<Rightarrow> [] | Some pub \<Rightarrow> [(pub, rec)]) list)
            in pv_save (put_oldest_first ones s2 good))"

definition pruneSupersededAddresses :: "nat \<Rightarrow> provStore \<Rightarrow> provStore" where
  "pruneSupersededAddresses ones s = put_oldest_first ones (s\<lparr>pv_recs := []\<rparr>) (pv_recs s)"

section \<open>Gossip\<close>

datatype prov_action = SetPeerName node_key string | ApplyProvisionSelf SignedProvision | ResolveCollision

definition handleProvision ::
  "(byte list \<Rightarrow> SignedProvision option) \<Rightarrow> 'pk sigscheme \<Rightarrow> 'pk admin_state \<Rightarrow> nat \<Rightarrow> node_key \<Rightarrow> string
   \<Rightarrow> provStore \<Rightarrow> byte list \<Rightarrow> provStore \<times> prov_action list" where
  "handleProvision json S a ones self myIP s payload =
     (case json payload of
        None \<Rightarrow> (s, [])
      | Some rec \<Rightarrow>
          (case verifyProvision S a rec of
             None \<Rightarrow> (s, [])
           | Some pub \<Rightarrow>
               let (ok, s') = pv_put ones s pub rec in
               if \<not> ok then (s', [])
               else
                 let names = (if sp_Name rec \<noteq> [] then [SetPeerName pub (sp_Name rec)] else []) in
                 if pub = self then (s', names @ [ApplyProvisionSelf rec])
                 else if sp_Address rec \<noteq> [] \<and> stripMask (normalizeOverlayAddr ones (sp_Address rec)) = myIP
                 then (s', names @ [ResolveCollision])
                 else (s', names)))"

section \<open>One address, one owner\<close>

definition pv_inv :: "nat \<Rightarrow> provStore \<Rightarrow> bool" where
  "pv_inv ones s \<longleftrightarrow> gwf (pv_recs s) \<and>
     (\<forall>k rec. gget (pv_recs s) k = Some rec \<longrightarrow> provAddrIP ones rec \<noteq> [] \<longrightarrow>
        (case gget (addrSeq s) (provAddrIP ones rec) of None \<Rightarrow> True | Some b \<Rightarrow> b \<le> sp_Seq rec) \<and>
        (\<forall>k' rec'. gget (pv_recs s) k' = Some rec' \<longrightarrow> provAddrIP ones rec' = provAddrIP ones rec \<longrightarrow> sp_Seq rec' = sp_Seq rec))"

lemma putLocked_addrSeq:
  "gget (addrSeq (snd (snd (putLocked ones s pub rec)))) ip =
     (if \<not> prov_refused ones s pub rec \<and> ip = provAddrIP ones rec \<and> ip \<noteq> [] \<and> addr_seq s ip < sp_Seq rec
      then Some (sp_Seq rec) else gget (addrSeq s) ip)"
  by (auto simp: putLocked_def Let_def gomap_simps addr_seq_def)

lemma putLocked_recs:
  assumes "gwf (pv_recs s)"
  shows "gget (pv_recs (snd (snd (putLocked ones s pub rec)))) k =
    (if prov_refused ones s pub rec then gget (pv_recs s) k
     else if k = pub then Some rec
     else case gget (pv_recs s) k of None \<Rightarrow> None
       | Some other \<Rightarrow> if provAddrIP ones rec \<noteq> [] \<and> prov_retires ones pub rec k other then None else Some other)"
  using assms by (auto simp: putLocked_def Let_def gomap_simps gwf_gput prov_retires_def split: option.splits)

lemma putLocked_wf: "gwf (pv_recs s) \<Longrightarrow> gwf (pv_recs (snd (snd (putLocked ones s pub rec))))"
  by (simp add: putLocked_def Let_def gwf_gput gwf_gdrop)

lemma not_refused:
  assumes "\<not> prov_refused ones s pub rec" "provAddrIP ones rec \<noteq> []" "gwf (pv_recs s)"
  shows "gget (addrSeq s) (provAddrIP ones rec) = Some b \<Longrightarrow> b \<le> sp_Seq rec"
    and "gget (pv_recs s) k = Some other \<Longrightarrow> k \<noteq> pub \<Longrightarrow> provAddrIP ones other = provAddrIP ones rec \<Longrightarrow> sp_Seq other \<le> sp_Seq rec"
proof -
  show "gget (addrSeq s) (provAddrIP ones rec) = Some b \<Longrightarrow> b \<le> sp_Seq rec"
    using assms by (auto simp: prov_refused_def Let_def split: option.splits)
  show "gget (pv_recs s) k = Some other \<Longrightarrow> k \<noteq> pub \<Longrightarrow> provAddrIP ones other = provAddrIP ones rec \<Longrightarrow> sp_Seq other \<le> sp_Seq rec"
    using assms by (force simp: prov_refused_def Let_def list_ex_iff set_gget [symmetric] not_less)
qed

lemma pv_inv_ledger:
  "pv_inv ones s \<Longrightarrow> gget (pv_recs s) k = Some rec \<Longrightarrow> provAddrIP ones rec \<noteq> [] \<Longrightarrow>
     (case gget (addrSeq s) (provAddrIP ones rec) of None \<Rightarrow> True | Some b \<Rightarrow> b \<le> sp_Seq rec)"
  by (simp add: pv_inv_def)

lemma pv_inv_same:
  "pv_inv ones s \<Longrightarrow> gget (pv_recs s) k = Some rec \<Longrightarrow> provAddrIP ones rec \<noteq> [] \<Longrightarrow> gget (pv_recs s) k' = Some rec' \<Longrightarrow>
     provAddrIP ones rec' = provAddrIP ones rec \<Longrightarrow> sp_Seq rec' = sp_Seq rec"
  unfolding pv_inv_def by blast

lemma putLocked_inv:
  assumes inv: "pv_inv ones s"
  shows "pv_inv ones (snd (snd (putLocked ones s pub rec)))"
proof (cases "prov_refused ones s pub rec")
  case True
  with inv show ?thesis by (simp add: putLocked_def)
next
  case ok: False
  let ?s = "snd (snd (putLocked ones s pub rec))" and ?ip = "provAddrIP ones rec"
  have wf: "gwf (pv_recs s)" using inv by (simp add: pv_inv_def)
  have old: "gget (pv_recs ?s) k = Some x \<Longrightarrow> k = pub \<and> x = rec \<or> k \<noteq> pub \<and> gget (pv_recs s) k = Some x" for k x
    using ok by (auto simp: putLocked_recs [OF wf] split: if_splits option.splits)
  have same: "sp_Seq x = sp_Seq rec" if "gget (pv_recs ?s) k = Some x" "provAddrIP ones x = ?ip" "?ip \<noteq> []" for k x
  proof (cases "k = pub")
    case True
    with that(1) ok show ?thesis by (simp add: putLocked_recs [OF wf])
  next
    case False
    with that(1) old have g: "gget (pv_recs s) k = Some x" by blast
    from not_refused(2) [OF ok that(3) wf g False that(2)] have "sp_Seq x \<le> sp_Seq rec" .
    moreover have "\<not> sp_Seq x < sp_Seq rec"
      using that g False ok by (auto simp: putLocked_recs [OF wf] prov_retires_def split: if_splits)
    ultimately show ?thesis by simp
  qed
  have led: "case gget (addrSeq ?s) (provAddrIP ones x) of None \<Rightarrow> True | Some b \<Rightarrow> b \<le> sp_Seq x"
    if x: "gget (pv_recs ?s) k = Some x" "provAddrIP ones x \<noteq> []" for k x
  proof (cases "provAddrIP ones x = ?ip")
    case True
    with same [OF x(1)] x(2) not_refused(1) [OF ok _ wf] show ?thesis
      by (auto simp: putLocked_addrSeq split: option.splits)
  next
    case False
    then have "gget (pv_recs s) k = Some x" using old [OF x(1)] by blast
    from pv_inv_ledger [OF inv this x(2)] False show ?thesis by (simp add: putLocked_addrSeq)
  qed
  have "sp_Seq y = sp_Seq x"
    if "gget (pv_recs ?s) k = Some x" "gget (pv_recs ?s) k' = Some y" "provAddrIP ones y = provAddrIP ones x" "provAddrIP ones x \<noteq> []" for k x k' y
  proof (cases "provAddrIP ones x = ?ip")
    case True
    with same [OF that(1)] same [OF that(2)] that show ?thesis by simp
  next
    case False
    have "gget (pv_recs s) k = Some x" using old [OF that(1)] False by auto
    moreover have "gget (pv_recs s) k' = Some y" using old [OF that(2)] that(3) False by auto
    ultimately show ?thesis using pv_inv_same [OF inv _ that(4) _ that(3)] by blast
  qed
  with led putLocked_wf [OF wf] show ?thesis unfolding pv_inv_def by blast
qed

lemma pv_put_parts:
  "pv_recs (snd (pv_put ones s pub rec)) = pv_recs (snd (snd (putLocked ones s pub rec)))"
  "addrSeq (snd (pv_put ones s pub rec)) = addrSeq (snd (snd (putLocked ones s pub rec)))"
  "fst (pv_put ones s pub rec) = (\<not> prov_refused ones s pub rec)"
  by (auto simp: pv_put_def putLocked_def pv_save_def Let_def)

lemma pv_inv_cong: "pv_recs s = pv_recs t \<Longrightarrow> addrSeq s = addrSeq t \<Longrightarrow> pv_inv ones s = pv_inv ones t"
  by (simp only: pv_inv_def)

lemma pv_put_inv: "pv_inv ones s \<Longrightarrow> pv_inv ones (snd (pv_put ones s pub rec))"
  using putLocked_inv [of ones s pub rec] pv_inv_cong [OF pv_put_parts(1,2), of ones] by blast

lemma handleProvision_store:
  "fst (handleProvision json S a ones self myIP s p) = s \<or>
   (\<exists>pub rec. json p = Some rec \<and> verifyProvision S a rec = Some pub \<and>
      fst (handleProvision json S a ones self myIP s p) = snd (pv_put ones s pub rec))"
  by (auto simp: handleProvision_def Let_def split: option.splits prod.splits)

lemma addr_seq_mono: "addr_seq s ip \<le> addr_seq (snd (pv_put ones s pub rec)) ip"
  by (auto simp: addr_seq_def pv_put_parts putLocked_addrSeq)

lemma gossip_addr_seq_mono:
  "addr_seq s ip \<le> addr_seq (foldl (\<lambda>s p. fst (handleProvision json S a ones self myIP s p)) s ps) ip"
proof (induction ps arbitrary: s)
  case (Cons p ps)
  have "addr_seq s ip \<le> addr_seq (fst (handleProvision json S a ones self myIP s p)) ip"
    using handleProvision_store [of json S a ones self myIP s p] addr_seq_mono by force
  with Cons.IH show ?case by (simp add: order_trans)
qed simp

lemma ledger_refuses:
  assumes "provAddrIP ones rec \<noteq> []" "sp_Seq rec < addr_seq s (provAddrIP ones rec)" "0 < addr_seq s (provAddrIP ones rec)"
  shows "prov_refused ones s pub rec"
  using assms by (auto simp: prov_refused_def addr_seq_def Let_def split: option.splits)

section \<open>Properties\<close>

definition empty_provisions :: provStore where
  "empty_provisions = \<lparr>pv_recs = [], pv_path = [], addrSeq = [], pv_file = None, pv_ledger = None\<rparr>"

text \<open>
  C36: One address, one key. Whatever provisions are gossiped to a node that starts empty, two
  different keys hold the same overlay address afterwards only if the admin signed both
  records with the same sequence number, and no held record is older than the ledger's entry
  for its address.
\<close>

theorem provision_one_owner:
  assumes "s = foldl (\<lambda>s p. fst (handleProvision json S a ones self myIP s p)) empty_provisions ps"
    and "gget (pv_recs s) k = Some rec" "provAddrIP ones rec \<noteq> []"
    and "gget (pv_recs s) k' = Some rec'" "provAddrIP ones rec' = provAddrIP ones rec"
  shows "sp_Seq rec' = sp_Seq rec \<and> (case gget (addrSeq s) (provAddrIP ones rec) of None \<Rightarrow> True | Some b \<Rightarrow> b \<le> sp_Seq rec)"
proof -
  have "pv_inv ones (foldl (\<lambda>s p. fst (handleProvision json S a ones self myIP s p)) s0 ps)" if "pv_inv ones s0" for s0
    using that
  proof (induction ps arbitrary: s0)
    case (Cons p ps)
    have "pv_inv ones (fst (handleProvision json S a ones self myIP s0 p))"
      using handleProvision_store [of json S a ones self myIP s0 p] pv_put_inv [OF Cons.prems] Cons.prems by force
    with Cons.IH show ?case by simp
  qed simp
  moreover have "pv_inv ones empty_provisions" by (simp add: pv_inv_def empty_provisions_def)
  ultimately have "pv_inv ones s" using assms(1) by simp
  from pv_inv_same [OF this assms(2,3,4,5)] pv_inv_ledger [OF this assms(2,3)] show ?thesis ..
qed

definition demo_prov :: "node_key \<Rightarrow> string \<Rightarrow> int \<Rightarrow> SignedProvision" where
  "demo_prov k addr seq = \<lparr>sp_PubKey = b64_encode k, sp_Address = addr, sp_Name = [], sp_Seq = seq, sp_Ts = 0,
     sp_Sig = b64_encode ([1, 2, 3] @ bytes_of (canonicalProvision (b64_encode k) addr [] seq 0))\<rparr>"

lemma demo_prov_verifies:
  "length k = 32 \<Longrightarrow> verifyProvision demo_scheme demo_trusted (demo_prov k addr seq) = Some k"
  by (simp add: verifyProvision_def demo_prov_def demo_trusted_def adminKeySet_def b64_decode_encode
      adminVerify_def demo_scheme_def)

definition demo_key2 :: node_key where "demo_key2 = replicate 32 8"

definition demo_prov_json :: "byte list \<Rightarrow> SignedProvision option" where
  "demo_prov_json p = (if p = [1] then Some (demo_prov demo_key ''10.0.0.7'' 5)
     else if p = [2] then Some (demo_prov demo_key2 ''10.0.0.7'' 9) else None)"

lemma demo_ip: "provAddrIP 24 (demo_prov k ''10.0.0.7'' n) = ''10.0.0.7''"
  by (simp add: provAddrIP_def demo_prov_def normalizeOverlayAddr_def stripMask_def trim_space_def is_space_def)

definition demo_moved :: provStore where
  "demo_moved = foldl (\<lambda>s p. fst (handleProvision demo_prov_json demo_scheme demo_trusted 24 zero_key [] s p)) empty_provisions [[1], [2], [1]]"

lemma demo_keys: "length demo_key = 32" "length demo_key2 = 32" "demo_key \<noteq> demo_key2" "demo_key2 \<noteq> demo_key"
  by (simp_all add: demo_key_def demo_key2_def)

lemma demo_seq [simp]: "sp_Seq (demo_prov k a n) = n" "sp_Name (demo_prov k a n) = []" "sp_Address (demo_prov k a n) = a"
  by (simp_all add: demo_prov_def)

lemma demo_moved_recs:
  "pv_recs demo_moved = [(demo_key2, demo_prov demo_key2 ''10.0.0.7'' 9)] \<and> addrSeq demo_moved = [(''10.0.0.7'', 9)]"
proof -
  let ?h = "\<lambda>s p. fst (handleProvision demo_prov_json demo_scheme demo_trusted 24 zero_key [] s p)"
  let ?old = "demo_prov demo_key ''10.0.0.7'' 5" and ?new = "demo_prov demo_key2 ''10.0.0.7'' 9"
  have h1: "?h s [1] = snd (pv_put 24 s demo_key ?old)" for s
    by (simp add: handleProvision_def demo_prov_json_def demo_prov_verifies demo_keys Let_def case_prod_beta)
  have h2: "?h s [2] = snd (pv_put 24 s demo_key2 ?new)" for s
    by (simp add: handleProvision_def demo_prov_json_def demo_prov_verifies demo_keys Let_def case_prod_beta)
  let ?s1 = "empty_provisions\<lparr>pv_recs := [(demo_key, ?old)], addrSeq := [(''10.0.0.7'', 5)]\<rparr>"
  let ?s2 = "empty_provisions\<lparr>pv_recs := [(demo_key2, ?new)], addrSeq := [(''10.0.0.7'', 9)]\<rparr>"
  have 1: "snd (pv_put 24 empty_provisions demo_key ?old) = ?s1"
    by (simp add: pv_put_def putLocked_def prov_refused_def prov_retires_def demo_ip empty_provisions_def addr_seq_def
        pv_save_def gdrop_def Let_def)
  have 2: "snd (pv_put 24 ?s1 demo_key2 ?new) = ?s2"
    by (simp add: pv_put_def putLocked_def prov_refused_def prov_retires_def demo_ip empty_provisions_def addr_seq_def
        pv_save_def gdrop_def Let_def demo_keys)
  have 3: "snd (pv_put 24 ?s2 demo_key ?old) = ?s2"
    by (simp add: pv_put_def putLocked_def prov_refused_def demo_ip Let_def)
  have "demo_moved = ?s2" by (simp only: demo_moved_def foldl_Cons foldl_Nil h1 h2 1 2 3)
  then have d: "demo_moved = ?s2" .
  show ?thesis unfolding d by simp
qed

theorem provision_one_owner_witness:
  "gget (pv_recs demo_moved) demo_key2 = Some (demo_prov demo_key2 ''10.0.0.7'' 9) \<and>
   (case gget (addrSeq demo_moved) ''10.0.0.7'' of None \<Rightarrow> True | Some b \<Rightarrow> b \<le> 9)"
proof -
  have g: "gget (pv_recs demo_moved) demo_key2 = Some (demo_prov demo_key2 ''10.0.0.7'' 9)"
    using demo_moved_recs by simp
  have "provAddrIP 24 (demo_prov demo_key2 ''10.0.0.7'' 9) \<noteq> []" by (simp add: demo_ip)
  from provision_one_owner [OF demo_moved_def g this g refl] g show ?thesis
    by (simp only: demo_ip demo_seq)
qed

text \<open>
  C39: A retired assignment never comes back. Once a record that assigns an address with a
  positive sequence number has been accepted, then after any further gossip every record for
  that address with a lower sequence number is refused, for whichever key, and leaves the
  store as it is.
\<close>

theorem stale_claim_never_returns:
  assumes "fst (pv_put ones s pub rec)" "provAddrIP ones rec \<noteq> []" "0 < sp_Seq rec"
    and "s' = foldl (\<lambda>s p. fst (handleProvision json S a ones self myIP s p)) (snd (pv_put ones s pub rec)) ps"
    and "provAddrIP ones old = provAddrIP ones rec" "sp_Seq old < sp_Seq rec"
  shows "pv_put ones s' pub' old = (False, s')"
proof -
  let ?ip = "provAddrIP ones rec"
  have ok: "\<not> prov_refused ones s pub rec" using assms(1) by (simp add: pv_put_parts)
  have "sp_Seq rec \<le> addr_seq (snd (pv_put ones s pub rec)) ?ip"
    using ok assms(2) by (auto simp: addr_seq_def pv_put_parts putLocked_addrSeq)
  also have "\<dots> \<le> addr_seq s' ?ip" unfolding assms(4) by (rule gossip_addr_seq_mono)
  finally have "sp_Seq old < addr_seq s' ?ip" "0 < addr_seq s' ?ip" using assms(3,6) by auto
  then have "prov_refused ones s' pub' old" using assms(2,5) by (intro ledger_refuses) auto
  then show ?thesis by (simp add: pv_put_def putLocked_def)
qed

theorem stale_claim_never_returns_witness:
  "let s' = snd (pv_put 24 empty_provisions demo_key2 (demo_prov demo_key2 ''10.0.0.7'' 9))
   in pv_put 24 s' demo_key (demo_prov demo_key ''10.0.0.7'' 5) = (False, s')"
  unfolding Let_def
  by (rule stale_claim_never_returns [where rec = "demo_prov demo_key2 ''10.0.0.7'' 9" and pub = demo_key2
        and s = empty_provisions and ps = "[]" and ones = 24])
    (simp_all add: demo_ip pv_put_parts prov_refused_def empty_provisions_def Let_def)

text \<open>
  A name-only provision takes the address away. The record's empty address is documented
  as leaving the address unchanged, but the newer record replaces the older one whole: the
  node's key no longer owns the address it was assigned.
\<close>

theorem name_only_provision_drops_address:
  assumes "gwf (pv_recs s)" "ownsAddress ones s pub ip" "ip \<noteq> []"
    and "gget (pv_recs s) pub = Some cur" "sp_Seq cur < sp_Seq rec" "sp_Address rec = []"
  shows "fst (pv_put ones s pub rec) \<and> \<not> ownsAddress ones (snd (pv_put ones s pub rec)) pub ip"
proof -
  have ip: "provAddrIP ones rec = []" using assms(6) by (simp add: provAddrIP_def)
  then have ok: "\<not> prov_refused ones s pub rec" using assms(4,5) by (simp add: prov_refused_def Let_def)
  with ip assms(1,3) show ?thesis
    by (simp add: pv_put_parts ownsAddress_def putLocked_recs)
qed

theorem name_only_provision_drops_address_witness:
  "ownsAddress 24 demo_moved demo_key2 ''10.0.0.7'' \<and>
   \<not> ownsAddress 24 (snd (pv_put 24 demo_moved demo_key2 ((demo_prov demo_key2 [] 10)\<lparr>sp_Name := ''laptop''\<rparr>))) demo_key2 ''10.0.0.7''"
proof
  show own: "ownsAddress 24 demo_moved demo_key2 ''10.0.0.7''"
    using demo_moved_recs by (simp add: ownsAddress_def demo_ip addr_seq_def)
  have "fst (pv_put 24 demo_moved demo_key2 ((demo_prov demo_key2 [] 10)\<lparr>sp_Name := ''laptop''\<rparr>)) \<and>
      \<not> ownsAddress 24 (snd (pv_put 24 demo_moved demo_key2 ((demo_prov demo_key2 [] 10)\<lparr>sp_Name := ''laptop''\<rparr>))) demo_key2 ''10.0.0.7''"
    by (rule name_only_provision_drops_address [OF _ own, where cur = "demo_prov demo_key2 ''10.0.0.7'' 9"])
      (use demo_moved_recs in \<open>simp_all add: gwf_def\<close>)
  then show "\<not> ownsAddress 24 (snd (pv_put 24 demo_moved demo_key2 ((demo_prov demo_key2 [] 10)\<lparr>sp_Name := ''laptop''\<rparr>))) demo_key2 ''10.0.0.7''" ..
qed

end
