(* ===== verification/IPv4_Text.thy ===== *)
theory IPv4_Text
  imports Provisions Net_Addr
begin

text \<open>
  IPv4 addresses as text: what the node uses of \<open>net.IP.String\<close>, \<open>net.ParseIP\<close> and
  \<open>net.ParseCIDR\<close>, the address a key derives (\<open>deriveOverlayIPSalted\<close>, \<open>client/main.go\<close>), and the
  source and destination of an IPv4 packet.

  The overlay is an IPv4 network, so \<open>ParseCIDR\<close> of other text is no network here. \<open>ip6\<close> stands
  for \<open>ParseIP\<close> on text that is not a dotted quad: the four bytes of a v4-mapped address.
\<close>

definition show_ipv4 :: "byte list \<Rightarrow> string" where
  "show_ipv4 b = show_nat (unat (b ! 0)) @ ''.'' @ show_nat (unat (b ! 1)) @ ''.'' @
     show_nat (unat (b ! 2)) @ ''.'' @ show_nat (unat (b ! 3))"

fun split_on :: "char \<Rightarrow> string \<Rightarrow> string list" where
  "split_on c [] = [[]]"
| "split_on c (x # xs) =
     (if x = c then [] # split_on c xs
      else case split_on c xs of [] \<Rightarrow> [[x]] | f # fs \<Rightarrow> (x # f) # fs)"

definition parse_octet :: "string \<Rightarrow> byte option" where
  "parse_octet s =
     (if s = [] \<or> (1 < length s \<and> hd s = CHR ''0'') then None
      else case digits_val 0 s of None \<Rightarrow> None | Some n \<Rightarrow> if n \<le> 255 then Some (of_nat n) else None)"

definition parse_ipv4 :: "string \<Rightarrow> byte list option" where
  "parse_ipv4 s =
     (case map parse_octet (split_on (CHR ''.'') s) of
        [Some a, Some b, Some c, Some d] \<Rightarrow> Some [a, b, c, d]
      | _ \<Rightarrow> None)"

definition parseIP :: "(string \<Rightarrow> byte list option) \<Rightarrow> string \<Rightarrow> byte list option" where
  "parseIP ip6 s = (case parse_ipv4 s of Some b \<Rightarrow> Some b | None \<Rightarrow> ip6 s)"

definition mask_ipv4 :: "nat \<Rightarrow> byte list \<Rightarrow> byte list" where
  "mask_ipv4 ones b = put_u32 (push_bit (32 - ones) (drop_bit (32 - ones) (be_u32 b)))"

text \<open>The network of \<open>"a.b.c.d/n"\<close>: its address with the host bits cleared, and \<open>n\<close>.\<close>

definition parse_cidr :: "string \<Rightarrow> (byte list \<times> nat) option" where
  "parse_cidr s =
     (if CHR ''/'' \<notin> set s then None
      else
        let a = takeWhile (\<lambda>c. c \<noteq> CHR ''/'') s; m = drop (length a + 1) s in
        case parse_ipv4 a of
          None \<Rightarrow> None
        | Some b \<Rightarrow>
            if m = [] then None
            else (case digits_val 0 m of
                None \<Rightarrow> None
              | Some n \<Rightarrow> if n \<le> 32 then Some (mask_ipv4 n b, n) else None))"

section \<open>Derived addresses\<close>

definition derived_host :: "(byte list \<Rightarrow> byte list) \<Rightarrow> nat \<Rightarrow> node_key \<Rightarrow> nat \<Rightarrow> u32" where
  "derived_host sha ones pub salt =
     (let usable = push_bit (32 - ones) 1 - 2;
          seed = bytes_of ''OVLY-ip-v1:'' @ pub @ (if 0 < salt then bytes_of (''|hop'' @ show_nat salt) else [])
      in be_u32 (sha seed) mod usable + 1)"

definition deriveOverlayIPSalted :: "(byte list \<Rightarrow> byte list) \<Rightarrow> string \<Rightarrow> node_key \<Rightarrow> nat \<Rightarrow> string option" where
  "deriveOverlayIPSalted sha cidr pub salt =
     (case parse_cidr cidr of
        None \<Rightarrow> None
      | Some (ip4, ones) \<Rightarrow>
          if 30 < ones then None
          else Some (show_ipv4 (put_u32 (be_u32 ip4 OR derived_host sha ones pub salt)) @ ''/'' @ show_nat ones))"

definition deriveOverlayIP :: "(byte list \<Rightarrow> byte list) \<Rightarrow> string \<Rightarrow> node_key \<Rightarrow> string option" where
  "deriveOverlayIP sha cidr pub = deriveOverlayIPSalted sha cidr pub 0"

section \<open>Packets\<close>

definition isIPv4Packet :: "byte list \<Rightarrow> bool" where
  "isIPv4Packet pkt \<longleftrightarrow> 20 \<le> length pkt \<and> drop_bit 4 (pkt ! 0) = 4"

definition extractIPv4Src :: "byte list \<Rightarrow> string" where
  "extractIPv4Src pkt =
     (if length pkt < 20 \<or> drop_bit 4 (pkt ! 0) \<noteq> 4 then [] else show_ipv4 (take 4 (drop 12 pkt)))"

definition extractIPv4Dst :: "byte list \<Rightarrow> string" where
  "extractIPv4Dst pkt =
     (if length pkt < 20 \<or> drop_bit 4 (pkt ! 0) \<noteq> 4 then [] else show_ipv4 (take 4 (drop 16 pkt)))"

section \<open>Printing and parsing\<close>

lemma digit_char_special: "d < 10 \<Longrightarrow> digit_char d \<noteq> CHR ''.'' \<and> digit_char d \<noteq> CHR ''/''"
  using digit_val_char [of d] by (auto simp: digit_val_def Let_def split: if_splits)

lemma show_nat_special: "CHR ''.'' \<notin> set (show_nat n)" "CHR ''/'' \<notin> set (show_nat n)"
  using set_show_nat digit_char_special by metis+

lemma split_on_none: "c \<notin> set xs \<Longrightarrow> split_on c xs = [xs]"
  by (induction xs) auto

lemma split_on_append: "c \<notin> set xs \<Longrightarrow> split_on c (xs @ c # ys) = xs # split_on c ys"
  by (induction xs) auto

lemma show_nat_lead: "1 < length (show_nat n) \<Longrightarrow> hd (show_nat n) \<noteq> CHR ''0''"
proof (induction n rule: show_nat.induct)
  case (1 n)
  have n: "\<not> n < 10" using 1(2) by (auto simp: show_nat.simps [of n])
  then have hd: "hd (show_nat n) = hd (show_nat (n div 10))" by (subst show_nat.simps) simp
  show ?case
  proof (cases "1 < length (show_nat (n div 10))")
    case True
    with 1(1) n hd show ?thesis by simp
  next
    case False
    have "n div 10 < 10"
    proof (rule ccontr)
      assume big: "\<not> n div 10 < 10"
      have "0 < length (show_nat (n div 10 div 10))" by simp
      moreover have "show_nat (n div 10) = show_nat (n div 10 div 10) @ [digit_char (n div 10 mod 10)]"
        using big by (subst show_nat.simps) simp
      ultimately show False using False by simp
    qed
    moreover from this have "show_nat (n div 10) = [digit_char (n div 10)]" by (subst show_nat.simps) simp
    ultimately have "digit_val (hd (show_nat (n div 10))) = Some (n div 10)" "n div 10 \<noteq> 0" using n by simp_all
    then show ?thesis by (auto simp: hd digit_val_def)
  qed
qed

lemma parse_octet_show: "parse_octet (show_nat (unat b)) = Some b"
proof -
  have "unat b \<le> 255" using unat_byte_lt [of b] by simp
  then show ?thesis
    using show_nat_lead [of "unat b"] by (auto simp: parse_octet_def digits_val_show_nat)
qed

lemma parse_show_ipv4:
  assumes "length b = 4"
  shows "parse_ipv4 (show_ipv4 b) = Some b"
proof -
  obtain a c d e where b: "b = [a, c, d, e]" using assms by (auto simp: numeral_eq_Suc length_Suc_conv)
  then show ?thesis
    by (simp add: parse_ipv4_def show_ipv4_def split_on_append split_on_none show_nat_special parse_octet_show)
qed

lemma show_ipv4_no_slash: "CHR ''/'' \<notin> set (show_ipv4 b)"
  by (simp add: show_ipv4_def show_nat_special)

lemma stripMask_show: "stripMask (show_ipv4 b @ ''/'' @ xs) = show_ipv4 b"
proof -
  have "\<forall>c \<in> set (show_ipv4 b). c \<noteq> CHR ''/''" using show_ipv4_no_slash by metis
  then show ?thesis by (simp add: stripMask_def takeWhile_append2)
qed

lemma show_ipv4_inj: "length a = 4 \<Longrightarrow> length b = 4 \<Longrightarrow> show_ipv4 a = show_ipv4 b \<longleftrightarrow> a = b"
  by (metis parse_show_ipv4 option.inject)


section \<open>Derived addresses lie in the overlay\<close>

lemma shifted_or_add: "(h :: nat) < 2 ^ n \<Longrightarrow> push_bit n k OR h = k * 2 ^ n + h"
proof -
  assume h: "h < 2 ^ n"
  have "\<not> bit h i" if "n \<le> i" for i
  proof -
    have "h < 2 ^ i" using h that by (meson less_le_trans one_le_numeral power_increasing)
    then show ?thesis by (simp add: bit_iff_odd)
  qed
  then have "push_bit n k AND h = 0" by (auto simp: bit_eq_iff bit_simps)
  then have "push_bit n k + h = push_bit n k OR h" by (rule disjunctive_add_eq_or)
  then show ?thesis by (simp add: push_bit_eq_mult)
qed

lemma unat_cleared: "unat (push_bit n (drop_bit n (x :: u32))) = unat x div 2 ^ n * 2 ^ n"
proof -
  have "unat x div 2 ^ n * 2 ^ n \<le> unat x" by simp
  also have "unat x < 2 ^ LENGTH(32)" by (rule unsigned_less)
  finally show ?thesis
    unfolding unsigned_push_bit_eq unat_drop_bit_eq by (simp add: push_bit_eq_mult drop_bit_eq_div take_bit_eq_mod)
qed

lemma host_range:
  assumes "ones \<le> 30"
  shows "1 \<le> unat (derived_host sha ones pub salt) \<and> unat (derived_host sha ones pub salt) \<le> 2 ^ (32 - ones) - 2"
proof -
  let ?u = "push_bit (32 - ones) 1 - 2 :: u32"
  let ?hb = "32 - ones"
  have pow: "(4 :: nat) \<le> 2 ^ ?hb"
    using power_increasing [of 2 "?hb" "2 :: nat"] assms by simp
  have u: "unat ?u = 2 ^ ?hb - 2"
  proof (cases "ones = 0")
    case True
    then show ?thesis by simp
  next
    case False
    then have "?hb < 32" by simp
    then have "(2 :: nat) ^ ?hb < 2 ^ 32" by (rule power_strict_increasing) simp
    then have p: "unat (push_bit ?hb 1 :: u32) = 2 ^ ?hb"
      unfolding unsigned_push_bit_eq by (simp add: push_bit_eq_mult take_bit_eq_mod)
    then have "(2 :: u32) \<le> push_bit ?hb 1" using pow by (simp add: word_le_nat_alt)
    then show ?thesis using p by (simp add: unat_sub)
  qed
  let ?m = "be_u32 (sha (bytes_of ''OVLY-ip-v1:'' @ pub @ (if 0 < salt then bytes_of (''|hop'' @ show_nat salt) else []))) mod ?u"
  have "unat ?m < 2 ^ ?hb - 2" using u pow by (simp add: unat_mod_distrib)
  moreover have "(2 :: nat) ^ ?hb \<le> 2 ^ 32" by (rule power_increasing) simp_all
  ultimately have "unat (?m + 1) = unat ?m + 1" by (simp add: unat_word_ariths)
  with \<open>unat ?m < 2 ^ ?hb - 2\<close> show ?thesis by (simp add: derived_host_def Let_def)
qed

section \<open>Properties\<close>

text \<open>
  A derived address is a host of the overlay. Whatever hash, key and salt, the address
  \<open>deriveOverlayIPSalted\<close> returns is the text of an address inside the configured subnet that is
  neither its network address nor its broadcast address.
\<close>

theorem derived_is_host:
  assumes "deriveOverlayIPSalted sha cidr pub salt = Some a"
  shows "\<exists>net ones ip. parse_cidr cidr = Some (net, ones) \<and> a = show_ipv4 ip @ ''/'' @ show_nat ones \<and>
    parse_ipv4 (stripMask a) = Some ip \<and> net_contains (net, ones) ip \<and>
    be_nat net < be_nat ip \<and> be_nat ip < be_nat net + 2 ^ (32 - ones) - 1"
proof -
  from assms obtain ip4 ones where cidr: "parse_cidr cidr = Some (ip4, ones)" and ones: "ones \<le> 30"
    and a: "a = show_ipv4 (put_u32 (be_u32 ip4 OR derived_host sha ones pub salt)) @ ''/'' @ show_nat ones"
    by (auto simp: deriveOverlayIPSalted_def split: option.splits if_splits)
  let ?h = "derived_host sha ones pub salt" and ?n = "32 - ones"
  from cidr obtain b where ip4: "ip4 = mask_ipv4 ones b"
    by (auto simp: parse_cidr_def Let_def split: option.splits if_splits)
  define x where "x = be_u32 b"
  have w: "be_u32 ip4 = push_bit ?n (drop_bit ?n x)"
    using be_u32_put [of _ "[]"] by (simp add: ip4 mask_ipv4_def x_def)
  define k where "k = unat x div 2 ^ ?n"
  have net: "be_nat ip4 = k * 2 ^ ?n"
    by (simp add: ip4 mask_ipv4_def unat_cleared k_def flip: x_def)
  note hr = host_range [OF ones, of sha pub salt]
  have pow: "(4 :: nat) \<le> 2 ^ ?n"
    using power_increasing [of 2 "?n" "2 :: nat"] ones by simp
  have "unat (be_u32 ip4) = push_bit ?n k" unfolding w unat_cleared by (simp add: push_bit_eq_mult k_def)
  then have ip: "be_nat (put_u32 (be_u32 ip4 OR ?h)) = k * 2 ^ ?n + unat ?h"
    unfolding be_nat_put_u32 unsigned_or_eq using hr pow by (subst shifted_or_add [symmetric]) auto
  have "unat ?h < 2 ^ ?n" using hr pow by linarith
  then have "(k * 2 ^ ?n + unat ?h) div 2 ^ ?n = k" by simp
  with net ip have "net_contains (ip4, ones) (put_u32 (be_u32 ip4 OR ?h))" by (simp add: net_contains_def)
  moreover have "parse_ipv4 (stripMask a) = Some (put_u32 (be_u32 ip4 OR ?h))"
    by (simp add: a stripMask_show [simplified] parse_show_ipv4)
  ultimately show ?thesis using cidr a net ip hr pow by (intro exI conjI) auto
qed

theorem derived_is_host_witness:
  "\<exists>a ip. deriveOverlayIPSalted (\<lambda>x. [0, 0, 1, 44]) ''10.7.0.9/24'' demo_key 3 = Some a \<and>
     parse_ipv4 (stripMask a) = Some ip \<and> net_contains ([10, 7, 0, 0], 24) ip"
proof -
  have q: "parse_ipv4 ''10.7.0.9'' = Some [10, 7, 0, 9]"
    by (simp add: parse_ipv4_def parse_octet_def digit_val_def)
  have m: "mask_ipv4 24 [10, 7, 0, 9] = [10, 7, 0, 0]"
  proof -
    have "be_u32 [10, 7, 0, 9] = 168230921" "be_nat [10, 7, 0, 0] = 168230912" by (simp_all add: be_u32_def be_nat_def)
    with be_put_be_nat [of "[10, 7, 0, 0]" 4] show ?thesis by (simp add: mask_ipv4_def put_u32_def)
  qed
  have c: "parse_cidr ''10.7.0.9/24'' = Some ([10, 7, 0, 0], 24)"
    by (simp add: parse_cidr_def q m digit_val_def)
  then obtain a where a: "deriveOverlayIPSalted (\<lambda>x. [0, 0, 1, 44]) ''10.7.0.9/24'' demo_key 3 = Some a"
    by (simp add: deriveOverlayIPSalted_def)
  from derived_is_host [OF a] c a show ?thesis by auto
qed

end
