(* ===== verification/Roster.thy ===== *)
theory Roster
  imports Session_Table IPv4_Text
begin

text \<open>
  The gossiped node directory, \<open>client/roster.go\<close>: building, trimming and merging roster frames,
  expiry and lookups.

  Parameters: \<open>marshal\<close> and \<open>unmarshal\<close> are \<open>encoding/json\<close> on the entry list, \<open>fp\<close> is
  \<open>peerKeyFingerprint\<close>, \<open>ip6ok\<close> says whether \<open>net.ParseIP\<close> accepts text that is not a dotted quad.
  The entry of the node itself, and name, post-quantum and exit state of a peer, come from
  other parts of the node and are arguments too.
\<close>

definition rosterTTL :: duration where "rosterTTL = 5 * minute"
definition rosterMaxEntries :: nat where "rosterMaxEntries = 64"
definition rosterMaxName :: nat where "rosterMaxName = 64"
definition rosterMaxFrameBytes :: nat where "rosterMaxFrameBytes = 1350"

record rosterEntry =
  ro_IP :: string
  ro_Name :: string
  ro_FP :: string
  ro_PK :: string
  ro_PQ :: bool
  ro_Exit :: bool
  ro_ExitErr :: bool
  ro_V6 :: bool

record rosterView =
  rv_entry :: rosterEntry
  rv_Seen :: go_time

type_synonym roster = "(string \<times> rosterView) list"

section \<open>Merging\<close>

definition valid_key_text :: "string \<Rightarrow> bool" where
  "valid_key_text pk \<longleftrightarrow> (case b64_decode pk of None \<Rightarrow> False | Some raw \<Rightarrow> length raw = 32)"

definition clean_entry :: "rosterEntry \<Rightarrow> rosterEntry" where
  "clean_entry e = e\<lparr>ro_Name := take rosterMaxName (ro_Name e),
     ro_PK := (if ro_PK e \<noteq> [] \<and> \<not> valid_key_text (ro_PK e) then [] else ro_PK e)\<rparr>"

definition merge_known :: "rosterEntry \<Rightarrow> rosterEntry \<Rightarrow> rosterEntry" where
  "merge_known cur e = e\<lparr>
     ro_Name := (if ro_Name e = [] then ro_Name cur else ro_Name e),
     ro_FP := (if ro_FP e = [] then ro_FP cur else ro_FP e),
     ro_PK := (if ro_PK e = [] then ro_PK cur else ro_PK e),
     ro_PQ := (ro_PQ e \<or> ro_PQ cur), ro_Exit := (ro_Exit e \<or> ro_Exit cur),
     ro_ExitErr := (ro_ExitErr e \<or> ro_ExitErr cur), ro_V6 := (ro_V6 e \<or> ro_V6 cur)\<rparr>"

definition roster_refuses :: "(string \<Rightarrow> bool) \<Rightarrow> string \<Rightarrow> rosterEntry \<Rightarrow> bool" where
  "roster_refuses ip6ok self e \<longleftrightarrow>
     ro_IP e = [] \<or> ro_IP e = self \<or> (parse_ipv4 (ro_IP e) = None \<and> \<not> ip6ok (ro_IP e))"

definition merge_entry :: "(string \<Rightarrow> bool) \<Rightarrow> string \<Rightarrow> go_time \<Rightarrow> roster \<times> bool \<Rightarrow> rosterEntry \<Rightarrow> roster \<times> bool" where
  "merge_entry ip6ok self now st e =
     (if roster_refuses ip6ok self e then st
      else
        let e1 = clean_entry e in
        case gget (fst st) (ro_IP e) of
          Some cur \<Rightarrow> (gput (ro_IP e) \<lparr>rv_entry = merge_known (rv_entry cur) e1, rv_Seen = now\<rparr> (fst st), snd st)
        | None \<Rightarrow> (gput (ro_IP e) \<lparr>rv_entry = e1, rv_Seen = now\<rparr> (fst st), True))"

text \<open>The Boolean result: a new node was seen, and \<open>connectRosterNodes\<close> is started.\<close>

definition handleRoster ::
  "(byte list \<Rightarrow> rosterEntry list option) \<Rightarrow> (string \<Rightarrow> bool) \<Rightarrow> string \<Rightarrow> roster \<Rightarrow> go_time \<Rightarrow> byte list \<Rightarrow> roster \<times> bool" where
  "handleRoster unmarshal ip6ok self nodes now payload =
     (case unmarshal payload of
        None \<Rightarrow> (nodes, False)
      | Some entries \<Rightarrow> foldl (merge_entry ip6ok self now) (nodes, False) (take rosterMaxEntries entries))"

section \<open>Lookups\<close>

definition expired :: "go_time \<Rightarrow> rosterView \<Rightarrow> bool" where
  "expired now v \<longleftrightarrow> rosterTTL < time_sub now (rv_Seen v)"

definition rosterSnapshot :: "roster \<Rightarrow> go_time \<Rightarrow> rosterView list \<times> roster" where
  "rosterSnapshot nodes now =
     (let live = gdrop (\<lambda>ip. expired now) nodes in (map snd live, live))"

definition rosterLookup :: "roster \<Rightarrow> go_time \<Rightarrow> string \<Rightarrow> rosterView option" where
  "rosterLookup nodes now ip =
     (case gget nodes ip of None \<Rightarrow> None | Some v \<Rightarrow> if expired now v then None else Some v)"

definition rosterIPByKey :: "(node_key \<Rightarrow> string) \<Rightarrow> roster \<Rightarrow> go_time \<Rightarrow> node_key \<Rightarrow> string \<times> roster" where
  "rosterIPByKey fp nodes now pub =
     (if pub = zero_key then ([], nodes)
      else
        let (views, nodes') = rosterSnapshot nodes now; pk = b64_encode pub;
          hit = (\<lambda>v. let e = rv_entry v in ro_IP e \<noteq> [] \<and>
            ((ro_PK e \<noteq> [] \<and> ro_PK e = pk) \<or> (ro_FP e \<noteq> [] \<and> ro_FP e = fp pub)))
        in (case find hit views of None \<Rightarrow> [] | Some v \<Rightarrow> ro_IP (rv_entry v), nodes'))"

section \<open>Building a frame\<close>

text \<open>One pass over the established sessions; \<open>entry\<close> is the entry made for a peer at an address.\<close>

fun roster_peers ::
  "'c mesh \<Rightarrow> (node_key \<Rightarrow> string) \<Rightarrow> (node_key \<Rightarrow> string \<Rightarrow> rosterEntry) \<Rightarrow> udp_addr option list
   \<Rightarrow> rosterEntry list \<Rightarrow> string list \<Rightarrow> rosterEntry list" where
  "roster_peers m ipOf entry [] entries seen = entries"
| "roster_peers m ipOf entry (a # as) entries seen =
     (case GetByAddr m a of
        None \<Rightarrow> roster_peers m ipOf entry as entries seen
      | Some s \<Rightarrow>
          if \<not> Established (Some s) then roster_peers m ipOf entry as entries seen
          else
            let ip = ipOf (s_peerStatic s) in
            if ip = [] \<or> ip \<in> set seen then roster_peers m ipOf entry as entries seen
            else
              let entries' = entries @ [entry (s_peerStatic s) ip] in
              if rosterMaxEntries \<le> length entries' then entries'
              else roster_peers m ipOf entry as entries' (ip # seen))"

text \<open>Dropping entries from the end until the marshalled list fits one datagram.\<close>

definition shrunk_length :: "nat \<Rightarrow> nat \<Rightarrow> nat" where
  "shrunk_length n bytes =
     (let k = n * rosterMaxFrameBytes div bytes; k = (if n \<le> k then n - 1 else k) in if k < 1 then 1 else k)"

function trim_roster :: "(rosterEntry list \<Rightarrow> byte list option) \<Rightarrow> rosterEntry list \<Rightarrow> byte list \<Rightarrow> byte list option" where
  "trim_roster marshal entries b =
     (if rosterMaxFrameBytes < length b \<and> 1 < length entries then
        let entries' = take (shrunk_length (length entries) (length b)) entries in
        case marshal entries' of None \<Rightarrow> None | Some b' \<Rightarrow> trim_roster marshal entries' b'
      else Some b)"
  by pat_completeness auto

termination
proof (relation "measure (\<lambda>(marshal, entries, b). length entries)")
  fix marshal :: "rosterEntry list \<Rightarrow> byte list option" and entries b entries' b'
  assume "rosterMaxFrameBytes < length b \<and> 1 < length entries"
    and "entries' = take (shrunk_length (length entries) (length b)) (entries :: rosterEntry list)"
  then show "((marshal, entries', b'), marshal, entries, b) \<in> measure (\<lambda>(marshal, entries, b). length entries)"
    by (auto simp: shrunk_length_def Let_def)
qed simp

declare trim_roster.simps [simp del]

definition buildRosterFrame ::
  "(rosterEntry list \<Rightarrow> byte list option) \<Rightarrow> rosterEntry \<Rightarrow> 'c mesh \<Rightarrow> (node_key \<Rightarrow> string)
   \<Rightarrow> (node_key \<Rightarrow> string \<Rightarrow> rosterEntry) \<Rightarrow> byte list option" where
  "buildRosterFrame marshal selfEntry m ipOf entry =
     (let (entries, seen) = (if ro_IP selfEntry \<noteq> [] then ([selfEntry], [ro_IP selfEntry]) else ([], []));
          entries = roster_peers m ipOf entry (EstablishedAddrs m) entries seen
      in if entries = [] then None
         else case marshal entries of
             None \<Rightarrow> None
           | Some b \<Rightarrow> map_option (\<lambda>b. ctlMagic @ [of_char (CHR ''T'')] @ b) (trim_roster marshal entries b))"

text \<open>The entry for a peer carries the flags that peer has gossiped about itself.\<close>

definition peer_entry ::
  "(node_key \<Rightarrow> string) \<Rightarrow> (node_key \<Rightarrow> string) \<Rightarrow> (node_key \<Rightarrow> bool) \<Rightarrow> (node_key \<Rightarrow> bool) \<Rightarrow> roster \<Rightarrow> go_time
   \<Rightarrow> node_key \<Rightarrow> string \<Rightarrow> rosterEntry" where
  "peer_entry fp nameOf pqOf exitOf nodes now pub ip =
     (let rv = rosterLookup nodes now ip in
      \<lparr>ro_IP = ip, ro_Name = nameOf pub, ro_FP = fp pub, ro_PK = b64_encode pub, ro_PQ = pqOf pub,
       ro_Exit = (exitOf pub \<or> (case rv of None \<Rightarrow> False | Some v \<Rightarrow> ro_Exit (rv_entry v))),
       ro_ExitErr = (case rv of None \<Rightarrow> False | Some v \<Rightarrow> ro_ExitErr (rv_entry v)),
       ro_V6 = (case rv of None \<Rightarrow> False | Some v \<Rightarrow> ro_V6 (rv_entry v))\<rparr>)"

section \<open>Frames fit a datagram\<close>

lemma trim_roster_fits:
  "marshal entries = Some b \<Longrightarrow> entries \<noteq> [] \<Longrightarrow> trim_roster marshal entries b = Some b' \<Longrightarrow>
   \<exists>n. 0 < n \<and> marshal (take n entries) = Some b' \<and> (length b' \<le> rosterMaxFrameBytes \<or> length (take n entries) = 1)"
proof (induction marshal entries b rule: trim_roster.induct)
  case (1 marshal entries b)
  let ?n = "shrunk_length (length entries) (length b)"
  show ?case
  proof (cases "rosterMaxFrameBytes < length b \<and> 1 < length entries")
    case True
    with 1(4) obtain b1 where b1: "marshal (take ?n entries) = Some b1" "trim_roster marshal (take ?n entries) b1 = Some b'"
      by (auto simp: trim_roster.simps [of marshal entries b] Let_def split: option.splits)
    have pos: "0 < ?n" by (simp add: shrunk_length_def Let_def)
    with True have "take ?n entries \<noteq> []" by auto
    from 1(1) [OF True refl b1(1) b1(1) this b1(2)] obtain n where
      "0 < n" "marshal (take n (take ?n entries)) = Some b'" "length b' \<le> rosterMaxFrameBytes \<or> length (take n (take ?n entries)) = 1"
      by blast
    with pos show ?thesis by (intro exI [of _ "min n ?n"]) (simp add: min_def)
  next
    case False
    with 1(2,3,4) show ?thesis
      by (intro exI [of _ "length entries"]) (auto simp: trim_roster.simps [of marshal entries b] Suc_le_eq not_less le_Suc_eq split: if_splits)
  qed
qed

section \<open>Flags\<close>

datatype roster_event = Heard go_time "byte list" | Snap go_time

fun roster_step :: "(byte list \<Rightarrow> rosterEntry list option) \<Rightarrow> (string \<Rightarrow> bool) \<Rightarrow> string \<Rightarrow> roster \<Rightarrow> roster_event \<Rightarrow> roster" where
  "roster_step unmarshal ip6ok self nodes (Heard now p) = fst (handleRoster unmarshal ip6ok self nodes now p)"
| "roster_step unmarshal ip6ok self nodes (Snap now) = snd (rosterSnapshot nodes now)"

text \<open>The roster is never pruned more than five minutes after \<open>ip\<close> was last advertised.\<close>

fun kept_alive :: "(byte list \<Rightarrow> rosterEntry list option) \<Rightarrow> (string \<Rightarrow> bool) \<Rightarrow> string \<Rightarrow> string \<Rightarrow> go_time \<Rightarrow> roster_event list \<Rightarrow> bool" where
  "kept_alive unmarshal ip6ok self ip t [] = True"
| "kept_alive unmarshal ip6ok self ip t (Snap now # evs) =
     (time_sub now t \<le> rosterTTL \<and> kept_alive unmarshal ip6ok self ip t evs)"
| "kept_alive unmarshal ip6ok self ip t (Heard now p # evs) =
     kept_alive unmarshal ip6ok self ip
       (case unmarshal p of None \<Rightarrow> t | Some es \<Rightarrow>
          if list_ex (\<lambda>e. ro_IP e = ip \<and> \<not> roster_refuses ip6ok self e) (take rosterMaxEntries es) then now else t) evs"

lemma merge_entry_flags:
  assumes "gget (fst st) ip = Some v" and "ro_Exit (rv_entry v)"
  shows "\<exists>v'. gget (fst (merge_entry ip6ok self now st e)) ip = Some v' \<and> ro_Exit (rv_entry v') \<and>
    rv_Seen v' = (if ro_IP e = ip \<and> \<not> roster_refuses ip6ok self e then now else rv_Seen v)"
  using assms by (auto simp: merge_entry_def merge_known_def Let_def gget_gput split: option.splits)

lemma merge_entries_flags:
  "gget (fst st) ip = Some v \<Longrightarrow> ro_Exit (rv_entry v) \<Longrightarrow>
   \<exists>v'. gget (fst (foldl (merge_entry ip6ok self now) st es)) ip = Some v' \<and> ro_Exit (rv_entry v') \<and>
     rv_Seen v' = (if list_ex (\<lambda>e. ro_IP e = ip \<and> \<not> roster_refuses ip6ok self e) es then now else rv_Seen v)"
proof (induction es arbitrary: st v)
  case (Cons e es)
  from merge_entry_flags [OF Cons.prems, of ip6ok self now e] obtain v1 where
    v1: "gget (fst (merge_entry ip6ok self now st e)) ip = Some v1" "ro_Exit (rv_entry v1)"
    "rv_Seen v1 = (if ro_IP e = ip \<and> \<not> roster_refuses ip6ok self e then now else rv_Seen v)" by blast
  from Cons.IH [OF v1(1,2)] v1(3) show ?case by (auto split: if_splits)
qed simp

lemma merge_entry_wf: "gwf (fst st) \<Longrightarrow> gwf (fst (merge_entry ip6ok self now st e))"
  by (auto simp: merge_entry_def Let_def gwf_gput split: option.splits)

lemma roster_step_wf: "gwf nodes \<Longrightarrow> gwf (roster_step unmarshal ip6ok self nodes ev)"
proof (cases ev)
  case (Heard now p)
  have "gwf (fst st) \<Longrightarrow> gwf (fst (foldl (merge_entry ip6ok self now) st es))" for st es
    by (induction es arbitrary: st) (simp_all add: merge_entry_wf)
  then show "gwf nodes \<Longrightarrow> ?thesis" using Heard by (simp add: handleRoster_def split: option.split)
qed (simp add: rosterSnapshot_def Let_def gwf_gdrop)

section \<open>Properties\<close>

text \<open>
  A roster frame fits one datagram. Whatever sessions a node has and however long the
  marshalled entries are, building the frame ends, and the frame it sends carries a prefix of
  the entries that takes at most 1350 bytes, unless a single entry is longer than that.
\<close>

theorem roster_frame_fits:
  assumes "buildRosterFrame marshal selfEntry m ipOf entry = Some f"
  shows "\<exists>es b. f = ctlMagic @ [of_char (CHR ''T'')] @ b \<and> marshal es = Some b \<and> es \<noteq> [] \<and> (length b \<le> 1350 \<or> length es = 1)"
proof -
  from assms obtain entries b0 b where e: "entries \<noteq> []" "marshal entries = Some b0" "trim_roster marshal entries b0 = Some b"
    and f: "f = ctlMagic @ [of_char (CHR ''T'')] @ b"
    by (auto simp: buildRosterFrame_def Let_def split: option.splits if_splits)
  from trim_roster_fits [OF e(2,1,3)] obtain n where
    "0 < n" "marshal (take n entries) = Some b" "length b \<le> rosterMaxFrameBytes \<or> length (take n entries) = 1" by blast
  with e(1) f show ?thesis by (intro exI [of _ "take n entries"] exI [of _ b]) (auto simp: rosterMaxFrameBytes_def)
qed

text \<open>
  A gossiped capability never clears while its node is heard. Once the roster says that the
  node at an address is an exit, every later frame may say it is not, for any length of time:
  as long as the address is advertised at least every five minutes the roster keeps saying so,
  since each frame both renews the entry and keeps the old flag.
\<close>

theorem roster_flag_never_clears:
  assumes "gwf nodes" and "gget nodes ip = Some v" and "ro_Exit (rv_entry v)"
    and "kept_alive unmarshal ip6ok self ip (rv_Seen v) evs"
  shows "\<exists>v'. gget (foldl (roster_step unmarshal ip6ok self) nodes evs) ip = Some v' \<and> ro_Exit (rv_entry v')"
  using assms
proof (induction evs arbitrary: nodes v)
  case (Cons ev evs)
  show ?case
  proof (cases ev)
    case (Heard now p)
    have "\<exists>v'. gget (roster_step unmarshal ip6ok self nodes ev) ip = Some v' \<and> ro_Exit (rv_entry v') \<and>
        kept_alive unmarshal ip6ok self ip (rv_Seen v') evs"
    proof (cases "unmarshal p")
      case None
      with Heard Cons.prems show ?thesis by (simp add: handleRoster_def)
    next
      case (Some es)
      from merge_entries_flags [of "(nodes, False)" ip v ip6ok self now "take rosterMaxEntries es"] Cons.prems Some Heard
      show ?thesis by (auto simp: handleRoster_def)
    qed
    with Cons.IH [OF roster_step_wf [OF Cons.prems(1)]] show ?thesis by auto
  next
    case (Snap now)
    with Cons.prems have "gget (roster_step unmarshal ip6ok self nodes ev) ip = Some v"
      by (simp add: rosterSnapshot_def Let_def gget_gdrop expired_def)
    from Cons.IH [OF roster_step_wf [OF Cons.prems(1)] this] Cons.prems Snap show ?thesis by simp
  qed
qed simp

definition demo_entry :: "string \<Rightarrow> bool \<Rightarrow> rosterEntry" where
  "demo_entry ip exit = \<lparr>ro_IP = ip, ro_Name = [], ro_FP = [], ro_PK = [], ro_PQ = False, ro_Exit = exit,
     ro_ExitErr = False, ro_V6 = False\<rparr>"

definition demo_marshal :: "rosterEntry list \<Rightarrow> byte list option" where
  "demo_marshal es = Some (replicate (1000 * length es) 32)"

theorem roster_frame_fits_witness:
  "\<exists>f es b. buildRosterFrame demo_marshal (demo_entry ''10.0.0.1'' False) demo_mesh (\<lambda>k. ''10.0.0.2'') (\<lambda>k ip. demo_entry ip True) = Some f \<and>
     f = ctlMagic @ [of_char (CHR ''T'')] @ b \<and> demo_marshal es = Some b \<and> (length b \<le> 1350 \<or> length es = 1)"
proof -
  obtain f where f: "buildRosterFrame demo_marshal (demo_entry ''10.0.0.1'' False) demo_mesh (\<lambda>k. ''10.0.0.2'') (\<lambda>k ip. demo_entry ip True) = Some f"
    by (simp add: buildRosterFrame_def demo_entry_def demo_marshal_def demo_mesh_def EstablishedAddrs_def GetByAddr_def demo_session_def
        Established_def rosterMaxEntries_def trim_roster.simps rosterMaxFrameBytes_def shrunk_length_def Let_def)
  from roster_frame_fits [OF f] f show ?thesis by blast
qed

definition demo_unmarshal :: "byte list \<Rightarrow> rosterEntry list option" where
  "demo_unmarshal p = Some [demo_entry ''10.0.0.2'' False]"

theorem roster_flag_never_clears_witness:
  "\<exists>v. gget (foldl (roster_step demo_unmarshal (\<lambda>s. False) ''10.0.0.1'') [(''10.0.0.2'', \<lparr>rv_entry = demo_entry ''10.0.0.2'' True, rv_Seen = 0\<rparr>)]
       [Snap (4 * minute), Heard (4 * minute) [], Snap (8 * minute), Heard (8 * minute) [], Snap (12 * minute)]) ''10.0.0.2'' = Some v \<and>
     ro_Exit (rv_entry v)"
proof -
  have ip: "parse_ipv4 ''10.0.0.2'' = Some [10, 0, 0, 2]"
    by (simp add: parse_ipv4_def parse_octet_def digit_val_def)
  show ?thesis
    by (rule roster_flag_never_clears [where v = "\<lparr>rv_entry = demo_entry ''10.0.0.2'' True, rv_Seen = 0\<rparr>"])
      (simp_all add: gwf_def demo_entry_def demo_unmarshal_def roster_refuses_def ip rosterMaxEntries_def rosterTTL_def
        time_sub_def duration_defs)
qed

end
