(* ===== verification/Routing.thy ===== *)
theory Routing
  imports Session_Table
begin

text \<open>
  How overlay addresses get their next hop: \<open>IPLearning.Learn\<close> (\<open>client/ip_learning.go\<close>),
  called for the source of every received overlay packet, and endpoint roaming
  (\<open>SessionTable.RoamData\<close>, \<open>client/main.go\<close>).

  \<open>owner\<close> is \<open>peerOverlayIPByPub\<close>, the overlay address a peer key has announced (empty when
  none is known). \<open>dec c nonce ct\<close> is the receive cipher state \<open>c\<close> after \<open>SetNonce(nonce)\<close>
  decrypting \<open>ct\<close>.
\<close>

section \<open>Learning\<close>

definition learn_put :: "go_time \<Rightarrow> string \<Rightarrow> udp_addr \<Rightarrow> 'c mesh \<Rightarrow> 'c mesh" where
  "learn_put now ip addr m = m\<lparr>learned := gput ip \<lparr>ie_addr = addr, ie_seen = now\<rparr> (learned m)\<rparr>"

definition Learn ::
  "ip_nets \<Rightarrow> (node_key \<Rightarrow> string) \<Rightarrow> 'c mesh \<Rightarrow> go_time \<Rightarrow> string \<Rightarrow> udp_addr \<Rightarrow> 'c mesh" where
  "Learn nets owner m now ip addr =
     (if isSyntheticRelayAddr (Some addr) then m
      else case gget (learned m) ip of
          None \<Rightarrow> learn_put now ip addr m
        | Some e \<Rightarrow>
            if ie_addr e = addr then learn_put now ip addr m
            else
              let cur = GetByAddr m (Some (ie_addr e)); cand = GetByAddr m (Some addr) in
              if \<not> Established cur then learn_put now ip addr m
              else if Established cand \<and> s_peerStatic (the cur) = s_peerStatic (the cand) then
                (if routeClass nets (Some addr) > routeClass nets (Some (ie_addr e)) then learn_put now ip addr m
                 else if RouteIsLive m now (Some (ie_addr e)) \<or> \<not> RouteIsLive m now (Some addr)
                 then learn_put now ip (ie_addr e) m
                 else learn_put now ip addr m)
              else if owner (s_peerStatic (the cur)) = ip then
                (let candDirect = (Established cand \<and> owner (s_peerStatic (the cand)) = ip) in
                 if \<not> candDirect \<and> RouteIsLive m now (Some (ie_addr e)) then m
                 else learn_put now ip addr m)
              else learn_put now ip addr m)"

section \<open>Roaming\<close>

definition roam_candidates :: "'c mesh \<Rightarrow> (udp_addr \<times> 'c session) list" where
  "roam_candidates m = filter (\<lambda>(_, s). s_established s \<and> s_recv s \<noteq> None) (byAddr m)"

text \<open>Re-keying a session onto the address a frame of it came from.\<close>

definition roam_rekey :: "go_time \<Rightarrow> udp_addr \<Rightarrow> udp_addr \<Rightarrow> 'c session \<Rightarrow> 'c mesh \<Rightarrow> 'c mesh" where
  "roam_rekey now raddr key s m =
     m\<lparr>byAddr := gput raddr (s\<lparr>s_addr := Some raddr\<rparr>) (gdel key (byAddr m)),
       learned := RemapAddr now (s_addr s) (Some raddr) (learned m)\<rparr>"

text \<open>
  The loop over the candidates; every candidate is tried until one decrypts. \<open>cur == c.s\<close> holds
  for each, since nothing changes the table between the snapshot and the re-key.
\<close>

fun roam_try ::
  "('c \<Rightarrow> u64 \<Rightarrow> byte list \<Rightarrow> byte list option) \<Rightarrow> ip_nets \<Rightarrow> 'c mesh \<Rightarrow> go_time \<Rightarrow> udp_addr \<Rightarrow> u64 \<Rightarrow> byte list
   \<Rightarrow> (udp_addr \<times> 'c session) list \<Rightarrow> bool \<times> 'c mesh" where
  "roam_try dec nets m now raddr nonce ct [] = (False, m)"
| "roam_try dec nets m now raddr nonce ct ((key, s) # cs) =
     (case dec (the (s_recv s)) nonce ct of
        None \<Rightarrow> roam_try dec nets m now raddr nonce ct cs
      | Some _ \<Rightarrow>
          if s_addr s \<noteq> None \<and> RouteIsLive m now (s_addr s) \<and> routeClass nets (Some raddr) < routeClass nets (s_addr s)
          then (False, m)
          else (True, roam_rekey now raddr key s m))"

definition RoamData ::
  "('c \<Rightarrow> u64 \<Rightarrow> byte list \<Rightarrow> byte list option) \<Rightarrow> ip_nets \<Rightarrow> 'c mesh \<Rightarrow> go_time \<Rightarrow> udp_addr \<Rightarrow> byte list \<Rightarrow> bool \<times> 'c mesh" where
  "RoamData dec nets m now raddr body =
     (if length body < 10 then (False, m)
      else
        let nonce = be_u64 (take 8 body);
          n = unat (be_u16 (take 2 (drop 8 body)))
        in if length body < 10 + n then (False, m)
           else roam_try dec nets m now raddr nonce (take n (drop 10 body)) (roam_candidates m))"

section \<open>Learned routes never name a relay circuit\<close>

lemma Lookup_learn_put:
  "Lookup (learned (learn_put now ip addr m)) j = (if j = ip then Some addr else Lookup (learned m) j)"
  by (simp add: learn_put_def Lookup_def gomap_simps)

lemma byAddr_learn_put [simp]: "byAddr (learn_put now ip addr m) = byAddr m"
  by (simp add: learn_put_def)

lemma Learn_other: "j \<noteq> ip \<Longrightarrow> Lookup (learned (Learn nets owner m now ip addr)) j = Lookup (learned m) j"
  by (simp add: Learn_def Lookup_learn_put Let_def split: option.splits)

lemma Learn_choice:
  "Lookup (learned (Learn nets owner m now ip addr)) ip \<in> {Lookup (learned m) ip, Some addr}"
proof (cases "gget (learned m) ip")
  case None
  then have "Lookup (learned m) ip = None" by (simp add: Lookup_def)
  with None show ?thesis by (simp add: Learn_def Lookup_learn_put)
next
  case (Some e)
  then have "Lookup (learned m) ip = Some (ie_addr e)" by (simp add: Lookup_def)
  with Some show ?thesis by (simp add: Learn_def Lookup_learn_put Let_def)
qed

lemma Learn_synthetic: "isSyntheticRelayAddr (Some addr) \<Longrightarrow> Learn nets owner m now ip addr = m"
  by (simp add: Learn_def)

lemma RouteIsLive_nil [simp]: "\<not> RouteIsLive m now None"
  by (simp add: RouteIsLive_def)

lemma roam_try_moves:
  assumes "roam_try dec nets m now raddr nonce ct cs = (True, m')"
  shows "\<exists>key s pt. (key, s) \<in> set cs \<and> dec (the (s_recv s)) nonce ct = Some pt \<and>
    \<not> (RouteIsLive m now (s_addr s) \<and> routeClass nets (Some raddr) < routeClass nets (s_addr s)) \<and>
    m' = roam_rekey now raddr key s m"
  using assms
proof (induction cs)
  case (Cons c cs)
  obtain key s where c: "c = (key, s)" by (cases c)
  show ?case
  proof (cases "dec (the (s_recv s)) nonce ct")
    case None
    with Cons c show ?thesis by fastforce
  next
    case (Some pt)
    with Cons.prems c have "m' = roam_rekey now raddr key s m"
      "\<not> (RouteIsLive m now (s_addr s) \<and> routeClass nets (Some raddr) < routeClass nets (s_addr s))"
      by (cases "s_addr s"; auto split: if_splits)+
    with c Some show ?thesis by fastforce
  qed
qed simp

lemma roam_try_false: "roam_try dec nets m now raddr nonce ct cs = (False, m') \<Longrightarrow> m' = m"
  by (induction cs) (auto split: option.splits if_splits)

lemma roam_try_unique:
  assumes "(key, s) \<in> set cs" and "dec (the (s_recv s)) nonce ct = Some pt"
    and "\<forall>x\<in>set cs. x \<noteq> (key, s) \<longrightarrow> dec (the (s_recv (snd x))) nonce ct = None"
    and "\<not> routeClass nets (Some raddr) < routeClass nets (s_addr s)"
  shows "roam_try dec nets m now raddr nonce ct cs = (True, roam_rekey now raddr key s m)"
  using assms(1,3)
proof (induction cs)
  case (Cons x cs)
  obtain k' s' where x: "x = (k', s')" by (cases x)
  show ?case
  proof (cases "x = (key, s)")
    case True
    with assms(2,4) show ?thesis by simp
  next
    case False
    with Cons x show ?thesis by auto
  qed
qed simp

lemma Learn_live_direct:
  assumes "gget (learned m) ip = Some e" "ie_addr e \<noteq> addr"
    and "GetByAddr m (Some (ie_addr e)) = Some s" "owner (s_peerStatic s) = ip"
    and "RouteIsLive m now (Some (ie_addr e))"
    and "\<And>c. GetByAddr m (Some addr) = Some c \<Longrightarrow> Established (Some c) \<Longrightarrow> owner (s_peerStatic c) \<noteq> ip"
  shows "Learn nets owner m now ip addr = m"
proof -
  have est: "Established (Some s)"
    using assms(3,5) by (auto simp: RouteIsLive_def GetByAddr_def Established_def split: option.splits if_splits)
  have cand: "\<not> (Established (GetByAddr m (Some addr)) \<and> owner (s_peerStatic (the (GetByAddr m (Some addr)))) = ip)"
    using assms(6) by (cases "GetByAddr m (Some addr)") (auto simp: Established_def)
  then have "\<not> (Established (GetByAddr m (Some addr)) \<and> s_peerStatic s = s_peerStatic (the (GetByAddr m (Some addr))))"
    using assms(4) by auto
  with assms(1-5) est cand show ?thesis by (auto simp: Learn_def Let_def)
qed

section \<open>Properties\<close>

text \<open>
  C17: A live direct route is never stolen. While the route of an overlay address leads to the
  device that owns it over a proven-live session, any number of its packets arriving from
  endpoints that are not that device (relays, unknown senders) leave the routing state
  unchanged.
\<close>

theorem live_direct_never_stolen:
  assumes "gget (learned m) ip = Some e" and "GetByAddr m (Some (ie_addr e)) = Some s"
    and "owner (s_peerStatic s) = ip"
    and "\<forall>(t, addr) \<in> set arrivals. RouteIsLive m t (Some (ie_addr e)) \<and> addr \<noteq> ie_addr e \<and>
      (\<forall>c. GetByAddr m (Some addr) = Some c \<longrightarrow> Established (Some c) \<longrightarrow> owner (s_peerStatic c) \<noteq> ip)"
  shows "foldl (\<lambda>m (t, addr). Learn nets owner m t ip addr) m arrivals = m"
  using assms(4)
proof (induction arrivals)
  case (Cons x xs)
  obtain t addr where x: "x = (t, addr)" by (cases x)
  have "Learn nets owner m t ip addr = m"
    by (rule Learn_live_direct [where e = e and s = s]) (use assms(1-3) Cons.prems x in auto)
  with Cons x show ?case by simp
qed simp

definition demo_owner :: "node_key \<Rightarrow> string" where
  "demo_owner k = (if k = demo_peer then ''10.0.0.7'' else [])"

abbreviation demo_relay :: udp_addr where "demo_relay \<equiv> udp4 [198, 51, 100, 9] 3006"

theorem live_direct_never_stolen_witness:
  "foldl (\<lambda>m (t, addr). Learn [] demo_owner m t ''10.0.0.7'' addr) demo_mesh
     [(second, demo_relay), (20 * second, demo_lan)] = demo_mesh"
  by (rule live_direct_never_stolen)
    (auto simp: demo_mesh_def demo_session_def demo_owner_def GetByAddr_def RouteIsLive_def routeLiveTimeout_def
      time_sub_def duration_defs)

text \<open>
  Between two sessions of one peer the route moves only up or away from a dead path. If
  the route of an overlay address leads over one established session of a peer and one of its
  packets arrives over another, the route changes exactly if the new path has a higher class
  or the old path is no longer live and the new one is.
\<close>

theorem learn_same_peer:
  assumes "gget (learned m) ip = Some e" "ie_addr e \<noteq> addr" "\<not> isSyntheticRelayAddr (Some addr)"
    and "GetByAddr m (Some (ie_addr e)) = Some s" "Established (Some s)"
    and "GetByAddr m (Some addr) = Some c" "Established (Some c)" "s_peerStatic s = s_peerStatic c"
  shows "Lookup (learned (Learn nets owner m now ip addr)) ip =
    (if routeClass nets (Some (ie_addr e)) < routeClass nets (Some addr) \<or>
        \<not> RouteIsLive m now (Some (ie_addr e)) \<and> RouteIsLive m now (Some addr)
     then Some addr else Some (ie_addr e))"
  using assms by (simp add: Learn_def Let_def Lookup_learn_put)

definition demo_two_routes :: "unit mesh" where
  "demo_two_routes = demo_mesh\<lparr>byAddr := [(demo_wan, demo_session demo_wan), (demo_lan, demo_session demo_lan)]\<rparr>"

theorem learn_same_peer_witness:
  "Lookup (learned (Learn [] demo_owner demo_two_routes second ''10.0.0.7'' demo_lan)) ''10.0.0.7'' = Some demo_lan"
proof -
  have "routeClass [] (Some demo_wan) < routeClass [] (Some demo_lan)"
    by (simp add: routeClass_def routeClass_consts isAttachedLANAddr_def isGlobalIPv6_def)
  then show ?thesis
    using learn_same_peer [where m = demo_two_routes and addr = demo_lan and ip = "''10.0.0.7''" and nets = "[]"
        and owner = demo_owner and now = second and s = "demo_session demo_wan" and c = "demo_session demo_lan"
        and e = "\<lparr>ie_addr = demo_wan, ie_seen = 0\<rparr>"]
    by (simp add: demo_two_routes_def demo_mesh_def demo_session_def GetByAddr_def isSyntheticRelayAddr_def Established_def)
qed

text \<open>
  C23: Roaming is authenticated and never a downgrade of a live path. When \<open>RoamData\<close> moves a
  session to the address a packet came from, the packet decrypts under that session's key,
  and the session's old path was dead or the new address has at least its class; the other
  sessions and the key and replay window of the moved one are unchanged.
\<close>

theorem roam_authenticated:
  assumes "gwf (byAddr m)" and "RoamData dec nets m now raddr body = (True, m')"
  shows "\<exists>key s c pt. gget (byAddr m) key = Some s \<and> s_established s \<and> s_recv s = Some c \<and>
    dec c (be_u64 (take 8 body)) (take (unat (be_u16 (take 2 (drop 8 body)))) (drop 10 body)) = Some pt \<and>
    \<not> (RouteIsLive m now (s_addr s) \<and> routeClass nets (Some raddr) < routeClass nets (s_addr s)) \<and>
    gget (byAddr m') raddr = Some (s\<lparr>s_addr := Some raddr\<rparr>) \<and>
    (\<forall>b. b \<noteq> key \<and> b \<noteq> raddr \<longrightarrow> gget (byAddr m') b = gget (byAddr m) b)"
proof -
  let ?ct = "take (unat (be_u16 (take 2 (drop 8 body)))) (drop 10 body)"
  from assms(2) have "roam_try dec nets m now raddr (be_u64 (take 8 body)) ?ct (roam_candidates m) = (True, m')"
    by (auto simp: RoamData_def Let_def split: if_splits)
  from roam_try_moves [OF this] obtain key s pt where k: "(key, s) \<in> set (roam_candidates m)"
      "dec (the (s_recv s)) (be_u64 (take 8 body)) ?ct = Some pt" "m' = roam_rekey now raddr key s m"
      "\<not> (RouteIsLive m now (s_addr s) \<and> routeClass nets (Some raddr) < routeClass nets (s_addr s))" by blast
  from k(1) have "gget (byAddr m) key = Some s" "s_established s" "s_recv s \<noteq> None"
    using assms(1) by (auto simp: roam_candidates_def set_gget)
  moreover have "gget (byAddr m') b = (if b = raddr then Some (s\<lparr>s_addr := Some raddr\<rparr>)
      else if b = key then None else gget (byAddr m) b)" for b
    by (simp add: k(3) roam_rekey_def gomap_simps)
  ultimately show ?thesis using k(2,4) by fastforce
qed

text \<open>A cipher that accepts every ciphertext starting with the byte 1, for the witnesses.\<close>

definition demo_cipher :: "unit \<Rightarrow> u64 \<Rightarrow> byte list \<Rightarrow> byte list option" where
  "demo_cipher c n ct = (if ct \<noteq> [] \<and> hd ct = 1 then Some (tl ct) else None)"

definition demo_body :: "byte list" where "demo_body = put_u64 5 @ put_u16 2 @ [1, 9]"

lemma demo_body_parse:
  "be_u64 (take 8 demo_body) = 5" "be_u16 (take 2 (drop 8 demo_body)) = 2" "drop 10 demo_body = [1, 9]"
  "length demo_body = 12"
  using be_u64_put [of 5 "[]"] be_u16_put [of 2 "[]"] by (simp_all add: demo_body_def)

lemma demo_roams:
  "RoamData demo_cipher [] demo_mesh second demo_relay demo_body =
     (True, roam_rekey second demo_relay demo_wan (demo_session demo_wan) demo_mesh)"
  by (simp add: RoamData_def demo_body_parse Let_def roam_candidates_def demo_mesh_def demo_session_def
      demo_cipher_def routeClass_def isAttachedLANAddr_def isGlobalIPv6_def)

theorem roam_authenticated_witness:
  "\<exists>key s c pt. gget (byAddr demo_mesh) key = Some s \<and> s_established s \<and> s_recv s = Some c \<and>
     demo_cipher c (be_u64 (take 8 demo_body)) (take (unat (be_u16 (take 2 (drop 8 demo_body)))) (drop 10 demo_body)) = Some pt \<and>
     gget (byAddr (snd (RoamData demo_cipher [] demo_mesh second demo_relay demo_body))) demo_relay =
       Some (s\<lparr>s_addr := Some demo_relay\<rparr>)"
proof -
  have "gwf (byAddr demo_mesh)" by (simp add: demo_mesh_def gwf_def)
  from roam_authenticated [OF this demo_roams] show ?thesis unfolding demo_roams by auto
qed

text \<open>
  C28: A replayed packet moves the session. \<open>RoamData\<close> does not consult the replay window: a
  packet of the peer that this node has already received, sent again from any address whose
  class is not below that of the current path, re-keys the session and every route over it to
  that address, although \<open>recvPacket\<close> then refuses the packet as a replay.
\<close>

theorem replayed_packet_roams:
  assumes "gwf (byAddr m)" "gget (byAddr m) key = Some s"
    and "s_established s" "s_recv s = Some c" "s_addr s = Some key"
    and "\<And>k s' c'. gget (byAddr m) k = Some s' \<Longrightarrow> k \<noteq> key \<Longrightarrow> s_recv s' = Some c' \<Longrightarrow> dec c' nonce ct = None"
    and "routeClass nets (Some key) \<le> routeClass nets (Some raddr)"
    and "dec c nonce ct = Some pt" and "length ct < 2 ^ 16"
    and "\<not> replayCheck s nonce" and "Lookup (learned m) ip = Some key"
  shows "\<exists>m'. RoamData dec nets m now raddr (put_u64 nonce @ put_u16 (of_nat (length ct)) @ ct) = (True, m') \<and>
    Lookup (learned m') ip = Some raddr \<and>
    gget (byAddr m') raddr = Some (s\<lparr>s_addr := Some raddr\<rparr>) \<and>
    \<not> replayCheck (s\<lparr>s_addr := Some raddr\<rparr>) nonce"
proof -
  let ?body = "put_u64 nonce @ put_u16 (of_nat (length ct)) @ ct"
  have len: "unat (of_nat (length ct) :: u16) = length ct"
    using assms(9) by (simp add: unat_of_nat take_bit_eq_mod)
  have p: "be_u64 (take 8 ?body) = nonce" "be_u16 (take 2 (drop 8 ?body)) = of_nat (length ct)"
    "drop 10 ?body = ct" "length ?body = 10 + length ct"
    using be_u64_put [of nonce "[]"] be_u16_put [of "of_nat (length ct)" "[]"] by simp_all
  have "roam_try dec nets m now raddr nonce ct (roam_candidates m) = (True, roam_rekey now raddr key s m)"
  proof (rule roam_try_unique)
    show "(key, s) \<in> set (roam_candidates m)" using assms(1-4) by (simp add: roam_candidates_def set_gget)
    show "\<forall>x\<in>set (roam_candidates m). x \<noteq> (key, s) \<longrightarrow> dec (the (s_recv (snd x))) nonce ct = None"
    proof (intro ballI impI)
      fix x assume x: "x \<in> set (roam_candidates m)" "x \<noteq> (key, s)"
      then obtain c' where "gget (byAddr m) (fst x) = Some (snd x)" and c': "s_recv (snd x) = Some c'"
        using assms(1) by (auto simp: roam_candidates_def set_gget)
      moreover from this x(2) assms(2) have "fst x \<noteq> key" by (cases x) auto
      ultimately show "dec (the (s_recv (snd x))) nonce ct = None" using assms(6) by simp
    qed
  qed (use assms(4,5,7,8) in auto)
  then have roam: "RoamData dec nets m now raddr ?body = (True, roam_rekey now raddr key s m)"
    unfolding RoamData_def Let_def p len by simp
  have "replayCheck (s\<lparr>s_addr := Some raddr\<rparr>) nonce = replayCheck s nonce" by (simp add: replayCheck_def)
  with roam assms(5,10,11) show ?thesis
    by (auto simp: roam_rekey_def gomap_simps Lookup_Remap)
qed

definition demo_seen :: "unit mesh" where
  "demo_seen = demo_mesh\<lparr>byAddr := [(demo_wan, (demo_session demo_wan)\<lparr>recvHighest := 5,
     recvWindow := 1 # replicate 7 0, recvAny := True\<rparr>)]\<rparr>"

theorem replayed_packet_roams_witness:
  "\<exists>m'. RoamData demo_cipher [] demo_seen second demo_relay (put_u64 5 @ put_u16 (of_nat (length [1, 9 :: byte])) @ [1, 9]) = (True, m') \<and>
     Lookup (learned m') ''10.0.0.7'' = Some demo_relay"
proof -
  let ?s = "(demo_session demo_wan)\<lparr>recvHighest := 5, recvWindow := 1 # replicate 7 0, recvAny := True\<rparr>"
  have "\<not> replayCheck ?s 5" by (simp add: replayCheck_def replayWindowBits_def replayWindowWords_def)
  moreover have "routeClass [] (Some demo_wan) \<le> routeClass [] (Some demo_relay)"
    by (simp add: routeClass_def isAttachedLANAddr_def isGlobalIPv6_def)
  ultimately have "\<exists>m'. RoamData demo_cipher [] demo_seen second demo_relay (put_u64 5 @ put_u16 (of_nat (length [1, 9 :: byte])) @ [1, 9]) = (True, m') \<and>
    Lookup (learned m') ''10.0.0.7'' = Some demo_relay \<and>
    gget (byAddr m') demo_relay = Some (?s\<lparr>s_addr := Some demo_relay\<rparr>) \<and>
    \<not> replayCheck (?s\<lparr>s_addr := Some demo_relay\<rparr>) 5"
    by (intro replayed_packet_roams [where key = demo_wan and c = "()" and pt = "[9]"])
      (auto simp: demo_seen_def demo_mesh_def demo_session_def gwf_def demo_cipher_def Lookup_def split: if_splits)
  then show ?thesis by blast
qed

text \<open>
  A relay circuit can become a learned route. \<open>Learn\<close> refuses the synthetic address of a
  circuit, but a handshake completed over the circuit reaches \<open>set_session\<close>, which repoints the
  routes of the peer's other WAN session to the circuit.
\<close>

theorem circuit_becomes_route:
  assumes "gwf (byAddr m)" "s_peerStatic s \<noteq> zero_key"
    and "gget (byAddr m) b = Some old" "b \<noteq> circuit" "s_established old" "s_peerStatic old = s_peerStatic s"
    and "s_addr old = Some b" "Lookup (learned m) ip = Some b"
    and "isSyntheticRelayAddr (Some circuit)" "\<not> live_lan_route nets m now circuit (s_peerStatic s)"
  shows "Learn nets owner m now ip circuit = m \<and>
    Lookup (learned (set_session nets m now circuit s)) ip = Some circuit"
proof
  show "Learn nets owner m now ip circuit = m" using assms(9) by (rule Learn_synthetic)
  show "Lookup (learned (set_session nets m now circuit s)) ip = Some circuit"
    using assms by (subst set_session_learned) auto
qed

abbreviation demo_circuit :: udp_addr where "demo_circuit \<equiv> udp4 [240, 0, 0, 1] 3006"

theorem circuit_becomes_route_witness:
  "Lookup (learned (set_session [] demo_mesh second demo_circuit (demo_session demo_circuit))) ''10.0.0.7'' = Some demo_circuit"
proof -
  have "\<not> live_lan_route [] demo_mesh second demo_circuit (s_peerStatic (demo_session demo_circuit))"
    by (simp add: live_lan_route_def demo_mesh_def demo_session_def isPrivateUDPAddr_def isAttachedLANAddr_def)
  moreover have "demo_peer \<noteq> zero_key" by (simp add: demo_peer_def)
  ultimately have "Learn [] demo_owner demo_mesh second ''10.0.0.7'' demo_circuit = demo_mesh \<and>
      Lookup (learned (set_session [] demo_mesh second demo_circuit (demo_session demo_circuit))) ''10.0.0.7'' = Some demo_circuit"
    by (intro circuit_becomes_route [where b = demo_wan and old = "demo_session demo_wan"])
      (simp_all add: demo_mesh_def demo_session_def gwf_def Lookup_def isSyntheticRelayAddr_def)
  then show ?thesis ..
qed

end
