(* ===== verification/Revocation.thy ===== *)
theory Revocation
  imports Approvals Routing "HOL-Library.Product_Lexorder"
begin

text \<open>
  Revocation of a device, \<open>client/revocation.go\<close>: admin-signed and local revocations, their
  store, the data-plane block list, and the teardown of live sessions.

  \<open>json\<close> is \<open>json.Unmarshal\<close> of a gossiped record; \<open>resolve\<close> is \<open>resolvePeerIP\<close>, the overlay
  address known for a key at the time of the call (empty when there is none). The traffic
  counters that \<open>RevokeByKey\<close> forgets are not modelled.
\<close>

record SignedRevocation =
  sr_Action :: string
  sr_PubKey :: string
  sr_Seq :: int
  sr_Ts :: int
  sr_Sig :: string

definition canonicalRevocation :: "string \<Rightarrow> string \<Rightarrow> int \<Rightarrow> int \<Rightarrow> string" where
  "canonicalRevocation action pubB64 seq ts =
     ''OVLYREVOKE1|'' @ action @ ''|'' @ pubB64 @ ''|'' @ show_int seq @ ''|'' @ show_int ts"

definition verifyRevocation :: "'pk sigscheme \<Rightarrow> 'pk admin_state \<Rightarrow> SignedRevocation \<Rightarrow> node_key option" where
  "verifyRevocation S a rec =
     (if \<not> adminKeySet a then None
      else if sr_Action rec \<noteq> ''revoke'' \<and> sr_Action rec \<noteq> ''restore'' then None
      else case b64_decode (sr_PubKey rec) of
          None \<Rightarrow> None
        | Some raw \<Rightarrow>
            if length raw \<noteq> 32 then None
            else (case b64_decode (sr_Sig rec) of
                None \<Rightarrow> None
              | Some sig \<Rightarrow>
                  if \<not> adminVerify S a (bytes_of (canonicalRevocation (sr_Action rec) (sr_PubKey rec) (sr_Seq rec) (sr_Ts rec))) sig
                  then None else Some raw))"

record storedRev =
  rv_PubKey :: string
  rv_Action :: string
  rv_Seq :: int
  rv_Ts :: int
  rv_Signed :: bool
  rv_Rec :: "SignedRevocation option"

record revStore =
  rv_recs :: "(node_key \<times> storedRev) list"
  rv_path :: string
  rv_file :: "storedRev list option"
  revokedIPSet :: "(string \<times> bool) list"
  revokedIPByKey :: "(node_key \<times> string) list"

definition isRevoked :: "revStore \<Rightarrow> node_key \<Rightarrow> bool" where
  "isRevoked s pub = (case gget (rv_recs s) pub of None \<Rightarrow> False | Some r \<Rightarrow> rv_Action r = ''revoke'')"

definition setKeyRevoked :: "(node_key \<Rightarrow> string) \<Rightarrow> revStore \<Rightarrow> node_key \<Rightarrow> bool \<Rightarrow> revStore" where
  "setKeyRevoked resolve s pub revoked =
     (if revoked then
        (let ip = resolve pub in
         if ip \<noteq> [] then s\<lparr>revokedIPByKey := gput pub ip (revokedIPByKey s), revokedIPSet := gput ip True (revokedIPSet s)\<rparr>
         else s)
      else case gget (revokedIPByKey s) pub of
          None \<Rightarrow> s
        | Some ip \<Rightarrow> s\<lparr>revokedIPSet := gdel ip (revokedIPSet s), revokedIPByKey := gdel pub (revokedIPByKey s)\<rparr>)"

definition isOverlayIPRevoked :: "revStore \<Rightarrow> string \<Rightarrow> bool" where
  "isOverlayIPRevoked s ip =
     (if ip = [] then False else (case gget (revokedIPSet s) ip of None \<Rightarrow> False | Some b \<Rightarrow> b))"

definition rv_save :: "revStore \<Rightarrow> revStore" where
  "rv_save s = (if rv_path s = [] then s else s\<lparr>rv_file := Some (map snd (rv_recs s))\<rparr>)"

definition rv_put ::
  "(node_key \<Rightarrow> string) \<Rightarrow> revStore \<Rightarrow> node_key \<Rightarrow> storedRev \<Rightarrow> (bool \<times> bool) \<times> revStore" where
  "rv_put resolve s pub e =
     (let apply = ((True, rv_Action e = ''revoke''),
        setKeyRevoked resolve (rv_save (s\<lparr>rv_recs := gput pub e (rv_recs s)\<rparr>)) pub (rv_Action e = ''revoke''))
      in case gget (rv_recs s) pub of
          None \<Rightarrow> apply
        | Some cur \<Rightarrow>
            if rv_Signed cur \<and> \<not> rv_Signed e then ((False, rv_Action cur = ''revoke''), s)
            else if rv_Signed cur = rv_Signed e \<and> rv_Seq e \<le> rv_Seq cur then ((False, rv_Action cur = ''revoke''), s)
            else apply)"

definition signed_entry :: "SignedRevocation \<Rightarrow> storedRev" where
  "signed_entry rec = \<lparr>rv_PubKey = sr_PubKey rec, rv_Action = sr_Action rec, rv_Seq = sr_Seq rec, rv_Ts = sr_Ts rec,
     rv_Signed = True, rv_Rec = Some rec\<rparr>"

definition rv_applySigned where
  "rv_applySigned resolve s rec pub = rv_put resolve s pub (signed_entry rec)"

text \<open>\<open>applyLocal\<close>: \<open>nowNano\<close> and \<open>nowSec\<close> are \<open>UnixNano\<close> and \<open>Unix\<close> of the current time.\<close>

definition local_entry :: "node_key \<Rightarrow> string \<Rightarrow> int \<Rightarrow> int \<Rightarrow> storedRev" where
  "local_entry pub action nowNano nowSec = \<lparr>rv_PubKey = b64_encode pub, rv_Action = action, rv_Seq = nowNano,
     rv_Ts = nowSec, rv_Signed = False, rv_Rec = None\<rparr>"

definition rv_applyLocal where
  "rv_applyLocal resolve s pub action nowNano nowSec = rv_put resolve s pub (local_entry pub action nowNano nowSec)"

definition rv_removeLocal :: "(node_key \<Rightarrow> string) \<Rightarrow> revStore \<Rightarrow> node_key \<Rightarrow> bool \<times> revStore" where
  "rv_removeLocal resolve s pub =
     (case gget (rv_recs s) pub of
        None \<Rightarrow> (False, s)
      | Some cur \<Rightarrow>
          if rv_Signed cur then (False, s)
          else (True, setKeyRevoked resolve (rv_save (s\<lparr>rv_recs := gdel pub (rv_recs s)\<rparr>)) pub False))"

fun rv_load_entries :: "'pk sigscheme \<Rightarrow> 'pk admin_state \<Rightarrow> revStore \<Rightarrow> storedRev list \<Rightarrow> revStore" where
  "rv_load_entries S a s [] = s"
| "rv_load_entries S a s (e # es) =
     (let key = (if rv_Signed e then
          (case rv_Rec e of None \<Rightarrow> None | Some rec \<Rightarrow> verifyRevocation S a rec)
        else (case b64_decode (rv_PubKey e) of None \<Rightarrow> None | Some raw \<Rightarrow> if length raw \<noteq> 32 then None else Some raw))
      in case key of
          None \<Rightarrow> rv_load_entries S a s es
        | Some pub \<Rightarrow>
            if (case gget (rv_recs s) pub of
                  None \<Rightarrow> True
                | Some cur \<Rightarrow> (rv_Signed e \<and> \<not> rv_Signed cur) \<or> (rv_Signed e = rv_Signed cur \<and> rv_Seq cur < rv_Seq e))
            then rv_load_entries S a (s\<lparr>rv_recs := gput pub e (rv_recs s)\<rparr>) es
            else rv_load_entries S a s es)"

definition rv_load :: "'pk sigscheme \<Rightarrow> 'pk admin_state \<Rightarrow> string \<Rightarrow> revStore \<Rightarrow> revStore" where
  "rv_load S a path s =
     (let s' = s\<lparr>rv_path := path\<rparr> in
      case rv_file s' of None \<Rightarrow> s' | Some list \<Rightarrow> rv_load_entries S a s' list)"

section \<open>Tearing sessions down\<close>

definition key_addrs :: "'c mesh \<Rightarrow> node_key \<Rightarrow> udp_addr list" where
  "key_addrs m pub = some_addrs (filter (\<lambda>s. s_peerStatic s = pub) (map snd (byAddr m)))"

definition RevokeByKey ::
  "(node_key \<Rightarrow> string) \<Rightarrow> revStore \<Rightarrow> 'c mesh \<Rightarrow> node_key \<Rightarrow> nat \<times> revStore \<times> 'c mesh \<times> udp_addr list" where
  "RevokeByKey resolve s m pub =
     (let lost = key_addrs m pub;
        m1 = m\<lparr>byAddr := gdrop (\<lambda>_ s. s_peerStatic s = pub) (byAddr m)\<rparr>
      in (length lost, setKeyRevoked resolve s pub True,
          m1\<lparr>learned := foldl (\<lambda>t a. ForgetAddr a t) (learned m1) lost\<rparr>,
          if onSessionLost m then lost else []))"

definition handleRevocationGossip ::
  "(byte list \<Rightarrow> SignedRevocation option) \<Rightarrow> 'pk sigscheme \<Rightarrow> 'pk admin_state \<Rightarrow> (node_key \<Rightarrow> string)
   \<Rightarrow> revStore \<times> 'c mesh \<Rightarrow> byte list \<Rightarrow> revStore \<times> 'c mesh" where
  "handleRevocationGossip json S a resolve sm payload =
     (case json payload of
        None \<Rightarrow> sm
      | Some rec \<Rightarrow>
          (case verifyRevocation S a rec of
             None \<Rightarrow> sm
           | Some pub \<Rightarrow>
               (let ((_, nowRevoked), s) = rv_applySigned resolve (fst sm) rec pub in
                if nowRevoked then
                  (let (_, s', m', _) = RevokeByKey resolve s (snd sm) pub in (s', m'))
                else (s, snd sm))))"

section \<open>The store keeps the highest-ranked record\<close>

lemma setKeyRevoked_recs [simp]: "rv_recs (setKeyRevoked resolve s pub r) = rv_recs s"
  by (simp add: setKeyRevoked_def Let_def split: option.splits)

lemma rv_save_frame [simp]:
  "rv_recs (rv_save s) = rv_recs s" "revokedIPSet (rv_save s) = revokedIPSet s"
  "revokedIPByKey (rv_save s) = revokedIPByKey s"
  by (simp_all add: rv_save_def)

interpretation revocation_store: newest_wins
  "\<lambda>s. gget (rv_recs s)" "\<lambda>s k e. snd (rv_put resolve s k e)" "\<lambda>e. (rv_Signed e, rv_Seq e)" for resolve
  by unfold_locales (auto simp: rv_put_def Let_def gomap_simps split: option.splits)

lemma RevokeByKey_recs: "rv_recs (fst (snd (RevokeByKey resolve s m pub))) = rv_recs s"
  by (simp add: RevokeByKey_def Let_def)

lemma gossip_recs:
  "rv_recs (fst (handleRevocationGossip json S a resolve sm p)) =
     (case json p of None \<Rightarrow> rv_recs (fst sm)
      | Some rec \<Rightarrow> (case verifyRevocation S a rec of None \<Rightarrow> rv_recs (fst sm)
          | Some pub \<Rightarrow> rv_recs (snd (rv_put resolve (fst sm) pub (signed_entry rec)))))"
  by (auto simp: handleRevocationGossip_def rv_applySigned_def RevokeByKey_recs case_prod_beta Let_def
      split: option.splits prod.splits)

text \<open>What a node does to its revocations: gossip arrives, the operator kicks or accepts.\<close>

datatype rev_event = Gossiped "byte list" | Kick node_key string int int | Accept node_key

fun rev_step ::
  "(byte list \<Rightarrow> SignedRevocation option) \<Rightarrow> 'pk sigscheme \<Rightarrow> 'pk admin_state \<Rightarrow> (node_key \<Rightarrow> string)
   \<Rightarrow> revStore \<times> 'c mesh \<Rightarrow> rev_event \<Rightarrow> revStore \<times> 'c mesh" where
  "rev_step json S a resolve sm (Gossiped p) = handleRevocationGossip json S a resolve sm p"
| "rev_step json S a resolve sm (Kick k action nano sec) = (snd (rv_applyLocal resolve (fst sm) k action nano sec), snd sm)"
| "rev_step json S a resolve sm (Accept k) = (snd (rv_removeLocal resolve (fst sm) k), snd sm)"

definition from_admin :: "(byte list \<Rightarrow> SignedRevocation option) \<Rightarrow> 'pk sigscheme \<Rightarrow> 'pk admin_state
    \<Rightarrow> rev_event list \<Rightarrow> node_key \<Rightarrow> SignedRevocation \<Rightarrow> bool" where
  "from_admin json S a evs k rec \<longleftrightarrow> (\<exists>p. Gossiped p \<in> set evs \<and> json p = Some rec \<and> verifyRevocation S a rec = Some k)"

definition signed_sound :: "(node_key \<Rightarrow> SignedRevocation \<Rightarrow> bool) \<Rightarrow> revStore \<Rightarrow> bool" where
  "signed_sound ok s \<longleftrightarrow>
     (\<forall>k e. gget (rv_recs s) k = Some e \<longrightarrow> rv_Signed e \<longrightarrow> (\<exists>rec. ok k rec \<and> e = signed_entry rec))"

lemma signed_sound_put:
  assumes "signed_sound ok s" and "rv_Signed e \<Longrightarrow> \<exists>rec. ok k rec \<and> e = signed_entry rec"
  shows "signed_sound ok (snd (rv_put resolve s k e))"
  using assms unfolding signed_sound_def by (auto simp: revocation_store.get_put)

lemma signed_sound_step:
  assumes "signed_sound ok (fst sm)"
    and "\<And>p rec k. ev = Gossiped p \<Longrightarrow> json p = Some rec \<Longrightarrow> verifyRevocation S a rec = Some k \<Longrightarrow> ok k rec"
  shows "signed_sound ok (fst (rev_step json S a resolve sm ev))"
proof (cases ev)
  case (Gossiped p)
  have "signed_sound ok (snd (rv_put resolve (fst sm) pub (signed_entry rec)))"
    if "json p = Some rec" "verifyRevocation S a rec = Some pub" for rec pub
    by (rule signed_sound_put [OF assms(1)]) (use assms(2) Gossiped that in blast)
  with assms(1) Gossiped show ?thesis by (simp add: signed_sound_def gossip_recs split: option.splits)
next
  case (Kick k action nano sec)
  moreover have "signed_sound ok (snd (rv_put resolve (fst sm) k (local_entry k action nano sec)))"
    by (rule signed_sound_put [OF assms(1)]) (simp add: local_entry_def)
  ultimately show ?thesis by (simp add: rv_applyLocal_def)
next
  case (Accept k)
  with assms(1) show ?thesis
    by (auto simp: rv_removeLocal_def signed_sound_def gomap_simps split: option.splits)
qed

lemma signed_sound_run:
  assumes "signed_sound ok (fst sm)"
    and "\<And>p rec k. Gossiped p \<in> set evs \<Longrightarrow> json p = Some rec \<Longrightarrow> verifyRevocation S a rec = Some k \<Longrightarrow> ok k rec"
  shows "signed_sound ok (fst (foldl (rev_step json S a resolve) sm evs))"
  using assms
proof (induction evs arbitrary: sm)
  case (Cons ev evs)
  have "signed_sound ok (fst (rev_step json S a resolve sm ev))"
    by (rule signed_sound_step [OF Cons.prems(1)]) (use Cons.prems(2) in auto)
  then have "signed_sound ok (fst (foldl (rev_step json S a resolve) (rev_step json S a resolve sm ev) evs))"
    by (rule Cons.IH) (use Cons.prems(2) in auto)
  then show ?case by simp
qed simp

lemma step_signed_mono:
  assumes "gget (rv_recs (fst sm)) k = Some e" "rv_Signed e"
  shows "\<exists>d. gget (rv_recs (fst (rev_step json S a resolve sm ev))) k = Some d \<and> rv_Signed d \<and> rv_Seq e \<le> rv_Seq d"
proof (cases ev)
  case (Gossiped p)
  with assms show ?thesis
    by (auto simp: gossip_recs revocation_store.get_put signed_entry_def split: option.splits)
next
  case (Kick j action nano sec)
  with assms show ?thesis by (auto simp: rv_applyLocal_def revocation_store.get_put local_entry_def)
next
  case (Accept j)
  with assms show ?thesis by (auto simp: rv_removeLocal_def gomap_simps split: option.splits)
qed

lemma run_signed_mono:
  assumes "gget (rv_recs (fst sm)) k = Some e" "rv_Signed e"
  shows "\<exists>d. gget (rv_recs (fst (foldl (rev_step json S a resolve) sm evs))) k = Some d \<and> rv_Signed d \<and> rv_Seq e \<le> rv_Seq d"
  using assms
proof (induction evs arbitrary: sm e)
  case (Cons ev evs)
  from step_signed_mono [OF Cons.prems] obtain d where
    "gget (rv_recs (fst (rev_step json S a resolve sm ev))) k = Some d" "rv_Signed d" "rv_Seq e \<le> rv_Seq d" by blast
  with Cons.IH show ?case by fastforce
qed auto

lemma gossip_applied:
  assumes "json p = Some rec" "verifyRevocation S a rec = Some k"
  shows "\<exists>d. gget (rv_recs (fst (handleRevocationGossip json S a resolve sm p))) k = Some d \<and> rv_Signed d \<and> sr_Seq rec \<le> rv_Seq d"
  using assms
  by (cases "gget (rv_recs (fst sm)) k") (auto simp: gossip_recs revocation_store.get_put signed_entry_def)

lemma put_nowRevoked: "snd (fst (rv_put resolve s k e)) = isRevoked (snd (rv_put resolve s k e)) k"
  by (auto simp: rv_put_def isRevoked_def Let_def gomap_simps split: option.splits)

lemma forget_all: "set (foldl (\<lambda>t a. ForgetAddr a t) t ls) = {(ip, e) \<in> set t. ie_addr e \<notin> set ls}"
  by (induction ls arbitrary: t) (auto simp: ForgetAddr_set)

lemma RevokeByKey_mesh:
  assumes "gwf (byAddr m)" and "m' = fst (snd (snd (RevokeByKey resolve s m pub)))"
  shows "gget (byAddr m') a = Some c \<Longrightarrow> s_peerStatic c \<noteq> pub"
    and "gget (byAddr m) a = Some c \<Longrightarrow> s_peerStatic c = pub \<Longrightarrow> s_addr c = Some b \<Longrightarrow> Lookup (learned m') ip \<noteq> Some b"
proof -
  show "gget (byAddr m') a = Some c \<Longrightarrow> s_peerStatic c \<noteq> pub"
    using assms by (auto simp: RevokeByKey_def Let_def gomap_simps split: option.splits if_splits)
  show "Lookup (learned m') ip \<noteq> Some b"
    if "gget (byAddr m) a = Some c" "s_peerStatic c = pub" "s_addr c = Some b"
  proof
    assume "Lookup (learned m') ip = Some b"
    then obtain e where "(ip, e) \<in> set (learned m')" "ie_addr e = b" by (auto dest: Lookup_SomeD)
    moreover have "b \<in> set (key_addrs m pub)"
      using that by (force simp: key_addrs_def in_some_addrs dest: map_of_SomeD)
    ultimately show False using assms(2) by (auto simp: RevokeByKey_def Let_def forget_all)
  qed
qed

lemma verifyRevocation_action:
  "verifyRevocation S a rec = Some k \<Longrightarrow> sr_Action rec = ''revoke'' \<or> sr_Action rec = ''restore''"
  by (auto simp: verifyRevocation_def split: if_splits)

section \<open>Properties\<close>

text \<open>
  C14: A signed revocation sticks. Whatever gossip arrives (forged frames included) and
  whatever local kicks and accepts the operator issues, before or after, a device for which a
  verified revocation was received is revoked at the end, as long as every verified
  restoration received for it carries a lower sequence number.
\<close>

theorem signed_revocation_sticks:
  assumes "rv_recs (fst sm) = []"
    and "from_admin json S a evs k rec" "sr_Action rec = ''revoke''"
    and "\<And>rec'. from_admin json S a evs k rec' \<Longrightarrow> sr_Action rec' = ''restore'' \<Longrightarrow> sr_Seq rec' < sr_Seq rec"
  shows "isRevoked (fst (foldl (rev_step json S a resolve) sm evs)) k"
proof -
  let ?fin = "fst (foldl (rev_step json S a resolve) sm evs)"
  from assms(2) obtain p where p: "Gossiped p \<in> set evs" "json p = Some rec" "verifyRevocation S a rec = Some k"
    by (auto simp: from_admin_def)
  then obtain us vs where evs: "evs = us @ Gossiped p # vs" by (meson split_list)
  let ?mid = "foldl (rev_step json S a resolve) sm us"
  from gossip_applied [where json = json, OF p(2,3), of resolve ?mid] obtain d where
    "gget (rv_recs (fst (rev_step json S a resolve ?mid (Gossiped p)))) k = Some d" "rv_Signed d" "sr_Seq rec \<le> rv_Seq d"
    by auto
  with run_signed_mono [OF this(1,2), of json S a resolve vs] obtain e where
    e: "gget (rv_recs ?fin) k = Some e" "rv_Signed e" "sr_Seq rec \<le> rv_Seq e" by (fastforce simp: evs)
  have "signed_sound (from_admin json S a evs) ?fin"
    by (rule signed_sound_run) (use assms(1) in \<open>auto simp: signed_sound_def from_admin_def\<close>)
  with e obtain rec' where r: "from_admin json S a evs k rec'" "e = signed_entry rec'"
    by (auto simp: signed_sound_def)
  then have "sr_Action rec' \<noteq> ''restore''" using assms(4) [OF r(1)] e(3) by (force simp: signed_entry_def)
  with r have "rv_Action e = ''revoke''"
    by (auto simp: from_admin_def signed_entry_def dest: verifyRevocation_action)
  with e(1) show ?thesis by (simp add: isRevoked_def)
qed

definition demo_rev :: "string \<Rightarrow> int \<Rightarrow> SignedRevocation" where
  "demo_rev action seq = \<lparr>sr_Action = action, sr_PubKey = b64_encode demo_peer, sr_Seq = seq, sr_Ts = 0,
     sr_Sig = b64_encode ([1, 2, 3] @ bytes_of (canonicalRevocation action (b64_encode demo_peer) seq 0))\<rparr>"

definition demo_rev_json :: "byte list \<Rightarrow> SignedRevocation option" where
  "demo_rev_json p = (if p = [1] then Some (demo_rev ''revoke'' 5) else if p = [2] then Some (demo_rev ''restore'' 3) else None)"

definition empty_revs :: revStore where
  "empty_revs = \<lparr>rv_recs = [], rv_path = [], rv_file = None, revokedIPSet = [], revokedIPByKey = []\<rparr>"

lemma demo_rev_verifies:
  "action = ''revoke'' \<or> action = ''restore'' \<Longrightarrow> verifyRevocation demo_scheme demo_trusted (demo_rev action seq) = Some demo_peer"
  by (auto simp: verifyRevocation_def demo_rev_def demo_trusted_def adminKeySet_def b64_decode_encode
      demo_peer_def adminVerify_def demo_scheme_def)

theorem signed_revocation_sticks_witness:
  "isRevoked (fst (foldl (rev_step demo_rev_json demo_scheme demo_trusted demo_owner) (empty_revs, demo_mesh)
     [Gossiped [1], Accept demo_peer, Kick demo_peer ''restore'' 99 0, Gossiped [2]])) demo_peer"
proof (rule signed_revocation_sticks)
  show "from_admin demo_rev_json demo_scheme demo_trusted
      [Gossiped [1], Accept demo_peer, Kick demo_peer ''restore'' 99 0, Gossiped [2]] demo_peer (demo_rev ''revoke'' 5)"
    unfolding from_admin_def by (rule exI [of _ "[1]"]) (simp add: demo_rev_json_def demo_rev_verifies)
qed (auto simp: empty_revs_def demo_rev_def from_admin_def demo_rev_json_def split: if_splits)

text \<open>
  C32: A revocation cuts the device off. Once a verified record leaves the device revoked, the
  node has no session with its key, no overlay route leads to the address of a session it had
  with that key, and its known overlay address is blocked at the data plane.
\<close>

theorem revocation_cuts_off:
  assumes "gwf (byAddr m)" and "json p = Some rec" "verifyRevocation S a rec = Some k"
    and "(s', m') = handleRevocationGossip json S a resolve (s, m) p" and "isRevoked s' k"
  shows "(\<forall>b c. gget (byAddr m') b = Some c \<longrightarrow> s_peerStatic c \<noteq> k) \<and>
    (\<forall>b c u ip. gget (byAddr m) b = Some c \<longrightarrow> s_peerStatic c = k \<longrightarrow> s_addr c = Some u \<longrightarrow> Lookup (learned m') ip \<noteq> Some u) \<and>
    (resolve k \<noteq> [] \<longrightarrow> isOverlayIPRevoked s' (resolve k))"
proof -
  let ?put = "rv_put resolve s k (signed_entry rec)"
  have recs: "rv_recs s' = rv_recs (snd ?put)"
    using gossip_recs [of json S a resolve "(s, m)" p] assms(2-4) by (metis fst_conv option.simps(5))
  then have now: "snd (fst ?put)" using assms(5) by (simp add: put_nowRevoked isRevoked_def)
  with assms(2-4) have m': "m' = fst (snd (snd (RevokeByKey resolve (snd ?put) m k)))"
    and s': "s' = fst (snd (RevokeByKey resolve (snd ?put) m k))"
    by (auto simp: handleRevocationGossip_def rv_applySigned_def case_prod_beta Let_def)
  show ?thesis
    using RevokeByKey_mesh [OF assms(1) m'] s'
    by (auto simp: RevokeByKey_def setKeyRevoked_def isOverlayIPRevoked_def gomap_simps Let_def)
qed

theorem revocation_cuts_off_witness:
  "gget (byAddr (snd (handleRevocationGossip demo_rev_json demo_scheme demo_trusted demo_owner (empty_revs, demo_mesh) [1]))) demo_wan \<noteq>
     Some (demo_session demo_wan) \<and>
   isOverlayIPRevoked (fst (handleRevocationGossip demo_rev_json demo_scheme demo_trusted demo_owner (empty_revs, demo_mesh) [1])) ''10.0.0.7''"
proof -
  let ?sm = "handleRevocationGossip demo_rev_json demo_scheme demo_trusted demo_owner (empty_revs, demo_mesh) [1]"
  have j: "demo_rev_json [1] = Some (demo_rev ''revoke'' 5)" by (simp add: demo_rev_json_def)
  have wf: "gwf (byAddr demo_mesh)" by (simp add: demo_mesh_def gwf_def)
  have v: "verifyRevocation demo_scheme demo_trusted (demo_rev ''revoke'' 5) = Some demo_peer"
    by (simp add: demo_rev_verifies)
  have r: "isRevoked (fst ?sm) demo_peer"
    using gossip_recs [of demo_rev_json demo_scheme demo_trusted demo_owner "(empty_revs, demo_mesh)" "[1]"] j v
    by (simp add: isRevoked_def rv_put_def empty_revs_def signed_entry_def demo_rev_def)
  have "(fst ?sm, snd ?sm) = ?sm" by simp
  note cut = revocation_cuts_off [OF wf j v this r]
  have "s_peerStatic (demo_session demo_wan) = demo_peer" by (simp add: demo_session_def)
  with cut have "gget (byAddr (snd ?sm)) demo_wan \<noteq> Some (demo_session demo_wan)" by blast
  with cut show ?thesis by (simp add: demo_owner_def)
qed

text \<open>
  Restoring a device can leave its former address blocked. If the overlay address known
  for a key changes between two verified revocations of it, the later restoration unblocks
  only the second address: the first stays blocked although no revoked key has it.
\<close>

theorem restore_leaves_stale_block:
  assumes "gget (rv_recs s) k = None" and "r1 k = ip1" "r2 k = ip2" "ip1 \<noteq> []" "ip2 \<noteq> []" "ip1 \<noteq> ip2"
    and "sr_Action a = ''revoke''" "sr_Action b = ''revoke''" "sr_Action c = ''restore''"
    and "sr_Seq a < sr_Seq b" "sr_Seq b < sr_Seq c"
  shows "let s1 = snd (rv_applySigned r1 s a k); s2 = snd (rv_applySigned r2 s1 b k); s3 = snd (rv_applySigned r2 s2 c k)
    in \<not> isRevoked s3 k \<and> \<not> isOverlayIPRevoked s3 ip2 \<and> isOverlayIPRevoked s3 ip1"
  using assms
  by (simp add: rv_applySigned_def rv_put_def signed_entry_def setKeyRevoked_def gomap_simps isRevoked_def
      isOverlayIPRevoked_def Let_def)

theorem restore_leaves_stale_block_witness:
  "let s1 = snd (rv_applySigned (\<lambda>_. ''10.0.0.7'') empty_revs (demo_rev ''revoke'' 1) demo_peer);
       s2 = snd (rv_applySigned (\<lambda>_. ''10.0.0.8'') s1 (demo_rev ''revoke'' 2) demo_peer);
       s3 = snd (rv_applySigned (\<lambda>_. ''10.0.0.8'') s2 (demo_rev ''restore'' 3) demo_peer)
   in \<not> isRevoked s3 demo_peer \<and> \<not> isOverlayIPRevoked s3 ''10.0.0.8'' \<and> isOverlayIPRevoked s3 ''10.0.0.7''"
  by (rule restore_leaves_stale_block) (simp_all add: empty_revs_def demo_rev_def)

end
