(* ===== verification/IP_Binding.thy ===== *)
theory IP_Binding
  imports Roster Revocation
begin

text \<open>
  Which key may use which overlay address, \<open>client/ipbinding.go\<close>: claim strengths, incumbency
  (first come, first held), the verdict cache of the packet path, and the resolution of the
  owner of an address.

  The other parts of the node that the decisions read are the record \<open>bind_env\<close>: overlay
  network, mode, provisions, revocations, announced addresses, a roster snapshot, the node's own
  address, and the keys of its sessions. \<open>sha\<close> is SHA-256, \<open>ip6\<close> as in \<open>IPv4_Text\<close>. The decisions
  compute the set of derived addresses directly; \<open>derivedSet\<close> is the memo table the code keeps
  for it, shown to be transparent.
\<close>

definition ipBindingMaxSalt :: nat where "ipBindingMaxSalt = 128"
definition ipBindingVerdictTTL :: duration where "ipBindingVerdictTTL = 5 * second"
definition ipBindingIdleTTL :: duration where "ipBindingIdleTTL = 24 * hour"
definition ipBindingMaxDerived :: nat where "ipBindingMaxDerived = 4096"
definition ipBindingMaxVerdicts :: nat where "ipBindingMaxVerdicts = 16384"
definition ipBindingMaxBindings :: nat where "ipBindingMaxBindings = 4096"
definition ipBindingRejectLogGap :: duration where "ipBindingRejectLogGap = minute"

text \<open>\<open>strings.EqualFold\<close>, on ASCII text. True is strict mode.\<close>

definition parseIPBindingMode :: "string \<Rightarrow> bool" where
  "parseIPBindingMode v \<longleftrightarrow> to_lower (trim_space v) = ''strict''"

definition claimPinned :: nat where "claimPinned = 1"
definition claimHopped :: nat where "claimHopped = 2"
definition claimPrimary :: nat where "claimPrimary = 3"

lemmas claim_defs = claimPinned_def claimHopped_def claimPrimary_def

section \<open>State\<close>

datatype verdictKey = VerdictKey (vk_pub: node_key) (vk_ip: string) (vk_bind: bool)

record verdict =
  vd_ok :: bool
  vd_exp :: go_time

record tofuBinding =
  tb_pub :: node_key
  tb_seen :: go_time
  tb_strength :: nat

record ipBindingTable =
  bt_derived :: "((string \<times> node_key) \<times> (string \<times> nat) list) list"
  bt_verdicts :: "(verdictKey \<times> verdict) list"
  bt_tofu :: "(string \<times> tofuBinding) list"
  bt_lastLog :: "(verdictKey \<times> go_time) list"

definition newIPBindingTable :: ipBindingTable where
  "newIPBindingTable = \<lparr>bt_derived = [], bt_verdicts = [], bt_tofu = [], bt_lastLog = []\<rparr>"

record bind_env =
  be_cidr :: string
  be_net :: "(byte list \<times> nat) option"
  be_strict :: bool
  be_ones :: nat
  be_prov :: "provStore option"
  be_rev :: "revStore option"
  be_peerIPs :: "(node_key \<times> string) list"
  be_roster :: "rosterView list"
  be_self :: string
  be_live :: "node_key \<Rightarrow> bool"
  be_sessions :: "node_key list"

section \<open>Derived addresses and strengths\<close>

fun salt_map :: "(nat \<Rightarrow> string option) \<Rightarrow> nat list \<Rightarrow> (string \<times> nat) list \<Rightarrow> (string \<times> nat) list" where
  "salt_map f [] acc = acc"
| "salt_map f (salt # rest) acc =
     (case f salt of
        None \<Rightarrow> acc
      | Some a \<Rightarrow> salt_map f rest (if gget acc (stripMask a) = None then gput (stripMask a) salt acc else acc))"

definition derived_salts :: "(byte list \<Rightarrow> byte list) \<Rightarrow> string \<Rightarrow> node_key \<Rightarrow> (string \<times> nat) list" where
  "derived_salts sha cidr pub = salt_map (deriveOverlayIPSalted sha cidr pub) [0..<Suc ipBindingMaxSalt] []"

definition derivedSet :: "(byte list \<Rightarrow> byte list) \<Rightarrow> ipBindingTable \<Rightarrow> string \<Rightarrow> node_key \<Rightarrow> (string \<times> nat) list \<times> ipBindingTable" where
  "derivedSet sha t cidr pub =
     (case gget (bt_derived t) (cidr, pub) of
        Some ds \<Rightarrow> (ds, t)
      | None \<Rightarrow>
          let ds = derived_salts sha cidr pub;
              m = (if ipBindingMaxDerived \<le> length (bt_derived t) then [] else bt_derived t)
          in (ds, t\<lparr>bt_derived := gput (cidr, pub) ds m\<rparr>))"

definition strength_in :: "(string \<times> nat) list \<Rightarrow> string \<Rightarrow> nat" where
  "strength_in ds ip =
     (case gget ds ip of None \<Rightarrow> claimPinned | Some salt \<Rightarrow> if salt = 0 then claimPrimary else claimHopped)"

definition strength :: "(byte list \<Rightarrow> byte list) \<Rightarrow> bind_env \<Rightarrow> node_key \<Rightarrow> string \<Rightarrow> nat" where
  "strength sha E pub ip =
     (if be_cidr E = [] then claimPinned else strength_in (derived_salts sha (be_cidr E) pub) ip)"

definition derives :: "(byte list \<Rightarrow> byte list) \<Rightarrow> string \<Rightarrow> node_key \<Rightarrow> string \<Rightarrow> bool" where
  "derives sha cidr pub ip = (if cidr = [] then False else gget (derived_salts sha cidr pub) ip \<noteq> None)"

section \<open>What the environment says\<close>

definition env_revoked :: "bind_env \<Rightarrow> node_key \<Rightarrow> bool" where
  "env_revoked E pub = (case be_rev E of None \<Rightarrow> False | Some s \<Rightarrow> isRevoked s pub)"

definition owner_scan :: "bind_env \<Rightarrow> string \<Rightarrow> node_key list \<times> int \<Rightarrow> SignedProvision \<Rightarrow> node_key list \<times> int" where
  "owner_scan E ip acc rec =
     (if sp_Address rec = [] \<or> stripMask (normalizeOverlayAddr (be_ones E) (sp_Address rec)) \<noteq> ip then acc
      else case b64_decode (sp_PubKey rec) of
          None \<Rightarrow> acc
        | Some raw \<Rightarrow>
            if length raw \<noteq> 32 \<or> env_revoked E raw then acc
            else if fst acc = [] \<or> snd acc < sp_Seq rec then ([raw], sp_Seq rec)
            else if sp_Seq rec = snd acc then (fst acc @ [raw], snd acc)
            else acc)"

definition provisionedOwners :: "bind_env \<Rightarrow> string \<Rightarrow> node_key list" where
  "provisionedOwners E ip =
     (case be_prov E of
        None \<Rightarrow> []
      | Some s \<Rightarrow> fst (foldl (owner_scan E ip) ([], 0) (map snd (pv_recs s))))"

definition inOverlaySubnet :: "(string \<Rightarrow> byte list option) \<Rightarrow> bind_env \<Rightarrow> string \<Rightarrow> bool" where
  "inOverlaySubnet ip6 E ip =
     (case (case be_net E of Some n \<Rightarrow> Some n | None \<Rightarrow> if be_cidr E = [] then None else parse_cidr (be_cidr E)) of
        None \<Rightarrow> False
      | Some n \<Rightarrow> (case parseIP ip6 ip of None \<Rightarrow> False | Some b \<Rightarrow> net_contains n b))"

definition provisioned :: "bind_env \<Rightarrow> node_key \<Rightarrow> string \<Rightarrow> bool \<times> bool" where
  "provisioned E pub ip =
     (let owners = provisionedOwners E ip in if owners = [] then (False, False) else (pub \<in> set owners, True))"

definition roster_keys :: "bind_env \<Rightarrow> string \<Rightarrow> node_key list" where
  "roster_keys E ip = concat (map (\<lambda>v. let e = rv_entry v in
     if ro_IP e \<noteq> ip \<or> ro_PK e = [] then []
     else case b64_decode (ro_PK e) of None \<Rightarrow> [] | Some raw \<Rightarrow> if length raw = 32 then [raw] else []) (be_roster E))"

definition knownKeysClaiming :: "bind_env \<Rightarrow> string \<Rightarrow> node_key list" where
  "knownKeysClaiming E ip = map fst (filter (\<lambda>(k, v). v = ip) (be_peerIPs E)) @ roster_keys E ip"

definition peerOverlayIPByPub :: "bind_env \<Rightarrow> node_key \<Rightarrow> string" where
  "peerOverlayIPByPub E pub = (case gget (be_peerIPs E) pub of None \<Rightarrow> [] | Some ip \<Rightarrow> ip)"

definition claimsAddress :: "bind_env \<Rightarrow> node_key \<Rightarrow> string \<Rightarrow> bool" where
  "claimsAddress E pub ip \<longleftrightarrow> peerOverlayIPByPub E pub = ip \<or> pub \<in> set (roster_keys E ip)"

section \<open>Ownership\<close>

definition dropVerdicts :: "string list \<Rightarrow> ipBindingTable \<Rightarrow> ipBindingTable" where
  "dropVerdicts ips t = t\<lparr>bt_verdicts := gdrop (\<lambda>k v. vk_ip k \<in> set ips) (bt_verdicts t)\<rparr>"

definition releaseOthers :: "node_key \<Rightarrow> string \<Rightarrow> ipBindingTable \<Rightarrow> ipBindingTable" where
  "releaseOthers pub ip t =
     (let gone = (\<lambda>other ob. tb_pub ob = pub \<and> other \<noteq> ip);
          released = map fst (filter (\<lambda>(k, v). gone k v) (bt_tofu t));
          t1 = t\<lparr>bt_tofu := gdrop gone (bt_tofu t)\<rparr>
      in if released \<noteq> [] then dropVerdicts released t1 else t1)"

text \<open>The address is nobody's: what a claim to it gets.\<close>

definition owns_free :: "bind_env \<Rightarrow> ipBindingTable \<Rightarrow> node_key \<Rightarrow> string \<Rightarrow> bool \<Rightarrow> go_time \<Rightarrow> nat \<Rightarrow> bool \<times> ipBindingTable" where
  "owns_free E t pub ip bind now str =
     (if \<not> bind then (str = claimPrimary \<and> claimsAddress E pub ip, t)
      else
        let m = (if ipBindingMaxBindings \<le> length (bt_tofu t)
                 then gdrop (\<lambda>k v. ipBindingIdleTTL < time_sub now (tb_seen v)) (bt_tofu t) else bt_tofu t)
        in if ipBindingMaxBindings \<le> length m then (False, t\<lparr>bt_tofu := m\<rparr>)
           else
             let released = ip # map fst (filter (\<lambda>(k, v). tb_pub v = pub) m);
                 m' = gput ip \<lparr>tb_pub = pub, tb_seen = now, tb_strength = str\<rparr> (gdrop (\<lambda>k v. tb_pub v = pub) m)
             in (True, dropVerdicts released (t\<lparr>bt_tofu := m'\<rparr>)))"

definition owns_tofu :: "bind_env \<Rightarrow> ipBindingTable \<Rightarrow> node_key \<Rightarrow> string \<Rightarrow> bool \<Rightarrow> go_time \<Rightarrow> nat \<Rightarrow> bool \<times> ipBindingTable" where
  "owns_tofu E t pub ip bind now str =
     (case gget (bt_tofu t) ip of
        None \<Rightarrow> owns_free E t pub ip bind now str
      | Some b \<Rightarrow>
          let freed = t\<lparr>bt_tofu := gdel ip (bt_tofu t)\<rparr> in
          if tb_pub b \<noteq> pub then
            if ipBindingIdleTTL < time_sub now (tb_seen b) \<or> env_revoked E (tb_pub b)
            then owns_free E freed pub ip bind now str
            else if tb_strength b < str then
              (if \<not> bind then (claimsAddress E pub ip, t) else owns_free E freed pub ip bind now str)
            else (False, t)
          else if \<not> bind then (True, t)
          else (True, t\<lparr>bt_tofu := gput ip (b\<lparr>tb_strength := max (tb_strength b) str, tb_seen := now\<rparr>) (bt_tofu t)\<rparr>))"

definition owns ::
  "(byte list \<Rightarrow> byte list) \<Rightarrow> (string \<Rightarrow> byte list option) \<Rightarrow> bind_env \<Rightarrow> ipBindingTable \<Rightarrow> node_key \<Rightarrow> string \<Rightarrow> bool \<Rightarrow> go_time
   \<Rightarrow> bool \<times> ipBindingTable" where
  "owns sha ip6 E t pub ip bind now =
     (if pub = zero_key \<or> \<not> inOverlaySubnet ip6 E ip then (False, t)
      else if env_revoked E pub then (False, t)
      else
        let (owner, decided) = provisioned E pub ip in
        if decided then (owner, if owner \<and> bind then releaseOthers pub ip t else t)
        else
          let str = strength sha E pub ip in
          if str = claimPinned \<and> be_strict E then (False, t)
          else if str < claimPrimary \<and>
            list_ex (\<lambda>k. k \<noteq> pub \<and> strength sha E k ip = claimPrimary) (knownKeysClaiming E ip) then (False, t)
          else if ip = be_self E then (str = claimPrimary, t)
          else owns_tofu E t pub ip bind now str)"

definition noteRejected :: "node_key \<Rightarrow> string \<Rightarrow> go_time \<Rightarrow> ipBindingTable \<Rightarrow> ipBindingTable" where
  "noteRejected pub ip now t =
     (let k = VerdictKey pub ip False in
      if (case gget (bt_lastLog t) k of None \<Rightarrow> False | Some prev \<Rightarrow> time_sub now prev < ipBindingRejectLogGap) then t
      else t\<lparr>bt_lastLog := gput k now (if 4096 < length (bt_lastLog t) then [] else bt_lastLog t)\<rparr>)"

definition cached :: "ipBindingTable \<Rightarrow> verdictKey \<Rightarrow> go_time \<Rightarrow> bool option" where
  "cached t k now =
     (case gget (bt_verdicts t) k of None \<Rightarrow> None | Some v \<Rightarrow> if now < vd_exp v then Some (vd_ok v) else None)"

definition cache_verdict :: "verdictKey \<Rightarrow> bool \<Rightarrow> go_time \<Rightarrow> ipBindingTable \<Rightarrow> ipBindingTable" where
  "cache_verdict k res now t =
     (let m = (if ipBindingMaxVerdicts \<le> length (bt_verdicts t) then [] else bt_verdicts t)
      in t\<lparr>bt_verdicts := gput k \<lparr>vd_ok = res, vd_exp = now + ipBindingVerdictTTL\<rparr> m\<rparr>)"

definition OwnedBy ::
  "(byte list \<Rightarrow> byte list) \<Rightarrow> (string \<Rightarrow> byte list option) \<Rightarrow> bind_env \<Rightarrow> ipBindingTable \<Rightarrow> node_key \<Rightarrow> string \<Rightarrow> bool \<Rightarrow> go_time
   \<Rightarrow> bool \<times> ipBindingTable" where
  "OwnedBy sha ip6 E t pub ip bind now =
     (case cached t (VerdictKey pub ip bind) now of
        Some ok \<Rightarrow> (ok, t)
      | None \<Rightarrow>
          let (res, t1) = owns sha ip6 E t pub ip bind now;
              t2 = cache_verdict (VerdictKey pub ip bind) res now t1
          in (res, if \<not> res \<and> bind then noteRejected pub ip now t2 else t2))"

definition IsNodeAt ::
  "(byte list \<Rightarrow> byte list) \<Rightarrow> (string \<Rightarrow> byte list option) \<Rightarrow> bind_env \<Rightarrow> ipBindingTable \<Rightarrow> node_key \<Rightarrow> string \<Rightarrow> go_time
   \<Rightarrow> bool \<times> ipBindingTable" where
  "IsNodeAt sha ip6 E t pub ip now =
     (if peerOverlayIPByPub E pub = ip then OwnedBy sha ip6 E t pub ip False now else (False, t))"

definition bt_Forget :: "node_key \<Rightarrow> ipBindingTable \<Rightarrow> ipBindingTable" where
  "bt_Forget pub t =
     (let released = map fst (filter (\<lambda>(k, v). tb_pub v = pub) (bt_tofu t))
      in t\<lparr>bt_tofu := gdrop (\<lambda>k v. tb_pub v = pub) (bt_tofu t),
           bt_verdicts := gdrop (\<lambda>k v. vk_pub k = pub \<or> vk_ip k \<in> set released) (bt_verdicts t)\<rparr>)"

section \<open>The owner of an address\<close>

fun best_owner ::
  "(byte list \<Rightarrow> byte list) \<Rightarrow> (string \<Rightarrow> byte list option) \<Rightarrow> bind_env \<Rightarrow> string \<Rightarrow> go_time \<Rightarrow> node_key list
   \<Rightarrow> node_key \<times> nat \<Rightarrow> ipBindingTable \<Rightarrow> (node_key \<times> nat) \<times> ipBindingTable" where
  "best_owner sha ip6 E ip now [] best t = (best, t)"
| "best_owner sha ip6 E ip now (c # cs) best t =
     (let (ok, t1) = OwnedBy sha ip6 E t c ip False now; st = strength sha E c ip
      in best_owner sha ip6 E ip now cs (if ok \<and> snd best < st then (c, st) else best) t1)"

definition OwnerOf ::
  "(byte list \<Rightarrow> byte list) \<Rightarrow> (string \<Rightarrow> byte list option) \<Rightarrow> bind_env \<Rightarrow> ipBindingTable \<Rightarrow> string \<Rightarrow> go_time
   \<Rightarrow> node_key option \<times> ipBindingTable" where
  "OwnerOf sha ip6 E t ip now =
     (let owners = provisionedOwners E ip in
      if owners \<noteq> [] then
        (case find (be_live E) owners of Some k \<Rightarrow> (Some k, t) | None \<Rightarrow> (Some (hd owners), t))
      else
        let cands = filter (\<lambda>k. peerOverlayIPByPub E k = ip) (be_sessions E) @ knownKeysClaiming E ip;
            ((best, bestStr), t1) = best_owner sha ip6 E ip now cands (zero_key, 0) t
        in if 0 < bestStr then (Some best, t1)
           else if length (remdups cands) = 1 \<and> \<not> be_strict E \<and> gget (bt_tofu t1) ip = None \<and> \<not> env_revoked E (hd cands) \<and>
             (case provisioned E (hd cands) ip of (owner, decided) \<Rightarrow> \<not> decided \<or> owner)
           then (Some (hd cands), t1)
           else (None, t1))"

definition sourceAllowedFrom ::
  "(byte list \<Rightarrow> byte list) \<Rightarrow> (string \<Rightarrow> byte list option) \<Rightarrow> bind_env \<Rightarrow> ipBindingTable \<Rightarrow> bool \<Rightarrow> (node_key \<Rightarrow> bool)
   \<Rightarrow> node_key \<Rightarrow> string \<Rightarrow> go_time \<Rightarrow> bool \<times> ipBindingTable" where
  "sourceAllowedFrom sha ip6 E t usingExit isKnownExit pub src now =
     (if src = [] then (False, t)
      else if inOverlaySubnet ip6 E src then OwnedBy sha ip6 E t pub src True now
      else (usingExit \<and> isKnownExit pub, t))"

section \<open>Runs\<close>

text \<open>The packet path asks \<open>OwnedBy\<close>, each time in the environment of that moment, and a key may be
  forgotten in between; the answers are collected with the questions.\<close>

datatype bind_event =
    Ask (ev_env: bind_env) (ev_pub: node_key) (ev_ip: string) (ev_bind: bool) (ev_now: go_time)
  | ForgetKey node_key

fun bind_step ::
  "(byte list \<Rightarrow> byte list) \<Rightarrow> (string \<Rightarrow> byte list option) \<Rightarrow> bind_event \<Rightarrow> ipBindingTable \<Rightarrow> bool \<times> ipBindingTable" where
  "bind_step sha ip6 (Ask E pub ip bind now) t = OwnedBy sha ip6 E t pub ip bind now"
| "bind_step sha ip6 (ForgetKey pub) t = (False, bt_Forget pub t)"

section \<open>The memo table is transparent\<close>

definition memo_ok :: "(byte list \<Rightarrow> byte list) \<Rightarrow> ipBindingTable \<Rightarrow> bool" where
  "memo_ok sha t \<longleftrightarrow> (\<forall>c p ds. gget (bt_derived t) (c, p) = Some ds \<longrightarrow> ds = derived_salts sha c p) \<and>
     length (bt_derived t) \<le> ipBindingMaxDerived"

lemma memo_ok_new: "memo_ok sha newIPBindingTable"
  by (simp add: memo_ok_def newIPBindingTable_def)

definition memo_step :: "(byte list \<Rightarrow> byte list) \<Rightarrow> string \<times> node_key \<Rightarrow> ipBindingTable \<Rightarrow> (string \<times> nat) list \<times> ipBindingTable" where
  "memo_step sha q t = derivedSet sha t (fst q) (snd q)"

interpretation memo: step_invariant "memo_step sha" "\<lambda>q. True" "memo_ok sha" "\<lambda>q r. r = derived_salts sha (fst q) (snd q)"
  for sha
  by unfold_locales
    (auto simp: memo_step_def derivedSet_def memo_ok_def Let_def gget_gput length_gput ipBindingMaxDerived_def
      split: option.splits if_splits)

lemma find_False [simp]: "find (\<lambda>x. False) xs = None"
  by (induction xs) auto

text \<open>The reference: the lowest salt at which the key derives the address.\<close>

definition lowest_salt :: "(byte list \<Rightarrow> byte list) \<Rightarrow> string \<Rightarrow> node_key \<Rightarrow> string \<Rightarrow> nat option" where
  "lowest_salt sha cidr pub ip =
     find (\<lambda>salt. map_option stripMask (deriveOverlayIPSalted sha cidr pub salt) = Some ip) [0..<Suc ipBindingMaxSalt]"

lemma salt_map_total:
  "(\<And>s. f s \<noteq> None) \<Longrightarrow> gget (salt_map f xs acc) ip =
     (case gget acc ip of Some s \<Rightarrow> Some s | None \<Rightarrow> find (\<lambda>s. map_option stripMask (f s) = Some ip) xs)"
proof (induction xs arbitrary: acc)
  case (Cons x xs)
  from Cons.prems obtain a where a: "f x = Some a" by (meson not_None_eq)
  from Cons show ?case by (auto simp: a gget_gput split: option.splits)
qed (simp split: option.splits)

lemma gget_derived_salts: "gget (derived_salts sha cidr pub) ip = lowest_salt sha cidr pub ip"
proof (cases "\<exists>net ones. parse_cidr cidr = Some (net, ones) \<and> ones \<le> 30")
  case True
  then have "deriveOverlayIPSalted sha cidr pub s \<noteq> None" for s
    by (auto simp: deriveOverlayIPSalted_def)
  then show ?thesis by (simp add: derived_salts_def lowest_salt_def salt_map_total del: upt_Suc)
next
  case False
  then have "deriveOverlayIPSalted sha cidr pub s = None" for s
    by (fastforce simp: deriveOverlayIPSalted_def split: option.splits)
  moreover have "[0..<Suc ipBindingMaxSalt] = 0 # [1..<Suc ipBindingMaxSalt]" by (simp add: upt_rec)
  ultimately show ?thesis
    by (auto simp: derived_salts_def lowest_salt_def find_None_iff simp del: upt_Suc intro!: sym [of None])
qed

text \<open>The memo table of derived addresses never changes an answer: from the empty table, any
  sequence of lookups, with the table discarded whenever it is full, answers for every network,
  key and address with the lowest salt up to \<open>ipBindingMaxSalt\<close> at which the key derives the
  address, as a direct search does, and the table never has more than \<open>ipBindingMaxDerived\<close>
  entries.\<close>

theorem derived_memo_transparent:
  "map (gget \<circ> snd) (fst (run_steps (memo_step sha) qs newIPBindingTable)) = map (\<lambda>(c, p). lowest_salt sha c p) qs \<and>
   length (bt_derived (snd (run_steps (memo_step sha) qs newIPBindingTable))) \<le> ipBindingMaxDerived"
proof -
  define as where "as = fst (run_steps (memo_step sha) qs newIPBindingTable)"
  have ok: "memo_ok sha (snd (run_steps (memo_step sha) qs newIPBindingTable))"
    and all: "list_all (\<lambda>(q, r). r = derived_salts sha (fst q) (snd q)) as"
    using memo.run_inv [OF _ memo_ok_new, of qs sha] by (auto simp: as_def list_all_iff)
  have "map fst as = qs" by (simp add: as_def memo.run_events)
  then have "map (\<lambda>(c, p). lowest_salt sha c p) qs = map (\<lambda>x. lowest_salt sha (fst (fst x)) (snd (fst x))) as"
    by (auto simp: case_prod_beta)
  also have "\<dots> = map (gget \<circ> snd) as"
    using all by (auto simp: list_all_iff fun_eq_iff gget_derived_salts)
  finally show ?thesis using ok by (simp add: as_def memo_ok_def)
qed

section \<open>One address per key\<close>

definition one_address :: "(string \<times> tofuBinding) list \<Rightarrow> bool" where
  "one_address m \<longleftrightarrow> (\<forall>ip jp b c. gget m ip = Some b \<longrightarrow> gget m jp = Some c \<longrightarrow> tb_pub b = tb_pub c \<longrightarrow> ip = jp)"

definition tofu_ok :: "(string \<times> tofuBinding) list \<Rightarrow> bool" where
  "tofu_ok m \<longleftrightarrow> gwf m \<and> one_address m \<and> length m \<le> ipBindingMaxBindings"

definition bt_ok :: "ipBindingTable \<Rightarrow> bool" where
  "bt_ok t \<longleftrightarrow> tofu_ok (bt_tofu t) \<and> gwf (bt_verdicts t) \<and>
     length (bt_verdicts t) \<le> ipBindingMaxVerdicts \<and> length (bt_lastLog t) \<le> 4097"

lemma tofu_ok_gdrop: "tofu_ok m \<Longrightarrow> tofu_ok (gdrop p m)"
  using length_gdrop_le [of p m]
  by (auto simp: tofu_ok_def one_address_def gget_gdrop gwf_gdrop split: option.splits if_splits)

lemma tofu_ok_gdel: "tofu_ok m \<Longrightarrow> tofu_ok (gdel ip m)"
  using length_gdel_le [of ip m]
  by (auto simp: tofu_ok_def one_address_def gget_gdel gwf_gdel split: if_splits)

lemma tofu_ok_refresh: "tofu_ok m \<Longrightarrow> gget m ip = Some b \<Longrightarrow> tb_pub c = tb_pub b \<Longrightarrow> tofu_ok (gput ip c m)"
  by (auto simp: tofu_ok_def one_address_def gget_gput gwf_gput length_gput split: if_splits)

lemma tofu_ok_take:
  assumes ok: "tofu_ok m" and room: "length m < ipBindingMaxBindings"
  shows "tofu_ok (gput ip \<lparr>tb_pub = pub, tb_seen = now, tb_strength = str\<rparr> (gdrop (\<lambda>k v. tb_pub v = pub) m))"
proof -
  define m1 where "m1 = gdrop (\<lambda>k v. tb_pub v = pub) m"
  have wf: "gwf m" using ok by (simp add: tofu_ok_def)
  have clean: "gget m1 k = Some v \<Longrightarrow> tb_pub v \<noteq> pub" for k v
    by (auto simp: m1_def gget_gdrop [OF wf] split: option.splits if_splits)
  have "tofu_ok m1" using ok by (simp add: m1_def tofu_ok_gdrop)
  moreover have "length m1 < ipBindingMaxBindings" using room length_gdrop_le [of _ m] le_less_trans by (fastforce simp: m1_def)
  ultimately show ?thesis unfolding m1_def [symmetric]
    by (auto simp: tofu_ok_def one_address_def gget_gput gwf_gput length_gput dest: clean split: if_splits)
qed

lemma bt_ok_dropVerdicts [simp]: "bt_ok t \<Longrightarrow> bt_ok (dropVerdicts ips t)"
  by (auto simp: bt_ok_def dropVerdicts_def gwf_gdrop intro: order_trans [OF length_gdrop_le])

lemma bt_ok_tofu: "bt_ok t \<Longrightarrow> tofu_ok m \<Longrightarrow> bt_ok (t\<lparr>bt_tofu := m\<rparr>)"
  by (simp add: bt_ok_def)

lemma bt_ok_tofuD: "bt_ok t \<Longrightarrow> tofu_ok (bt_tofu t)"
  by (simp add: bt_ok_def)

lemma bt_ok_releaseOthers: "bt_ok t \<Longrightarrow> bt_ok (releaseOthers pub ip t)"
  by (simp add: releaseOthers_def Let_def bt_ok_tofu bt_ok_tofuD tofu_ok_gdrop)

lemma bt_ok_owns_free: "bt_ok t \<Longrightarrow> bt_ok (snd (owns_free E t pub ip bind now str))"
  by (auto simp: owns_free_def Let_def intro!: bt_ok_dropVerdicts bt_ok_tofu tofu_ok_take tofu_ok_gdrop dest: bt_ok_tofuD)

lemma bt_ok_owns_tofu: "bt_ok t \<Longrightarrow> bt_ok (snd (owns_tofu E t pub ip bind now str))"
  by (auto simp: owns_tofu_def Let_def split: option.splits
    intro!: bt_ok_owns_free bt_ok_tofu tofu_ok_gdel tofu_ok_refresh dest: bt_ok_tofuD)

lemma bt_ok_owns: "bt_ok t \<Longrightarrow> bt_ok (snd (owns sha ip6 E t pub ip bind now))"
  by (simp add: owns_def Let_def case_prod_beta bt_ok_owns_tofu bt_ok_releaseOthers)

lemma bt_ok_noteRejected: "bt_ok t \<Longrightarrow> bt_ok (noteRejected pub ip now t)"
  by (auto simp: noteRejected_def bt_ok_def Let_def length_gput split: option.splits)

lemma bt_ok_cache_verdict: "bt_ok t \<Longrightarrow> bt_ok (cache_verdict k res now t)"
  by (auto simp: cache_verdict_def Let_def bt_ok_def gwf_gput length_gput ipBindingMaxVerdicts_def)

lemma bt_ok_OwnedBy: "bt_ok t \<Longrightarrow> bt_ok (snd (OwnedBy sha ip6 E t pub ip bind now))"
  by (simp add: OwnedBy_def case_prod_beta Let_def bt_ok_cache_verdict bt_ok_owns bt_ok_noteRejected split: option.splits)

lemma bt_ok_Forget: "bt_ok t \<Longrightarrow> bt_ok (bt_Forget pub t)"
  by (auto simp: bt_Forget_def Let_def bt_ok_def gwf_gdrop tofu_ok_gdrop intro: order_trans [OF length_gdrop_le])

interpretation bounded: step_invariant "bind_step sha ip6" "\<lambda>e. True" bt_ok "\<lambda>e a. True" for sha ip6
proof unfold_locales
  show "bt_ok s \<Longrightarrow> bt_ok (snd (bind_step sha ip6 e s))" for sha ip6 e s
    by (cases e) (auto simp: bt_ok_OwnedBy bt_ok_Forget)
qed auto

lemma bt_ok_reach: "run_steps (bind_step sha ip6) es newIPBindingTable = (as, t) \<Longrightarrow> bt_ok t"
  using bounded.run_inv [of es newIPBindingTable sha ip6]
  by (simp add: list_all_iff bt_ok_def newIPBindingTable_def tofu_ok_def one_address_def)


section \<open>Incumbency\<close>

text \<open>\<open>P\<close> holds \<open>ip\<close> with strength at least \<open>s\<close>, last seen at \<open>T\<close> or later, and no cached answer
  speaks for another key.\<close>

definition holds :: "node_key \<Rightarrow> string \<Rightarrow> nat \<Rightarrow> go_time \<Rightarrow> ipBindingTable \<Rightarrow> bool" where
  "holds P ip s T t \<longleftrightarrow> gwf (bt_tofu t) \<and> gwf (bt_verdicts t) \<and>
     (\<exists>b. gget (bt_tofu t) ip = Some b \<and> tb_pub b = P \<and> T \<le> tb_seen b \<and> s \<le> tb_strength b) \<and>
     (\<forall>Q bind v. Q \<noteq> P \<longrightarrow> gget (bt_verdicts t) (VerdictKey Q ip bind) = Some v \<longrightarrow> \<not> vd_ok v)"

text \<open>The events under which the holder is safe: within \<open>ipBindingIdleTTL\<close> of its last use, it is not
  revoked, no provision speaks about the address, the address is not this node's own, the holder does
  not itself bind another address, and no other key has a stronger claim.\<close>

fun contest :: "(byte list \<Rightarrow> byte list) \<Rightarrow> node_key \<Rightarrow> string \<Rightarrow> nat \<Rightarrow> go_time \<Rightarrow> bind_event \<Rightarrow> bool" where
  "contest sha P ip s T (Ask E pub jp bind now) \<longleftrightarrow>
     T \<le> now \<and> now \<le> T + ipBindingIdleTTL \<and> \<not> env_revoked E P \<and> provisionedOwners E ip = [] \<and> ip \<noteq> be_self E \<and>
     (if pub = P then jp = ip \<or> \<not> bind else jp = ip \<longrightarrow> strength sha E pub ip \<le> s)"
| "contest sha P ip s T (ForgetKey pub) \<longleftrightarrow> pub \<noteq> P"

fun denied :: "node_key \<Rightarrow> string \<Rightarrow> bind_event \<Rightarrow> bool \<Rightarrow> bool" where
  "denied P ip (Ask E pub jp bind now) a \<longleftrightarrow> pub \<noteq> P \<and> jp = ip \<longrightarrow> \<not> a"
| "denied P ip (ForgetKey pub) a \<longleftrightarrow> True"

lemma not_idle: "T \<le> seen \<Longrightarrow> now \<le> T + ipBindingIdleTTL \<Longrightarrow> \<not> ipBindingIdleTTL < time_sub now seen"
  by (auto simp: time_sub_def ipBindingIdleTTL_def duration_defs split: if_splits)

lemma holds_dropVerdicts: "holds P ip s T t \<Longrightarrow> holds P ip s T (dropVerdicts ips t)"
  by (auto simp: holds_def dropVerdicts_def gget_gdrop gwf_gdrop split: option.splits if_splits)

lemma holds_tofu_gdrop:
  "holds P ip s T t \<Longrightarrow> (\<And>b. tb_pub b = P \<Longrightarrow> T \<le> tb_seen b \<Longrightarrow> \<not> p ip b) \<Longrightarrow>
     holds P ip s T (t\<lparr>bt_tofu := gdrop p (bt_tofu t)\<rparr>)"
  by (auto simp: holds_def gget_gdrop gwf_gdrop)

lemma holds_tofu_gput: "holds P ip s T t \<Longrightarrow> jp \<noteq> ip \<Longrightarrow> holds P ip s T (t\<lparr>bt_tofu := gput jp b (bt_tofu t)\<rparr>)"
  by (auto simp: holds_def gget_gput gwf_gput)

lemma holds_tofu_gdel: "holds P ip s T t \<Longrightarrow> jp \<noteq> ip \<Longrightarrow> holds P ip s T (t\<lparr>bt_tofu := gdel jp (bt_tofu t)\<rparr>)"
  by (auto simp: holds_def gget_gdel gwf_gdel)

lemma holds_cache_verdict:
  "holds P ip s T t \<Longrightarrow> (vk_ip k = ip \<Longrightarrow> vk_pub k \<noteq> P \<Longrightarrow> \<not> res) \<Longrightarrow> holds P ip s T (cache_verdict k res now t)"
  by (auto simp: holds_def cache_verdict_def Let_def gget_gput gwf_gput split: if_splits)

lemma holds_noteRejected: "holds P ip s T t \<Longrightarrow> holds P ip s T (noteRejected pub jp now t)"
  by (auto simp: holds_def noteRejected_def Let_def)

lemma holds_releaseOthers: "holds P ip s T t \<Longrightarrow> pub \<noteq> P \<Longrightarrow> holds P ip s T (releaseOthers pub jp t)"
  by (auto simp: releaseOthers_def Let_def intro!: holds_dropVerdicts holds_tofu_gdrop)

lemma holds_take:
  assumes h: "holds P ip s T t" and other: "jp \<noteq> ip" "pub \<noteq> P"
  shows "holds P ip s T (t\<lparr>bt_tofu := gput jp b (gdrop (\<lambda>k v. tb_pub v = pub) (bt_tofu t))\<rparr>)"
proof -
  from other have "holds P ip s T (t\<lparr>bt_tofu := gdrop (\<lambda>k v. tb_pub v = pub) (bt_tofu t)\<rparr>)"
    by (intro holds_tofu_gdrop [OF h]) auto
  from holds_tofu_gput [OF this other(1)] show ?thesis by simp
qed

lemma holds_owns_free:
  assumes h: "holds P ip s T t" and now: "now \<le> T + ipBindingIdleTTL"
    and other: "jp \<noteq> ip" "bind \<Longrightarrow> pub \<noteq> P"
  shows "holds P ip s T (snd (owns_free E t pub jp bind now str))"
proof -
  have idle: "holds P ip s T (t\<lparr>bt_tofu := gdrop (\<lambda>k v. ipBindingIdleTTL < time_sub now (tb_seen v)) (bt_tofu t)\<rparr>)"
    using not_idle [OF _ now] by (intro holds_tofu_gdrop [OF h]) auto
  from holds_take [OF h other(1)] holds_take [OF idle other(1)] h idle other(2) show ?thesis
    by (auto simp: owns_free_def Let_def intro!: holds_dropVerdicts)
qed

lemma holds_owns_tofu:
  assumes h: "holds P ip s T t" and now: "T \<le> now" "now \<le> T + ipBindingIdleTTL" and live: "\<not> env_revoked E P"
    and other: "jp \<noteq> ip \<Longrightarrow> bind \<Longrightarrow> pub \<noteq> P" and weak: "jp = ip \<Longrightarrow> pub \<noteq> P \<Longrightarrow> str \<le> s"
  shows "holds P ip s T (snd (owns_tofu E t pub jp bind now str)) \<and>
    (jp = ip \<and> pub \<noteq> P \<longrightarrow> \<not> fst (owns_tofu E t pub jp bind now str))"
proof (cases "jp = ip")
  case True
  from h obtain b where b: "gget (bt_tofu t) ip = Some b" "tb_pub b = P" "T \<le> tb_seen b" "s \<le> tb_strength b"
    by (auto simp: holds_def)
  from not_idle [OF b(3) now(2)] weak b live h now(1) True show ?thesis
    by (auto simp: owns_tofu_def Let_def holds_def gget_gput gwf_gput)
next
  case False
  have free: "holds P ip s T (snd (owns_free E t' pub jp bind now str))" if "holds P ip s T t'" for t'
    using holds_owns_free [OF that now(2) False other] False by auto
  from False h free [OF h] free [OF holds_tofu_gdel [OF h False]] holds_tofu_gput [OF h False] show ?thesis
    by (auto simp: owns_tofu_def Let_def split: option.splits)
qed

lemma holds_owns:
  assumes h: "holds P ip s T t" and c: "contest sha P ip s T (Ask E pub jp bind now)"
  shows "holds P ip s T (snd (owns sha ip6 E t pub jp bind now))"
    and "jp = ip \<Longrightarrow> pub \<noteq> P \<Longrightarrow> \<not> fst (owns sha ip6 E t pub jp bind now)"
proof -
  from c have now: "T \<le> now" "now \<le> T + ipBindingIdleTTL" and live: "\<not> env_revoked E P"
    and prov: "provisionedOwners E ip = []" and self: "ip \<noteq> be_self E"
    and other: "jp \<noteq> ip \<Longrightarrow> bind \<Longrightarrow> pub \<noteq> P" and weak: "jp = ip \<Longrightarrow> pub \<noteq> P \<Longrightarrow> strength sha E pub jp \<le> s"
    by (auto split: if_splits)
  have rel: "jp \<noteq> ip \<Longrightarrow> bind \<Longrightarrow> holds P ip s T (releaseOthers pub jp t)"
    using holds_releaseOthers [OF h] other by auto
  note tofu = holds_owns_tofu [OF h now live other weak]
  from h tofu rel prov show "holds P ip s T (snd (owns sha ip6 E t pub jp bind now))"
    by (cases "jp = ip") (auto simp: owns_def provisioned_def Let_def)
  from tofu prov self show "jp = ip \<Longrightarrow> pub \<noteq> P \<Longrightarrow> \<not> fst (owns sha ip6 E t pub jp bind now)"
    by (auto simp: owns_def provisioned_def Let_def)
qed

lemma fst_OwnedBy:
  "fst (OwnedBy sha ip6 E t pub ip bind now) =
     (case cached t (VerdictKey pub ip bind) now of Some ok \<Rightarrow> ok | None \<Rightarrow> fst (owns sha ip6 E t pub ip bind now))"
  by (simp add: OwnedBy_def case_prod_beta Let_def split: option.splits)

lemma holds_OwnedBy:
  assumes h: "holds P ip s T t" and c: "contest sha P ip s T (Ask E pub jp bind now)"
  shows "holds P ip s T (snd (OwnedBy sha ip6 E t pub jp bind now))"
    and "jp = ip \<Longrightarrow> pub \<noteq> P \<Longrightarrow> \<not> fst (OwnedBy sha ip6 E t pub jp bind now)"
proof -
  obtain r t1 where r: "owns sha ip6 E t pub jp bind now = (r, t1)" by fastforce
  with holds_owns [OF h c, of ip6] have t1: "holds P ip s T t1" and no: "jp = ip \<Longrightarrow> pub \<noteq> P \<Longrightarrow> \<not> r" by auto
  have "holds P ip s T (cache_verdict (VerdictKey pub jp bind) r now t1)"
    by (rule holds_cache_verdict [OF t1]) (use no in auto)
  then show "holds P ip s T (snd (OwnedBy sha ip6 E t pub jp bind now))"
    using h by (auto simp: OwnedBy_def r Let_def holds_noteRejected split: option.splits)
  show "jp = ip \<Longrightarrow> pub \<noteq> P \<Longrightarrow> \<not> fst (OwnedBy sha ip6 E t pub jp bind now)"
    using holds_owns(2) [OF h c, of ip6] h by (auto simp: fst_OwnedBy cached_def holds_def split: option.splits if_splits)
qed

lemma holds_Forget: "holds P ip s T t \<Longrightarrow> pub \<noteq> P \<Longrightarrow> holds P ip s T (bt_Forget pub t)"
  by (auto simp: holds_def bt_Forget_def Let_def gget_gdrop gwf_gdrop split: option.splits if_splits)

interpretation incumbent: step_invariant "bind_step sha ip6" "contest sha P ip s T" "holds P ip s T" "denied P ip"
  for sha ip6 P ip s T
proof unfold_locales
  fix e t assume c: "contest sha P ip s T e" and h: "holds P ip s T t"
  show "holds P ip s T (snd (bind_step sha ip6 e t))"
    using c h holds_OwnedBy(1) [OF h] holds_Forget by (cases e) auto
  show "denied P ip e (fst (bind_step sha ip6 e t))"
    using c h holds_OwnedBy(2) [OF h] by (cases e) auto
qed

lemma owns_free_takes:
  assumes "bt_ok t" and "owns_free E t P ip True now str = (True, t1)"
  shows "holds P ip str now t1"
proof -
  from assms(1) have wf: "gwf (bt_tofu t)" "gwf (bt_verdicts t)" by (auto simp: bt_ok_def tofu_ok_def)
  from assms(2) wf show ?thesis
    by (auto simp: owns_free_def Let_def holds_def dropVerdicts_def gget_gput gget_gdrop gwf_gput gwf_gdrop
      split: if_splits option.splits)
qed

lemma owns_takes:
  assumes ok: "bt_ok t" and new: "\<And>b. gget (bt_tofu t) ip = Some b \<Longrightarrow> tb_pub b \<noteq> P"
    and prov: "provisionedOwners E ip = []" and self: "ip \<noteq> be_self E"
    and o: "owns sha ip6 E t P ip True now = (True, t1)"
  shows "holds P ip (strength sha E P ip) now t1"
proof -
  from o prov self have tofu: "owns_tofu E t P ip True now (strength sha E P ip) = (True, t1)"
    by (auto simp: owns_def provisioned_def Let_def split: if_splits)
  have freed: "bt_ok (t\<lparr>bt_tofu := gdel ip (bt_tofu t)\<rparr>)" using ok by (simp add: bt_ok_tofu bt_ok_tofuD tofu_ok_gdel)
  from tofu new owns_free_takes [OF ok] owns_free_takes [OF freed] show ?thesis
    by (auto simp: owns_tofu_def Let_def split: option.splits if_splits)
qed

lemma taken_holds:
  assumes reach: "run_steps (bind_step sha ip6) es0 newIPBindingTable = (as0, t0)"
    and new: "\<And>b. gget (bt_tofu t0) ip = Some b \<Longrightarrow> tb_pub b \<noteq> P"
    and uncached: "cached t0 (VerdictKey P ip True) T = None"
    and open_claim: "provisionedOwners E0 ip = []" "ip \<noteq> be_self E0"
    and took: "OwnedBy sha ip6 E0 t0 P ip True T = (True, t1)"
  shows "holds P ip (strength sha E0 P ip) T t1"
proof -
  obtain t1' where o: "owns sha ip6 E0 t0 P ip True T = (True, t1')"
    and t1: "t1 = cache_verdict (VerdictKey P ip True) True T t1'"
    using took uncached by (auto simp: OwnedBy_def Let_def case_prod_beta split: prod.splits)
      (metis prod.collapse)
  show ?thesis
    unfolding t1 by (rule holds_cache_verdict [OF owns_takes [OF bt_ok_reach [OF reach] new open_claim o]]) auto
qed


definition wit_env :: bind_env where
  "wit_env = \<lparr>be_cidr = [], be_net = Some ([10, 0, 0, 0], 24), be_strict = False, be_ones = 24, be_prov = None,
     be_rev = None, be_peerIPs = [], be_roster = [], be_self = ''10.0.0.9'', be_live = (\<lambda>k. True), be_sessions = []\<rparr>"

lemma wit_start:
  "gget (bt_tofu newIPBindingTable) ''10.0.0.7'' = None"
  "cached newIPBindingTable (VerdictKey (replicate 32 1) ''10.0.0.7'' True) 1000 = None"
  "provisionedOwners wit_env ''10.0.0.7'' = []" "''10.0.0.7'' \<noteq> be_self wit_env"
  by (simp add: newIPBindingTable_def) code_simp+

lemma wit_subnet: "inOverlaySubnet (\<lambda>x. None) wit_env ''10.0.0.7''"
  by (simp add: inOverlaySubnet_def wit_env_def parseIP_def parse_ipv4_def parse_octet_def digit_val_def
    net_contains_def be_nat_def)

lemma wit_taken:
  "OwnedBy sha (\<lambda>x. None) wit_env newIPBindingTable (replicate 32 1) ''10.0.0.7'' True 1000 =
     (True, snd (OwnedBy sha (\<lambda>x. None) wit_env newIPBindingTable (replicate 32 1) ''10.0.0.7'' True 1000))"
proof -
  have nz: "replicate 32 (1 :: byte) \<noteq> zero_key" by (simp add: replicate_eq_replicate)
  have "fst (OwnedBy sha (\<lambda>x. None) wit_env newIPBindingTable (replicate 32 1) ''10.0.0.7'' True 1000) = True"
    using wit_subnet nz wit_start
    by (simp add: fst_OwnedBy owns_def owns_tofu_def owns_free_def provisioned_def env_revoked_def strength_def
      knownKeysClaiming_def roster_keys_def claim_defs wit_env_def newIPBindingTable_def ipBindingMaxBindings_def Let_def)
  then show ?thesis by (metis prod.collapse)
qed


section \<open>Provisions decide\<close>

text \<open>The record names \<open>k\<close> as an owner of \<open>ip\<close>.\<close>

definition names_owner :: "bind_env \<Rightarrow> string \<Rightarrow> SignedProvision \<Rightarrow> node_key \<Rightarrow> bool" where
  "names_owner E ip rec k \<longleftrightarrow> provAddrIP (be_ones E) rec = ip \<and> sp_Address rec \<noteq> [] \<and>
     b64_decode (sp_PubKey rec) = Some k \<and> length k = 32 \<and> \<not> env_revoked E k"

lemma names_owner_unique: "names_owner E ip rec k \<Longrightarrow> names_owner E ip rec k' \<Longrightarrow> k' = k"
  by (simp add: names_owner_def)

lemma owner_scan_cases:
  "(\<exists>k. names_owner E ip rec k \<and>
      owner_scan E ip acc rec = (if fst acc = [] \<or> snd acc < sp_Seq rec then ([k], sp_Seq rec)
        else if sp_Seq rec = snd acc then (fst acc @ [k], snd acc) else acc)) \<or>
   (\<forall>k. \<not> names_owner E ip rec k) \<and> owner_scan E ip acc rec = acc"
  by (auto simp: owner_scan_def names_owner_def provAddrIP_def split: option.splits)

definition newest_owner :: "bind_env \<Rightarrow> string \<Rightarrow> SignedProvision list \<Rightarrow> node_key \<Rightarrow> bool" where
  "newest_owner E ip recs k \<longleftrightarrow> (\<exists>r \<in> set recs. names_owner E ip r k \<and>
     (\<forall>r' \<in> set recs. \<forall>k'. names_owner E ip r' k' \<longrightarrow> sp_Seq r' \<le> sp_Seq r))"

definition scan_ok :: "bind_env \<Rightarrow> string \<Rightarrow> SignedProvision list \<Rightarrow> node_key list \<times> int \<Rightarrow> bool" where
  "scan_ok E ip recs acc \<longleftrightarrow>
     (\<forall>r \<in> set recs. \<forall>k. names_owner E ip r k \<longrightarrow> fst acc \<noteq> [] \<and> sp_Seq r \<le> snd acc) \<and>
     set (fst acc) = {k. \<exists>r \<in> set recs. names_owner E ip r k \<and> sp_Seq r = snd acc}"

lemma scan_ok_step:
  assumes "scan_ok E ip recs acc"
  shows "scan_ok E ip (recs @ [r]) (owner_scan E ip acc r)"
proof -
  from owner_scan_cases [of E ip r acc] consider
      (hit) k where "names_owner E ip r k"
        "owner_scan E ip acc r = (if fst acc = [] \<or> snd acc < sp_Seq r then ([k], sp_Seq r)
          else if sp_Seq r = snd acc then (fst acc @ [k], snd acc) else acc)"
    | (miss) "\<forall>k. \<not> names_owner E ip r k" "owner_scan E ip acc r = acc"
    by blast
  then show ?thesis
  proof cases
    case hit
    have only: "names_owner E ip r k' \<longleftrightarrow> k' = k" for k' using hit(1) names_owner_unique by blast
    consider "fst acc = []" | "fst acc \<noteq> []" "snd acc < sp_Seq r" | "fst acc \<noteq> []" "sp_Seq r = snd acc"
      | "fst acc \<noteq> []" "sp_Seq r < snd acc" by linarith
    then show ?thesis
    proof cases
      case 1
      with assms have "\<forall>r' \<in> set recs. \<forall>k'. \<not> names_owner E ip r' k'" by (auto simp: scan_ok_def)
      with 1 hit(2) only show ?thesis by (auto simp: scan_ok_def)
    next
      case 2
      with assms have "\<forall>r' \<in> set recs. \<forall>k'. names_owner E ip r' k' \<longrightarrow> sp_Seq r' < sp_Seq r"
        by (fastforce simp: scan_ok_def)
      with 2 hit(2) only show ?thesis by (fastforce simp: scan_ok_def)
    next
      case 3
      with assms hit(2) only show ?thesis by (auto simp: scan_ok_def)
    next
      case 4
      with assms hit(2) only show ?thesis by (auto simp: scan_ok_def)
    qed
  next
    case miss
    with assms show ?thesis by (auto simp: scan_ok_def)
  qed
qed

lemma scan_ok_foldl: "scan_ok E ip recs (foldl (owner_scan E ip) ([], 0) recs)"
proof (induction recs rule: rev_induct)
  case (snoc r recs)
  from scan_ok_step [OF this] show ?case by simp
qed (simp add: scan_ok_def)

lemma scan_ok_newest:
  assumes ok: "scan_ok E ip recs acc"
  shows "k \<in> set (fst acc) \<longleftrightarrow> newest_owner E ip recs k"
proof
  assume "k \<in> set (fst acc)"
  with ok obtain r where "r \<in> set recs" "names_owner E ip r k" "sp_Seq r = snd acc" by (auto simp: scan_ok_def)
  moreover have "\<forall>r' \<in> set recs. \<forall>k'. names_owner E ip r' k' \<longrightarrow> sp_Seq r' \<le> snd acc" using ok by (simp add: scan_ok_def)
  ultimately show "newest_owner E ip recs k" unfolding newest_owner_def by metis
next
  assume "newest_owner E ip recs k"
  then obtain r where r: "r \<in> set recs" "names_owner E ip r k"
    and top: "\<And>r' k'. r' \<in> set recs \<Longrightarrow> names_owner E ip r' k' \<Longrightarrow> sp_Seq r' \<le> sp_Seq r"
    by (auto simp: newest_owner_def)
  from ok r have "fst acc \<noteq> []" and le: "sp_Seq r \<le> snd acc" by (auto simp: scan_ok_def)
  then obtain k' where "k' \<in> set (fst acc)" by (meson last_in_set)
  with ok obtain r' where "r' \<in> set recs" "names_owner E ip r' k'" "sp_Seq r' = snd acc" by (auto simp: scan_ok_def)
  with top le have "sp_Seq r = snd acc" by force
  with ok r show "k \<in> set (fst acc)" by (auto simp: scan_ok_def)
qed

text \<open>C33: A provision decides an address outright. Where some provision names an unrevoked owner of
  an address, a key owns the address exactly when it is one the newest such provisions name and
  the address lies in the overlay, whatever the derived addresses, announcements and current
  holder say; and an owner's authenticated claim releases every other address it held.\<close>

theorem newest_provision_decides:
  assumes prov: "be_prov E = Some s" and some: "r \<in> set (map snd (pv_recs s))" "names_owner E ip r k"
    and o: "owns sha ip6 E t pub ip True now = (answer, t')"
    and wf: "gwf (bt_tofu t)"
  shows "(answer \<longleftrightarrow> pub \<noteq> zero_key \<and> inOverlaySubnet ip6 E ip \<and> newest_owner E ip (map snd (pv_recs s)) pub) \<and>
    (answer \<and> jp \<noteq> ip \<and> gget (bt_tofu t') jp = Some b \<longrightarrow> tb_pub b \<noteq> pub)"
proof -
  let ?recs = "map snd (pv_recs s)"
  have ok: "scan_ok E ip ?recs (foldl (owner_scan E ip) ([], 0) ?recs)" by (rule scan_ok_foldl)
  have eq: "provisionedOwners E ip = fst (foldl (owner_scan E ip) ([], 0) ?recs)" by (simp add: provisionedOwners_def prov)
  have ne: "provisionedOwners E ip \<noteq> []" using ok some unfolding eq scan_ok_def by blast
  have owners: "q \<in> set (provisionedOwners E ip) \<longleftrightarrow> newest_owner E ip ?recs q" for q
    unfolding eq by (rule scan_ok_newest [OF ok])
  have live: "newest_owner E ip ?recs pub \<Longrightarrow> \<not> env_revoked E pub" by (auto simp: newest_owner_def names_owner_def)
  have rel: "gget (bt_tofu (releaseOthers pub ip t)) jp = Some b \<Longrightarrow> jp \<noteq> ip \<Longrightarrow> tb_pub b \<noteq> pub"
    using wf by (auto simp: releaseOthers_def dropVerdicts_def Let_def gget_gdrop split: if_splits option.splits)
  from o live have answer: "answer \<longleftrightarrow> pub \<noteq> zero_key \<and> inOverlaySubnet ip6 E ip \<and> newest_owner E ip ?recs pub"
    by (auto simp: owns_def provisioned_def ne owners Let_def split: if_splits)
  moreover from o have "answer \<Longrightarrow> t' = releaseOthers pub ip t"
    by (auto simp: owns_def provisioned_def ne Let_def split: if_splits)
  ultimately show ?thesis using rel by auto
qed

definition wit_prov :: bind_env where
  "wit_prov = wit_env\<lparr>be_prov := Some (empty_provisions\<lparr>pv_recs :=
     [(demo_key, demo_prov demo_key ''10.0.0.7'' 5), (demo_key2, demo_prov demo_key2 ''10.0.0.7'' 9)]\<rparr>)\<rparr>"

theorem newest_provision_decides_witness:
  "fst (owns (\<lambda>x. x) (\<lambda>x. None) wit_prov newIPBindingTable demo_key2 ''10.0.0.7'' True 1000) \<and>
   \<not> fst (owns (\<lambda>x. x) (\<lambda>x. None) wit_prov newIPBindingTable demo_key ''10.0.0.7'' True 1000)"
proof -
  let ?o = "\<lambda>k. owns (\<lambda>x. x) (\<lambda>x. None) wit_prov newIPBindingTable k ''10.0.0.7'' True 1000"
  let ?s = "empty_provisions\<lparr>pv_recs :=
     [(demo_key, demo_prov demo_key ''10.0.0.7'' 5), (demo_key2, demo_prov demo_key2 ''10.0.0.7'' 9)]\<rparr>"
  have env: "be_prov wit_prov = Some ?s" "be_ones wit_prov = 24" "be_rev wit_prov = None"
    by (simp_all add: wit_prov_def wit_env_def)
  have sub: "inOverlaySubnet (\<lambda>x. None) wit_prov ''10.0.0.7''"
    by (simp add: inOverlaySubnet_def wit_prov_def wit_env_def parseIP_def parse_ipv4_def parse_octet_def digit_val_def
      net_contains_def be_nat_def)
  have nz: "demo_key \<noteq> zero_key" "demo_key2 \<noteq> zero_key" by (simp_all add: demo_key_def demo_key2_def replicate_eq_replicate)
  have pk: "sp_PubKey (demo_prov k a n) = b64_encode k" for k a n by (simp add: demo_prov_def)
  have names: "length k = 32 \<Longrightarrow> names_owner wit_prov ''10.0.0.7'' (demo_prov k ''10.0.0.7'' n) k' \<longleftrightarrow> k' = k" for k k' n
    by (auto simp: names_owner_def env demo_ip pk b64_decode_encode env_revoked_def)
  have mem: "demo_prov demo_key ''10.0.0.7'' 5 \<in> set (map snd (pv_recs ?s))"
    "names_owner wit_prov ''10.0.0.7'' (demo_prov demo_key ''10.0.0.7'' 5) demo_key"
    by (simp_all add: names demo_keys)
  have wf: "gwf (bt_tofu newIPBindingTable)" by (simp add: newIPBindingTable_def)
  have new: "newest_owner wit_prov ''10.0.0.7'' (map snd (pv_recs ?s)) demo_key2"
    "\<not> newest_owner wit_prov ''10.0.0.7'' (map snd (pv_recs ?s)) demo_key"
    by (auto simp: newest_owner_def names demo_keys)
  from newest_provision_decides [OF env(1) mem prod.collapse [symmetric] wf, of "\<lambda>x. x" "\<lambda>x. None" demo_key2 1000]
    newest_provision_decides [OF env(1) mem prod.collapse [symmetric] wf, of "\<lambda>x. x" "\<lambda>x. None" demo_key 1000]
    sub nz new
  show ?thesis by blast
qed

end
