(* ===== verification/E2E_PQ.thy ===== *)
theory E2E_PQ
  imports Data_Plane
begin

text \<open>
  The end-to-end ML-KEM exchange, \<open>client/e2epq.go\<close>: offers, replies, resets and the secrets
  each direction holds.

  Parameters: \<open>K\<close> is the KEM (\<open>mlkem768\<close> of \<open>github.com/cloudflare/circl\<close>), \<open>sha\<close> is SHA-256,
  \<open>seed\<close> the randomness a call draws. A method that releases the mutex in the middle is two
  definitions, the part before and the part after; the method itself runs them in a row.
\<close>

record ('pk, 'sk) kem =
  publicKeySize :: nat
  ciphertextSize :: nat
  generateKeyPair :: "byte list \<Rightarrow> ('pk \<times> 'sk) option"
  marshalPub :: "'pk \<Rightarrow> byte list option"
  unmarshalBinaryPub :: "byte list \<Rightarrow> 'pk option"
  encapsulate :: "'pk \<Rightarrow> byte list \<Rightarrow> (byte list \<times> byte list) option"
  decapsulate :: "'sk \<Rightarrow> byte list \<Rightarrow> byte list option"

definition e2eKindOffer :: byte where "e2eKindOffer = 1"
definition e2eKindReply :: byte where "e2eKindReply = 2"
definition e2eKindReset :: byte where "e2eKindReset = 3"

definition e2ePQRekey :: duration where "e2ePQRekey = 30 * minute"
definition e2ePQRetry :: duration where "e2ePQRetry = second"
definition e2ePQPendingMax :: duration where "e2ePQPendingMax = 30 * second"
definition e2ePQKeepOld :: duration where "e2ePQKeepOld = 10 * minute"
definition e2ePQMaxSecrets :: nat where "e2ePQMaxSecrets = 4"
definition e2ePQMaxPeers :: nat where "e2ePQMaxPeers = 4096"
definition e2ePQOffersPerMin :: nat where "e2ePQOffersPerMin = 6"
definition e2ePQResetGap :: duration where "e2ePQResetGap = 2 * second"

lemmas e2epq_durations = e2ePQRekey_def e2ePQRetry_def e2ePQPendingMax_def e2ePQKeepOld_def e2ePQResetGap_def
  duration_defs

section \<open>State\<close>

record e2ePQSecret =
  pqs_id :: "byte list"
  pqs_ss :: "byte list"
  pqs_born :: go_time

definition newE2EPQSecret :: "(byte list \<Rightarrow> byte list) \<Rightarrow> byte list \<Rightarrow> go_time \<Rightarrow> e2ePQSecret" where
  "newE2EPQSecret sha ss now =
     (let id0 = take 4 (sha (bytes_of ''apgo-e2e-pq-id-v1:'' @ ss)) in
      \<lparr>pqs_id = (if id0 = [0, 0, 0, 0] then [0, 0, 0, 1] else id0), pqs_ss = ss, pqs_born = now\<rparr>)"

record 'sk e2ePQOut =
  po_cur :: "e2ePQSecret option"
  po_dk :: "'sk option"
  po_ek :: "byte list"
  po_ekHash :: "byte list"
  po_pendBorn :: go_time
  po_lastSent :: go_time
  po_touched :: go_time

record e2ePQIn =
  pi_secrets :: "e2ePQSecret list"
  pi_lastEKHash :: "byte list"
  pi_lastReply :: "byte list option"
  pi_offers :: "go_time list"
  pi_lastReset :: go_time
  pi_touched :: go_time

record 'sk e2ePQ =
  pq_out :: "(node_key \<times> 'sk e2ePQOut) list"
  pq_in :: "(node_key \<times> e2ePQIn) list"

definition newE2EPQ :: "'sk e2ePQ" where
  "newE2EPQ = \<lparr>pq_out = [], pq_in = []\<rparr>"

definition empty_out :: "'sk e2ePQOut" where
  "empty_out = \<lparr>po_cur = None, po_dk = None, po_ek = [], po_ekHash = replicate 8 0, po_pendBorn = 0,
     po_lastSent = 0, po_touched = 0\<rparr>"

definition empty_in :: e2ePQIn where
  "empty_in = \<lparr>pi_secrets = [], pi_lastEKHash = replicate 8 0, pi_lastReply = None, pi_offers = [],
     pi_lastReset = 0, pi_touched = 0\<rparr>"

definition ekHash8 :: "(byte list \<Rightarrow> byte list) \<Rightarrow> byte list \<Rightarrow> byte list" where
  "ekHash8 sha ek = take 8 (sha ek)"

definition oldest_entry :: "('v \<Rightarrow> go_time) \<Rightarrow> ('k \<times> 'v) list \<Rightarrow> ('k \<times> go_time) option" where
  "oldest_entry touched m =
     foldl (\<lambda>acc (k, v). case acc of
         None \<Rightarrow> Some (k, touched v)
       | Some (k0, t0) \<Rightarrow> if touched v < t0 then Some (k, touched v) else acc) None m"

definition pruneOldest :: "('v \<Rightarrow> go_time) \<Rightarrow> ('k \<times> 'v) list \<Rightarrow> ('k \<times> 'v) list" where
  "pruneOldest touched m =
     (case oldest_entry touched m of None \<Rightarrow> m | Some (k, t) \<Rightarrow> gdel k m)"

text \<open>The entry of a peer, after a full map has made room for a new one.\<close>

definition pq_room :: "('v \<Rightarrow> go_time) \<Rightarrow> node_key \<Rightarrow> (node_key \<times> 'v) list \<Rightarrow> (node_key \<times> 'v) list" where
  "pq_room touched k m =
     (if gget m k = None \<and> e2ePQMaxPeers \<le> length m then pruneOldest touched m else m)"

section \<open>Offering\<close>

definition fresh_pair ::
  "('pk, 'sk) kem \<Rightarrow> (byte list \<Rightarrow> byte list) \<Rightarrow> byte list \<Rightarrow> go_time \<Rightarrow> 'sk e2ePQOut \<Rightarrow> 'sk e2ePQOut option" where
  "fresh_pair K sha seed now o1 =
     (case generateKeyPair K seed of
        None \<Rightarrow> None
      | Some (pk, sk) \<Rightarrow> (case marshalPub K pk of
          None \<Rightarrow> None
        | Some ek \<Rightarrow> Some (o1\<lparr>po_dk := Some sk, po_ek := ek, po_ekHash := ekHash8 sha ek,
            po_pendBorn := now, po_lastSent := 0\<rparr>)))"

text \<open>What \<open>outbound\<close> does to the peer's entry once it has been touched.\<close>

definition outbound_entry ::
  "('pk, 'sk) kem \<Rightarrow> (byte list \<Rightarrow> byte list) \<Rightarrow> byte list \<Rightarrow> go_time \<Rightarrow> 'sk e2ePQOut
   \<Rightarrow> (e2ePQSecret option \<times> byte list option) \<times> 'sk e2ePQOut" where
  "outbound_entry K sha seed now o1 =
     (let cur = po_cur o1 in
      if (case cur of None \<Rightarrow> False | Some c \<Rightarrow> time_sub now (pqs_born c) < e2ePQRekey)
      then ((cur, None), o1)
      else
        let o2 = (if po_dk o1 \<noteq> None \<and> e2ePQPendingMax < time_sub now (po_pendBorn o1)
                  then o1\<lparr>po_dk := None, po_ek := []\<rparr> else o1)
        in case (if po_dk o2 = None then fresh_pair K sha seed now o2 else Some o2) of
             None \<Rightarrow> ((cur, None), o2)
           | Some o3 \<Rightarrow>
               if po_lastSent o3 \<noteq> 0 \<and> time_sub now (po_lastSent o3) < e2ePQRetry
               then ((cur, None), o3)
               else ((cur, Some (e2eKindOffer # po_ek o3)), o3\<lparr>po_lastSent := now\<rparr>))"

definition outbound ::
  "('pk, 'sk) kem \<Rightarrow> (byte list \<Rightarrow> byte list) \<Rightarrow> byte list \<Rightarrow> 'sk e2ePQ \<Rightarrow> node_key \<Rightarrow> go_time
   \<Rightarrow> (e2ePQSecret option \<times> byte list option) \<times> 'sk e2ePQ" where
  "outbound K sha seed p to now =
     (let m = pq_room po_touched to (pq_out p);
          o1 = (case gget (pq_out p) to of None \<Rightarrow> empty_out | Some e \<Rightarrow> e)\<lparr>po_touched := now\<rparr>;
          (r, e) = outbound_entry K sha seed now o1
      in (r, p\<lparr>pq_out := gput to e m\<rparr>))"

section \<open>Answering\<close>

datatype e2epq_error = E2EPQBadReply | E2EPQLimit | E2EPQBadKey | E2EPQKem

definition onOffer_check ::
  "'sk e2ePQ \<Rightarrow> node_key \<Rightarrow> byte list \<Rightarrow> go_time \<Rightarrow> (e2epq_error + byte list) option \<times> 'sk e2ePQ" where
  "onOffer_check p frm h8 now =
     (case gget (pq_in p) frm of
        None \<Rightarrow> (None, p)
      | Some e \<Rightarrow>
          (case (if pi_lastEKHash e = h8 then pi_lastReply e else None) of
             Some reply \<Rightarrow> (Some (Inr reply), p\<lparr>pq_in := gput frm (e\<lparr>pi_touched := now\<rparr>) (pq_in p)\<rparr>)
           | None \<Rightarrow>
               let recent = filter (\<lambda>t. time_sub now t < minute) (pi_offers e);
                   p' = p\<lparr>pq_in := gput frm (e\<lparr>pi_offers := recent\<rparr>) (pq_in p)\<rparr>
               in if e2ePQOffersPerMin \<le> length recent then (Some (Inl E2EPQLimit), p') else (None, p')))"

definition onOffer_store ::
  "(byte list \<Rightarrow> byte list) \<Rightarrow> 'sk e2ePQ \<Rightarrow> node_key \<Rightarrow> byte list \<Rightarrow> byte list \<Rightarrow> byte list \<Rightarrow> go_time
   \<Rightarrow> byte list \<times> 'sk e2ePQ" where
  "onOffer_store sha p frm h8 ct ss now =
     (let sec = newE2EPQSecret sha ss now;
          reply = e2eKindReply # h8 @ ct;
          e = (case gget (pq_in p) frm of None \<Rightarrow> empty_in | Some e \<Rightarrow> e);
          secs = pi_secrets e @ [sec];
          secs = (if e2ePQMaxSecrets < length secs then drop (length secs - e2ePQMaxSecrets) secs else secs);
          e = e\<lparr>pi_touched := now, pi_offers := pi_offers e @ [now], pi_lastEKHash := h8,
                pi_lastReply := Some reply, pi_secrets := secs\<rparr>
      in (reply, p\<lparr>pq_in := gput frm e (pq_room pi_touched frm (pq_in p))\<rparr>))"

definition onOffer ::
  "('pk, 'sk) kem \<Rightarrow> (byte list \<Rightarrow> byte list) \<Rightarrow> byte list \<Rightarrow> 'sk e2ePQ \<Rightarrow> node_key \<Rightarrow> byte list \<Rightarrow> go_time
   \<Rightarrow> (e2epq_error + byte list) \<times> 'sk e2ePQ" where
  "onOffer K sha seed p frm ek now =
     (let h8 = ekHash8 sha ek in
      case onOffer_check p frm h8 now of
        (Some r, p') \<Rightarrow> (r, p')
      | (None, p') \<Rightarrow>
          if length ek \<noteq> publicKeySize K then (Inl E2EPQBadKey, p')
          else case unmarshalBinaryPub K ek of
              None \<Rightarrow> (Inl E2EPQKem, p')
            | Some pk \<Rightarrow> (case encapsulate K pk seed of
                None \<Rightarrow> (Inl E2EPQKem, p')
              | Some (ct, ss) \<Rightarrow>
                  let (reply, p'') = onOffer_store sha p' frm h8 ct ss now in (Inr reply, p'')))"

section \<open>Completing, looking up, resetting\<close>

text \<open>Before the mutex is released: the private key of the pending offer the reply matches.\<close>

definition onReply_pending :: "('pk, 'sk) kem \<Rightarrow> 'sk e2ePQ \<Rightarrow> node_key \<Rightarrow> byte list \<Rightarrow> 'sk option" where
  "onReply_pending K p frm body =
     (if length body \<noteq> 8 + ciphertextSize K then None
      else case gget (pq_out p) frm of
          None \<Rightarrow> None
        | Some e \<Rightarrow> if po_dk e = None \<or> po_ekHash e \<noteq> take 8 body then None else po_dk e)"

text \<open>After it is taken again. Private keys are compared by value; in the code, by pointer.\<close>

definition onReply_store ::
  "(byte list \<Rightarrow> byte list) \<Rightarrow> 'sk e2ePQ \<Rightarrow> node_key \<Rightarrow> 'sk \<Rightarrow> byte list \<Rightarrow> go_time
   \<Rightarrow> e2epq_error option \<times> 'sk e2ePQ" where
  "onReply_store sha p frm dk ss now =
     (case gget (pq_out p) frm of
        None \<Rightarrow> (Some E2EPQBadReply, p)
      | Some e \<Rightarrow>
          if po_dk e \<noteq> Some dk then (Some E2EPQBadReply, p)
          else (None, p\<lparr>pq_out := gput frm (e\<lparr>po_cur := Some (newE2EPQSecret sha ss now), po_dk := None,
                   po_ek := [], po_lastSent := 0, po_touched := now\<rparr>) (pq_out p)\<rparr>))"

definition onReply ::
  "('pk, 'sk) kem \<Rightarrow> (byte list \<Rightarrow> byte list) \<Rightarrow> 'sk e2ePQ \<Rightarrow> node_key \<Rightarrow> byte list \<Rightarrow> go_time
   \<Rightarrow> e2epq_error option \<times> 'sk e2ePQ" where
  "onReply K sha p frm body now =
     (case onReply_pending K p frm body of
        None \<Rightarrow> (Some E2EPQBadReply, p)
      | Some dk \<Rightarrow> (case decapsulate K dk (drop 8 body) of
          None \<Rightarrow> (Some E2EPQKem, p)
        | Some ss \<Rightarrow> onReply_store sha p frm dk ss now))"

text \<open>The first secret with the given id: its bytes, unless a newer one has superseded it.\<close>

fun secret_scan :: "byte list \<Rightarrow> go_time \<Rightarrow> e2ePQSecret list \<Rightarrow> byte list option" where
  "secret_scan tag now [] = None"
| "secret_scan tag now (s # rest) =
     (if pqs_id s \<noteq> tag then secret_scan tag now rest
      else case rest of
          [] \<Rightarrow> Some (pqs_ss s)
        | nxt # _ \<Rightarrow> if e2ePQKeepOld < time_sub now (pqs_born nxt) then None else Some (pqs_ss s))"

definition secretFor ::
  "'sk e2ePQ \<Rightarrow> node_key \<Rightarrow> byte list \<Rightarrow> go_time \<Rightarrow> byte list option \<times> 'sk e2ePQ" where
  "secretFor p frm tag now =
     (case gget (pq_in p) frm of
        None \<Rightarrow> (None, p)
      | Some e \<Rightarrow> (case secret_scan tag now (pi_secrets e) of
          None \<Rightarrow> (None, p)
        | Some ss \<Rightarrow> (Some ss, p\<lparr>pq_in := gput frm (e\<lparr>pi_touched := now\<rparr>) (pq_in p)\<rparr>)))"

definition onReset :: "'sk e2ePQ \<Rightarrow> node_key \<Rightarrow> byte list \<Rightarrow> 'sk e2ePQ" where
  "onReset p frm tag =
     (case gget (pq_out p) frm of
        None \<Rightarrow> p
      | Some e \<Rightarrow> (case po_cur e of
          None \<Rightarrow> p
        | Some c \<Rightarrow> if pqs_id c = tag then p\<lparr>pq_out := gput frm (e\<lparr>po_cur := None\<rparr>) (pq_out p)\<rparr> else p))"

definition shouldReset :: "'sk e2ePQ \<Rightarrow> node_key \<Rightarrow> go_time \<Rightarrow> bool \<times> 'sk e2ePQ" where
  "shouldReset p to now =
     (let m = pq_room pi_touched to (pq_in p);
          e = (case gget (pq_in p) to of None \<Rightarrow> empty_in\<lparr>pi_touched := now\<rparr> | Some e \<Rightarrow> e)
      in if time_sub now (pi_lastReset e) < e2ePQResetGap then (False, p\<lparr>pq_in := gput to e m\<rparr>)
         else (True, p\<lparr>pq_in := gput to (e\<lparr>pi_lastReset := now\<rparr>) m\<rparr>))"

definition resetPayload :: "byte list \<Rightarrow> byte list" where
  "resetPayload tag = e2eKindReset # tag"


section \<open>The tables stay bounded\<close>

definition in_ok :: "e2ePQIn \<Rightarrow> bool" where
  "in_ok e \<longleftrightarrow> length (pi_secrets e) \<le> e2ePQMaxSecrets \<and> length (pi_offers e) \<le> e2ePQOffersPerMin"

definition peers_ok :: "(node_key \<times> 'v) list \<Rightarrow> bool" where
  "peers_ok m \<longleftrightarrow> gwf m \<and> length m \<le> e2ePQMaxPeers"

definition pq_inv :: "'sk e2ePQ \<Rightarrow> bool" where
  "pq_inv p \<longleftrightarrow> peers_ok (pq_out p) \<and> peers_ok (pq_in p) \<and> (\<forall>(k, e) \<in> set (pq_in p). in_ok e)"

lemma oldest_entry_member:
  "m \<noteq> [] \<Longrightarrow> \<exists>k t. oldest_entry touched m = Some (k, t) \<and> k \<in> fst ` set m"
proof (induction m rule: rev_induct)
  case (snoc x m)
  obtain k v where x: "x = (k, v)" by (cases x)
  show ?case
  proof (cases "m = []")
    case True
    then show ?thesis by (simp add: x oldest_entry_def)
  next
    case False
    with snoc.IH obtain k0 t0 where "oldest_entry touched m = Some (k0, t0)" "k0 \<in> fst ` set m" by blast
    then show ?thesis by (auto simp: x oldest_entry_def)
  qed
qed simp

lemma length_gdel_member: "gwf m \<Longrightarrow> k \<in> fst ` set m \<Longrightarrow> length (gdel k m) < length m"
  by (force simp: AList.delete_eq intro!: length_filter_less)

lemma pq_room_ok:
  assumes "peers_ok m"
  shows "peers_ok (gput k v (pq_room touched k m))"
    and "set (pq_room touched k m) \<subseteq> set m"
proof -
  have wf: "gwf m" and len: "length m \<le> e2ePQMaxPeers" using assms by (auto simp: peers_ok_def)
  have "pq_room touched k m = m \<and> (gget m k \<noteq> None \<or> length m < e2ePQMaxPeers) \<or>
    (\<exists>k0. pq_room touched k m = gdel k0 m \<and> length (gdel k0 m) < length m)"
  proof (cases "gget m k = None \<and> e2ePQMaxPeers \<le> length m")
    case True
    then have "m \<noteq> []" by (auto simp: e2ePQMaxPeers_def)
    then obtain k0 t where "oldest_entry touched m = Some (k0, t)" "k0 \<in> fst ` set m"
      using oldest_entry_member by blast
    with True wf show ?thesis
      by (intro disjI2 exI [of _ k0]) (simp add: pq_room_def pruneOldest_def length_gdel_member)
  qed (auto simp: pq_room_def)
  then show "peers_ok (gput k v (pq_room touched k m))" "set (pq_room touched k m) \<subseteq> set m"
    using wf len by (auto simp: peers_ok_def length_gput gwf_gput gwf_gdel set_gdel)
qed

lemma peers_ok_gput: "peers_ok m \<Longrightarrow> gget m k = Some e \<Longrightarrow> peers_ok (gput k v m)"
  by (auto simp: peers_ok_def length_gput gwf_gput)

lemma pq_inv_out: "pq_inv p \<Longrightarrow> peers_ok m \<Longrightarrow> pq_inv (p\<lparr>pq_out := m\<rparr>)"
  by (simp add: pq_inv_def)

lemma pq_inv_in: "pq_inv p \<Longrightarrow> in_ok e \<Longrightarrow> gget (pq_in p) k = Some e0 \<Longrightarrow> pq_inv (p\<lparr>pq_in := gput k e (pq_in p)\<rparr>)"
  using set_gput_subset [of k e "pq_in p"] by (auto simp: pq_inv_def peers_ok_gput)

lemma pq_inv_new_in: "pq_inv p \<Longrightarrow> in_ok e \<Longrightarrow> pq_inv (p\<lparr>pq_in := gput k e (pq_room touched k (pq_in p))\<rparr>)"
  using set_gput_subset [of k e "pq_room touched k (pq_in p)"] pq_room_ok(1) [of "pq_in p" k e touched]
    pq_room_ok(2) [of "pq_in p" touched k]
  by (fastforce simp: pq_inv_def)

lemma pq_inv_entry: "pq_inv p \<Longrightarrow> gget (pq_in p) k = Some e \<Longrightarrow> in_ok e"
  by (auto simp: pq_inv_def dest: map_of_SomeD)

lemma outbound_inv: "pq_inv p \<Longrightarrow> pq_inv (snd (outbound K sha seed p to now))"
  by (simp add: outbound_def Let_def case_prod_beta pq_inv_def pq_room_ok(1))

lemma onOffer_check_inv:
  assumes "pq_inv p" and "onOffer_check p frm h8 now = (r, p')"
  shows "pq_inv p' \<and> (r = None \<longrightarrow> (\<forall>e. gget (pq_in p') frm = Some e \<longrightarrow> length (pi_offers e) < e2ePQOffersPerMin))"
proof (cases "gget (pq_in p) frm")
  case None
  with assms show ?thesis by (simp add: onOffer_check_def)
next
  case (Some e)
  from pq_inv_entry [OF assms(1) Some] have "in_ok e" .
  then have "in_ok (e\<lparr>pi_touched := now\<rparr>)" "in_ok (e\<lparr>pi_offers := filter (\<lambda>t. time_sub now t < minute) (pi_offers e)\<rparr>)"
    by (auto simp: in_ok_def intro: le_trans [OF length_filter_le])
  with Some assms show ?thesis
    by (auto simp: onOffer_check_def Let_def pq_inv_in gget_gput split: option.splits if_splits)
qed

lemma onOffer_store_inv:
  assumes "pq_inv p" and "\<And>e. gget (pq_in p) frm = Some e \<Longrightarrow> length (pi_offers e) < e2ePQOffersPerMin"
  shows "pq_inv (snd (onOffer_store sha p frm h8 ct ss now))"
proof -
  have "length (pi_offers (case gget (pq_in p) frm of None \<Rightarrow> empty_in | Some e \<Rightarrow> e)) < e2ePQOffersPerMin"
    using assms(2) by (auto simp: empty_in_def e2ePQOffersPerMin_def split: option.splits)
  then show ?thesis
    unfolding onOffer_store_def Let_def snd_conv
    by (intro pq_inv_new_in assms(1)) (simp add: in_ok_def e2ePQMaxSecrets_def)
qed

lemma onOffer_inv: "pq_inv p \<Longrightarrow> pq_inv (snd (onOffer K sha seed p frm ek now))"
proof -
  assume inv: "pq_inv p"
  obtain r p' where r: "onOffer_check p frm (ekHash8 sha ek) now = (r, p')" by fastforce
  note chk = onOffer_check_inv [OF inv r]
  show ?thesis
  proof (cases r)
    case None
    with chk have "pq_inv (snd (onOffer_store sha p' frm (ekHash8 sha ek) ct ss now))" for ct ss
      by (simp add: onOffer_store_inv)
    with r chk None show ?thesis by (simp add: onOffer_def Let_def case_prod_beta split: option.split)
  qed (use r chk in \<open>simp add: onOffer_def Let_def\<close>)
qed

lemma onReply_inv: "pq_inv p \<Longrightarrow> pq_inv (snd (onReply K sha p frm body now))"
  by (auto simp: onReply_def onReply_store_def pq_inv_out peers_ok_gput split: option.splits)
    (auto simp: pq_inv_def peers_ok_gput)

lemma secretFor_inv: "pq_inv p \<Longrightarrow> pq_inv (snd (secretFor p frm tag now))"
  using pq_inv_entry [of p frm] by (auto simp: secretFor_def in_ok_def pq_inv_in split: option.splits)

lemma onReset_inv: "pq_inv p \<Longrightarrow> pq_inv (onReset p frm tag)"
  by (auto simp: onReset_def pq_inv_def peers_ok_gput split: option.splits)

lemma shouldReset_inv: "pq_inv p \<Longrightarrow> pq_inv (snd (shouldReset p to now))"
  using pq_inv_entry [of p to]
  by (auto simp: shouldReset_def Let_def in_ok_def empty_in_def pq_inv_new_in split: option.splits)

section \<open>Runs\<close>

text \<open>The calls other parts of the node make on its exchange state, in any order.\<close>

datatype pq_event = EvOutbound "byte list" node_key go_time | EvOffer "byte list" node_key "byte list" go_time
  | EvReply node_key "byte list" go_time | EvLookup node_key "byte list" go_time
  | EvReset node_key "byte list" | EvShouldReset node_key go_time

fun pq_step :: "('pk, 'sk) kem \<Rightarrow> (byte list \<Rightarrow> byte list) \<Rightarrow> 'sk e2ePQ \<Rightarrow> pq_event \<Rightarrow> 'sk e2ePQ" where
  "pq_step K sha p (EvOutbound seed to now) = snd (outbound K sha seed p to now)"
| "pq_step K sha p (EvOffer seed frm ek now) = snd (onOffer K sha seed p frm ek now)"
| "pq_step K sha p (EvReply frm body now) = snd (onReply K sha p frm body now)"
| "pq_step K sha p (EvLookup frm tag now) = snd (secretFor p frm tag now)"
| "pq_step K sha p (EvReset frm tag) = onReset p frm tag"
| "pq_step K sha p (EvShouldReset to now) = snd (shouldReset p to now)"

definition pq_run :: "('pk, 'sk) kem \<Rightarrow> (byte list \<Rightarrow> byte list) \<Rightarrow> pq_event list \<Rightarrow> 'sk e2ePQ" where
  "pq_run K sha evs = foldl (pq_step K sha) newE2EPQ evs"

lemmas pq_op_invs = outbound_inv onOffer_inv onReply_inv secretFor_inv onReset_inv shouldReset_inv

lemma pq_run_inv: "pq_inv (pq_run K sha evs)"
proof -
  have "pq_inv p \<Longrightarrow> pq_inv (foldl (pq_step K sha) p evs)" for p
  proof (induction evs arbitrary: p)
    case (Cons ev evs)
    then have "pq_inv (pq_step K sha p ev)" by (cases ev) (simp_all add: pq_op_invs)
    then show ?case by (simp add: Cons.IH)
  qed simp
  moreover have "pq_inv newE2EPQ" by (simp add: newE2EPQ_def pq_inv_def peers_ok_def)
  ultimately show ?thesis by (simp add: pq_run_def)
qed

text \<open>A pending private key belongs to the public key on offer.\<close>

definition pend_ok :: "('pk, 'sk) kem \<Rightarrow> (byte list \<Rightarrow> byte list) \<Rightarrow> 'sk e2ePQOut \<Rightarrow> bool" where
  "pend_ok K sha e \<longleftrightarrow> (\<forall>sk. po_dk e = Some sk \<longrightarrow>
     (\<exists>s pk. generateKeyPair K s = Some (pk, sk) \<and> marshalPub K pk = Some (po_ek e) \<and>
       po_ekHash e = ekHash8 sha (po_ek e)))"

lemma fresh_pair_ok: "fresh_pair K sha seed now e = Some e' \<Longrightarrow> pend_ok K sha e' \<and> po_dk e' \<noteq> None"
  unfolding fresh_pair_def pend_ok_def by (auto split: option.splits) blast

lemma outbound_entry_ok:
  assumes "pend_ok K sha e" and "outbound_entry K sha seed now e = ((cur, off), e')"
  shows "pend_ok K sha e' \<and> (\<forall>offer. off = Some offer \<longrightarrow> offer = e2eKindOffer # po_ek e' \<and> po_dk e' \<noteq> None)"
proof -
  define o2 where "o2 = (if po_dk e \<noteq> None \<and> e2ePQPendingMax < time_sub now (po_pendBorn e)
    then e\<lparr>po_dk := None, po_ek := []\<rparr> else e)"
  define o3 where "o3 = (if po_dk o2 = None then fresh_pair K sha seed now o2 else Some o2)"
  have o2: "pend_ok K sha o2" using assms(1) by (simp add: o2_def pend_ok_def)
  have o3: "pend_ok K sha e3 \<and> po_dk e3 \<noteq> None" if "o3 = Some e3" for e3
    using that o2 fresh_pair_ok by (fastforce simp: o3_def split: if_splits)
  have sent: "pend_ok K sha (e3\<lparr>po_lastSent := now\<rparr>) = pend_ok K sha e3" for e3 by (simp add: pend_ok_def)
  have "outbound_entry K sha seed now e =
    (if (case po_cur e of None \<Rightarrow> False | Some c \<Rightarrow> time_sub now (pqs_born c) < e2ePQRekey)
     then ((po_cur e, None), e)
     else case o3 of None \<Rightarrow> ((po_cur e, None), o2) | Some e3 \<Rightarrow>
       if po_lastSent e3 \<noteq> 0 \<and> time_sub now (po_lastSent e3) < e2ePQRetry then ((po_cur e, None), e3)
       else ((po_cur e, Some (e2eKindOffer # po_ek e3)), e3\<lparr>po_lastSent := now\<rparr>))"
    unfolding outbound_entry_def o3_def o2_def Let_def ..
  with assms o2 o3 sent show ?thesis by (cases o3) (auto split: if_splits)
qed

definition pends_ok :: "('pk, 'sk) kem \<Rightarrow> (byte list \<Rightarrow> byte list) \<Rightarrow> 'sk e2ePQ \<Rightarrow> bool" where
  "pends_ok K sha p \<longleftrightarrow> (\<forall>k e. gget (pq_out p) k = Some e \<longrightarrow> pend_ok K sha e)"

lemma pends_ok_put:
  "pends_ok K sha p \<Longrightarrow> pend_ok K sha e \<Longrightarrow> (\<And>k'. gget m k' = None \<or> gget m k' = gget (pq_out p) k')
   \<Longrightarrow> pends_ok K sha (p\<lparr>pq_out := gput k e m\<rparr>)"
  by (simp add: pends_ok_def gget_gput) (metis option.distinct(1))

lemma pq_room_get: "gget (pq_room touched k m) k' = None \<or> gget (pq_room touched k m) k' = gget m k'"
  by (simp add: pq_room_def pruneOldest_def gget_gdel split: option.split)

lemma outbound_pends:
  assumes "pends_ok K sha p" and "outbound K sha seed p to now = ((cur, off), p')"
  shows "pends_ok K sha p' \<and> (\<forall>offer. off = Some offer \<longrightarrow>
    (\<exists>e. gget (pq_out p') to = Some e \<and> offer = e2eKindOffer # po_ek e \<and> po_dk e \<noteq> None \<and> pend_ok K sha e))"
proof -
  let ?o1 = "(case gget (pq_out p) to of None \<Rightarrow> empty_out | Some e \<Rightarrow> e)\<lparr>po_touched := now\<rparr>"
  obtain e where e: "outbound_entry K sha seed now ?o1 = ((cur, off), e)"
    and p': "p' = p\<lparr>pq_out := gput to e (pq_room po_touched to (pq_out p))\<rparr>"
    using assms(2) by (auto simp: outbound_def Let_def split: prod.splits)
  have "pend_ok K sha ?o1"
    using assms(1) by (auto simp: pends_ok_def pend_ok_def empty_out_def split: option.splits)
  from outbound_entry_ok [OF this e] have e_ok: "pend_ok K sha e"
    "\<forall>offer. off = Some offer \<longrightarrow> offer = e2eKindOffer # po_ek e \<and> po_dk e \<noteq> None" by auto
  moreover have "pends_ok K sha p'"
    unfolding p' by (rule pends_ok_put [OF assms(1) e_ok(1) pq_room_get])
  ultimately show ?thesis by (auto simp: p' gget_gput)
qed

lemma onOffer_out: "pq_out (snd (onOffer K sha seed p frm ek now)) = pq_out p"
proof -
  have "pq_out (snd (onOffer_check p frm h now)) = pq_out p" for h
    by (simp add: onOffer_check_def Let_def split: option.split)
  then show ?thesis
    by (auto simp: onOffer_def onOffer_store_def Let_def case_prod_beta split: option.split)
qed

lemma onReply_pends: "pends_ok K sha p \<Longrightarrow> pends_ok K sha (snd (onReply K sha p frm body now))"
  by (auto simp: onReply_def onReply_store_def pends_ok_def pend_ok_def gget_gput split: option.splits)

lemma pq_step_pends: "pends_ok K sha p \<Longrightarrow> pends_ok K sha (pq_step K sha p ev)"
proof (cases ev)
  case (EvOutbound seed to now)
  assume "pends_ok K sha p"
  with EvOutbound outbound_pends show ?thesis by (metis pq_step.simps(1) prod.collapse)
next
  case (EvReset frm tag)
  assume "pends_ok K sha p"
  with EvReset show ?thesis
    by (auto simp: onReset_def pends_ok_def pend_ok_def gget_gput split: option.splits)
next
  case (EvReply frm body now)
  assume "pends_ok K sha p"
  with EvReply show ?thesis by (simp add: onReply_pends)
qed (simp_all add: pends_ok_def onOffer_out secretFor_def shouldReset_def Let_def split: option.split)

lemma pq_run_pends: "pends_ok K sha (pq_run K sha evs)"
  by (induction evs rule: rev_induct)
    (simp_all add: pq_run_def pq_step_pends, simp add: pends_ok_def newE2EPQ_def)

text \<open>What an accepted fresh offer leaves behind, and that its repetition changes nothing of it.\<close>

definition answered :: "'sk e2ePQ \<Rightarrow> node_key \<Rightarrow> byte list \<Rightarrow> byte list \<Rightarrow> e2ePQSecret list \<Rightarrow> bool" where
  "answered p frm h8 reply secs \<longleftrightarrow> (\<exists>e. gget (pq_in p) frm = Some e \<and> pi_lastEKHash e = h8 \<and>
     pi_lastReply e = Some reply \<and> pi_secrets e = secs)"

lemma onOffer_repeat:
  assumes "answered p frm (ekHash8 sha ek) reply secs"
  shows "fst (onOffer K sha seed p frm ek now) = Inr reply"
    and "answered (snd (onOffer K sha seed p frm ek now)) frm (ekHash8 sha ek) reply secs"
  using assms by (auto simp: answered_def onOffer_def onOffer_check_def Let_def gget_gput)

lemma onOffer_repeats:
  "answered p frm (ekHash8 sha ek) reply secs \<Longrightarrow>
   answered (foldl (\<lambda>p (seed, t). snd (onOffer K sha seed p frm ek t)) p dups) frm (ekHash8 sha ek) reply secs"
  by (induction dups arbitrary: p) (simp_all add: onOffer_repeat(2) case_prod_beta)

lemma onOffer_fresh:
  assumes "onOffer K sha seed p frm ek now = (Inr reply, p')"
    and "case gget (pq_in p) frm of None \<Rightarrow> True | Some e \<Rightarrow> pi_lastEKHash e \<noteq> ekHash8 sha ek"
  obtains pk ct ss old where "unmarshalBinaryPub K ek = Some pk" "encapsulate K pk seed = Some (ct, ss)"
    "reply = e2eKindReply # ekHash8 sha ek @ ct"
    "answered p' frm (ekHash8 sha ek) reply (old @ [newE2EPQSecret sha ss now])"
    "set old \<subseteq> (case gget (pq_in p) frm of None \<Rightarrow> {} | Some e \<Rightarrow> set (pi_secrets e))"
proof -
  obtain r p0 where r: "onOffer_check p frm (ekHash8 sha ek) now = (r, p0)" by fastforce
  have r0: "r = None \<or> (\<exists>x. r = Some (Inl x))"
    and secs: "(case gget (pq_in p0) frm of None \<Rightarrow> [] | Some e \<Rightarrow> pi_secrets e) =
      (case gget (pq_in p) frm of None \<Rightarrow> [] | Some e \<Rightarrow> pi_secrets e)"
    using r assms(2) by (auto simp: onOffer_check_def Let_def gget_gput split: option.splits if_splits)
  from assms(1) r r0 obtain pk ct ss where k: "unmarshalBinaryPub K ek = Some pk" "encapsulate K pk seed = Some (ct, ss)"
    and st: "onOffer_store sha p0 frm (ekHash8 sha ek) ct ss now = (reply, p')"
    by (auto simp: onOffer_def Let_def split: option.splits if_splits prod.splits)
  let ?e = "case gget (pq_in p0) frm of None \<Rightarrow> empty_in | Some e \<Rightarrow> e"
  let ?n = "Suc (length (pi_secrets ?e)) - e2ePQMaxSecrets"
  have "drop ?n (pi_secrets ?e @ [s]) = drop ?n (pi_secrets ?e) @ [s]" for s by (simp add: e2ePQMaxSecrets_def)
  then have "answered p' frm (ekHash8 sha ek) reply (drop ?n (pi_secrets ?e) @ [newE2EPQSecret sha ss now])"
    "reply = e2eKindReply # ekHash8 sha ek @ ct"
    using st by (auto simp: onOffer_store_def Let_def answered_def gget_gput)
  moreover have "set (drop ?n (pi_secrets ?e)) \<subseteq> (case gget (pq_in p) frm of None \<Rightarrow> {} | Some e \<Rightarrow> set (pi_secrets e))"
    using set_drop_subset [of ?n "pi_secrets ?e"] secs
    by (auto simp: empty_in_def split: option.splits)
  ultimately show thesis using that k by blast
qed

lemma secret_scan_newest:
  "\<forall>s \<in> set old. pqs_id s \<noteq> pqs_id sec \<Longrightarrow> secret_scan (pqs_id sec) now (old @ [sec]) = Some (pqs_ss sec)"
  by (induction old) auto

section \<open>Properties\<close>

text \<open>
  The tables of the exchange are bounded. After any sequence of calls, whatever offers,
  replies and resets other nodes send, a node keeps entries for at most 4096 peers in each
  direction and, per sender, at most 4 secrets and 6 recent offers.
\<close>

theorem pq_tables_bounded:
  "length (pq_out (pq_run K sha evs)) \<le> 4096 \<and> length (pq_in (pq_run K sha evs)) \<le> 4096 \<and>
   list_all (\<lambda>(k, e). length (pi_secrets e) \<le> 4 \<and> length (pi_offers e) \<le> 6) (pq_in (pq_run K sha evs))"
  using pq_run_inv [of K sha evs]
  by (auto simp: pq_inv_def peers_ok_def in_ok_def list_all_iff e2ePQMaxPeers_def e2ePQMaxSecrets_def e2ePQOffersPerMin_def)

text \<open>
  C24: Both ends of an exchange hold the same secret. If node A, after any history, sends an
  offer to B, B answers it as a new one and A accepts the answer, then A seals with a secret
  that B finds under the id A tags it with, at any later time and however often the network
  repeats the offer in between; the repetitions are all answered alike. The only exception is
  an older secret of A at B with the same 4-byte id.
\<close>

theorem pq_exchange_agrees:
  assumes kem_key: "\<And>s pk sk ek. generateKeyPair K s = Some (pk, sk) \<Longrightarrow> marshalPub K pk = Some ek \<Longrightarrow>
      unmarshalBinaryPub K ek = Some pk"
    and kem_enc: "\<And>s pk sk r ct ss. generateKeyPair K s = Some (pk, sk) \<Longrightarrow> encapsulate K pk r = Some (ct, ss) \<Longrightarrow>
      decapsulate K sk ct = Some ss"
    and sha_len: "\<And>x. length (sha x) = 32"
    and offer: "outbound K sha seed (pq_run K sha evsA) B t1 = ((cur, Some offer), pA)"
    and fresh: "case gget (pq_in (pq_run K sha evsB)) A of None \<Rightarrow> True | Some e \<Rightarrow> pi_lastEKHash e \<noteq> ekHash8 sha (tl offer)"
    and reply: "onOffer K sha seed' (pq_run K sha evsB) A (tl offer) t2 = (Inr reply, pB)"
    and done_: "onReply K sha pA B (tl reply) t3 = (None, pA')"
    and dups: "pB' = foldl (\<lambda>p (s, t). snd (onOffer K sha s p A (tl offer) t)) pB reps"
  shows "\<exists>e sec. gget (pq_out pA') B = Some e \<and> po_cur e = Some sec \<and>
    fst (onOffer K sha s' pB' A (tl offer) t4) = Inr reply \<and>
    (fst (secretFor pB' A (pqs_id sec) t5) = Some (pqs_ss sec) \<or>
     pqs_id sec \<in> pqs_id ` (case gget (pq_in (pq_run K sha evsB)) A of None \<Rightarrow> {} | Some e \<Rightarrow> set (pi_secrets e)))"
proof -
  from outbound_pends [OF pq_run_pends offer] obtain eA dk where eA: "gget (pq_out pA) B = Some eA"
    "tl offer = po_ek eA" "po_dk eA = Some dk" "pend_ok K sha eA" by auto
  then obtain s pk where pair: "generateKeyPair K s = Some (pk, dk)" "marshalPub K pk = Some (tl offer)"
    "po_ekHash eA = ekHash8 sha (tl offer)" by (auto simp: pend_ok_def)
  from onOffer_fresh [OF reply fresh] obtain pk' ct ss old where B:
    "unmarshalBinaryPub K (tl offer) = Some pk'" "encapsulate K pk' seed' = Some (ct, ss)"
    "reply = e2eKindReply # ekHash8 sha (tl offer) @ ct"
    "answered pB A (ekHash8 sha (tl offer)) reply (old @ [newE2EPQSecret sha ss t2])"
    "set old \<subseteq> (case gget (pq_in (pq_run K sha evsB)) A of None \<Rightarrow> {} | Some e \<Rightarrow> set (pi_secrets e))" by metis
  from kem_key [OF pair(1,2)] B(1) have "pk' = pk" by simp
  with kem_enc [OF pair(1)] B(2) have dec: "decapsulate K dk ct = Some ss" by simp
  let ?sec = "newE2EPQSecret sha ss t3"
  have same: "pqs_id ?sec = pqs_id (newE2EPQSecret sha ss t2)" "pqs_ss ?sec = pqs_ss (newE2EPQSecret sha ss t2)"
    by (simp_all add: newE2EPQSecret_def Let_def)
  have "drop 8 (ekHash8 sha x @ ct) = ct" for x by (simp add: ekHash8_def sha_len)
  with done_ eA pair(3) dec have cur: "gget (pq_out pA') B = Some (eA\<lparr>po_cur := Some ?sec, po_dk := None, po_ek := [],
      po_lastSent := 0, po_touched := t3\<rparr>)"
    by (auto simp: onReply_def onReply_pending_def onReply_store_def B(3) gget_gput split: if_splits)
  have ans: "answered pB' A (ekHash8 sha (tl offer)) reply (old @ [newE2EPQSecret sha ss t2])"
    unfolding dups by (rule onOffer_repeats [OF B(4)])
  have "fst (secretFor pB' A (pqs_id ?sec) t5) = Some (pqs_ss ?sec)" if "pqs_id ?sec \<notin> pqs_id ` set old"
  proof -
    have "\<forall>s \<in> set old. pqs_id s \<noteq> pqs_id (newE2EPQSecret sha ss t2)" using that unfolding same by (metis imageI)
    then show ?thesis using ans by (auto simp: answered_def secretFor_def same secret_scan_newest)
  qed
  with B(5) have "fst (secretFor pB' A (pqs_id ?sec) t5) = Some (pqs_ss ?sec) \<or>
     pqs_id ?sec \<in> pqs_id ` (case gget (pq_in (pq_run K sha evsB)) A of None \<Rightarrow> {} | Some e \<Rightarrow> set (pi_secrets e))"
    by blast
  with cur onOffer_repeat(1) [OF ans] show ?thesis by simp
qed

text \<open>A toy KEM for the witness: a one-byte key pair masks the secret.\<close>

definition demo_kem :: "(byte, byte) kem" where
  "demo_kem = \<lparr>publicKeySize = 1, ciphertextSize = 32, generateKeyPair = (\<lambda>s. Some (hd s, hd s)),
     marshalPub = (\<lambda>b. Some [b]), unmarshalBinaryPub = (\<lambda>x. Some (hd x)),
     encapsulate = (\<lambda>pk r. if length r = 32 then Some (r, map (\<lambda>b. b XOR pk) r) else None),
     decapsulate = (\<lambda>sk ct. Some (map (\<lambda>b. b XOR sk) ct))\<rparr>"

definition demo_sha :: "byte list \<Rightarrow> byte list" where
  "demo_sha x = take 32 (x @ replicate 32 0)"

definition demo_A :: node_key where "demo_A = replicate 32 0xA"
definition demo_B :: node_key where "demo_B = replicate 32 0xB"
definition demo_seed :: "byte list" where "demo_seed = replicate 32 7"

lemma demo_kem_simps [simp]:
  "generateKeyPair demo_kem s = Some (hd s, hd s)" "marshalPub demo_kem b = Some [b]"
  "unmarshalBinaryPub demo_kem x = Some (hd x)"
  "encapsulate demo_kem pk r = (if length r = 32 then Some (r, map (\<lambda>b. b XOR pk) r) else None)"
  "decapsulate demo_kem sk ct = Some (map (\<lambda>b. b XOR sk) ct)"
  "publicKeySize demo_kem = 1" "ciphertextSize demo_kem = 32"
  by (simp_all add: demo_kem_def)

theorem pq_exchange_agrees_witness:
  "\<exists>cur offer pA reply pB pA' e sec.
     outbound demo_kem demo_sha [9] (pq_run demo_kem demo_sha []) demo_B 100 = ((cur, Some offer), pA) \<and>
     onOffer demo_kem demo_sha demo_seed (pq_run demo_kem demo_sha []) demo_A (tl offer) 200 = (Inr reply, pB) \<and>
     onReply demo_kem demo_sha pA demo_B (tl reply) 300 = (None, pA') \<and>
     gget (pq_out pA') demo_B = Some e \<and> po_cur e = Some sec \<and>
     fst (secretFor (snd (onOffer demo_kem demo_sha [] pB demo_A (tl offer) 250)) demo_A (pqs_id sec) 400) = Some (pqs_ss sec)"
proof -
  have 1: "\<exists>cur offer pA. outbound demo_kem demo_sha [9] (pq_run demo_kem demo_sha []) demo_B 100 = ((cur, Some offer), pA) \<and>
      tl offer = [9] \<and> (\<exists>e. gget (pq_out pA) demo_B = Some e \<and> po_dk e = Some 9 \<and> po_ekHash e = ekHash8 demo_sha [9])"
    by (simp add: outbound_def outbound_entry_def fresh_pair_def empty_out_def pq_run_def newE2EPQ_def Let_def pq_room_def
        e2ePQMaxPeers_def)
  have 2: "\<exists>reply pB. onOffer demo_kem demo_sha demo_seed (pq_run demo_kem demo_sha []) demo_A [9] 200 = (Inr reply, pB) \<and>
      tl reply = ekHash8 demo_sha [9] @ demo_seed"
    by (simp add: onOffer_def onOffer_check_def onOffer_store_def pq_run_def newE2EPQ_def Let_def demo_seed_def)
  from 1 2 obtain cur offer pA reply pB where A: "outbound demo_kem demo_sha [9] (pq_run demo_kem demo_sha []) demo_B 100 = ((cur, Some offer), pA)"
      "tl offer = [9]" "\<exists>e. gget (pq_out pA) demo_B = Some e \<and> po_dk e = Some 9 \<and> po_ekHash e = ekHash8 demo_sha [9]"
    and B: "onOffer demo_kem demo_sha demo_seed (pq_run demo_kem demo_sha []) demo_A [9] 200 = (Inr reply, pB)"
      "tl reply = ekHash8 demo_sha [9] @ demo_seed" by blast
  have h: "take 8 (ekHash8 demo_sha [9]) = ekHash8 demo_sha [9]" "length (ekHash8 demo_sha [9]) = 8"
    by (simp_all add: ekHash8_def demo_sha_def)
  then obtain pA' where C: "onReply demo_kem demo_sha pA demo_B (tl reply) 300 = (None, pA')"
    using A(3) by (auto simp: onReply_def onReply_pending_def onReply_store_def B(2) demo_seed_def)
  have "\<exists>e sec. gget (pq_out pA') demo_B = Some e \<and> po_cur e = Some sec \<and>
      fst (onOffer demo_kem demo_sha [] (snd (onOffer demo_kem demo_sha [] pB demo_A (tl offer) 250)) demo_A (tl offer) 260) = Inr reply \<and>
      (fst (secretFor (snd (onOffer demo_kem demo_sha [] pB demo_A (tl offer) 250)) demo_A (pqs_id sec) 400) = Some (pqs_ss sec) \<or>
       pqs_id sec \<in> pqs_id ` (case gget (pq_in (pq_run demo_kem demo_sha [])) demo_A of None \<Rightarrow> {} | Some e \<Rightarrow> set (pi_secrets e)))"
    by (rule pq_exchange_agrees [where reps = "[([], 250)]", OF _ _ _ A(1) _ _ C])
      (use B(1) in \<open>auto simp: A(2) demo_sha_def pq_run_def newE2EPQ_def xor.assoc comp_def split: if_splits\<close>)
  then have "\<exists>e sec. gget (pq_out pA') demo_B = Some e \<and> po_cur e = Some sec \<and>
      fst (secretFor (snd (onOffer demo_kem demo_sha [] pB demo_A (tl offer) 250)) demo_A (pqs_id sec) 400) = Some (pqs_ss sec)"
    by (auto simp: pq_run_def newE2EPQ_def)
  with A B(1) C show ?thesis
    by (intro exI [of _ cur] exI [of _ offer] exI [of _ pA] exI [of _ reply] exI [of _ pB] exI [of _ pA']) simp
qed

end
