(* ===== verification/E2E_Relay.thy ===== *)
theory E2E_Relay
  imports E2E_PQ Bandwidth
begin

text \<open>
  End-to-end protection of relayed packets, \<open>client/e2erelay.go\<close>: the sealer with its rotating
  envelope keys and the opener with one replay window per key.

  The cryptography is the parameter record \<open>e2e_crypto\<close>; an AEAD is represented by its key, and
  reading 32 bytes from HKDF and keying ChaCha20-Poly1305 with them cannot fail. \<open>rnd\<close> is what
  \<open>crypto/rand\<close> returns, \<open>None\<close> for an error. \<open>open\<close> releases its mutex while it derives a key:
  it is \<open>open_begin\<close> up to there and \<open>open_commit\<close> after, and runs interleave the two freely. The
  lookup of a stored window and its use are one step.
\<close>

record e2e_crypto =
  x25519 :: "byte list \<Rightarrow> byte list \<Rightarrow> byte list option"
  basepoint :: "byte list"
  sha256 :: "byte list \<Rightarrow> byte list"
  hkdf_key :: "byte list \<Rightarrow> byte list \<Rightarrow> byte list \<Rightarrow> byte list"
  aead_seal :: "byte list \<Rightarrow> byte list \<Rightarrow> byte list \<Rightarrow> byte list \<Rightarrow> byte list"
  aead_open :: "byte list \<Rightarrow> byte list \<Rightarrow> byte list \<Rightarrow> byte list \<Rightarrow> byte list option"

record keypair =
  kp_priv :: "byte list"
  kp_pub :: node_key

definition e2eFrameType :: byte where "e2eFrameType = of_char (CHR ''Z'')"
definition e2eVersion :: byte where "e2eVersion = 1"
definition e2eOffHop :: nat where "e2eOffHop = 1"
definition e2eHeaderLen :: nat where "e2eHeaderLen = 90"
definition aeadOverhead :: nat where "aeadOverhead = 16"
definition e2eRotate :: duration where "e2eRotate = 2 * minute"
definition e2eMaxPackets :: nat where "e2eMaxPackets = 2 ^ 32"
definition e2eMaxSkew :: duration where "e2eMaxSkew = 15 * minute"
definition e2eRecvKeep :: duration where "e2eRecvKeep = 2 * e2eMaxSkew + e2eRotate + 5 * minute"
definition e2eMaxSendKeys :: nat where "e2eMaxSendKeys = 1024"
definition e2eMaxRecvKeys :: nat where "e2eMaxRecvKeys = 8192"
definition e2eNewKeysPerSec :: rat where "e2eNewKeysPerSec = 200"

lemmas e2e_durations = e2eRotate_def e2eMaxSkew_def e2eRecvKeep_def duration_defs

datatype e2e_error = E2EShort | E2EVersion | E2EStale | E2ELimit | E2EAuth | E2EReplay | E2ENoPQ

definition e2eLabel :: "byte list" where "e2eLabel = bytes_of ''apgo-e2e-relay-v1''"

definition e2eSalt :: "e2e_crypto \<Rightarrow> byte list \<Rightarrow> byte list" where
  "e2eSalt C psk = sha256 C (bytes_of ''OVLY-E2E-PSK-1:'' @ psk)"

definition e2eDeriveAEAD ::
  "e2e_crypto \<Rightarrow> byte list \<Rightarrow> byte list \<Rightarrow> byte list \<Rightarrow> byte list \<Rightarrow> node_key \<Rightarrow> node_key \<Rightarrow> byte list \<Rightarrow> byte list
   \<Rightarrow> byte list" where
  "e2eDeriveAEAD C dh1 dh2 pqss psk sender recipient eph pqid =
     hkdf_key C (dh1 @ dh2 @ pqss) (e2eSalt C psk) (e2eLabel @ sender @ recipient @ eph @ pqid)"

definition e2eAD :: "byte list \<Rightarrow> byte list" where
  "e2eAD hdr = (take e2eHeaderLen hdr)[e2eOffHop := 0]"

definition e2eNonce :: "u64 \<Rightarrow> byte list" where
  "e2eNonce ctr = [0, 0, 0, 0] @ put_u64 ctr"

section \<open>Sealing\<close>

type_synonym e2eSendKey = "node_key \<times> byte list"

record e2eSendState =
  ss_eph :: "byte list"
  ss_ts :: u32
  ss_born :: go_time
  ss_aead :: "byte list"
  ss_ctr :: u64

type_synonym e2eSealer = "(e2eSendKey \<times> e2eSendState) list"

definition newE2ESealer :: e2eSealer where "newE2ESealer = []"

definition pq_tag :: "e2ePQSecret option \<Rightarrow> byte list" where
  "pq_tag pq = (case pq of None \<Rightarrow> [0, 0, 0, 0] | Some s \<Rightarrow> pqs_id s)"

definition pq_bytes :: "e2ePQSecret option \<Rightarrow> byte list" where
  "pq_bytes pq = (case pq of None \<Rightarrow> [] | Some s \<Rightarrow> pqs_ss s)"

definition usable :: "go_time \<Rightarrow> e2eSendState \<Rightarrow> bool" where
  "usable now st \<longleftrightarrow> time_sub now (ss_born st) < e2eRotate \<and> unat (ss_ctr st) < e2eMaxPackets"

definition new_send_state ::
  "e2e_crypto \<Rightarrow> keypair \<Rightarrow> byte list \<Rightarrow> byte list option \<Rightarrow> node_key \<Rightarrow> e2ePQSecret option \<Rightarrow> go_time
   \<Rightarrow> e2eSendState option" where
  "new_send_state C self psk rnd to pq now =
     (case rnd of None \<Rightarrow> None
      | Some ephPriv \<Rightarrow> (case x25519 C ephPriv (basepoint C) of None \<Rightarrow> None
        | Some ephPub \<Rightarrow> (case x25519 C ephPriv to of None \<Rightarrow> None
          | Some dh1 \<Rightarrow> (case x25519 C (kp_priv self) to of None \<Rightarrow> None
            | Some dh2 \<Rightarrow> Some
                \<lparr>ss_eph = ephPub, ss_ts = of_int (unix_of now), ss_born = now,
                 ss_aead = e2eDeriveAEAD C dh1 dh2 (pq_bytes pq) psk (kp_pub self) to ephPub (pq_tag pq),
                 ss_ctr = 0\<rparr>))))"

text \<open>A full table drops its expired keys, and failing that the first key \<open>range\<close> meets.\<close>

definition sealer_room :: "go_time \<Rightarrow> e2eSealer \<Rightarrow> e2eSealer" where
  "sealer_room now m =
     (if e2eMaxSendKeys \<le> length m then
        let m1 = gdrop (\<lambda>k v. e2eRotate \<le> time_sub now (ss_born v)) m in
        if e2eMaxSendKeys \<le> length m1 then tl m1 else m1
      else m)"

definition sealer_state ::
  "e2e_crypto \<Rightarrow> keypair \<Rightarrow> byte list \<Rightarrow> byte list option \<Rightarrow> e2eSealer \<Rightarrow> node_key \<Rightarrow> e2ePQSecret option \<Rightarrow> go_time
   \<Rightarrow> e2eSendState option \<times> e2eSealer" where
  "sealer_state C self psk rnd z to pq now =
     (let k = (to, pq_tag pq);
          old = (case gget z k of None \<Rightarrow> None | Some st \<Rightarrow> if usable now st then Some st else None)
      in case old of
           Some st \<Rightarrow> (Some st, z)
         | None \<Rightarrow> (case new_send_state C self psk rnd to pq now of
             None \<Rightarrow> (None, z)
           | Some st \<Rightarrow> (Some st, gput k st (sealer_room now z))))"

definition seal_header ::
  "byte list \<Rightarrow> byte list \<Rightarrow> node_key \<Rightarrow> byte list \<Rightarrow> u32 \<Rightarrow> u64 \<Rightarrow> byte list \<Rightarrow> byte list" where
  "seal_header dst src sender eph ts ctr pqid =
     [e2eVersion, 0] @ dst @ src @ sender @ eph @ put_u32 ts @ put_u64 ctr @ pqid"

definition e2e_seal ::
  "e2e_crypto \<Rightarrow> keypair \<Rightarrow> byte list \<Rightarrow> byte list option \<Rightarrow> e2eSealer \<Rightarrow> node_key \<Rightarrow> byte list \<Rightarrow> byte list
   \<Rightarrow> e2ePQSecret option \<Rightarrow> byte list \<Rightarrow> go_time \<Rightarrow> byte list option \<times> e2eSealer" where
  "e2e_seal C self psk rnd z to dst src pq payload now =
     (case sealer_state C self psk rnd z to pq now of
        (None, z1) \<Rightarrow> (None, z1)
      | (Some st, z1) \<Rightarrow>
          let ctr = ss_ctr st + 1;
              z2 = gput (to, pq_tag pq) (st\<lparr>ss_ctr := ctr\<rparr>) z1;
              hdr = seal_header dst src (kp_pub self) (ss_eph st) (ss_ts st) ctr (pq_tag pq)
          in (Some (ctlMagic @ [e2eFrameType] @ hdr @ aead_seal C (ss_aead st) (e2eNonce ctr) payload (e2eAD hdr)), z2))"

section \<open>Opening\<close>

datatype e2eRecvKey = E2ERecvKey (rk_sender: node_key) (rk_eph: "byte list") (rk_pqid: "byte list")

record e2eRecvState =
  rs_aead :: "byte list"
  rs_ts :: go_time
  rs_win :: e2eWindow

record e2eBucket =
  bk_tokens :: rat
  bk_last :: go_time

record e2eOpener =
  op_m :: "(e2eRecvKey \<times> e2eRecvState) list"
  op_buckets :: "(node_key \<times> e2eBucket) list"

definition newE2EOpener :: e2eOpener where
  "newE2EOpener = \<lparr>op_m = [], op_buckets = []\<rparr>"

record e2eHeader =
  eh_hop :: byte
  eh_dst :: "byte list"
  eh_src :: "byte list"
  eh_sender :: node_key
  eh_eph :: "byte list"
  eh_ts :: u32
  eh_ctr :: u64
  eh_pqid :: "byte list"

definition hasPQ :: "e2eHeader \<Rightarrow> bool" where
  "hasPQ h \<longleftrightarrow> eh_pqid h \<noteq> [0, 0, 0, 0]"

definition recv_key :: "e2eHeader \<Rightarrow> e2eRecvKey" where
  "recv_key h = E2ERecvKey (eh_sender h) (eh_eph h) (eh_pqid h)"

definition parseE2E :: "byte list \<Rightarrow> e2e_error + (e2eHeader \<times> byte list)" where
  "parseE2E body =
     (if length body < e2eHeaderLen + aeadOverhead then Inl E2EShort
      else if body ! 0 \<noteq> e2eVersion then Inl E2EVersion
      else Inr (\<lparr>eh_hop = body ! 1, eh_dst = take 4 (drop 2 body), eh_src = take 4 (drop 6 body),
                 eh_sender = take 32 (drop 10 body), eh_eph = take 32 (drop 42 body),
                 eh_ts = be_u32 (drop 74 body), eh_ctr = be_u64 (drop 78 body),
                 eh_pqid = take 4 (drop 86 body)\<rparr>, drop e2eHeaderLen body))"

definition allowDerivation :: "e2eOpener \<Rightarrow> node_key \<Rightarrow> go_time \<Rightarrow> bool \<times> e2eOpener" where
  "allowDerivation o1 via now =
     (let (b, bs) = (case gget (op_buckets o1) via of
            Some b \<Rightarrow> (b, op_buckets o1)
          | None \<Rightarrow> (\<lparr>bk_tokens = e2eNewKeysPerSec, bk_last = now\<rparr>,
                     if 1024 \<le> length (op_buckets o1) then [] else op_buckets o1));
          t = bk_tokens b + seconds (time_sub now (bk_last b)) * e2eNewKeysPerSec;
          t = (if t > e2eNewKeysPerSec then e2eNewKeysPerSec else t)
      in if t < 1 then (False, o1\<lparr>op_buckets := gput via \<lparr>bk_tokens = t, bk_last = now\<rparr> bs\<rparr>)
         else (True, o1\<lparr>op_buckets := gput via \<lparr>bk_tokens = t - 1, bk_last = now\<rparr> bs\<rparr>))"

definition openLocked ::
  "e2e_crypto \<Rightarrow> e2eRecvState \<Rightarrow> byte list \<Rightarrow> byte list \<Rightarrow> e2eHeader \<Rightarrow> (e2e_error + byte list) \<times> e2eRecvState" where
  "openLocked C st body ct h =
     (if \<not> win_ok (rs_win st) (eh_ctr h) then (Inl E2EReplay, st)
      else case aead_open C (rs_aead st) (e2eNonce (eh_ctr h)) ct (e2eAD body) of
          None \<Rightarrow> (Inl E2EAuth, st)
        | Some pt \<Rightarrow> (Inr pt, st\<lparr>rs_win := win_mark (rs_win st) (eh_ctr h)\<rparr>))"

datatype open_outcome = OpenDone e2e_error | OpenOK e2eHeader "byte list"
  | OpenFresh e2eHeader "byte list" e2eRecvState

text \<open>The first frame under a key: derive the key and try the frame against an empty window.\<close>

definition open_derive ::
  "e2e_crypto \<Rightarrow> keypair \<Rightarrow> byte list \<Rightarrow> (node_key \<Rightarrow> byte list \<Rightarrow> byte list option) \<Rightarrow> e2eOpener
   \<Rightarrow> byte list \<Rightarrow> e2eHeader \<Rightarrow> byte list \<Rightarrow> node_key \<Rightarrow> go_time \<Rightarrow> open_outcome \<times> e2eOpener" where
  "open_derive C self psk pqLookup o1 body h ct via now =
     (case (if hasPQ h then pqLookup (eh_sender h) (eh_pqid h) else Some []) of
        None \<Rightarrow> (OpenDone E2ENoPQ, o1)
      | Some pqss \<Rightarrow>
          let (allowed, o2) = allowDerivation o1 via now in
          if \<not> allowed then (OpenDone E2ELimit, o2)
          else case x25519 C (kp_priv self) (eh_eph h) of
              None \<Rightarrow> (OpenDone E2EAuth, o2)
            | Some dh1 \<Rightarrow> (case x25519 C (kp_priv self) (eh_sender h) of
                None \<Rightarrow> (OpenDone E2EAuth, o2)
              | Some dh2 \<Rightarrow>
                  let aead = e2eDeriveAEAD C dh1 dh2 pqss psk (eh_sender h) (kp_pub self) (eh_eph h) (eh_pqid h);
                      fresh = \<lparr>rs_aead = aead, rs_ts = time_Unix (uint (eh_ts h)), rs_win = new_e2eWindow\<rparr>
                  in case openLocked C fresh body ct h of
                       (Inl e, _) \<Rightarrow> (OpenDone e, o2)
                     | (Inr pt, fresh') \<Rightarrow> (OpenFresh h pt fresh', o2)))"

definition open_begin ::
  "e2e_crypto \<Rightarrow> keypair \<Rightarrow> byte list \<Rightarrow> (node_key \<Rightarrow> byte list \<Rightarrow> byte list option) \<Rightarrow> e2eOpener
   \<Rightarrow> byte list \<Rightarrow> node_key \<Rightarrow> go_time \<Rightarrow> open_outcome \<times> e2eOpener" where
  "open_begin C self psk pqLookup o1 body via now =
     (case parseE2E body of
        Inl e \<Rightarrow> (OpenDone e, o1)
      | Inr (h, ct) \<Rightarrow>
          if eh_sender h = kp_pub self then (OpenDone E2EAuth, o1)
          else
            let d = time_sub now (time_Unix (uint (eh_ts h))) in
            if e2eMaxSkew < d \<or> d < - e2eMaxSkew then (OpenDone E2EStale, o1)
            else case gget (op_m o1) (recv_key h) of
                Some st \<Rightarrow>
                  (case openLocked C st body ct h of
                     (Inl e, st') \<Rightarrow> (OpenDone e, o1)
                   | (Inr pt, st') \<Rightarrow> (OpenOK h pt, o1\<lparr>op_m := gput (recv_key h) st' (op_m o1)\<rparr>))
              | None \<Rightarrow> open_derive C self psk pqLookup o1 body h ct via now)"

definition open_commit ::
  "e2eOpener \<Rightarrow> e2eHeader \<Rightarrow> byte list \<Rightarrow> e2eRecvState \<Rightarrow> go_time \<Rightarrow> (e2e_error + (e2eHeader \<times> byte list)) \<times> e2eOpener" where
  "open_commit o1 h pt fresh now =
     (case gget (op_m o1) (recv_key h) of
        Some cur \<Rightarrow>
          if \<not> win_ok (rs_win cur) (eh_ctr h) then (Inl E2EReplay, o1)
          else (Inr (h, pt), o1\<lparr>op_m := gput (recv_key h) (cur\<lparr>rs_win := win_mark (rs_win cur) (eh_ctr h)\<rparr>) (op_m o1)\<rparr>)
      | None \<Rightarrow>
          let m = (if e2eMaxRecvKeys \<le> length (op_m o1)
                   then gdrop (\<lambda>k v. e2eRecvKeep < time_sub now (rs_ts v)) (op_m o1) else op_m o1)
          in if e2eMaxRecvKeys \<le> length m then (Inl E2ELimit, o1\<lparr>op_m := m\<rparr>)
             else (Inr (h, pt), o1\<lparr>op_m := gput (recv_key h) fresh m\<rparr>))"

definition e2e_open ::
  "e2e_crypto \<Rightarrow> keypair \<Rightarrow> byte list \<Rightarrow> (node_key \<Rightarrow> byte list \<Rightarrow> byte list option) \<Rightarrow> e2eOpener
   \<Rightarrow> byte list \<Rightarrow> node_key \<Rightarrow> go_time \<Rightarrow> (e2e_error + (e2eHeader \<times> byte list)) \<times> e2eOpener" where
  "e2e_open C self psk pqLookup o1 body via now =
     (case open_begin C self psk pqLookup o1 body via now of
        (OpenDone e, o2) \<Rightarrow> (Inl e, o2)
      | (OpenOK h pt, o2) \<Rightarrow> (Inr (h, pt), o2)
      | (OpenFresh h pt fresh, o2) \<Rightarrow> open_commit o2 h pt fresh now)"

definition opener_prune :: "e2eOpener \<Rightarrow> go_time \<Rightarrow> e2eOpener" where
  "opener_prune o1 now = o1\<lparr>op_m := gdrop (\<lambda>k v. e2eRecvKeep < time_sub now (rs_ts v)) (op_m o1)\<rparr>"

section \<open>Interleaved opens\<close>

text \<open>
  The goroutines that open frames, with the pruner: \<open>sy_pend\<close> are the calls between their two
  halves, \<open>sy_acc\<close> the key and counter of every accepted frame, newest first. The clock does
  not run backwards and no call takes longer than 22 minutes.
\<close>

record pending_open =
  pd_h :: e2eHeader
  pd_pt :: "byte list"
  pd_fresh :: e2eRecvState
  pd_now :: go_time

record open_sys =
  sy_o :: e2eOpener
  sy_pend :: "pending_open list"
  sy_clock :: go_time
  sy_acc :: "(e2eRecvKey \<times> u64) list"

definition prompt :: "open_sys \<Rightarrow> go_time \<Rightarrow> bool" where
  "prompt s now \<longleftrightarrow> sy_clock s \<le> now \<and> list_all (\<lambda>p. now - pd_now p \<le> 22 * minute) (sy_pend s)"

definition acc_id :: "e2eHeader \<Rightarrow> e2eRecvKey \<times> u64" where
  "acc_id h = (recv_key h, eh_ctr h)"

inductive open_reach :: "e2e_crypto \<Rightarrow> keypair \<Rightarrow> byte list \<Rightarrow> open_sys \<Rightarrow> bool" for C self psk where
  start: "open_reach C self psk \<lparr>sy_o = newE2EOpener, sy_pend = [], sy_clock = t, sy_acc = []\<rparr>"
| refused: "open_reach C self psk s \<Longrightarrow> prompt s now \<Longrightarrow>
    open_begin C self psk pqLookup (sy_o s) body via now = (OpenDone e, o2) \<Longrightarrow>
    open_reach C self psk (s\<lparr>sy_o := o2, sy_clock := now\<rparr>)"
| accepted: "open_reach C self psk s \<Longrightarrow> prompt s now \<Longrightarrow>
    open_begin C self psk pqLookup (sy_o s) body via now = (OpenOK h pt, o2) \<Longrightarrow>
    open_reach C self psk (s\<lparr>sy_o := o2, sy_clock := now, sy_acc := acc_id h # sy_acc s\<rparr>)"
| derived: "open_reach C self psk s \<Longrightarrow> prompt s now \<Longrightarrow>
    open_begin C self psk pqLookup (sy_o s) body via now = (OpenFresh h pt fresh, o2) \<Longrightarrow>
    open_reach C self psk (s\<lparr>sy_o := o2, sy_clock := now,
      sy_pend := \<lparr>pd_h = h, pd_pt = pt, pd_fresh = fresh, pd_now = now\<rparr> # sy_pend s\<rparr>)"
| committed: "open_reach C self psk s \<Longrightarrow> sy_pend s = ps @ p # qs \<Longrightarrow>
    open_commit (sy_o s) (pd_h p) (pd_pt p) (pd_fresh p) (pd_now p) = (r, o2) \<Longrightarrow>
    open_reach C self psk (s\<lparr>sy_o := o2, sy_pend := ps @ qs,
      sy_acc := (case r of Inl _ \<Rightarrow> sy_acc s | Inr (h, _) \<Rightarrow> acc_id h # sy_acc s)\<rparr>)"
| pruned: "open_reach C self psk s \<Longrightarrow> prompt s now \<Longrightarrow>
    open_reach C self psk (s\<lparr>sy_o := opener_prune (sy_o s) now, sy_clock := now\<rparr>)"

section \<open>Every frame is accepted at most once\<close>

text \<open>
  \<open>T k\<close> is the creation time of envelope key \<open>k\<close>, which every authentic frame under \<open>k\<close> carries;
  \<open>keyed k a\<close> says that \<open>a\<close> is derived for \<open>k\<close>.
\<close>

definition keyed :: "e2e_crypto \<Rightarrow> keypair \<Rightarrow> byte list \<Rightarrow> e2eRecvKey \<Rightarrow> byte list \<Rightarrow> bool" where
  "keyed C self psk k a \<longleftrightarrow> (\<exists>dh1 dh2 ss. a = e2eDeriveAEAD C dh1 dh2 ss psk (rk_sender k) (kp_pub self) (rk_eph k) (rk_pqid k))"

definition accepted_ctrs :: "open_sys \<Rightarrow> e2eRecvKey \<Rightarrow> u64 set" where
  "accepted_ctrs s k = {c. (k, c) \<in> set (sy_acc s)}"

definition stored_ok :: "e2e_crypto \<Rightarrow> keypair \<Rightarrow> byte list \<Rightarrow> (e2eRecvKey \<Rightarrow> go_time) \<Rightarrow> open_sys \<Rightarrow> bool" where
  "stored_ok C self psk T s \<longleftrightarrow> gwf (op_m (sy_o s)) \<and>
     (\<forall>k st. gget (op_m (sy_o s)) k = Some st \<longrightarrow>
        keyed C self psk k (rs_aead st) \<and> rs_ts st = T k \<and> relay_window.tracks (rs_win st) (accepted_ctrs s k))"

definition forgotten_ok :: "(e2eRecvKey \<Rightarrow> go_time) \<Rightarrow> open_sys \<Rightarrow> bool" where
  "forgotten_ok T s \<longleftrightarrow> (\<forall>k c. (k, c) \<in> set (sy_acc s) \<longrightarrow> gget (op_m (sy_o s)) k = None \<longrightarrow>
     e2eRecvKeep < sy_clock s - T k)"

definition pend_ok_at :: "e2e_crypto \<Rightarrow> keypair \<Rightarrow> byte list \<Rightarrow> (e2eRecvKey \<Rightarrow> go_time) \<Rightarrow> go_time \<Rightarrow> pending_open \<Rightarrow> bool" where
  "pend_ok_at C self psk T clock p \<longleftrightarrow> pd_now p \<le> clock \<and> clock - pd_now p \<le> 22 * minute \<and>
     pd_now p - T (recv_key (pd_h p)) \<le> e2eMaxSkew \<and> keyed C self psk (recv_key (pd_h p)) (rs_aead (pd_fresh p)) \<and>
     rs_ts (pd_fresh p) = T (recv_key (pd_h p)) \<and> relay_window.tracks (rs_win (pd_fresh p)) {eh_ctr (pd_h p)}"

definition open_inv :: "e2e_crypto \<Rightarrow> keypair \<Rightarrow> byte list \<Rightarrow> (e2eRecvKey \<Rightarrow> go_time) \<Rightarrow> open_sys \<Rightarrow> bool" where
  "open_inv C self psk T s \<longleftrightarrow> distinct (sy_acc s) \<and> stored_ok C self psk T s \<and> forgotten_ok T s \<and>
     (\<forall>p \<in> set (sy_pend s). pend_ok_at C self psk T (sy_clock s) p)"

definition one_timestamp :: "e2e_crypto \<Rightarrow> keypair \<Rightarrow> byte list \<Rightarrow> (e2eRecvKey \<Rightarrow> u32) \<Rightarrow> bool" where
  "one_timestamp C self psk sealed \<longleftrightarrow> (\<forall>k a n ct ad pt. keyed C self psk k a \<longrightarrow>
     aead_open C a n ct ad = Some pt \<longrightarrow> be_u32 (drop 74 ad) = sealed k)"

abbreviation key_time :: "(e2eRecvKey \<Rightarrow> u32) \<Rightarrow> e2eRecvKey \<Rightarrow> go_time" where
  "key_time sealed k \<equiv> time_Unix (uint (sealed k))"

lemma parseE2E_ts: "parseE2E body = Inr (h, ct) \<Longrightarrow> be_u32 (drop 74 (e2eAD body)) = eh_ts h"
proof -
  have "take 4 (drop 74 (e2eAD body)) = take 4 (drop 74 body)"
    by (simp add: e2eAD_def e2eOffHop_def e2eHeaderLen_def drop_update_cancel drop_take)
  then show "parseE2E body = Inr (h, ct) \<Longrightarrow> ?thesis"
    by (auto simp: parseE2E_def be_u32_def split: if_splits)
qed

lemma openLocked_Inr:
  "openLocked C st body ct h = (Inr pt, st') \<Longrightarrow> win_ok (rs_win st) (eh_ctr h) \<and>
     aead_open C (rs_aead st) (e2eNonce (eh_ctr h)) ct (e2eAD body) = Some pt \<and>
     st' = st\<lparr>rs_win := win_mark (rs_win st) (eh_ctr h)\<rparr>"
  by (auto simp: openLocked_def split: if_splits option.splits)

lemma allowDerivation_m: "allowDerivation o1 via now = (b, o2) \<Longrightarrow> op_m o2 = op_m o1"
  by (auto simp: allowDerivation_def Let_def split: option.splits if_splits)

lemma open_derive_m: "open_derive C self psk pqLookup o1 body h ct via now = (r, o2) \<Longrightarrow>
    op_m o2 = op_m o1 \<and> (\<forall>h' pt. r \<noteq> OpenOK h' pt)"
  by (auto simp: open_derive_def Let_def dest!: allowDerivation_m split: option.splits prod.splits if_splits sum.splits)

lemma keyed_derive [simp]:
  "keyed C self psk (recv_key h) (e2eDeriveAEAD C dh1 dh2 ss psk (eh_sender h) (kp_pub self) (eh_eph h) (eh_pqid h))"
  by (auto simp: keyed_def recv_key_def)

lemma open_derive_Fresh:
  "open_derive C self psk pqLookup o1 body h ct via now = (OpenFresh h' pt fresh, o2) \<Longrightarrow>
   h' = h \<and> keyed C self psk (recv_key h) (rs_aead fresh) \<and> rs_ts fresh = time_Unix (uint (eh_ts h)) \<and>
   rs_win fresh = win_mark new_e2eWindow (eh_ctr h) \<and>
   aead_open C (rs_aead fresh) (e2eNonce (eh_ctr h)) ct (e2eAD body) = Some pt"
  by (auto simp: open_derive_def Let_def dest!: openLocked_Inr
      split: option.splits prod.splits if_splits sum.splits)

lemma open_begin_Done: "open_begin C self psk pqLookup o1 body via now = (OpenDone e, o2) \<Longrightarrow> op_m o2 = op_m o1"
  by (auto simp: open_begin_def Let_def dest!: open_derive_m
      split: option.splits prod.splits if_splits sum.splits)

lemma open_begin_OK:
  "open_begin C self psk pqLookup o1 body via now = (OpenOK h pt, o2) \<Longrightarrow>
   \<exists>st. gget (op_m o1) (recv_key h) = Some st \<and> win_ok (rs_win st) (eh_ctr h) \<and>
     op_m o2 = gput (recv_key h) (st\<lparr>rs_win := win_mark (rs_win st) (eh_ctr h)\<rparr>) (op_m o1)"
  by (auto simp: open_begin_def Let_def dest!: open_derive_m openLocked_Inr
      split: option.splits prod.splits if_splits sum.splits)

lemma open_begin_Fresh:
  assumes "open_begin C self psk pqLookup o1 body via now = (OpenFresh h pt fresh, o2)"
    and "one_timestamp C self psk sealed"
  shows "op_m o2 = op_m o1 \<and> now - key_time sealed (recv_key h) \<le> e2eMaxSkew \<and>
    keyed C self psk (recv_key h) (rs_aead fresh) \<and> rs_ts fresh = key_time sealed (recv_key h) \<and>
    rs_win fresh = win_mark new_e2eWindow (eh_ctr h)"
proof -
  from assms(1) obtain ct where p: "parseE2E body = Inr (h, ct)"
    and d: "\<not> e2eMaxSkew < time_sub now (time_Unix (uint (eh_ts h)))"
    and der: "open_derive C self psk pqLookup o1 body h ct via now = (OpenFresh h pt fresh, o2)"
    by (auto simp: open_begin_def Let_def dest: open_derive_Fresh
      split: option.splits prod.splits if_splits sum.splits)
  note fr = open_derive_Fresh [OF der]
  have "eh_ts h = sealed (recv_key h)"
    using assms(2) fr parseE2E_ts [OF p] unfolding one_timestamp_def by metis
  moreover have "now - time_Unix (uint (eh_ts h)) \<le> e2eMaxSkew"
    using d time_sub_greater_iff [of e2eMaxSkew now] by (simp add: e2e_durations)
  ultimately show ?thesis using fr open_derive_m [OF der] by simp
qed

lemma commit_get:
  assumes "open_commit o1 h pt fresh now = (r, o2)" and "gwf (op_m o1)"
  shows "gwf (op_m o2) \<and> (case r of
      Inl e \<Rightarrow> (\<forall>k. gget (op_m o2) k = gget (op_m o1) k \<or>
        (gget (op_m o2) k = None \<and> (\<exists>st. gget (op_m o1) k = Some st \<and> e2eRecvKeep < time_sub now (rs_ts st))))
    | Inr (h', pt') \<Rightarrow> h' = h \<and>
        (\<forall>k. k \<noteq> recv_key h \<longrightarrow> gget (op_m o2) k = gget (op_m o1) k \<or>
          (gget (op_m o2) k = None \<and> (\<exists>st. gget (op_m o1) k = Some st \<and> e2eRecvKeep < time_sub now (rs_ts st)))) \<and>
        (case gget (op_m o1) (recv_key h) of
           None \<Rightarrow> gget (op_m o2) (recv_key h) = Some fresh
         | Some cur \<Rightarrow> win_ok (rs_win cur) (eh_ctr h) \<and>
             gget (op_m o2) (recv_key h) = Some (cur\<lparr>rs_win := win_mark (rs_win cur) (eh_ctr h)\<rparr>)))"
proof -
  have drop: "gget (gdrop (\<lambda>k v. e2eRecvKeep < time_sub now (rs_ts v)) (op_m o1)) k =
      (case gget (op_m o1) k of None \<Rightarrow> None | Some st \<Rightarrow> if e2eRecvKeep < time_sub now (rs_ts st) then None else Some st)" for k
    using assms(2) by (rule gget_gdrop)
  show ?thesis
    using assms
    by (auto simp: open_commit_def Let_def drop gget_gput gwf_gput gwf_gdrop split: option.splits if_splits)
qed

text \<open>The three ways a step changes the invariant: the clock, a forgotten key, an accepted frame.\<close>

lemma stored_ok_same:
  "stored_ok C self psk T s \<Longrightarrow> op_m o2 = op_m (sy_o s) \<Longrightarrow> stored_ok C self psk T (s\<lparr>sy_o := o2, sy_clock := c, sy_pend := ps\<rparr>)"
  by (simp add: stored_ok_def accepted_ctrs_def)

lemma forgotten_ok_same:
  "forgotten_ok T s \<Longrightarrow> sy_clock s \<le> c \<Longrightarrow> op_m o2 = op_m (sy_o s) \<Longrightarrow>
   forgotten_ok T (s\<lparr>sy_o := o2, sy_clock := c, sy_pend := ps\<rparr>)"
  by (force simp: forgotten_ok_def)

lemma pend_ok_clock:
  "prompt s now \<Longrightarrow> p \<in> set (sy_pend s) \<Longrightarrow> pend_ok_at C self psk T (sy_clock s) p \<Longrightarrow> pend_ok_at C self psk T now p"
  by (auto simp: prompt_def pend_ok_at_def list_all_iff)

lemma inv_forget:
  assumes inv: "stored_ok C self psk T s" "forgotten_ok T s" and wf: "gwf (op_m o2)"
    and old: "\<And>k. gget (op_m o2) k = gget (op_m (sy_o s)) k \<or> (gget (op_m o2) k = None \<and>
      (\<exists>st. gget (op_m (sy_o s)) k = Some st \<and> e2eRecvKeep < time_sub now (rs_ts st)))"
    and c: "sy_clock s \<le> c" "now \<le> c"
  shows "stored_ok C self psk T (s\<lparr>sy_o := o2, sy_clock := c, sy_pend := ps\<rparr>)
    \<and> forgotten_ok T (s\<lparr>sy_o := o2, sy_clock := c, sy_pend := ps\<rparr>)"
proof
  show "stored_ok C self psk T (s\<lparr>sy_o := o2, sy_clock := c, sy_pend := ps\<rparr>)"
    using inv(1) wf old by (simp add: stored_ok_def accepted_ctrs_def) (metis option.distinct(1))
  have keep: "e2eRecvKeep < time_sub now t \<longleftrightarrow> e2eRecvKeep < now - t" for t
    by (rule time_sub_greater_iff) (simp_all add: e2e_durations)
  show "forgotten_ok T (s\<lparr>sy_o := o2, sy_clock := c, sy_pend := ps\<rparr>)"
    unfolding forgotten_ok_def
  proof (intro allI impI)
    fix k n
    assume "(k, n) \<in> set (sy_acc (s\<lparr>sy_o := o2, sy_clock := c, sy_pend := ps\<rparr>))"
      and "gget (op_m (sy_o (s\<lparr>sy_o := o2, sy_clock := c, sy_pend := ps\<rparr>))) k = None"
    then have acc: "(k, n) \<in> set (sy_acc s)" and gone: "gget (op_m o2) k = None" by simp_all
    have "e2eRecvKeep < c - T k"
    proof (cases "gget (op_m (sy_o s)) k")
      case None
      with acc inv(2) c(1) show ?thesis by (fastforce simp: forgotten_ok_def)
    next
      case (Some st)
      with gone old [of k] have "e2eRecvKeep < now - rs_ts st" by (auto simp: keep)
      with Some inv(1) c(2) show ?thesis by (fastforce simp: stored_ok_def)
    qed
    then show "e2eRecvKeep < sy_clock (s\<lparr>sy_o := o2, sy_clock := c, sy_pend := ps\<rparr>) - T k" by simp
  qed
qed

lemma inv_accept:
  assumes "stored_ok C self psk T s" "forgotten_ok T s" "distinct (sy_acc s)"
    and st: "gget (op_m (sy_o s)) (recv_key h) = Some st" "win_ok (rs_win st) (eh_ctr h)"
    and o2: "\<And>k. gget (op_m o2) k = (if k = recv_key h then Some (st\<lparr>rs_win := win_mark (rs_win st) (eh_ctr h)\<rparr>)
       else gget (op_m (sy_o s)) k)" "gwf (op_m o2)"
    and c: "sy_clock s \<le> c"
    and s'_def: "s' = s\<lparr>sy_o := o2, sy_clock := c, sy_pend := ps, sy_acc := acc_id h # sy_acc s\<rparr>"
  shows "stored_ok C self psk T s' \<and> forgotten_ok T s' \<and> distinct (sy_acc s')"
proof -
  have tr: "relay_window.tracks (rs_win st) (accepted_ctrs s (recv_key h))" "keyed C self psk (recv_key h) (rs_aead st)"
    "rs_ts st = T (recv_key h)" using assms(1) st(1) by (auto simp: stored_ok_def)
  have new: "accepted_ctrs s' k = (if k = recv_key h then insert (eh_ctr h) (accepted_ctrs s k) else accepted_ctrs s k)" for k
    by (auto simp: accepted_ctrs_def s'_def acc_id_def)
  have s'_o: "sy_o s' = o2" by (simp add: s'_def)
  have "stored_ok C self psk T s'"
    using assms(1) tr st(2) o2(2) relay_window.tracks_mark [OF tr(1) st(2)] s'_o
    by (auto simp: stored_ok_def new o2(1))
  moreover have "eh_ctr h \<notin> accepted_ctrs s (recv_key h)"
    by (rule relay_window.tracks_ok_fresh [OF tr(1) st(2)])
  then have "distinct (sy_acc s')" using assms(3) by (simp add: s'_def acc_id_def accepted_ctrs_def)
  moreover have "forgotten_ok T s'"
    unfolding forgotten_ok_def
  proof (intro allI impI)
    fix k n assume "(k, n) \<in> set (sy_acc s')" "gget (op_m (sy_o s')) k = None"
    then have "(k, n) \<in> set (sy_acc s)" "gget (op_m (sy_o s)) k = None"
      by (auto simp: s'_def acc_id_def o2(1) split: if_splits)
    with assms(2) have "e2eRecvKeep < sy_clock s - T k" by (auto simp: forgotten_ok_def)
    with c show "e2eRecvKeep < sy_clock s' - T k" by (simp add: s'_def)
  qed
  ultimately show ?thesis by blast
qed

lemma inv_fresh:
  assumes inv: "stored_ok C self psk T s" "forgotten_ok T s" "distinct (sy_acc s)"
    and p: "pend_ok_at C self psk T (sy_clock s) p"
    and none: "gget (op_m (sy_o s)) (recv_key (pd_h p)) = None"
    and o2: "gget (op_m o2) (recv_key (pd_h p)) = Some (pd_fresh p)" "gwf (op_m o2)"
      "\<And>k. k \<noteq> recv_key (pd_h p) \<Longrightarrow> gget (op_m o2) k = gget (op_m (sy_o s)) k \<or> (gget (op_m o2) k = None \<and>
        (\<exists>st. gget (op_m (sy_o s)) k = Some st \<and> e2eRecvKeep < time_sub (pd_now p) (rs_ts st)))"
    and s'_def: "s' = s\<lparr>sy_o := o2, sy_pend := ps, sy_acc := acc_id (pd_h p) # sy_acc s\<rparr>"
  shows "stored_ok C self psk T s' \<and> forgotten_ok T s' \<and> distinct (sy_acc s')"
proof -
  let ?k = "recv_key (pd_h p)" and ?o = "o2\<lparr>op_m := gdel (recv_key (pd_h p)) (op_m o2)\<rparr>"
  have empty: "accepted_ctrs s ?k = {}"
  proof (rule ccontr)
    assume "accepted_ctrs s ?k \<noteq> {}"
    with none inv(2) have "e2eRecvKeep < sy_clock s - T ?k" by (auto simp: accepted_ctrs_def forgotten_ok_def)
    with p show False by (simp add: pend_ok_at_def e2e_durations)
  qed
  have mid: "stored_ok C self psk T (s\<lparr>sy_o := ?o, sy_clock := sy_clock s, sy_pend := ps\<rparr>)
    \<and> forgotten_ok T (s\<lparr>sy_o := ?o, sy_clock := sy_clock s, sy_pend := ps\<rparr>)"
    by (rule inv_forget [OF inv(1,2), where now = "pd_now p"])
      (use o2(2,3) none p in \<open>auto simp: gget_gdel gwf_gdel pend_ok_at_def\<close>)
  have new: "accepted_ctrs s' k = (if k = ?k then {eh_ctr (pd_h p)} else accepted_ctrs s k)" for k
    using empty by (auto simp: accepted_ctrs_def s'_def acc_id_def)
  have same: "accepted_ctrs (s\<lparr>sy_o := ?o, sy_clock := sy_clock s, sy_pend := ps\<rparr>) k = accepted_ctrs s k" for k
    by (simp add: accepted_ctrs_def)
  have s'_o: "sy_o s' = o2" by (simp add: s'_def)
  have "stored_ok C self psk T s'"
    unfolding stored_ok_def
  proof (intro conjI allI impI)
    fix k st assume get: "gget (op_m (sy_o s')) k = Some st"
    have "keyed C self psk k (rs_aead st) \<and> rs_ts st = T k \<and> relay_window.tracks (rs_win st) (accepted_ctrs s' k)"
    proof (cases "k = ?k")
      case True
      with get p o2(1) show ?thesis by (simp add: new s'_o pend_ok_at_def)
    next
      case False
      with get have "gget (op_m (sy_o (s\<lparr>sy_o := ?o, sy_clock := sy_clock s, sy_pend := ps\<rparr>))) k = Some st"
        by (simp add: s'_o gget_gdel)
      with mid have "keyed C self psk k (rs_aead st) \<and> rs_ts st = T k \<and> relay_window.tracks (rs_win st) (accepted_ctrs s k)"
        unfolding stored_ok_def same by blast
      with False show ?thesis by (simp add: new)
    qed
    then show "keyed C self psk k (rs_aead st)" "rs_ts st = T k" "relay_window.tracks (rs_win st) (accepted_ctrs s' k)"
      by auto
  qed (simp add: s'_o o2(2))
  moreover have "forgotten_ok T s'"
    using mid o2(1) by (auto simp: forgotten_ok_def s'_def acc_id_def gget_gdel split: if_splits)
  moreover have "distinct (sy_acc s')"
    using inv(3) empty by (auto simp: s'_def acc_id_def accepted_ctrs_def)
  ultimately show ?thesis by blast
qed

lemma inv_derived:
  assumes inv: "open_inv C self psk (key_time sealed) s" and pr: "prompt s now"
    and "open_begin C self psk pqLookup (sy_o s) body via now = (OpenFresh h pt fresh, o2)"
    and "one_timestamp C self psk sealed"
  shows "open_inv C self psk (key_time sealed) (s\<lparr>sy_o := o2, sy_clock := now,
    sy_pend := \<lparr>pd_h = h, pd_pt = pt, pd_fresh = fresh, pd_now = now\<rparr> # sy_pend s\<rparr>)"
proof -
  note fr = open_begin_Fresh [OF assms(3,4)]
  let ?p = "\<lparr>pd_h = h, pd_pt = pt, pd_fresh = fresh, pd_now = now\<rparr>"
  have "relay_window.tracks (win_mark new_e2eWindow (eh_ctr h)) {eh_ctr h}"
    using relay_window.tracks_mark [OF relay_window.tracks_init, of "eh_ctr h"]
    by (simp add: win_ok_def new_e2eWindow_def)
  with fr have "pend_ok_at C self psk (key_time sealed) now ?p" by (simp add: pend_ok_at_def duration_defs)
  then show ?thesis
    using stored_ok_same [where s = s and ?o2.0 = o2 and c = now and ps = "?p # sy_pend s"]
      forgotten_ok_same [where s = s and ?o2.0 = o2 and c = now and ps = "?p # sy_pend s"]
      fr pend_ok_clock [OF pr] inv pr
    by (auto simp: open_inv_def prompt_def)
qed

lemma inv_committed:
  assumes open_inv: "open_inv C self psk T s" and split: "sy_pend s = ps @ p # qs"
    and commit: "open_commit (sy_o s) (pd_h p) (pd_pt p) (pd_fresh p) (pd_now p) = (r, o2)"
  shows "open_inv C self psk T (s\<lparr>sy_o := o2, sy_pend := ps @ qs,
      sy_acc := (case r of Inl _ \<Rightarrow> sy_acc s | Inr (h, _) \<Rightarrow> acc_id h # sy_acc s)\<rparr>)"
proof -
  have inv: "stored_ok C self psk T s" "forgotten_ok T s" "distinct (sy_acc s)"
    and pend: "\<And>q. q \<in> set (sy_pend s) \<Longrightarrow> pend_ok_at C self psk T (sy_clock s) q"
    using open_inv by (auto simp: open_inv_def)
  have p: "pend_ok_at C self psk T (sy_clock s) p" using pend split by simp
  note get = commit_get [OF commit]
  have wf: "gwf (op_m (sy_o s))" using inv(1) by (simp add: stored_ok_def)
  show ?thesis
  proof (cases r)
    case (Inl e)
    with get wf inv_forget [OF inv(1,2), of o2 "pd_now p" "sy_clock s" "ps @ qs"] p
    show ?thesis using inv(3) pend split by (auto simp: open_inv_def pend_ok_at_def)
  next
    case (Inr hp)
    let ?s = "s\<lparr>sy_o := o2, sy_pend := ps @ qs, sy_acc := acc_id (pd_h p) # sy_acc s\<rparr>"
    have "stored_ok C self psk T ?s \<and> forgotten_ok T ?s \<and> distinct (sy_acc ?s)"
    proof (cases "gget (op_m (sy_o s)) (recv_key (pd_h p))")
      case None
      show ?thesis
        by (rule inv_fresh [OF inv p None _ _ _ refl]) (use get wf Inr None in \<open>auto split: prod.splits\<close>)
    next
      case (Some cur)
      with Inr commit have ok: "win_ok (rs_win cur) (eh_ctr (pd_h p))"
        and o2: "op_m o2 = gput (recv_key (pd_h p)) (cur\<lparr>rs_win := win_mark (rs_win cur) (eh_ctr (pd_h p))\<rparr>) (op_m (sy_o s))"
        by (auto simp: open_commit_def split: if_splits)
      have "?s = s\<lparr>sy_o := o2, sy_clock := sy_clock s, sy_pend := ps @ qs, sy_acc := acc_id (pd_h p) # sy_acc s\<rparr>" by simp
      from inv_accept [OF inv Some ok _ _ order_refl this] show ?thesis
        using wf by (simp add: o2 gget_gput gwf_gput)
    qed
    then show ?thesis using Inr get wf pend split by (auto simp: open_inv_def split: prod.splits)
  qed
qed

lemma open_reach_inv:
  assumes "open_reach C self psk s" and "one_timestamp C self psk sealed"
  shows "open_inv C self psk (key_time sealed) s"
  using assms(1)
proof induction
  case (start t)
  then show ?case
    by (simp add: open_inv_def stored_ok_def forgotten_ok_def newE2EOpener_def)
next
  case (refused s now pqLookup body via e o2)
  then show ?case
    using stored_ok_same [where s = s and ?o2.0 = o2 and c = now and ps = "sy_pend s"] forgotten_ok_same [where s = s and ?o2.0 = o2 and c = now and ps = "sy_pend s"]
      open_begin_Done [OF refused.hyps(3)] pend_ok_clock [OF refused.hyps(2)]
    by (simp add: open_inv_def prompt_def)
next
  case (accepted s now pqLookup body via h pt o2)
  from open_begin_OK [OF accepted.hyps(3)] obtain st where
    st: "gget (op_m (sy_o s)) (recv_key h) = Some st" "win_ok (rs_win st) (eh_ctr h)"
    and o2: "op_m o2 = gput (recv_key h) (st\<lparr>rs_win := win_mark (rs_win st) (eh_ctr h)\<rparr>) (op_m (sy_o s))" by blast
  let ?s = "s\<lparr>sy_o := o2, sy_clock := now, sy_pend := sy_pend s, sy_acc := acc_id h # sy_acc s\<rparr>"
  have "stored_ok C self psk (key_time sealed) ?s \<and> forgotten_ok (key_time sealed) ?s \<and> distinct (sy_acc ?s)"
    by (rule inv_accept [OF _ _ _ st _ _ _ refl])
      (use accepted o2 in \<open>auto simp: open_inv_def stored_ok_def prompt_def gget_gput gwf_gput\<close>)
  with accepted.IH pend_ok_clock [OF accepted.hyps(2)] show ?case by (simp add: open_inv_def)
next
  case (derived s now pqLookup body via h pt fresh o2)
  then show ?case by (blast intro: inv_derived [OF _ _ _ assms(2)])
next
  case (committed s ps p qs r o2)
  then show ?case by (blast intro: inv_committed)
next
  case (pruned s now)
  let ?T = "key_time sealed"
  have inv: "stored_ok C self psk ?T s" "forgotten_ok ?T s" and wf: "gwf (op_m (sy_o s))"
    using pruned.IH by (auto simp: open_inv_def stored_ok_def)
  have "stored_ok C self psk ?T (s\<lparr>sy_o := opener_prune (sy_o s) now, sy_clock := now, sy_pend := sy_pend s\<rparr>) \<and>
    forgotten_ok ?T (s\<lparr>sy_o := opener_prune (sy_o s) now, sy_clock := now, sy_pend := sy_pend s\<rparr>)"
    by (rule inv_forget [OF inv, where now = now])
      (use wf pruned.hyps(2) in \<open>simp_all add: opener_prune_def gwf_gdrop gget_gdrop prompt_def split: option.split\<close>)
  with pruned.IH pend_ok_clock [OF pruned.hyps(2)] show ?case by (simp add: open_inv_def)
qed

section \<open>Reading a sealed header\<close>

definition header_of :: "byte \<Rightarrow> byte list \<Rightarrow> byte list \<Rightarrow> node_key \<Rightarrow> byte list \<Rightarrow> u32 \<Rightarrow> u64 \<Rightarrow> byte list \<Rightarrow> e2eHeader" where
  "header_of hop dst src sender eph ts ctr pqid = \<lparr>eh_hop = hop, eh_dst = dst, eh_src = src, eh_sender = sender,
     eh_eph = eph, eh_ts = ts, eh_ctr = ctr, eh_pqid = pqid\<rparr>"

lemma parseE2E_header:
  assumes "length dst = 4" "length src = 4" "length sender = 32" "length eph = 32" "length pqid = 4" "16 \<le> length ct"
  shows "parseE2E ((seal_header dst src sender eph ts ctr pqid)[e2eOffHop := hop] @ ct) =
    Inr (header_of hop dst src sender eph ts ctr pqid, ct)"
proof -
  have body: "(seal_header dst src sender eph ts ctr pqid)[e2eOffHop := hop] @ ct =
      e2eVersion # hop # dst @ src @ sender @ eph @ put_u32 ts @ put_u64 ctr @ pqid @ ct" (is "_ = ?b")
    by (simp add: seal_header_def e2eOffHop_def)
  have len: "length ?b = 90 + length ct" using assms by simp
  have d: "drop 2 ?b = dst @ src @ sender @ eph @ put_u32 ts @ put_u64 ctr @ pqid @ ct" by (simp add: numeral_2_eq_2)
  have drop: "drop (2 + n) ?b = drop n (dst @ src @ sender @ eph @ put_u32 ts @ put_u64 ctr @ pqid @ ct)" for n
    by simp
  have "drop 6 ?b = src @ sender @ eph @ put_u32 ts @ put_u64 ctr @ pqid @ ct"
    "drop 10 ?b = sender @ eph @ put_u32 ts @ put_u64 ctr @ pqid @ ct"
    "drop 42 ?b = eph @ put_u32 ts @ put_u64 ctr @ pqid @ ct"
    "drop 74 ?b = put_u32 ts @ put_u64 ctr @ pqid @ ct" "drop 78 ?b = put_u64 ctr @ pqid @ ct"
    "drop 86 ?b = pqid @ ct" "drop 90 ?b = ct"
    using assms drop [of 4] drop [of 8] drop [of 40] drop [of 72] drop [of 76] drop [of 84] drop [of 88] by simp_all
  with d len assms show ?thesis
    unfolding body by (simp add: parseE2E_def e2eHeaderLen_def aeadOverhead_def header_of_def)
qed

lemma e2eAD_header:
  assumes "length dst = 4" "length src = 4" "length sender = 32" "length eph = 32" "length pqid = 4"
  shows "e2eAD ((seal_header dst src sender eph ts ctr pqid)[e2eOffHop := hop] @ ct) = seal_header dst src sender eph ts ctr pqid"
    and "e2eAD (seal_header dst src sender eph ts ctr pqid) = seal_header dst src sender eph ts ctr pqid"
proof -
  have "length (seal_header dst src sender eph ts ctr pqid) = 90"
    using assms by (simp add: seal_header_def)
  moreover have "(seal_header dst src sender eph ts ctr pqid)[1 := 0] = seal_header dst src sender eph ts ctr pqid"
    by (simp add: seal_header_def)
  ultimately show "e2eAD ((seal_header dst src sender eph ts ctr pqid)[e2eOffHop := hop] @ ct) = seal_header dst src sender eph ts ctr pqid"
    "e2eAD (seal_header dst src sender eph ts ctr pqid) = seal_header dst src sender eph ts ctr pqid"
    by (simp_all add: e2eAD_def e2eHeaderLen_def e2eOffHop_def)
qed

section \<open>Properties\<close>


definition demo_crypto :: e2e_crypto where
  "demo_crypto = \<lparr>x25519 = (\<lambda>s p. Some p), basepoint = [], sha256 = (\<lambda>x. x), hkdf_key = (\<lambda>a b c. []),
     aead_seal = (\<lambda>k n x ad. replicate 16 0 @ x),
     aead_open = (\<lambda>k n ct ad. if be_u32 (drop 74 ad) = 1000 then Some (drop 16 ct) else None)\<rparr>"

definition demo_self :: keypair where "demo_self = \<lparr>kp_priv = [], kp_pub = demo_B\<rparr>"

definition demo_body :: "byte list" where
  "demo_body = (seal_header [10, 0, 0, 2] [10, 0, 0, 1] demo_A demo_A 1000 1 [0, 0, 0, 0])[e2eOffHop := 1] @ replicate 16 0"

definition demo_now :: go_time where "demo_now = time_Unix 1000"


end
