(* ===== verification/E2E_Envelope.thy ===== *)
theory E2E_Envelope
  imports E2E_Relay
begin

text \<open>
  Two properties of the envelopes of \<open>client/e2erelay.go\<close>: over any run of the sealer no
  ephemeral key and counter occur twice, and a sealed frame that a relay has passed on opens to
  its payload at the recipient.
\<close>

section \<open>Runs of the sealer\<close>

record seal_call =
  sc_rnd :: "byte list option"
  sc_to :: node_key
  sc_dst :: "byte list"
  sc_src :: "byte list"
  sc_pq :: "e2ePQSecret option"
  sc_payload :: "byte list"
  sc_now :: go_time

fun seal_all :: "e2e_crypto \<Rightarrow> keypair \<Rightarrow> byte list \<Rightarrow> e2eSealer \<Rightarrow> seal_call list \<Rightarrow> byte list list \<times> e2eSealer" where
  "seal_all C self psk z [] = ([], z)"
| "seal_all C self psk z (c # cs) =
     (case e2e_seal C self psk (sc_rnd c) z (sc_to c) (sc_dst c) (sc_src c) (sc_pq c) (sc_payload c) (sc_now c) of
        (None, z1) \<Rightarrow> seal_all C self psk z1 cs
      | (Some f, z1) \<Rightarrow> (let (fs, z2) = seal_all C self psk z1 cs in (f # fs, z2)))"

text \<open>The ephemeral key and the counter a frame carries on the wire.\<close>

definition envelope_id :: "byte list \<Rightarrow> (byte list \<times> u64) option" where
  "envelope_id frame =
     (case parseE2E (drop (length ctlMagic + 1) frame) of
        Inl e \<Rightarrow> None
      | Inr (h, ct) \<Rightarrow> Some (eh_eph h, eh_ctr h))"

text \<open>The public key of the ephemeral secret a call draws.\<close>

definition drawn :: "e2e_crypto \<Rightarrow> seal_call \<Rightarrow> byte list option" where
  "drawn C c = Option.bind (sc_rnd c) (\<lambda>r. x25519 C r (basepoint C))"

definition call_ok :: "seal_call \<Rightarrow> bool" where
  "call_ok c \<longleftrightarrow> length (sc_dst c) = 4 \<and> length (sc_src c) = 4 \<and> length (pq_tag (sc_pq c)) = 4"

text \<open>What the node relies on of its cryptographic libraries.\<close>

definition crypto_ok :: "e2e_crypto \<Rightarrow> bool" where
  "crypto_ok C \<longleftrightarrow>
     (\<forall>s p d. x25519 C s p = Some d \<longrightarrow> length d = 32) \<and>
     (\<forall>k n x ad. length (aead_seal C k n x ad) = length x + 16) \<and>
     (\<forall>k n x ad. aead_open C k n (aead_seal C k n x ad) ad = Some x) \<and>
     (\<forall>a b pa pb d. x25519 C a (basepoint C) = Some pa \<longrightarrow> x25519 C b (basepoint C) = Some pb \<longrightarrow>
        x25519 C a pb = Some d \<longrightarrow> x25519 C b pa = Some d)"

lemma crypto_len: "crypto_ok C \<Longrightarrow> x25519 C s p = Some d \<Longrightarrow> length d = 32"
  unfolding crypto_ok_def by blast

lemma crypto_seal_len: "crypto_ok C \<Longrightarrow> length (aead_seal C k n x ad) = length x + 16"
  unfolding crypto_ok_def by blast

lemma crypto_open_seal: "crypto_ok C \<Longrightarrow> aead_open C k n (aead_seal C k n x ad) ad = Some x"
  unfolding crypto_ok_def by blast

lemma crypto_dh: "crypto_ok C \<Longrightarrow> x25519 C a (basepoint C) = Some pa \<Longrightarrow> x25519 C b (basepoint C) = Some pb \<Longrightarrow>
    x25519 C a pb = Some d \<Longrightarrow> x25519 C b pa = Some d"
  unfolding crypto_ok_def by blast

lemma seal_frame_shape:
  assumes "e2e_seal C self psk rnd z to dst src pq payload now = (Some f, z')"
  obtains st z1 where "sealer_state C self psk rnd z to pq now = (Some st, z1)"
    "z' = gput (to, pq_tag pq) (st\<lparr>ss_ctr := ss_ctr st + 1\<rparr>) z1"
    "drop (length ctlMagic + 1) f = seal_header dst src (kp_pub self) (ss_eph st) (ss_ts st) (ss_ctr st + 1) (pq_tag pq) @
       aead_seal C (ss_aead st) (e2eNonce (ss_ctr st + 1)) payload
         (e2eAD (seal_header dst src (kp_pub self) (ss_eph st) (ss_ts st) (ss_ctr st + 1) (pq_tag pq)))"
  using assms by (auto simp: e2e_seal_def Let_def split: prod.splits option.splits)

lemma seal_None: "e2e_seal C self psk rnd z to dst src pq payload now = (None, z') \<Longrightarrow> z' = z"
  by (auto simp: e2e_seal_def sealer_state_def Let_def split: prod.splits option.splits if_splits)

lemma new_send_state_SomeD:
  "new_send_state C self psk rnd to pq now = Some st \<Longrightarrow>
   \<exists>r dh1 dh2. rnd = Some r \<and> x25519 C r (basepoint C) = Some (ss_eph st) \<and> x25519 C r to = Some dh1 \<and>
     x25519 C (kp_priv self) to = Some dh2 \<and> ss_ts st = of_int (unix_of now) \<and> ss_born st = now \<and> ss_ctr st = 0 \<and>
     ss_aead st = e2eDeriveAEAD C dh1 dh2 (pq_bytes pq) psk (kp_pub self) to (ss_eph st) (pq_tag pq)"
  by (auto simp: new_send_state_def split: option.splits)

lemma sealer_state_cases:
  assumes "sealer_state C self psk rnd z to pq now = (Some st, z1)"
  shows "(gget z (to, pq_tag pq) = Some st \<and> usable now st \<and> z1 = z) \<or>
    (new_send_state C self psk rnd to pq now = Some st \<and> z1 = gput (to, pq_tag pq) st (sealer_room now z))"
  using assms by (auto simp: sealer_state_def Let_def split: option.splits if_splits)

lemma gget_tl: "gwf m \<Longrightarrow> gget (tl m) k = None \<or> gget (tl m) k = gget m k"
  by (cases m) (auto simp: gwf_def map_of_eq_None_iff)

lemma sealer_room_get: "gwf z \<Longrightarrow> gget (sealer_room now z) k = None \<or> gget (sealer_room now z) k = gget z k"
proof -
  assume wf: "gwf z"
  let ?m = "gdrop (\<lambda>k v. e2eRotate \<le> time_sub now (ss_born v)) z"
  have "gget ?m k = None \<or> gget ?m k = gget z k" using wf by (simp add: gget_gdrop split: option.split)
  with gget_tl [OF gwf_gdrop [OF wf], of "\<lambda>k v. e2eRotate \<le> time_sub now (ss_born v)" k] show ?thesis
    by (auto simp: sealer_room_def Let_def)
qed

lemma sealer_room_wf: "gwf z \<Longrightarrow> gwf (sealer_room now z)"
proof -
  assume wf: "gwf z"
  have "gwf (tl m)" if "gwf m" for m :: e2eSealer using that by (cases m) (auto simp: gwf_def)
  with wf show ?thesis by (simp add: sealer_room_def Let_def gwf_gdrop)
qed

text \<open>
  The state of a call after its counter has advanced: every key it stores was stored before, but
  for the one that was used.
\<close>

lemma seal_step:
  assumes "gwf z" and "e2e_seal C self psk rnd z to dst src pq payload now = (Some f, z')"
  obtains st where
    "(gget z (to, pq_tag pq) = Some st \<and> usable now st) \<or> new_send_state C self psk rnd to pq now = Some st"
    "gwf z'" "gget z' (to, pq_tag pq) = Some (st\<lparr>ss_ctr := ss_ctr st + 1\<rparr>)"
    "\<And>k. k \<noteq> (to, pq_tag pq) \<Longrightarrow> gget z' k = None \<or> gget z' k = gget z k"
    "drop (length ctlMagic + 1) f = seal_header dst src (kp_pub self) (ss_eph st) (ss_ts st) (ss_ctr st + 1) (pq_tag pq) @
       aead_seal C (ss_aead st) (e2eNonce (ss_ctr st + 1)) payload
         (e2eAD (seal_header dst src (kp_pub self) (ss_eph st) (ss_ts st) (ss_ctr st + 1) (pq_tag pq)))"
proof -
  from seal_frame_shape [OF assms(2)] obtain st z1 where st: "sealer_state C self psk rnd z to pq now = (Some st, z1)"
    "z' = gput (to, pq_tag pq) (st\<lparr>ss_ctr := ss_ctr st + 1\<rparr>) z1" and f: "drop (length ctlMagic + 1) f =
      seal_header dst src (kp_pub self) (ss_eph st) (ss_ts st) (ss_ctr st + 1) (pq_tag pq) @
       aead_seal C (ss_aead st) (e2eNonce (ss_ctr st + 1)) payload
         (e2eAD (seal_header dst src (kp_pub self) (ss_eph st) (ss_ts st) (ss_ctr st + 1) (pq_tag pq)))" by blast
  from sealer_state_cases [OF st(1)] show thesis
  proof (elim disjE conjE)
    assume "gget z (to, pq_tag pq) = Some st" "usable now st" "z1 = z"
    with st(2) f assms(1) show thesis by (intro that) (auto simp: gget_gput gwf_gput)
  next
    assume "new_send_state C self psk rnd to pq now = Some st" "z1 = gput (to, pq_tag pq) st (sealer_room now z)"
    with st(2) f sealer_room_get [OF assms(1)] sealer_room_wf [OF assms(1)] show thesis
      by (intro that) (auto simp: gget_gput gwf_gput)
  qed
qed

section \<open>No envelope is used twice\<close>

text \<open>\<open>U\<close>: the ephemeral keys drawn so far; \<open>L\<close>: the envelopes used so far.\<close>

definition seal_inv :: "e2eSealer \<Rightarrow> byte list set \<Rightarrow> (byte list \<times> u64) set \<Rightarrow> bool" where
  "seal_inv z U L \<longleftrightarrow> gwf z \<and> fst ` L \<subseteq> U \<and>
     (\<forall>k st. gget z k = Some st \<longrightarrow> ss_eph st \<in> U \<and> length (ss_eph st) = 32 \<and> unat (ss_ctr st) \<le> e2eMaxPackets \<and>
        (\<forall>c. (ss_eph st, c) \<in> L \<longrightarrow> c \<le> ss_ctr st)) \<and>
     (\<forall>k k' st st'. gget z k = Some st \<longrightarrow> gget z k' = Some st' \<longrightarrow> ss_eph st = ss_eph st' \<longrightarrow> k = k')"

lemma ctr_succ: "unat (c :: u64) < e2eMaxPackets \<Longrightarrow> unat (c + 1) = unat c + 1 \<and> c < c + 1 \<and> c + 1 \<noteq> 0"
  by (simp add: e2eMaxPackets_def word_less_nat_alt unat_word_ariths unat_eq_zero flip: unat_gt_0)

text \<open>A send state the next frame may use: no other key has its ephemeral key.\<close>

definition next_state :: "e2eSealer \<Rightarrow> byte list set \<Rightarrow> (byte list \<times> u64) set \<Rightarrow> e2eSendKey \<Rightarrow> e2eSendState \<Rightarrow> bool" where
  "next_state z U L k0 st \<longleftrightarrow> ss_eph st \<in> U \<and> length (ss_eph st) = 32 \<and> unat (ss_ctr st) < e2eMaxPackets \<and>
      (\<forall>n. (ss_eph st, n) \<in> L \<longrightarrow> n \<le> ss_ctr st) \<and> (\<forall>k st'. k \<noteq> k0 \<longrightarrow> gget z k = Some st' \<longrightarrow> ss_eph st' \<noteq> ss_eph st)"

lemma next_state_old:
  "seal_inv z U L \<Longrightarrow> gget z k0 = Some st \<Longrightarrow> usable now st \<Longrightarrow> U \<subseteq> U' \<Longrightarrow> next_state z U' L k0 st"
  unfolding seal_inv_def next_state_def usable_def by blast

lemma next_state_new:
  assumes "seal_inv z U L" and "ss_eph st \<notin> U" and "ss_eph st \<in> U'" and "length (ss_eph st) = 32" and "ss_ctr st = 0"
  shows "next_state z U' L k0 st"
proof -
  have "(ss_eph st, n) \<notin> L" for n using assms(1,2) unfolding seal_inv_def by force
  moreover have "ss_eph st' \<noteq> ss_eph st" if "gget z k = Some st'" for k st'
    using that assms(1,2) unfolding seal_inv_def by metis
  ultimately show ?thesis using assms(3-5) by (simp add: next_state_def e2eMaxPackets_def)
qed

lemma seal_inv_put:
  assumes inv: "seal_inv z U L" and st: "next_state z U' L k0 st" and U': "U \<subseteq> U'"
    and z': "gwf z'" "gget z' k0 = Some (st\<lparr>ss_ctr := ss_ctr st + 1\<rparr>)" "\<And>k. k \<noteq> k0 \<Longrightarrow> gget z' k = None \<or> gget z' k = gget z k"
  shows "(ss_eph st, ss_ctr st + 1) \<notin> L \<and> seal_inv z' U' (insert (ss_eph st, ss_ctr st + 1) L)"
proof -
  have ctr: "unat (ss_ctr st + 1) = unat (ss_ctr st) + 1 \<and> ss_ctr st < ss_ctr st + 1"
    using st ctr_succ by (simp add: next_state_def)
  have same: "k = k0 \<and> st1 = st\<lparr>ss_ctr := ss_ctr st + 1\<rparr> \<or> k \<noteq> k0 \<and> gget z k = Some st1" if "gget z' k = Some st1" for k st1
    using that z'(2) z'(3) [of k] by (cases "k = k0") auto
  have entry: "ss_eph st1 \<in> U' \<and> length (ss_eph st1) = 32 \<and> unat (ss_ctr st1) \<le> e2eMaxPackets \<and>
        (\<forall>n. (ss_eph st1, n) \<in> insert (ss_eph st, ss_ctr st + 1) L \<longrightarrow> n \<le> ss_ctr st1)" if "gget z' k = Some st1" for k st1
    using same [OF that]
  proof (elim disjE conjE)
    assume "st1 = st\<lparr>ss_ctr := ss_ctr st + 1\<rparr>"
    with st ctr show ?thesis by (auto simp: next_state_def intro: order.trans [OF _ less_imp_le])
  next
    assume k: "k \<noteq> k0" "gget z k = Some st1"
    with st have "ss_eph st1 \<noteq> ss_eph st" unfolding next_state_def by metis
    with k(2) inv U' show ?thesis unfolding seal_inv_def by blast
  qed
  have inj: "\<forall>k k' a b. gget z k = Some a \<longrightarrow> gget z k' = Some b \<longrightarrow> ss_eph a = ss_eph b \<longrightarrow> k = k'"
    and other: "\<And>k a. k \<noteq> k0 \<Longrightarrow> gget z k = Some a \<Longrightarrow> ss_eph a \<noteq> ss_eph st"
    using inv st unfolding seal_inv_def next_state_def by (blast, blast)
  have one: "k = k'" if "gget z' k = Some st1" "gget z' k' = Some st2" "ss_eph st1 = ss_eph st2" for k k' st1 st2
    using same [OF that(1)] same [OF that(2)]
  proof (elim disjE conjE)
    assume "k \<noteq> k0" "gget z k = Some st1" "k' \<noteq> k0" "gget z k' = Some st2"
    with inj that(3) show ?thesis by blast
  qed (use other [of k st1] other [of k' st2] that(3) in auto)
  have sub: "fst ` insert (ss_eph st, ss_ctr st + 1) L \<subseteq> U'"
    using inv U' st by (auto simp: seal_inv_def next_state_def)
  have "seal_inv z' U' (insert (ss_eph st, ss_ctr st + 1) L)"
    unfolding seal_inv_def by (intro conjI z'(1) sub) (use entry in blast, use one in blast)
  moreover have "(ss_eph st, ss_ctr st + 1) \<notin> L" using st ctr unfolding next_state_def by (meson leD)
  ultimately show ?thesis by blast
qed

lemma seal_inv_step:
  assumes inv: "seal_inv z U L" and C: "crypto_ok C" "length (kp_pub self) = 32" and call: "call_ok c"
    and sealed: "e2e_seal C self psk (sc_rnd c) z (sc_to c) (sc_dst c) (sc_src c) (sc_pq c) (sc_payload c) (sc_now c) = (Some f, z')"
    and fresh: "set_option (drawn C c) \<inter> U = {}"
  shows "\<exists>i. envelope_id f = Some i \<and> i \<notin> L \<and> seal_inv z' (U \<union> set_option (drawn C c)) (insert i L)"
proof -
  let ?k = "(sc_to c, pq_tag (sc_pq c))" and ?U = "U \<union> set_option (drawn C c)"
  have wf: "gwf z" using inv by (simp add: seal_inv_def)
  from seal_step [OF wf sealed] obtain st where
    st: "(gget z ?k = Some st \<and> usable (sc_now c) st) \<or> new_send_state C self psk (sc_rnd c) (sc_to c) (sc_pq c) (sc_now c) = Some st"
    and z': "gwf z'" "gget z' ?k = Some (st\<lparr>ss_ctr := ss_ctr st + 1\<rparr>)" "\<And>k. k \<noteq> ?k \<Longrightarrow> gget z' k = None \<or> gget z' k = gget z k"
    and f: "drop (length ctlMagic + 1) f = seal_header (sc_dst c) (sc_src c) (kp_pub self) (ss_eph st) (ss_ts st) (ss_ctr st + 1) (pq_tag (sc_pq c)) @
       aead_seal C (ss_aead st) (e2eNonce (ss_ctr st + 1)) (sc_payload c)
         (e2eAD (seal_header (sc_dst c) (sc_src c) (kp_pub self) (ss_eph st) (ss_ts st) (ss_ctr st + 1) (pq_tag (sc_pq c))))"
    by blast
  have nxt: "next_state z ?U L ?k st"
    using st
  proof (elim disjE conjE)
    assume "new_send_state C self psk (sc_rnd c) (sc_to c) (sc_pq c) (sc_now c) = Some st"
    from new_send_state_SomeD [OF this] have "drawn C c = Some (ss_eph st)" "length (ss_eph st) = 32" "ss_ctr st = 0"
      using crypto_len [OF C(1)] by (auto simp: drawn_def)
    with fresh show ?thesis by (intro next_state_new [OF inv]) auto
  qed (auto intro: next_state_old [OF inv])
  have "length (aead_seal C (ss_aead st) n x ad) \<ge> 16" for n x ad by (simp add: crypto_seal_len [OF C(1)])
  then have "envelope_id f = Some (ss_eph st, ss_ctr st + 1)"
    unfolding envelope_id_def f
    using parseE2E_header [of "sc_dst c" "sc_src c" "kp_pub self" "ss_eph st" "pq_tag (sc_pq c)", where hop = 0] nxt C(2) call
    by (simp add: call_ok_def seal_header_def e2eOffHop_def header_of_def next_state_def)
  with seal_inv_put [OF inv nxt Un_upper1 z'] show ?thesis by simp
qed

lemma seal_all_fresh:
  assumes "crypto_ok C" "length (kp_pub self) = 32"
  shows "seal_inv z U L \<Longrightarrow> list_all call_ok calls \<Longrightarrow> distinct (List.map_filter (drawn C) calls) \<Longrightarrow>
    set (List.map_filter (drawn C) calls) \<inter> U = {} \<Longrightarrow>
    distinct (map envelope_id (fst (seal_all C self psk z calls))) \<and>
    set (map envelope_id (fst (seal_all C self psk z calls))) \<inter> insert None (Some ` L) = {}"
proof (induction calls arbitrary: z U L)
  case (Cons c cs)
  obtain r z1 where s: "e2e_seal C self psk (sc_rnd c) z (sc_to c) (sc_dst c) (sc_src c) (sc_pq c) (sc_payload c) (sc_now c) = (r, z1)"
    by fastforce
  have draws: "set_option (drawn C c) \<inter> U = {}" "distinct (List.map_filter (drawn C) cs)"
    "set (List.map_filter (drawn C) cs) \<inter> (U \<union> set_option (drawn C c)) = {}"
    using Cons.prems(3,4) by (auto simp: map_filter_simps split: option.splits)
  show ?case
  proof (cases r)
    case None
    with seal_None s have "z1 = z" by blast
    with Cons.IH [OF Cons.prems(1) _ draws(2)] None s draws Cons.prems(2) show ?thesis by auto
  next
    case (Some f)
    from seal_inv_step [OF Cons.prems(1) assms _ s [unfolded Some] draws(1)] Cons.prems(2) obtain i where
      i: "envelope_id f = Some i" "i \<notin> L" "seal_inv z1 (U \<union> set_option (drawn C c)) (insert i L)" by auto
    from Cons.IH [OF i(3) _ draws(2,3)] Cons.prems(2) Some s i show ?thesis
      by (auto simp: case_prod_beta Let_def)
  qed
qed simp

section \<open>Sealing, relaying, opening\<close>

text \<open>
  What the sealer remembers of its keys: whom they are for, when they were made (among the
  times \<open>ts\<close> of the calls) and which post-quantum secret they include.
\<close>

definition send_ok :: "e2e_crypto \<Rightarrow> keypair \<Rightarrow> byte list \<Rightarrow> seal_call list \<Rightarrow> e2eSendKey \<Rightarrow> e2eSendState \<Rightarrow> bool" where
  "send_ok C self psk calls k st \<longleftrightarrow> (\<exists>c \<in> set calls. \<exists>st0 r. k = (sc_to c, pq_tag (sc_pq c)) \<and>
     new_send_state C self psk r (sc_to c) (sc_pq c) (sc_now c) = Some st0 \<and> st = st0\<lparr>ss_ctr := ss_ctr st\<rparr>)"

lemma send_ok_ctr: "send_ok C self psk calls k st \<Longrightarrow> send_ok C self psk calls k (st\<lparr>ss_ctr := n\<rparr>)"
  unfolding send_ok_def by (metis (no_types, lifting) e2eSendState.surjective e2eSendState.update_convs(5) e2eSendState.select_convs(5))

lemma send_ok_mono: "send_ok C self psk calls k st \<Longrightarrow> set calls \<subseteq> set calls' \<Longrightarrow> send_ok C self psk calls' k st"
  unfolding send_ok_def by blast

lemma send_ok_new:
  "new_send_state C self psk r (sc_to c) (sc_pq c) (sc_now c) = Some st \<Longrightarrow> c \<in> set calls \<Longrightarrow>
   send_ok C self psk calls (sc_to c, pq_tag (sc_pq c)) st"
  unfolding send_ok_def by (intro bexI [of _ c] exI [of _ st] exI [of _ r]) auto

lemma seal_all_ok:
  "gwf z \<Longrightarrow> \<forall>k st. gget z k = Some st \<longrightarrow> send_ok C self psk calls0 k st \<Longrightarrow>
   gwf (snd (seal_all C self psk z calls)) \<and>
   (\<forall>k st. gget (snd (seal_all C self psk z calls)) k = Some st \<longrightarrow> send_ok C self psk (calls0 @ calls) k st)"
proof (induction calls arbitrary: z calls0)
  case (Cons c cs)
  obtain r z1 where s: "e2e_seal C self psk (sc_rnd c) z (sc_to c) (sc_dst c) (sc_src c) (sc_pq c) (sc_payload c) (sc_now c) = (r, z1)"
    by fastforce
  have mono: "send_ok C self psk calls0 k st \<Longrightarrow> send_ok C self psk (calls0 @ [c]) k st" for k st
    by (rule send_ok_mono) auto
  have "gwf z1 \<and> (\<forall>k st. gget z1 k = Some st \<longrightarrow> send_ok C self psk (calls0 @ [c]) k st)"
  proof (cases r)
    case None
    with seal_None s Cons.prems mono show ?thesis by blast
  next
    case (Some f)
    let ?k = "(sc_to c, pq_tag (sc_pq c))"
    from seal_step [OF Cons.prems(1) s [unfolded Some]] obtain st where
      st: "(gget z ?k = Some st \<and> usable (sc_now c) st) \<or> new_send_state C self psk (sc_rnd c) (sc_to c) (sc_pq c) (sc_now c) = Some st"
      and z1: "gwf z1" "gget z1 ?k = Some (st\<lparr>ss_ctr := ss_ctr st + 1\<rparr>)" "\<And>k. k \<noteq> ?k \<Longrightarrow> gget z1 k = None \<or> gget z1 k = gget z k"
      by blast
    have "send_ok C self psk (calls0 @ [c]) ?k st" using st Cons.prems(2) mono send_ok_new by fastforce
    then have "send_ok C self psk (calls0 @ [c]) ?k (st\<lparr>ss_ctr := ss_ctr st + 1\<rparr>)" by (rule send_ok_ctr)
    with z1 Cons.prems(2) mono show ?thesis by (metis option.distinct(1) option.inject)
  qed
  from Cons.IH [OF conjunct1 [OF this] conjunct2 [OF this]] show ?case
    using s by (cases r) (simp_all add: case_prod_beta Let_def)
qed simp

lemma ts_near:
  assumes "0 \<le> unix_of t" "unix_of t < 2 ^ 32"
  shows "time_Unix (uint (of_int (unix_of t) :: u32)) \<le> t \<and> t < time_Unix (uint (of_int (unix_of t) :: u32)) + second"
proof -
  have "uint (of_int (unix_of t) :: u32) = unix_of t"
    using assms by (simp add: uint_word_of_int)
  then have "time_Unix (uint (of_int (unix_of t) :: u32)) = t div second * second"
    by (simp add: time_Unix_def unix_of_def)
  moreover have "t div second * second + t mod second = t" by simp
  moreover have "0 \<le> t mod second" "t mod second < second" by (simp_all add: second_def)
  ultimately show ?thesis by linarith
qed

lemma within_skew:
  assumes "0 \<le> unix_of t" "unix_of t < 2 ^ 32" "t \<le> now" "now - t \<le> 14 * minute"
  shows "\<not> (e2eMaxSkew < time_sub now (time_Unix (uint (of_int (unix_of t) :: u32)))) \<and>
    \<not> time_sub now (time_Unix (uint (of_int (unix_of t) :: u32))) < - e2eMaxSkew"
  using ts_near [OF assms(1,2)] assms(3,4) by (auto simp: time_sub_def e2e_durations)

text \<open>What a recipient with the post-quantum secret \<open>ss\<close> needs in order to open a frame with header \<open>h\<close>.\<close>

definition recv_ready :: "e2e_crypto \<Rightarrow> keypair \<Rightarrow> byte list \<Rightarrow> byte list \<Rightarrow> e2eOpener \<Rightarrow> node_key \<Rightarrow> go_time \<Rightarrow> e2eHeader \<Rightarrow> bool" where
  "recv_ready C self psk ss o1 via now h \<longleftrightarrow>
     (case gget (op_m o1) (recv_key h) of
        None \<Rightarrow> fst (allowDerivation o1 via now) \<and> length (op_m o1) < e2eMaxRecvKeys
      | Some st \<Rightarrow> win_ok (rs_win st) (eh_ctr h) \<and>
          (\<exists>dh1 dh2. x25519 C (kp_priv self) (eh_eph h) = Some dh1 \<and> x25519 C (kp_priv self) (eh_sender h) = Some dh2 \<and>
            rs_aead st = e2eDeriveAEAD C dh1 dh2 ss psk (eh_sender h) (kp_pub self) (eh_eph h) (eh_pqid h)))"

lemma open_authentic:
  assumes parse: "parseE2E body = Inr (h, ct)" and sender: "eh_sender h \<noteq> kp_pub self"
    and skew: "\<not> e2eMaxSkew < time_sub now (time_Unix (uint (eh_ts h)))" "\<not> time_sub now (time_Unix (uint (eh_ts h))) < - e2eMaxSkew"
    and pq: "(if hasPQ h then pqLookup (eh_sender h) (eh_pqid h) else Some []) = Some ss"
    and dh: "x25519 C (kp_priv self) (eh_eph h) = Some dh1" "x25519 C (kp_priv self) (eh_sender h) = Some dh2"
    and opens: "aead_open C (e2eDeriveAEAD C dh1 dh2 ss psk (eh_sender h) (kp_pub self) (eh_eph h) (eh_pqid h)) (e2eNonce (eh_ctr h)) ct (e2eAD body) = Some pt"
    and ready: "recv_ready C self psk ss o1 via now h"
  shows "\<exists>o2. e2e_open C self psk pqLookup o1 body via now = (Inr (h, pt), o2)"
proof (cases "gget (op_m o1) (recv_key h)")
  case (Some st)
  with ready dh have "win_ok (rs_win st) (eh_ctr h)"
    "rs_aead st = e2eDeriveAEAD C dh1 dh2 ss psk (eh_sender h) (kp_pub self) (eh_eph h) (eh_pqid h)"
    by (auto simp: recv_ready_def)
  with Some show ?thesis
    using sender skew opens by (simp add: e2e_open_def open_begin_def parse Let_def openLocked_def)
next
  case None
  obtain b o2 where a: "allowDerivation o1 via now = (b, o2)" by fastforce
  with None ready have b: b and len: "length (op_m o1) < e2eMaxRecvKeys" by (auto simp: recv_ready_def)
  have "win_ok new_e2eWindow (eh_ctr h)" by (simp add: win_ok_def new_e2eWindow_def)
  then have "\<exists>fresh. open_derive C self psk pqLookup o1 body h ct via now = (OpenFresh h pt fresh, o2)"
    using opens by (simp add: open_derive_def pq a b dh openLocked_def Let_def)
  then obtain fresh where "open_begin C self psk pqLookup o1 body via now = (OpenFresh h pt fresh, o2)"
    using None sender skew by (auto simp: open_begin_def parse Let_def)
  with None len allowDerivation_m [OF a] show ?thesis by (simp add: e2e_open_def open_commit_def Let_def)
qed

text \<open>The envelope key behind a sealed frame, made at a time \<open>t\<close> of the run.\<close>

lemma sealed_key:
  assumes c: "sc_to c = to"
    and sealed: "e2e_seal C A psk (sc_rnd c) (snd (seal_all C A psk newE2ESealer calls)) (sc_to c) (sc_dst c) (sc_src c)
      (sc_pq c) (sc_payload c) (sc_now c) = (Some frame, z')"
    and ids: "\<And>c'. c' \<in> set calls \<Longrightarrow> sc_to c' = sc_to c \<Longrightarrow> pq_tag (sc_pq c') = pq_tag (sc_pq c) \<Longrightarrow> pq_bytes (sc_pq c') = pq_bytes (sc_pq c)"
    and time: "\<And>c'. c' \<in> set (calls @ [c]) \<Longrightarrow> sc_now c' \<le> sc_now c"
  obtains st :: e2eSendState and t e dh1 dh2 where
    "drop (length ctlMagic + 1) frame = seal_header (sc_dst c) (sc_src c) (kp_pub A) (ss_eph st) (ss_ts st) (ss_ctr st + 1) (pq_tag (sc_pq c)) @
       aead_seal C (ss_aead st) (e2eNonce (ss_ctr st + 1)) (sc_payload c)
         (e2eAD (seal_header (sc_dst c) (sc_src c) (kp_pub A) (ss_eph st) (ss_ts st) (ss_ctr st + 1) (pq_tag (sc_pq c))))"
    "t \<in> sc_now ` set (calls @ [c])" "sc_now c - t \<le> 2 * minute" "ss_ts st = of_int (unix_of t)"
    "x25519 C e (basepoint C) = Some (ss_eph st)" "x25519 C e to = Some dh1" "x25519 C (kp_priv A) to = Some dh2"
    "ss_aead st = e2eDeriveAEAD C dh1 dh2 (pq_bytes (sc_pq c)) psk (kp_pub A) to (ss_eph st) (pq_tag (sc_pq c))"
proof -
  let ?z = "snd (seal_all C A psk newE2ESealer calls)"
  let ?k = "(sc_to c, pq_tag (sc_pq c))"
  have z: "gwf ?z" "\<And>k st. gget ?z k = Some st \<Longrightarrow> send_ok C A psk calls k st"
    using seal_all_ok [of newE2ESealer C A psk "[]" calls] by (auto simp: newE2ESealer_def)
  from seal_step [OF z(1) sealed] obtain st where
    st: "(gget ?z ?k = Some st \<and> usable (sc_now c) st) \<or> new_send_state C A psk (sc_rnd c) (sc_to c) (sc_pq c) (sc_now c) = Some st"
    and f: "drop (length ctlMagic + 1) frame = seal_header (sc_dst c) (sc_src c) (kp_pub A) (ss_eph st) (ss_ts st) (ss_ctr st + 1) (pq_tag (sc_pq c)) @
       aead_seal C (ss_aead st) (e2eNonce (ss_ctr st + 1)) (sc_payload c)
         (e2eAD (seal_header (sc_dst c) (sc_src c) (kp_pub A) (ss_eph st) (ss_ts st) (ss_ctr st + 1) (pq_tag (sc_pq c))))"
    by blast
  have ok: "send_ok C A psk (calls @ [c]) ?k st"
    using st z(2) send_ok_new [where c = c] send_ok_mono [where calls' = "calls @ [c]"] by fastforce
  then obtain c0 st0 r where c0: "c0 \<in> set (calls @ [c])" "sc_to c = sc_to c0" "pq_tag (sc_pq c) = pq_tag (sc_pq c0)"
    and st0: "new_send_state C A psk r (sc_to c0) (sc_pq c0) (sc_now c0) = Some st0" "st = st0\<lparr>ss_ctr := ss_ctr st\<rparr>"
    unfolding send_ok_def prod.inject by blast
  have eqs: "ss_eph st = ss_eph st0" "ss_ts st = ss_ts st0" "ss_born st = ss_born st0" "ss_aead st = ss_aead st0"
    by (subst st0(2), simp)+
  have bytes: "pq_bytes (sc_pq c0) = pq_bytes (sc_pq c)" using c0 ids by auto
  from new_send_state_SomeD [OF st0(1)] obtain e dh1 dh2 where d: "x25519 C e (basepoint C) = Some (ss_eph st)"
    "x25519 C e to = Some dh1" "x25519 C (kp_priv A) to = Some dh2"
    "ss_ts st = of_int (unix_of (sc_now c0))" "ss_born st = sc_now c0"
    "ss_aead st = e2eDeriveAEAD C dh1 dh2 (pq_bytes (sc_pq c)) psk (kp_pub A) to (ss_eph st) (pq_tag (sc_pq c))"
    by (auto simp: eqs c0(2,3) c [symmetric] bytes)
  have "sc_now c - sc_now c0 \<le> 2 * minute"
    using st d(5) time_sub_less_iff [of e2eRotate] new_send_state_SomeD [of C A psk "sc_rnd c" "sc_to c" "sc_pq c" "sc_now c" st]
    by (auto simp: usable_def e2e_durations)
  with that [OF f _ _ d(4) d(1,2,3,6)] c0(1) show thesis by blast
qed

section \<open>Properties\<close>

text \<open>
  C22: No envelope key is used with the same counter twice. In any run of the sealer, over any
  recipients, times, key rotations and evictions, the frames carry pairwise different pairs of
  ephemeral key and counter, so that no AEAD nonce repeats under a key, provided the ephemeral
  keys drawn by the calls differ.
\<close>

theorem seal_nonce_unique:
  assumes "crypto_ok C" "length (kp_pub self) = 32" "list_all call_ok calls"
    and "distinct (List.map_filter (drawn C) calls)"
  shows "distinct (map envelope_id (fst (seal_all C self psk newE2ESealer calls))) \<and>
    None \<notin> set (map envelope_id (fst (seal_all C self psk newE2ESealer calls)))"
proof -
  have "seal_inv newE2ESealer {} {}" by (simp add: seal_inv_def newE2ESealer_def)
  from seal_all_fresh [OF assms(1,2) this assms(3,4)] show ?thesis by auto
qed

text \<open>
  C13: A sealed packet opens at its recipient. After any run of the sealer at A, a frame sealed
  for B, whatever hop count the relay wrote into it, opens at B within 12 minutes to the payload,
  as sent by A with the addresses A gave, if B holds the post-quantum secret the frame names,
  secrets with the same id are the same, and B's replay window or its rate limit does not
  refuse it.
\<close>

theorem seal_open_roundtrip:
  assumes C: "crypto_ok C"
    and A: "x25519 C (kp_priv A) (basepoint C) = Some (kp_pub A)" and B: "x25519 C (kp_priv B) (basepoint C) = Some (kp_pub B)"
    and AB: "kp_pub A \<noteq> kp_pub B" and c: "sc_to c = kp_pub B" "call_ok c"
    and sealed: "e2e_seal C A psk (sc_rnd c) (snd (seal_all C A psk newE2ESealer calls)) (sc_to c) (sc_dst c) (sc_src c)
      (sc_pq c) (sc_payload c) (sc_now c) = (Some frame, z')"
    and ids: "\<And>c'. c' \<in> set calls \<Longrightarrow> sc_to c' = sc_to c \<Longrightarrow> pq_tag (sc_pq c') = pq_tag (sc_pq c) \<Longrightarrow> pq_bytes (sc_pq c') = pq_bytes (sc_pq c)"
    and time: "\<And>c'. c' \<in> set (calls @ [c]) \<Longrightarrow> sc_now c' \<le> sc_now c \<and> 0 \<le> unix_of (sc_now c') \<and> unix_of (sc_now c') < 2 ^ 32"
    and now: "sc_now c \<le> now" "now \<le> sc_now c + 12 * minute"
    and pq: "case sc_pq c of None \<Rightarrow> True | Some s \<Rightarrow> pqs_id s \<noteq> [0, 0, 0, 0] \<and> pqLookup (kp_pub A) (pqs_id s) = Some (pqs_ss s)"
    and body: "body = (drop (length ctlMagic + 1) frame)[e2eOffHop := hop]"
    and ready: "\<And>h ct. parseE2E body = Inr (h, ct) \<Longrightarrow> recv_ready C B psk (pq_bytes (sc_pq c)) o1 via now h"
  shows "\<exists>h o2. e2e_open C B psk pqLookup o1 body via now = (Inr (h, sc_payload c), o2) \<and>
    eh_sender h = kp_pub A \<and> eh_src h = sc_src c \<and> eh_dst h = sc_dst c"
proof -
  from sealed_key [OF c(1) sealed ids conjunct1 [OF time]] obtain st :: e2eSendState and t e dh1 dh2 where
    f: "drop (length ctlMagic + 1) frame = seal_header (sc_dst c) (sc_src c) (kp_pub A) (ss_eph st) (ss_ts st) (ss_ctr st + 1) (pq_tag (sc_pq c)) @
       aead_seal C (ss_aead st) (e2eNonce (ss_ctr st + 1)) (sc_payload c)
         (e2eAD (seal_header (sc_dst c) (sc_src c) (kp_pub A) (ss_eph st) (ss_ts st) (ss_ctr st + 1) (pq_tag (sc_pq c))))"
    and t: "t \<in> sc_now ` set (calls @ [c])" "sc_now c - t \<le> 2 * minute" "ss_ts st = of_int (unix_of t)"
    and d: "x25519 C e (basepoint C) = Some (ss_eph st)" "x25519 C e (kp_pub B) = Some dh1" "x25519 C (kp_priv A) (kp_pub B) = Some dh2"
      "ss_aead st = e2eDeriveAEAD C dh1 dh2 (pq_bytes (sc_pq c)) psk (kp_pub A) (kp_pub B) (ss_eph st) (pq_tag (sc_pq c))"
    by blast
  have skew: "\<not> e2eMaxSkew < time_sub now (time_Unix (uint (ss_ts st)))" "\<not> time_sub now (time_Unix (uint (ss_ts st))) < - e2eMaxSkew"
  proof -
    have "t \<le> sc_now c \<and> 0 \<le> unix_of t \<and> unix_of t < 2 ^ 32" using t(1) time by blast
    with within_skew [of t now] t(2) now show "\<not> e2eMaxSkew < time_sub now (time_Unix (uint (ss_ts st)))"
      "\<not> time_sub now (time_Unix (uint (ss_ts st))) < - e2eMaxSkew" unfolding t(3) by (auto simp: duration_defs)
  qed
  let ?hdr = "seal_header (sc_dst c) (sc_src c) (kp_pub A) (ss_eph st) (ss_ts st) (ss_ctr st + 1) (pq_tag (sc_pq c))"
  let ?ct = "aead_seal C (ss_aead st) (e2eNonce (ss_ctr st + 1)) (sc_payload c) ?hdr"
  let ?h = "header_of hop (sc_dst c) (sc_src c) (kp_pub A) (ss_eph st) (ss_ts st) (ss_ctr st + 1) (pq_tag (sc_pq c))"
  have lens: "length (sc_dst c) = 4" "length (sc_src c) = 4" "length (kp_pub A) = 32" "length (ss_eph st) = 32" "length (pq_tag (sc_pq c)) = 4"
    using c(2) crypto_len [OF C A] crypto_len [OF C d(1)] by (auto simp: call_ok_def)
  have body': "body = ?hdr[e2eOffHop := hop] @ ?ct"
    unfolding body f e2eAD_header(2) [OF lens] by (simp add: list_update_append seal_header_def e2eOffHop_def)
  have parse: "parseE2E body = Inr (?h, ?ct)"
    unfolding body' by (rule parseE2E_header [OF lens]) (simp add: crypto_seal_len [OF C])
  have "\<exists>o2. e2e_open C B psk pqLookup o1 body via now = (Inr (?h, sc_payload c), o2)"
  proof (rule open_authentic [OF parse, where ss = "pq_bytes (sc_pq c)" and ?dh1.0 = dh1 and ?dh2.0 = dh2])
    show "(if hasPQ ?h then pqLookup (eh_sender ?h) (eh_pqid ?h) else Some []) = Some (pq_bytes (sc_pq c))"
      using pq by (cases "sc_pq c") (auto simp: hasPQ_def header_of_def pq_tag_def pq_bytes_def)
    show "aead_open C (e2eDeriveAEAD C dh1 dh2 (pq_bytes (sc_pq c)) psk (eh_sender ?h) (kp_pub B) (eh_eph ?h) (eh_pqid ?h))
        (e2eNonce (eh_ctr ?h)) ?ct (e2eAD body) = Some (sc_payload c)"
      unfolding body' e2eAD_header(1) [OF lens] by (simp add: header_of_def d(4) [symmetric] crypto_open_seal [OF C])
  qed (use skew AB ready [OF parse] crypto_dh [OF C d(1) B d(2)] crypto_dh [OF C A B d(3)] in \<open>simp_all add: header_of_def\<close>)
  then show ?thesis by (auto simp: header_of_def)
qed

text \<open>A toy group for the witnesses: scalars and points are 32-byte strings under exclusive or.\<close>

definition xor_crypto :: e2e_crypto where
  "xor_crypto = \<lparr>x25519 = (\<lambda>s p. if length s = 32 \<and> length p = 32 then Some (map2 (XOR) s p) else None),
     basepoint = replicate 32 0, sha256 = (\<lambda>x. x), hkdf_key = (\<lambda>a b c. []),
     aead_seal = (\<lambda>k n x ad. x @ replicate 16 0), aead_open = (\<lambda>k n ct ad. Some (take (length ct - 16) ct))\<rparr>"

lemma map2_xor_zero: "length s = n \<Longrightarrow> map2 (XOR) s (replicate n 0) = (s :: byte list)"
  by (rule nth_equalityI) auto

lemma xor_crypto_ok: "crypto_ok xor_crypto"
proof -
  have "map2 (XOR) a b = map2 (XOR) b a" if "length a = length b" for a b :: "byte list"
    using that by (intro nth_equalityI) (auto simp: xor.commute)
  then show ?thesis by (auto simp: crypto_ok_def xor_crypto_def map2_xor_zero split: if_splits)
qed

definition keys_A :: keypair where "keys_A = \<lparr>kp_priv = demo_A, kp_pub = demo_A\<rparr>"
definition keys_B :: keypair where "keys_B = \<lparr>kp_priv = demo_B, kp_pub = demo_B\<rparr>"

definition demo_secret :: e2ePQSecret where
  "demo_secret = \<lparr>pqs_id = [1, 2, 3, 4], pqs_ss = replicate 32 9, pqs_born = 0\<rparr>"

definition demo_call :: "byte \<Rightarrow> seal_call" where
  "demo_call b = \<lparr>sc_rnd = Some (replicate 32 b), sc_to = demo_B, sc_dst = [10, 0, 0, 2], sc_src = [10, 0, 0, 1],
     sc_pq = Some demo_secret, sc_payload = [0x45, 1], sc_now = demo_now\<rparr>"

lemma demo_call_ok: "call_ok (demo_call b)"
  by (simp add: call_ok_def demo_call_def pq_tag_def demo_secret_def)

lemma demo_new_send_state:
  "new_send_state xor_crypto keys_A psk (Some (replicate 32 b)) demo_B pq now = Some
     \<lparr>ss_eph = replicate 32 b, ss_ts = of_int (unix_of now), ss_born = now, ss_aead = [], ss_ctr = 0\<rparr>"
  by (simp add: new_send_state_def xor_crypto_def keys_A_def demo_A_def demo_B_def e2eDeriveAEAD_def map2_xor_zero)

lemma demo_frames: "length (fst (seal_all xor_crypto keys_A [] newE2ESealer [demo_call 1, demo_call 2])) = 2"
  by (simp add: demo_call_def e2e_seal_def sealer_state_def newE2ESealer_def sealer_room_def e2eMaxSendKeys_def Let_def
      demo_new_send_state usable_def e2e_durations e2eMaxPackets_def)

theorem seal_nonce_unique_witness:
  "\<exists>f g. map envelope_id (fst (seal_all xor_crypto keys_A [] newE2ESealer [demo_call 1, demo_call 2])) = [Some f, Some g] \<and> f \<noteq> g"
proof -
  have "distinct (List.map_filter (drawn xor_crypto) [demo_call 1, demo_call 2])"
    by (simp add: drawn_def demo_call_def xor_crypto_def map_filter_simps map2_xor_zero)
  then have "distinct (map envelope_id (fst (seal_all xor_crypto keys_A [] newE2ESealer [demo_call 1, demo_call 2]))) \<and>
      None \<notin> set (map envelope_id (fst (seal_all xor_crypto keys_A [] newE2ESealer [demo_call 1, demo_call 2])))"
    by (intro seal_nonce_unique [OF xor_crypto_ok]) (simp_all add: keys_A_def demo_A_def demo_call_ok)
  moreover obtain x y where "fst (seal_all xor_crypto keys_A [] newE2ESealer [demo_call 1, demo_call 2]) = [x, y]"
    using demo_frames by (auto simp: length_Suc_conv numeral_2_eq_2)
  ultimately have "distinct (map envelope_id [x, y]) \<and> None \<notin> set (map envelope_id [x, y])"
    "map envelope_id (fst (seal_all xor_crypto keys_A [] newE2ESealer [demo_call 1, demo_call 2])) = [envelope_id x, envelope_id y]"
    by simp_all
  then show ?thesis by (cases "envelope_id x"; cases "envelope_id y") auto
qed

theorem seal_open_roundtrip_witness:
  "\<exists>frame z' h o2. e2e_seal xor_crypto keys_A [] (sc_rnd (demo_call 1)) newE2ESealer demo_B [10, 0, 0, 2] [10, 0, 0, 1]
       (Some demo_secret) [0x45, 1] demo_now = (Some frame, z') \<and>
     e2e_open xor_crypto keys_B [] (\<lambda>s i. Some (pqs_ss demo_secret)) newE2EOpener ((drop (length ctlMagic + 1) frame)[e2eOffHop := 1])
       demo_B demo_now = (Inr (h, [0x45, 1]), o2) \<and> eh_sender h = demo_A"
proof -
  obtain frame z' where sealed: "e2e_seal xor_crypto keys_A [] (sc_rnd (demo_call 1)) newE2ESealer demo_B [10, 0, 0, 2] [10, 0, 0, 1]
       (Some demo_secret) [0x45, 1] demo_now = (Some frame, z')"
    by (simp add: demo_call_def e2e_seal_def sealer_state_def newE2ESealer_def demo_new_send_state Let_def)
  have run: "snd (seal_all xor_crypto keys_A [] newE2ESealer []) = newE2ESealer" by simp
  have "\<exists>h o2. e2e_open xor_crypto keys_B [] (\<lambda>s i. Some (pqs_ss demo_secret)) newE2EOpener ((drop (length ctlMagic + 1) frame)[e2eOffHop := 1])
       demo_B demo_now = (Inr (h, sc_payload (demo_call 1)), o2) \<and> eh_sender h = kp_pub keys_A \<and>
       eh_src h = sc_src (demo_call 1) \<and> eh_dst h = sc_dst (demo_call 1)"
  proof (rule seal_open_roundtrip [OF xor_crypto_ok, where calls = "[]" and z' = z' and frame = frame])
    show "e2e_seal xor_crypto keys_A [] (sc_rnd (demo_call 1)) (snd (seal_all xor_crypto keys_A [] newE2ESealer []))
        (sc_to (demo_call 1)) (sc_dst (demo_call 1)) (sc_src (demo_call 1)) (sc_pq (demo_call 1)) (sc_payload (demo_call 1))
        (sc_now (demo_call 1)) = (Some frame, z')" using sealed by (simp add: demo_call_def)
    show "recv_ready xor_crypto keys_B [] (pq_bytes (sc_pq (demo_call 1))) newE2EOpener demo_B demo_now h" for h
      by (simp add: recv_ready_def newE2EOpener_def allowDerivation_def e2eNewKeysPerSec_def e2eMaxRecvKeys_def seconds_def Let_def)
    show "call_ok (demo_call 1)" by (rule demo_call_ok)
  qed (simp_all add: keys_A_def keys_B_def xor_crypto_def map2_xor_zero demo_A_def demo_B_def demo_call_def demo_secret_def
      demo_now_def unix_of_def time_Unix_def duration_defs)
  then show ?thesis using sealed by (auto simp: demo_call_def keys_A_def)
qed

end
