(* ===== verification/E2E_Node.thy ===== *)
theory E2E_Node
  imports IP_Binding E2E_Envelope
begin

text \<open>
  The node around the end-to-end envelopes, \<open>client/e2erelay.go\<close>: what happens to a packet that has
  to go through a relay, and to a \<open>Z\<close> frame that arrives. It joins the sealer and opener with the
  ML-KEM exchange, the address bindings, the learned routes, admission and revocation.

  \<open>e2e_cfg\<close> holds what a handler only reads: cryptography, keys, overlay, admin state, approvals and,
  in its \<open>bind_env\<close>, the node's own address, provisions, revocations and a roster snapshot.
  \<open>e2e_node\<close> is what it changes. A handler reads the clock once. \<open>R\<close> gives the randomness of its
  successive seals and key generations. \<open>SendTo\<close> hands a frame to \<open>sendPacket\<close> on the session with that
  peer; \<open>Deliver\<close> writes to the tunnel. Counters and log lines are left out.
\<close>

section \<open>Kicked keys\<close>

text \<open>\<open>revocationList\<close> of \<open>client/control.go\<close>: temporary bans from the dashboard.\<close>

definition defaultRevocationTTL :: duration where "defaultRevocationTTL = 30 * minute"

record revocationList =
  rl_m :: "(node_key \<times> go_time) list"
  rl_ttl :: duration

definition newRevocationList :: "duration \<Rightarrow> revocationList" where
  "newRevocationList ttl = \<lparr>rl_m = [], rl_ttl = ttl\<rparr>"

definition rl_revoke :: "revocationList \<Rightarrow> node_key \<Rightarrow> go_time \<Rightarrow> revocationList" where
  "rl_revoke r pub now = (if pub = zero_key then r else r\<lparr>rl_m := gput pub (now + rl_ttl r) (rl_m r)\<rparr>)"

definition rl_isRevoked :: "revocationList \<Rightarrow> node_key \<Rightarrow> go_time \<Rightarrow> bool \<times> revocationList" where
  "rl_isRevoked r pub now =
     (if pub = zero_key then (False, r)
      else case gget (rl_m r) pub of
          None \<Rightarrow> (False, r)
        | Some ex \<Rightarrow> if ex < now then (False, r\<lparr>rl_m := gdel pub (rl_m r)\<rparr>) else (True, r))"

section \<open>State\<close>

record ('apk, 'kpk, 'sk) e2e_cfg =
  cf_C :: e2e_crypto
  cf_K :: "('kpk, 'sk) kem"
  cf_self :: keypair
  cf_psk :: "byte list"
  cf_env :: bind_env
  cf_ip6 :: "string \<Rightarrow> byte list option"
  cf_nets :: ip_nets
  cf_admEnv :: string
  cf_admin :: "'apk admin_state"
  cf_approvals :: approvalStore

record ('c, 'sk) e2e_node =
  en_mesh :: "'c mesh"
  en_bind :: ipBindingTable
  en_pq :: "'sk e2ePQ"
  en_sealer :: e2eSealer
  en_opener :: e2eOpener
  en_peerIPs :: "(node_key \<times> string) list"
  en_admLog :: "(node_key \<times> go_time) list"
  en_kicked :: revocationList

datatype e2e_effect = SendTo udp_addr node_key "byte list" | Deliver "byte list"

record e2e_rand =
  rd_eph :: "nat \<Rightarrow> byte list option"
  rd_seed :: "nat \<Rightarrow> byte list"

definition session_keys :: "'c mesh \<Rightarrow> node_key list" where
  "session_keys m = concat (map (\<lambda>a. case GetByAddr m a of None \<Rightarrow> [] | Some s \<Rightarrow> [s_peerStatic s]) (EstablishedAddrs m))"

definition node_env :: "('apk, 'kpk, 'sk) e2e_cfg \<Rightarrow> ('c, 'sk) e2e_node \<Rightarrow> bind_env" where
  "node_env cfg n = (cf_env cfg)\<lparr>be_peerIPs := en_peerIPs n, be_sessions := session_keys (en_mesh n)\<rparr>"

definition e2eSelfIP :: "('apk, 'kpk, 'sk) e2e_cfg \<Rightarrow> string" where
  "e2eSelfIP cfg = be_self (cf_env cfg)"

definition node_owned ::
  "('apk, 'kpk, 'sk) e2e_cfg \<Rightarrow> ('c, 'sk) e2e_node \<Rightarrow> node_key \<Rightarrow> string \<Rightarrow> bool \<Rightarrow> go_time \<Rightarrow> bool \<times> ('c, 'sk) e2e_node" where
  "node_owned cfg n pub ip bind now =
     (let (ok, t) = OwnedBy (sha256 (cf_C cfg)) (cf_ip6 cfg) (node_env cfg n) (en_bind n) pub ip bind now
      in (ok, n\<lparr>en_bind := t\<rparr>))"

definition node_is_at ::
  "('apk, 'kpk, 'sk) e2e_cfg \<Rightarrow> ('c, 'sk) e2e_node \<Rightarrow> node_key \<Rightarrow> string \<Rightarrow> go_time \<Rightarrow> bool \<times> ('c, 'sk) e2e_node" where
  "node_is_at cfg n pub ip now =
     (let (ok, t) = IsNodeAt (sha256 (cf_C cfg)) (cf_ip6 cfg) (node_env cfg n) (en_bind n) pub ip now
      in (ok, n\<lparr>en_bind := t\<rparr>))"

definition node_admits ::
  "('apk, 'kpk, 'sk) e2e_cfg \<Rightarrow> ('c, 'sk) e2e_node \<Rightarrow> go_time \<Rightarrow> node_key \<Rightarrow> bool \<times> ('c, 'sk) e2e_node" where
  "node_admits cfg n now pub =
     (let (ok, l) = admissionOK (cf_admEnv cfg) (kp_pub (cf_self cfg)) (cf_admin cfg) (cf_approvals cfg) (en_admLog n) now pub
      in (ok, n\<lparr>en_admLog := l\<rparr>))"

definition setPeerOverlayIP :: "node_key \<Rightarrow> string \<Rightarrow> ('c, 'sk) e2e_node \<Rightarrow> ('c, 'sk) e2e_node" where
  "setPeerOverlayIP pub ip n = (if ip = [] then n else n\<lparr>en_peerIPs := gput pub ip (en_peerIPs n)\<rparr>)"

definition node_learn :: "('apk, 'kpk, 'sk) e2e_cfg \<Rightarrow> go_time \<Rightarrow> string \<Rightarrow> udp_addr \<Rightarrow> ('c, 'sk) e2e_node \<Rightarrow> ('c, 'sk) e2e_node" where
  "node_learn cfg now ip raddr n =
     n\<lparr>en_mesh := Learn (cf_nets cfg) (peerOverlayIPByPub (node_env cfg n)) (en_mesh n) now ip raddr\<rparr>"

definition ipv4To4 :: "(string \<Rightarrow> byte list option) \<Rightarrow> string \<Rightarrow> byte list option" where
  "ipv4To4 ip6 ip = parseIP ip6 ip"

section \<open>Control messages\<close>

text \<open>The session at an address, if frames may be sent on it.\<close>

definition usable_session ::
  "('apk, 'kpk, 'sk) e2e_cfg \<Rightarrow> ('c, 'sk) e2e_node \<Rightarrow> go_time \<Rightarrow> udp_addr option \<Rightarrow> (udp_addr \<times> 'c session) option \<times> ('c, 'sk) e2e_node" where
  "usable_session cfg n now a =
     (case a of None \<Rightarrow> (None, n)
      | Some u \<Rightarrow>
          (case GetByAddr (en_mesh n) a of None \<Rightarrow> (None, n)
           | Some s \<Rightarrow>
               if \<not> Established (Some s) then (None, n)
               else
                 let (ok, n1) = node_admits cfg n now (s_peerStatic s)
                 in (if ok then Some (u, s) else None, n1)))"

fun flood_control ::
  "('apk, 'kpk, 'sk) e2e_cfg \<Rightarrow> go_time \<Rightarrow> byte list \<Rightarrow> udp_addr option list \<Rightarrow> ('c, 'sk) e2e_node \<Rightarrow> e2e_effect list \<times> ('c, 'sk) e2e_node" where
  "flood_control cfg now frame [] n = ([], n)"
| "flood_control cfg now frame (a # as) n =
     (case usable_session cfg n now a of
        (Some (u, s), n1) \<Rightarrow>
          let (es, n2) = flood_control cfg now frame as n1 in (SendTo u (s_peerStatic s) frame # es, n2)
      | (None, n1) \<Rightarrow> flood_control cfg now frame as n1)"

definition e2eSendControl ::
  "('apk, 'kpk, 'sk) e2e_cfg \<Rightarrow> go_time \<Rightarrow> string \<Rightarrow> byte list \<Rightarrow> ('c, 'sk) e2e_node \<Rightarrow> e2e_effect list \<times> ('c, 'sk) e2e_node" where
  "e2eSendControl cfg now dstIP frame n =
     (case usable_session cfg n now (Lookup (learned (en_mesh n)) dstIP) of
        (Some (u, s), n1) \<Rightarrow> ([SendTo u (s_peerStatic s) frame], n1)
      | (None, n1) \<Rightarrow> flood_control cfg now frame (EstablishedAddrs (en_mesh n1)) n1)"

definition e2eSealControl ::
  "('apk, 'kpk, 'sk) e2e_cfg \<Rightarrow> byte list option \<Rightarrow> node_key \<Rightarrow> string \<Rightarrow> byte list \<Rightarrow> go_time \<Rightarrow> ('c, 'sk) e2e_node
   \<Rightarrow> byte list option \<times> ('c, 'sk) e2e_node" where
  "e2eSealControl cfg rnd to dstIP payload now n =
     (case (ipv4To4 (cf_ip6 cfg) dstIP, ipv4To4 (cf_ip6 cfg) (e2eSelfIP cfg)) of
        (Some dst, Some src) \<Rightarrow>
          let (f, z) = e2e_seal (cf_C cfg) (cf_self cfg) (cf_psk cfg) rnd (en_sealer n) to dst src None payload now
          in (f, n\<lparr>en_sealer := z\<rparr>)
      | _ \<Rightarrow> (None, n))"

text \<open>The two together, as every caller has them.\<close>

definition send_sealed ::
  "('apk, 'kpk, 'sk) e2e_cfg \<Rightarrow> byte list option \<Rightarrow> node_key \<Rightarrow> string \<Rightarrow> byte list \<Rightarrow> go_time \<Rightarrow> ('c, 'sk) e2e_node
   \<Rightarrow> e2e_effect list \<times> ('c, 'sk) e2e_node" where
  "send_sealed cfg rnd to dstIP payload now n =
     (case e2eSealControl cfg rnd to dstIP payload now n of
        (Some f, n1) \<Rightarrow> e2eSendControl cfg now dstIP f n1
      | (None, n1) \<Rightarrow> ([], n1))"

section \<open>Sealing a packet\<close>

definition buildE2EFrame ::
  "('apk, 'kpk, 'sk) e2e_cfg \<Rightarrow> e2e_rand \<Rightarrow> ('c, 'sk) e2e_node \<Rightarrow> byte list \<Rightarrow> go_time
   \<Rightarrow> (byte list option \<times> e2e_effect list) \<times> ('c, 'sk) e2e_node" where
  "buildE2EFrame cfg R n pkt now =
     (let me = e2eSelfIP cfg; dstIP = extractIPv4Dst pkt; srcIP = extractIPv4Src pkt in
      if me = [] \<or> srcIP \<noteq> me \<or> dstIP = [] \<or> \<not> inOverlaySubnet (cf_ip6 cfg) (cf_env cfg) dstIP then ((None, []), n)
      else case (ipv4To4 (cf_ip6 cfg) dstIP, ipv4To4 (cf_ip6 cfg) srcIP) of
          (Some dst, Some src) \<Rightarrow>
            (case OwnerOf (sha256 (cf_C cfg)) (cf_ip6 cfg) (node_env cfg n) (en_bind n) dstIP now of
               (None, t) \<Rightarrow> ((None, []), n\<lparr>en_bind := t\<rparr>)
             | (Some owner, t) \<Rightarrow>
                 let n1 = n\<lparr>en_bind := t\<rparr>;
                     ((pq, offer), p) = outbound (cf_K cfg) (sha256 (cf_C cfg)) (rd_seed R 0) (en_pq n1) owner now;
                     n2 = n1\<lparr>en_pq := p\<rparr>;
                     (es, n3) = (case offer of
                         None \<Rightarrow> ([], n2)
                       | Some payload \<Rightarrow> send_sealed cfg (rd_eph R 0) owner dstIP payload now n2)
                 in case pq of
                      None \<Rightarrow> ((None, es), n3)
                    | Some _ \<Rightarrow>
                        let (f, z) = e2e_seal (cf_C cfg) (cf_self cfg) (cf_psk cfg) (rd_eph R 1) (en_sealer n3) owner dst src pq pkt now
                        in ((f, es), n3\<lparr>en_sealer := z\<rparr>))
        | _ \<Rightarrow> ((None, []), n))"

definition sendOverlayViaSession ::
  "('apk, 'kpk, 'sk) e2e_cfg \<Rightarrow> e2e_rand \<Rightarrow> ('c, 'sk) e2e_node \<Rightarrow> udp_addr \<Rightarrow> 'c session \<Rightarrow> byte list \<Rightarrow> string \<Rightarrow> go_time
   \<Rightarrow> (bool \<times> e2e_effect list) \<times> ('c, 'sk) e2e_node" where
  "sendOverlayViaSession cfg R n addr s pkt dst now =
     (case node_is_at cfg n (s_peerStatic s) dst now of
        (True, n1) \<Rightarrow> ((True, [SendTo addr (s_peerStatic s) pkt]), n1)
      | (False, n1) \<Rightarrow>
          (case buildE2EFrame cfg R n1 pkt now of
             ((None, es), n2) \<Rightarrow> ((False, es), n2)
           | ((Some frame, es), n2) \<Rightarrow> ((True, es @ [SendTo addr (s_peerStatic s) frame]), n2)))"

section \<open>Opening a frame\<close>

text \<open>\<open>open\<close> looks a post-quantum secret up only for a key it has no window for; the lookup marks the
  peer's entry as used.\<close>

definition lookup_touch :: "e2eOpener \<Rightarrow> node_key \<Rightarrow> 'sk e2ePQ \<Rightarrow> byte list \<Rightarrow> go_time \<Rightarrow> 'sk e2ePQ" where
  "lookup_touch o1 self p frame now =
     (case parseE2E frame of
        Inl e \<Rightarrow> p
      | Inr (h, ct) \<Rightarrow>
          let d = time_sub now (time_Unix (uint (eh_ts h))) in
          if eh_sender h = self \<or> e2eMaxSkew < d \<or> d < - e2eMaxSkew \<or> gget (op_m o1) (recv_key h) \<noteq> None \<or> \<not> hasPQ h then p
          else snd (secretFor p (eh_sender h) (eh_pqid h) now))"

definition node_open ::
  "('apk, 'kpk, 'sk) e2e_cfg \<Rightarrow> ('c, 'sk) e2e_node \<Rightarrow> byte list \<Rightarrow> node_key \<Rightarrow> go_time
   \<Rightarrow> (e2e_error + (e2eHeader \<times> byte list)) \<times> ('c, 'sk) e2e_node" where
  "node_open cfg n frame via now =
     (let pqLookup = (\<lambda>sender tag. fst (secretFor (en_pq n) sender tag now));
          (r, o1) = e2e_open (cf_C cfg) (cf_self cfg) (cf_psk cfg) pqLookup (en_opener n) frame via now
      in (r, n\<lparr>en_opener := o1, en_pq := lookup_touch (en_opener n) (kp_pub (cf_self cfg)) (en_pq n) frame now\<rparr>))"

text \<open>The sender uses a secret this node does not hold.\<close>

definition answer_no_pq ::
  "('apk, 'kpk, 'sk) e2e_cfg \<Rightarrow> e2e_rand \<Rightarrow> ('c, 'sk) e2e_node \<Rightarrow> e2eHeader \<Rightarrow> go_time \<Rightarrow> e2e_effect list \<times> ('c, 'sk) e2e_node" where
  "answer_no_pq cfg R n h now =
     (let srcIP = show_ipv4 (eh_src h); (owned, n1) = node_owned cfg n (eh_sender h) srcIP False now in
      if \<not> owned then ([], n1)
      else
        let (reset, p) = shouldReset (en_pq n1) (eh_sender h) now; n2 = n1\<lparr>en_pq := p\<rparr> in
        if reset then send_sealed cfg (rd_eph R 0) (eh_sender h) srcIP (resetPayload (eh_pqid h)) now n2
        else ([], n2))"

definition handle_offer ::
  "('apk, 'kpk, 'sk) e2e_cfg \<Rightarrow> e2e_rand \<Rightarrow> ('c, 'sk) e2e_node \<Rightarrow> node_key \<Rightarrow> string \<Rightarrow> byte list \<Rightarrow> udp_addr \<Rightarrow> go_time
   \<Rightarrow> e2e_effect list \<times> ('c, 'sk) e2e_node" where
  "handle_offer cfg R n sender srcIP ek raddr now =
     (case onOffer (cf_K cfg) (sha256 (cf_C cfg)) (rd_seed R 0) (en_pq n) sender ek now of
        (Inl e, p) \<Rightarrow> ([], n\<lparr>en_pq := p\<rparr>)
      | (Inr reply, p) \<Rightarrow>
          let n1 = setPeerOverlayIP sender srcIP (node_learn cfg now srcIP raddr (n\<lparr>en_pq := p\<rparr>));
              (es, n2) = send_sealed cfg (rd_eph R 0) sender srcIP reply now n1;
              ((pq, back), p2) = outbound (cf_K cfg) (sha256 (cf_C cfg)) (rd_seed R 1) (en_pq n2) sender now;
              n3 = n2\<lparr>en_pq := p2\<rparr>
          in case back of
               None \<Rightarrow> (es, n3)
             | Some payload \<Rightarrow>
                 let (es2, n4) = send_sealed cfg (rd_eph R 1) sender srcIP payload now n3 in (es @ es2, n4))"

text \<open>A classical envelope: key-exchange messages only.\<close>

definition handle_classical ::
  "('apk, 'kpk, 'sk) e2e_cfg \<Rightarrow> e2e_rand \<Rightarrow> ('c, 'sk) e2e_node \<Rightarrow> node_key \<Rightarrow> string \<Rightarrow> byte list \<Rightarrow> udp_addr \<Rightarrow> go_time
   \<Rightarrow> e2e_effect list \<times> ('c, 'sk) e2e_node" where
  "handle_classical cfg R n sender srcIP pt raddr now =
     (if pt = [] then ([], n)
      else if hd pt = e2eKindOffer then handle_offer cfg R n sender srcIP (tl pt) raddr now
      else if hd pt = e2eKindReply then
        (case onReply (cf_K cfg) (sha256 (cf_C cfg)) (en_pq n) sender (tl pt) now of
           (None, p) \<Rightarrow> ([], node_learn cfg now srcIP raddr (n\<lparr>en_pq := p\<rparr>))
         | (Some e, p) \<Rightarrow> ([], n\<lparr>en_pq := p\<rparr>))
      else if hd pt = e2eKindReset then
        ([], if length pt = 5 then n\<lparr>en_pq := onReset (en_pq n) sender (tl pt)\<rparr> else n)
      else ([], n))"

text \<open>An authenticated envelope, once opened: revocation, admission, ownership of the source, content.\<close>

definition handle_opened ::
  "('apk, 'kpk, 'sk) e2e_cfg \<Rightarrow> e2e_rand \<Rightarrow> ('c, 'sk) e2e_node \<Rightarrow> e2eHeader \<Rightarrow> byte list \<Rightarrow> udp_addr \<Rightarrow> go_time
   \<Rightarrow> e2e_effect list \<times> ('c, 'sk) e2e_node" where
  "handle_opened cfg R n h pt raddr now =
     (let sender = eh_sender h; srcIP = show_ipv4 (eh_src h);
          (kicked, rl) = rl_isRevoked (en_kicked n) sender now;
          n0 = n\<lparr>en_kicked := rl\<rparr>
      in
      if kicked \<or> env_revoked (cf_env cfg) sender then ([], n0)
      else
        let (adm, n1) = node_admits cfg n0 now sender in
        if \<not> adm then ([], n1)
        else if \<not> inOverlaySubnet (cf_ip6 cfg) (cf_env cfg) srcIP then ([], n1)
        else
          let (owned, n2) = node_owned cfg n1 sender srcIP True now in
          if \<not> owned then ([], n2)
          else if \<not> hasPQ h then handle_classical cfg R n2 sender srcIP pt raddr now
          else if \<not> isIPv4Packet pt \<or> extractIPv4Dst pt \<noteq> e2eSelfIP cfg \<or> extractIPv4Src pt \<noteq> srcIP then ([], n2)
          else ([Deliver pt], setPeerOverlayIP sender srcIP (node_learn cfg now srcIP raddr n2)))"

definition e2eDeliverLocal ::
  "('apk, 'kpk, 'sk) e2e_cfg \<Rightarrow> e2e_rand \<Rightarrow> ('c, 'sk) e2e_node \<Rightarrow> byte list \<Rightarrow> udp_addr \<Rightarrow> 'c session \<Rightarrow> go_time
   \<Rightarrow> e2e_effect list \<times> ('c, 'sk) e2e_node" where
  "e2eDeliverLocal cfg R n frame raddr s now =
     (case node_open cfg n frame (s_peerStatic s) now of
        (Inl E2ENoPQ, n1) \<Rightarrow>
          (case parseE2E frame of Inl e \<Rightarrow> ([], n1) | Inr (h, ct) \<Rightarrow> answer_no_pq cfg R n1 h now)
      | (Inl e, n1) \<Rightarrow> ([], n1)
      | (Inr (h, pt), n1) \<Rightarrow> handle_opened cfg R n1 h pt raddr now)"

section \<open>An arriving frame\<close>

definition mark_hop :: "byte list \<Rightarrow> byte list" where
  "mark_hop body = (ctlMagic @ body)[length ctlMagic + 1 + e2eOffHop := 1]"

definition forward_e2e ::
  "('apk, 'kpk, 'sk) e2e_cfg \<Rightarrow> ('c, 'sk) e2e_node \<Rightarrow> byte list \<Rightarrow> e2eHeader \<Rightarrow> udp_addr \<Rightarrow> go_time
   \<Rightarrow> e2e_effect list \<times> ('c, 'sk) e2e_node" where
  "forward_e2e cfg n body h raddr now =
     (if eh_hop h \<noteq> 0 then ([], n)
      else
        let dstIP = show_ipv4 (eh_dst h); nxt = Lookup (learned (en_mesh n)) dstIP in
        if nxt = None \<or> nxt = Some raddr then ([], n)
        else case usable_session cfg n now nxt of
            (None, n1) \<Rightarrow> ([], n1)
          | (Some (u, ns), n1) \<Rightarrow>
              let (there, n2) = node_is_at cfg n1 (s_peerStatic ns) dstIP now in
              if \<not> there then ([], n2) else ([SendTo u (s_peerStatic ns) (mark_hop body)], n2))"

definition dst_revoked :: "('apk, 'kpk, 'sk) e2e_cfg \<Rightarrow> string \<Rightarrow> bool" where
  "dst_revoked cfg ip = (case be_rev (cf_env cfg) of None \<Rightarrow> False | Some s \<Rightarrow> isOverlayIPRevoked s ip)"

definition handleE2EFrame ::
  "('apk, 'kpk, 'sk) e2e_cfg \<Rightarrow> e2e_rand \<Rightarrow> ('c, 'sk) e2e_node \<Rightarrow> byte list \<Rightarrow> udp_addr \<Rightarrow> go_time
   \<Rightarrow> e2e_effect list \<times> ('c, 'sk) e2e_node" where
  "handleE2EFrame cfg R n body raddr now =
     (case usable_session cfg n now (Some raddr) of
        (None, n1) \<Rightarrow> ([], n1)
      | (Some (u, s), n1) \<Rightarrow>
          (case parseE2E (tl body) of
             Inl e \<Rightarrow> ([], n1)
           | Inr (h, ct) \<Rightarrow>
               let dstIP = show_ipv4 (eh_dst h) in
               if dst_revoked cfg dstIP then ([], n1)
               else if e2eSelfIP cfg \<noteq> [] \<and> dstIP = e2eSelfIP cfg then e2eDeliverLocal cfg R n1 (tl body) raddr s now
               else forward_e2e cfg n1 body h raddr now))"

section \<open>What leaves the bindings alone\<close>

lemma node_env_simps [simp]:
  "strength sha (node_env cfg n) = strength sha (cf_env cfg)" "env_revoked (node_env cfg n) = env_revoked (cf_env cfg)"
  "be_self (node_env cfg n) = e2eSelfIP cfg" "be_strict (node_env cfg n) = be_strict (cf_env cfg)"
  "inOverlaySubnet ip6 (node_env cfg n) = inOverlaySubnet ip6 (cf_env cfg)"
  by (simp_all add: node_env_def strength_def env_revoked_def e2eSelfIP_def inOverlaySubnet_def fun_eq_iff cong: option.case_cong)

lemma node_env_owners [simp]: "provisionedOwners (node_env cfg n) = provisionedOwners (cf_env cfg)"
proof -
  have "be_ones (node_env cfg n) = be_ones (cf_env cfg)" "be_prov (node_env cfg n) = be_prov (cf_env cfg)"
    by (simp_all add: node_env_def)
  moreover from this have "owner_scan (node_env cfg n) = owner_scan (cf_env cfg)"
    by (simp add: owner_scan_def fun_eq_iff cong: option.case_cong)
  ultimately show ?thesis by (intro ext) (simp add: provisionedOwners_def cong: option.case_cong)
qed

named_theorems bind_frame \<open>operations that do not touch the address bindings\<close>

lemma admits_bind [bind_frame]: "en_bind (snd (node_admits cfg n now pub)) = en_bind n"
  by (simp add: node_admits_def case_prod_beta)

lemma usable_bind [bind_frame]: "en_bind (snd (usable_session cfg n now a)) = en_bind n"
  by (simp add: usable_session_def case_prod_beta Let_def bind_frame split: option.splits)

lemma flood_bind [bind_frame]: "en_bind (snd (flood_control cfg now frame as n)) = en_bind n"
proof (induction as arbitrary: n)
  case (Cons a as)
  obtain r n1 where "usable_session cfg n now a = (r, n1)" by fastforce
  with Cons usable_bind [of cfg n now a] show ?case by (simp add: case_prod_beta Let_def split: option.splits)
qed simp

lemma sendControl_bind [bind_frame]: "en_bind (snd (e2eSendControl cfg now ip frame n)) = en_bind n"
proof -
  obtain r n1 where u: "usable_session cfg n now (Lookup (learned (en_mesh n)) ip) = (r, n1)" by fastforce
  with usable_bind [of cfg n now "Lookup (learned (en_mesh n)) ip"] have "en_bind n1 = en_bind n" by simp
  with u show ?thesis by (auto simp: e2eSendControl_def bind_frame split: option.splits)
qed

lemma sealControl_bind [bind_frame]: "en_bind (snd (e2eSealControl cfg rnd to ip payload now n)) = en_bind n"
  by (simp add: e2eSealControl_def case_prod_beta Let_def split: option.splits)

lemma send_sealed_bind [bind_frame]: "en_bind (snd (send_sealed cfg rnd to ip payload now n)) = en_bind n"
proof -
  obtain r n1 where u: "e2eSealControl cfg rnd to ip payload now n = (r, n1)" by fastforce
  with sealControl_bind [of cfg rnd to ip payload now n] have "en_bind n1 = en_bind n" by simp
  with u show ?thesis by (auto simp: send_sealed_def bind_frame split: option.splits)
qed

lemma learn_bind [bind_frame]: "en_bind (node_learn cfg now ip raddr n) = en_bind n"
  by (simp add: node_learn_def)

lemma setPeer_bind [bind_frame]: "en_bind (setPeerOverlayIP pub ip n) = en_bind n"
  by (simp add: setPeerOverlayIP_def)

lemma open_bind [bind_frame]: "en_bind (snd (node_open cfg n frame via now)) = en_bind n"
  by (simp add: node_open_def case_prod_beta Let_def)

lemma offer_bind [bind_frame]: "en_bind (snd (handle_offer cfg R n sender ip ek raddr now)) = en_bind n"
  by (simp add: handle_offer_def case_prod_beta Let_def bind_frame split: prod.splits sum.splits option.splits)

lemma classical_bind [bind_frame]: "en_bind (snd (handle_classical cfg R n sender ip pt raddr now)) = en_bind n"
  by (simp add: handle_classical_def bind_frame split: prod.splits option.splits)

section \<open>Runs of the node\<close>

datatype ('apk, 'kpk, 'sk, 'c) node_event =
    Arrives "('apk, 'kpk, 'sk) e2e_cfg" e2e_rand "byte list" udp_addr go_time
  | Departs "('apk, 'kpk, 'sk) e2e_cfg" e2e_rand udp_addr "'c session" "byte list" string go_time
  | Prunes go_time

fun node_step :: "('apk, 'kpk, 'sk, 'c) node_event \<Rightarrow> ('c, 'sk) e2e_node \<Rightarrow> e2e_effect list \<times> ('c, 'sk) e2e_node" where
  "node_step (Arrives cfg R body raddr now) n = handleE2EFrame cfg R n body raddr now"
| "node_step (Departs cfg R addr s pkt dst now) n =
     (let ((sent, es), n1) = sendOverlayViaSession cfg R n addr s pkt dst now in (es, n1))"
| "node_step (Prunes now) n = ([], n\<lparr>en_opener := opener_prune (en_opener n) now\<rparr>)"

text \<open>The circumstances under which \<open>P\<close> may rely on the address it holds, for one event.\<close>

definition calm :: "node_key \<Rightarrow> string \<Rightarrow> nat \<Rightarrow> go_time \<Rightarrow> ('apk, 'kpk, 'sk) e2e_cfg \<Rightarrow> go_time \<Rightarrow> bool" where
  "calm P ip s T cfg now \<longleftrightarrow> T \<le> now \<and> now \<le> T + ipBindingIdleTTL \<and> \<not> env_revoked (cf_env cfg) P \<and>
     provisionedOwners (cf_env cfg) ip = [] \<and> ip \<noteq> e2eSelfIP cfg \<and>
     (\<forall>Q. Q \<noteq> P \<longrightarrow> strength (sha256 (cf_C cfg)) (cf_env cfg) Q ip \<le> s)"

fun calm_event :: "node_key \<Rightarrow> string \<Rightarrow> nat \<Rightarrow> go_time \<Rightarrow> ('apk, 'kpk, 'sk, 'c) node_event \<Rightarrow> bool" where
  "calm_event P ip s T (Arrives cfg R body raddr now) \<longleftrightarrow> calm P ip s T cfg now \<and>
     (\<forall>h ct. parseE2E (tl body) = Inr (h, ct) \<longrightarrow> eh_sender h = P \<longrightarrow> show_ipv4 (eh_src h) = ip)"
| "calm_event P ip s T (Departs cfg R addr ses pkt dst now) \<longleftrightarrow> calm P ip s T cfg now"
| "calm_event P ip s T (Prunes now) \<longleftrightarrow> True"

text \<open>Packets delivered under the source address \<open>ip\<close> come in an envelope of \<open>P\<close>.\<close>

fun genuine :: "node_key \<Rightarrow> string \<Rightarrow> ('apk, 'kpk, 'sk, 'c) node_event \<Rightarrow> e2e_effect list \<Rightarrow> bool" where
  "genuine P ip (Arrives cfg R body raddr now) es \<longleftrightarrow>
     (\<forall>pt. Deliver pt \<in> set es \<longrightarrow> extractIPv4Src pt = ip \<longrightarrow>
        (\<exists>h ct. parseE2E (tl body) = Inr (h, ct) \<and> eh_sender h = P))"
| "genuine P ip (Departs cfg R addr ses pkt dst now) es \<longleftrightarrow> (\<forall>pt. Deliver pt \<notin> set es)"
| "genuine P ip (Prunes now) es \<longleftrightarrow> es = []"

lemma calm_contest:
  "calm P ip s T cfg now \<Longrightarrow> (pub = P \<Longrightarrow> jp = ip \<or> \<not> bind) \<Longrightarrow>
     contest (sha256 (cf_C cfg)) P ip s T (Ask (node_env cfg n) pub jp bind now)"
  by (auto simp: calm_def)

lemma holds_node_owned:
  assumes c: "calm P ip s T cfg now" and h: "holds P ip s T (en_bind n)" and own: "pub = P \<Longrightarrow> jp = ip \<or> \<not> bind"
  shows "holds P ip s T (en_bind (snd (node_owned cfg n pub jp bind now)))"
    and "jp = ip \<Longrightarrow> pub \<noteq> P \<Longrightarrow> \<not> fst (node_owned cfg n pub jp bind now)"
  using holds_OwnedBy [OF h calm_contest [OF c own]] by (simp_all add: node_owned_def case_prod_beta)

lemma holds_is_at:
  assumes c: "calm P ip s T cfg now" and h: "holds P ip s T (en_bind n)"
  shows "holds P ip s T (en_bind (snd (node_is_at cfg n pub jp now)))"
  using holds_OwnedBy(1) [OF h calm_contest [OF c, of pub jp False]] h
  by (auto simp: node_is_at_def IsNodeAt_def case_prod_beta)

lemma holds_best_owner:
  assumes c: "\<And>k. contest sha P ip s T (Ask E k jp False now)"
  shows "holds P ip s T t \<Longrightarrow> holds P ip s T (snd (best_owner sha ip6 E jp now cs best t))"
proof (induction cs arbitrary: best t)
  case (Cons k cs)
  from holds_OwnedBy(1) [OF Cons.prems c] have "holds P ip s T (snd (OwnedBy sha ip6 E t k jp False now))" .
  from Cons.IH [OF this] show ?case by (simp add: case_prod_beta Let_def)
qed simp

lemma holds_OwnerOf:
  assumes "\<And>k. contest sha P ip s T (Ask E k jp False now)" and "holds P ip s T t"
  shows "holds P ip s T (snd (OwnerOf sha ip6 E t jp now))"
  using holds_best_owner [OF assms, of ip6] assms(2)
  by (simp add: OwnerOf_def Let_def case_prod_beta split: option.splits)

lemma holds_build:
  assumes c: "calm P ip s T cfg now" and h: "holds P ip s T (en_bind n)"
  shows "holds P ip s T (en_bind (snd (buildE2EFrame cfg R n pkt now)))"
proof -
  have o: "holds P ip s T (snd (OwnerOf (sha256 (cf_C cfg)) ip6 (node_env cfg n) (en_bind n) jp now))" for ip6 jp
    by (rule holds_OwnerOf [OF calm_contest [OF c] h]) simp
  show ?thesis
    using h by (auto simp: buildE2EFrame_def Let_def case_prod_beta bind_frame o split: option.splits)
qed

lemma e2e_open_header: "e2e_open C self psk L o1 frame via now = (Inr (h, pt), o2) \<Longrightarrow> \<exists>ct. parseE2E frame = Inr (h, ct)"
  by (auto simp: e2e_open_def open_begin_def open_derive_def open_commit_def Let_def
    split: sum.splits prod.splits if_splits option.splits open_outcome.splits)

lemma node_open_header: "node_open cfg n frame via now = (Inr (h, pt), n1) \<Longrightarrow> \<exists>ct. parseE2E frame = Inr (h, ct)"
  by (auto simp: node_open_def Let_def split: prod.splits dest: e2e_open_header)

lemma opened_holds:
  assumes c: "calm P ip s T cfg now" and h: "holds P ip s T (en_bind n)"
    and own: "eh_sender hd1 = P \<Longrightarrow> show_ipv4 (eh_src hd1) = ip"
  shows "holds P ip s T (en_bind (snd (handle_opened cfg R n hd1 pt raddr now)))"
proof -
  define n1 where "n1 = snd (node_admits cfg (n\<lparr>en_kicked := snd (rl_isRevoked (en_kicked n) (eh_sender hd1) now)\<rparr>) now (eh_sender hd1))"
  have n1: "holds P ip s T (en_bind n1)" using h by (simp add: n1_def bind_frame)
  have "holds P ip s T (en_bind (snd (node_owned cfg n1 (eh_sender hd1) (show_ipv4 (eh_src hd1)) True now)))"
    by (rule holds_node_owned(1) [OF c n1]) (simp add: own)
  with h n1 show ?thesis
    by (simp add: handle_opened_def Let_def case_prod_beta bind_frame flip: n1_def)
qed

named_theorems sends_only \<open>operations that deliver nothing to the tunnel\<close>

lemma flood_sends [sends_only]: "Deliver q \<notin> set (fst (flood_control cfg now frame as n))"
proof (induction as arbitrary: n)
  case (Cons a as)
  obtain r n1 where "usable_session cfg n now a = (r, n1)" by fastforce
  with Cons show ?case by (simp add: case_prod_beta Let_def split: option.splits)
qed simp

lemma sendControl_sends [sends_only]: "Deliver q \<notin> set (fst (e2eSendControl cfg now ip frame n))"
  by (simp add: e2eSendControl_def sends_only split: prod.splits option.splits)

lemma send_sealed_sends [sends_only]: "Deliver q \<notin> set (fst (send_sealed cfg rnd to ip payload now n))"
  by (simp add: send_sealed_def sends_only split: prod.splits option.splits)

lemma offer_sends [sends_only]: "Deliver q \<notin> set (fst (handle_offer cfg R n sender ip ek raddr now))"
  by (simp add: handle_offer_def case_prod_beta Let_def sends_only split: prod.splits sum.splits option.splits)

lemma classical_sends [sends_only]: "Deliver q \<notin> set (fst (handle_classical cfg R n sender ip pt raddr now))"
  by (simp add: handle_classical_def sends_only split: prod.splits option.splits)

lemma no_pq_sends [sends_only]: "Deliver q \<notin> set (fst (answer_no_pq cfg R n hd1 now))"
  by (simp add: answer_no_pq_def Let_def case_prod_beta sends_only)

lemma forward_sends [sends_only]: "Deliver q \<notin> set (fst (forward_e2e cfg n body hd1 raddr now))"
  by (simp add: forward_e2e_def Let_def case_prod_beta split: prod.splits option.splits)

lemma build_sends [sends_only]: "Deliver q \<notin> set (snd (fst (buildE2EFrame cfg R n pkt now)))"
  by (simp add: buildE2EFrame_def Let_def case_prod_beta sends_only split: option.splits)

text \<open>What has been checked when a packet is delivered.\<close>

definition cleared :: "('apk, 'kpk, 'sk) e2e_cfg \<Rightarrow> ('c, 'sk) e2e_node \<Rightarrow> e2eHeader \<Rightarrow> byte list \<Rightarrow> go_time \<Rightarrow> bool" where
  "cleared cfg n hd1 pt now \<longleftrightarrow> hasPQ hd1 \<and> \<not> env_revoked (cf_env cfg) (eh_sender hd1) \<and>
     \<not> fst (rl_isRevoked (en_kicked n) (eh_sender hd1) now) \<and>
     (admitted (kp_pub (cf_self cfg)) (cf_admin cfg) (cf_approvals cfg) (eh_sender hd1) \<or>
      \<not> admissionEnforced (cf_admEnv cfg) (cf_admin cfg) (cf_approvals cfg)) \<and>
     inOverlaySubnet (cf_ip6 cfg) (cf_env cfg) (show_ipv4 (eh_src hd1)) \<and>
     fst (OwnedBy (sha256 (cf_C cfg)) (cf_ip6 cfg) (node_env cfg n) (en_bind n) (eh_sender hd1) (show_ipv4 (eh_src hd1)) True now) \<and>
     isIPv4Packet pt \<and> extractIPv4Src pt = show_ipv4 (eh_src hd1) \<and> extractIPv4Dst pt = e2eSelfIP cfg"

lemma node_env_cong: "en_peerIPs n = en_peerIPs n' \<Longrightarrow> en_mesh n = en_mesh n' \<Longrightarrow> node_env cfg n = node_env cfg n'"
  by (simp add: node_env_def)

lemma admits_parts:
  "en_peerIPs (snd (node_admits cfg n now pub)) = en_peerIPs n" "en_mesh (snd (node_admits cfg n now pub)) = en_mesh n"
  "en_kicked (snd (node_admits cfg n now pub)) = en_kicked n" "en_opener (snd (node_admits cfg n now pub)) = en_opener n"
  "en_pq (snd (node_admits cfg n now pub)) = en_pq n"
  by (simp_all add: node_admits_def case_prod_beta)

lemma fst_node_admits:
  "fst (node_admits cfg n now pub) \<longleftrightarrow> admitted (kp_pub (cf_self cfg)) (cf_admin cfg) (cf_approvals cfg) pub \<or>
      \<not> admissionEnforced (cf_admEnv cfg) (cf_admin cfg) (cf_approvals cfg)"
  by (simp add: node_admits_def admissionOK_def case_prod_beta Let_def)

lemma opened_delivers:
  assumes "Deliver q \<in> set (fst (handle_opened cfg R n hd1 pt raddr now))"
  shows "q = pt \<and> cleared cfg n hd1 pt now"
proof -
  define n0 where "n0 = n\<lparr>en_kicked := snd (rl_isRevoked (en_kicked n) (eh_sender hd1) now)\<rparr>"
  define n1 where "n1 = snd (node_admits cfg n0 now (eh_sender hd1))"
  have "node_env cfg n1 = node_env cfg n" "en_bind n1 = en_bind n"
    by (auto simp: n1_def n0_def admits_parts bind_frame intro!: node_env_cong)
  then have own: "fst (node_owned cfg n1 (eh_sender hd1) jp True now) =
      fst (OwnedBy (sha256 (cf_C cfg)) (cf_ip6 cfg) (node_env cfg n) (en_bind n) (eh_sender hd1) jp True now)" for jp
    by (simp add: node_owned_def case_prod_beta)
  from assms show ?thesis
    by (auto simp: handle_opened_def Let_def case_prod_beta cleared_def sends_only fst_node_admits
      simp flip: n0_def n1_def own split: if_splits)
qed

lemma usable_parts:
  assumes "usable_session cfg n now a = (r, n1)"
  shows "en_peerIPs n1 = en_peerIPs n" "en_mesh n1 = en_mesh n" "en_kicked n1 = en_kicked n" "en_opener n1 = en_opener n"
    "en_pq n1 = en_pq n" "en_bind n1 = en_bind n"
  using assms
  by (auto simp: usable_session_def Let_def case_prod_beta admits_parts bind_frame split: option.splits if_splits)

lemma usable_session_ok:
  assumes "usable_session cfg n now a = (Some (u, s), n1)"
  shows "a = Some u" "GetByAddr (en_mesh n) (Some u) = Some s" "Established (Some s)"
    "admitted (kp_pub (cf_self cfg)) (cf_admin cfg) (cf_approvals cfg) (s_peerStatic s) \<or>
      \<not> admissionEnforced (cf_admEnv cfg) (cf_admin cfg) (cf_approvals cfg)"
  using assms
  by (auto simp: usable_session_def Let_def case_prod_beta fst_node_admits split: option.splits if_splits)

lemma cleared_cong:
  "en_peerIPs n = en_peerIPs n' \<Longrightarrow> en_mesh n = en_mesh n' \<Longrightarrow> en_kicked n = en_kicked n' \<Longrightarrow> en_bind n = en_bind n' \<Longrightarrow>
     cleared cfg n hd1 pt now = cleared cfg n' hd1 pt now"
  by (simp add: cleared_def node_env_def)

lemma frame_delivers:
  assumes d: "Deliver q \<in> set (fst (handleE2EFrame cfg R n body raddr now))"
  shows "\<exists>s hd1 ct o1. GetByAddr (en_mesh n) (Some raddr) = Some s \<and> Established (Some s) \<and>
    parseE2E (tl body) = Inr (hd1, ct) \<and> show_ipv4 (eh_dst hd1) = e2eSelfIP cfg \<and>
    e2e_open (cf_C cfg) (cf_self cfg) (cf_psk cfg) (\<lambda>sender tag. fst (secretFor (en_pq n) sender tag now)) (en_opener n)
      (tl body) (s_peerStatic s) now = (Inr (hd1, q), o1) \<and>
    cleared cfg n hd1 q now"
proof -
  from d obtain u s n1 hd1 ct where u: "usable_session cfg n now (Some raddr) = (Some (u, s), n1)"
    and parse: "parseE2E (tl body) = Inr (hd1, ct)" and me: "show_ipv4 (eh_dst hd1) = e2eSelfIP cfg"
    and del: "Deliver q \<in> set (fst (e2eDeliverLocal cfg R n1 (tl body) raddr s now))"
    by (auto simp: handleE2EFrame_def Let_def sends_only split: prod.splits option.splits sum.splits if_splits)
  from del obtain h' n2 where op: "node_open cfg n1 (tl body) (s_peerStatic s) now = (Inr (h', q), n2)"
    and fin: "cleared cfg n2 h' q now"
    by (auto simp: e2eDeliverLocal_def sends_only dest: opened_delivers split: prod.splits sum.splits e2e_error.splits)
  from node_open_header [OF op] parse have h': "h' = hd1" by auto
  from op have "cleared cfg n2 h' q now = cleared cfg n1 h' q now"
    by (intro cleared_cong) (auto simp: node_open_def Let_def case_prod_beta)
  also have "\<dots> = cleared cfg n h' q now" using usable_parts [OF u] by (intro cleared_cong) auto
  finally have cl: "cleared cfg n hd1 q now" using fin h' by simp
  from op obtain o1 where "e2e_open (cf_C cfg) (cf_self cfg) (cf_psk cfg) (\<lambda>sender tag. fst (secretFor (en_pq n) sender tag now))
      (en_opener n) (tl body) (s_peerStatic s) now = (Inr (hd1, q), o1)"
    using usable_parts [OF u] h' by (auto simp: node_open_def Let_def split: prod.splits)
  with cl parse me usable_session_ok [OF u] show ?thesis by auto
qed

lemma deliver_holds:
  assumes c: "calm P ip s T cfg now" and n1: "holds P ip s T (en_bind n1)"
    and own: "\<And>hd1 ct. parseE2E frame = Inr (hd1, ct) \<Longrightarrow> eh_sender hd1 = P \<Longrightarrow> show_ipv4 (eh_src hd1) = ip"
  shows "holds P ip s T (en_bind (snd (e2eDeliverLocal cfg R n1 frame raddr s1 now)))"
proof -
  obtain r n2 where op: "node_open cfg n1 frame (s_peerStatic s1) now = (r, n2)" by fastforce
  with n1 open_bind [of cfg n1 frame "s_peerStatic s1" now] have n2: "holds P ip s T (en_bind n2)" by simp
  have "holds P ip s T (en_bind (snd (answer_no_pq cfg R n2 hd1 now)))" for hd1
    using n2 holds_node_owned(1) [OF c n2, of "eh_sender hd1" "show_ipv4 (eh_src hd1)" False]
    by (simp add: answer_no_pq_def Let_def case_prod_beta bind_frame)
  moreover have "r = Inr (hd1, pt) \<Longrightarrow> holds P ip s T (en_bind (snd (handle_opened cfg R n2 hd1 pt raddr now)))" for hd1 pt
    using node_open_header own op by (intro opened_holds [OF c n2]) blast
  ultimately show ?thesis
    using n2 by (auto simp: e2eDeliverLocal_def op split: sum.splits e2e_error.splits)
qed

lemma forward_holds:
  assumes c: "calm P ip s T cfg now" and n1: "holds P ip s T (en_bind n1)"
  shows "holds P ip s T (en_bind (snd (forward_e2e cfg n1 body hd1 raddr now)))"
proof -
  obtain r n2 where us: "usable_session cfg n1 now (Lookup (learned (en_mesh n1)) (show_ipv4 (eh_dst hd1))) = (r, n2)" by fastforce
  from usable_parts(6) [OF this] n1 have n2: "holds P ip s T (en_bind n2)" by simp
  from holds_is_at [OF c n2] n1 n2 show ?thesis
    by (auto simp: forward_e2e_def Let_def case_prod_beta us split: option.splits)
qed

lemma frame_holds:
  assumes c: "calm P ip s T cfg now" and h: "holds P ip s T (en_bind n)"
    and own: "\<And>hd1 ct. parseE2E (tl body) = Inr (hd1, ct) \<Longrightarrow> eh_sender hd1 = P \<Longrightarrow> show_ipv4 (eh_src hd1) = ip"
  shows "holds P ip s T (en_bind (snd (handleE2EFrame cfg R n body raddr now)))"
proof -
  obtain r n1 where us: "usable_session cfg n now (Some raddr) = (r, n1)" by fastforce
  from usable_parts(6) [OF this] h have n1: "holds P ip s T (en_bind n1)" by simp
  with deliver_holds [OF c n1 own] forward_holds [OF c n1] us show ?thesis
    by (auto simp: handleE2EFrame_def Let_def split: option.splits sum.splits)
qed

lemma departs_holds:
  assumes c: "calm P ip s T cfg now" and h: "holds P ip s T (en_bind n)"
  shows "holds P ip s T (en_bind (snd (sendOverlayViaSession cfg R n addr ses pkt dst now)))"
proof -
  obtain r n1 where at: "node_is_at cfg n (s_peerStatic ses) dst now = (r, n1)" by fastforce
  with holds_is_at [OF c h, of "s_peerStatic ses" dst] have "holds P ip s T (en_bind n1)" by simp
  with holds_build [OF c this] at show ?thesis
    by (auto simp: sendOverlayViaSession_def case_prod_beta split: bool.splits prod.splits option.splits)
qed

lemma departs_sends: "Deliver q \<notin> set (snd (fst (sendOverlayViaSession cfg R n addr ses pkt dst now)))"
  using build_sends [of q cfg R "snd (node_is_at cfg n (s_peerStatic ses) dst now)" pkt now]
  by (auto simp: sendOverlayViaSession_def split: bool.splits prod.splits option.splits)

interpretation held: step_invariant "node_step :: ('apk, 'kpk, 'sk, 'c) node_event \<Rightarrow> _" "calm_event P ip s T"
  "\<lambda>n. holds P ip s T (en_bind n)" "genuine P ip" for P ip s T
proof unfold_locales
  fix e :: "('apk, 'kpk, 'sk, 'c) node_event" and n :: "('c, 'sk) e2e_node"
  assume c: "calm_event P ip s T e" and h: "holds P ip s T (en_bind n)"
  show "holds P ip s T (en_bind (snd (node_step e n)))"
    using c h by (cases e) (auto simp: case_prod_beta intro!: frame_holds departs_holds)
  show "genuine P ip e (fst (node_step e n))"
  proof (cases e)
    case (Arrives cfg R body raddr now)
    with c have calm: "calm P ip s T cfg now" by simp
    have "eh_sender hd1 = P" if "cleared cfg n hd1 q now" "extractIPv4Src q = ip" for hd1 q
      using that holds_node_owned(2) [OF calm h, of "eh_sender hd1" ip True] by (auto simp: cleared_def node_owned_def case_prod_beta)
    with Arrives show ?thesis using frame_delivers [of _ cfg R n body raddr now] by fastforce
  qed (auto simp: case_prod_beta departs_sends)
qed

section \<open>One hop\<close>

lemma length_ctlMagic8: "length ctlMagic = 8"
  by (simp add: ctlMagic_def bytes_of_def)

lemma mark_hop_body: "mark_hop body = ctlMagic @ body[2 := 1]"
  by (simp add: mark_hop_def e2eOffHop_def list_update_append length_ctlMagic8 numeral_2_eq_2)

lemma parse_marked:
  assumes parse: "parseE2E (tl body) = Inr (hd1, ct)"
  shows "parseE2E (tl (body[2 := 1])) = Inr (hd1\<lparr>eh_hop := 1\<rparr>, ct)" and "e2eAD (tl (body[2 := 1])) = e2eAD (tl body)"
proof -
  from parse have "106 \<le> length (tl body)" by (simp add: parseE2E_def e2eHeaderLen_def aeadOverhead_def split: if_splits)
  then obtain z v b rest where body: "body = z # v # b # rest" and len: "104 \<le> length rest"
    by (cases body; cases "tl body"; cases "tl (tl body)") auto
  have upd: "body[2 := 1] = z # v # 1 # rest" by (simp add: body numeral_2_eq_2)
  from parse show "parseE2E (tl (body[2 := 1])) = Inr (hd1\<lparr>eh_hop := 1\<rparr>, ct)"
    unfolding upd by (auto simp: body parseE2E_def e2eHeaderLen_def numeral_2_eq_2 drop_Cons' split: if_splits)
  show "e2eAD (tl (body[2 := 1])) = e2eAD (tl body)"
    unfolding upd by (simp add: body e2eAD_def e2eOffHop_def e2eHeaderLen_def take_Cons')
qed

lemma forward_sent:
  assumes "e \<in> set (fst (forward_e2e cfg n body hd1 raddr now))"
  obtains u k where "fst (forward_e2e cfg n body hd1 raddr now) = [SendTo u k (ctlMagic @ body[2 := 1])]"
    and "u \<noteq> raddr" "eh_hop hd1 = 0" "peerOverlayIPByPub (node_env cfg n) k = show_ipv4 (eh_dst hd1)"
    and "fst (OwnedBy (sha256 (cf_C cfg)) (cf_ip6 cfg) (node_env cfg n) (en_bind n) k (show_ipv4 (eh_dst hd1)) False now)"
proof -
  define ip where "ip = show_ipv4 (eh_dst hd1)"
  from assms obtain u ns n1 where us: "usable_session cfg n now (Lookup (learned (en_mesh n)) ip) = (Some (u, ns), n1)"
    and at: "fst (node_is_at cfg n1 (s_peerStatic ns) ip now)" and hop: "eh_hop hd1 = 0"
    and other: "Lookup (learned (en_mesh n)) ip \<noteq> Some raddr"
    and fs: "fst (forward_e2e cfg n body hd1 raddr now) = [SendTo u (s_peerStatic ns) (mark_hop body)]"
    by (auto simp: forward_e2e_def Let_def case_prod_beta ip_def split: prod.splits option.splits if_splits)
  from usable_parts [OF us] have "node_env cfg n1 = node_env cfg n" "en_bind n1 = en_bind n" by (auto intro: node_env_cong)
  with at have "peerOverlayIPByPub (node_env cfg n) (s_peerStatic ns) = ip"
    "fst (OwnedBy (sha256 (cf_C cfg)) (cf_ip6 cfg) (node_env cfg n) (en_bind n) (s_peerStatic ns) ip False now)"
    by (auto simp: node_is_at_def IsNodeAt_def case_prod_beta split: if_splits)
  with that [of u "s_peerStatic ns"] fs hop other usable_session_ok(1) [OF us] show thesis
    by (auto simp: mark_hop_body ip_def)
qed

lemma hop_spent: "parseE2E (tl body) = Inr (hd1, ct) \<Longrightarrow> eh_hop hd1 \<noteq> 0 \<Longrightarrow> show_ipv4 (eh_dst hd1) \<noteq> e2eSelfIP cfg \<Longrightarrow>
    fst (handleE2EFrame cfg R n body raddr now) = []"
  by (simp add: handleE2EFrame_def forward_e2e_def Let_def split: prod.splits option.splits)

section \<open>Properties\<close>

text \<open>C16: A relay forwards a frame at most one hop. Whatever a node sends on for a frame that is not
  for itself is one copy, the same frame with its hop byte set from 0 to 1, to a peer other than
  the one it came from whose own address is the destination and who owns it; the copy parses to
  the same header and authenticates the same data; and any further node that gets the copy and
  is not the destination sends nothing.\<close>

theorem relay_single_hop:
  assumes parse: "parseE2E (tl body) = Inr (hd1, ct)" and transit: "show_ipv4 (eh_dst hd1) \<noteq> e2eSelfIP cfg"
    and sent: "e \<in> set (fst (handleE2EFrame cfg R n body raddr now))"
    and onward: "show_ipv4 (eh_dst hd1) \<noteq> e2eSelfIP cfg2"
  shows "\<exists>u k. fst (handleE2EFrame cfg R n body raddr now) = [SendTo u k (ctlMagic @ body[2 := 1])] \<and> u \<noteq> raddr \<and>
    eh_hop hd1 = 0 \<and> peerOverlayIPByPub (node_env cfg n) k = show_ipv4 (eh_dst hd1) \<and>
    fst (OwnedBy (sha256 (cf_C cfg)) (cf_ip6 cfg) (node_env cfg n) (en_bind n) k (show_ipv4 (eh_dst hd1)) False now) \<and>
    parseE2E (tl (body[2 := 1])) = Inr (hd1\<lparr>eh_hop := 1\<rparr>, ct) \<and> e2eAD (tl (body[2 := 1])) = e2eAD (tl body) \<and>
    fst (handleE2EFrame cfg2 R2 n2 (body[2 := 1]) raddr2 now2) = []"
proof -
  from sent parse transit obtain u0 s n1 where us: "usable_session cfg n now (Some raddr) = (Some (u0, s), n1)"
    and fw: "handleE2EFrame cfg R n body raddr now = forward_e2e cfg n1 body hd1 raddr now"
    by (auto simp: handleE2EFrame_def Let_def split: prod.splits option.splits if_splits)
  from usable_parts [OF us] have same: "node_env cfg n1 = node_env cfg n" "en_bind n1 = en_bind n" by (auto intro: node_env_cong)
  from sent fw have e: "e \<in> set (fst (forward_e2e cfg n1 body hd1 raddr now))" by simp
  have "fst (handleE2EFrame cfg2 R2 n2 (body[2 := 1]) raddr2 now2) = []"
    by (rule hop_spent [OF parse_marked(1) [OF parse]]) (use onward in auto)
  with forward_sent [OF e] same fw parse_marked [OF parse] show ?thesis by metis
qed

definition relay_cfg :: "(unit, byte, byte) e2e_cfg" where
  "relay_cfg = \<lparr>cf_C = demo_crypto, cf_K = demo_kem, cf_self = demo_self, cf_psk = [], cf_env = wit_env,
     cf_ip6 = (\<lambda>x. None), cf_nets = [], cf_admEnv = [],
     cf_admin = \<lparr>adminPub = [], adminPubParsed = None, adminPin = [], adminPubSaved = None\<rparr>, cf_approvals = empty_approvals\<rparr>"

abbreviation relay_from :: udp_addr where "relay_from \<equiv> udp4 [198, 51, 100, 9] 4000"

definition relay_mesh :: "unit mesh" where
  "relay_mesh = demo_mesh\<lparr>byAddr := [(demo_wan, demo_session demo_wan), (relay_from, (demo_session relay_from)\<lparr>s_peerStatic := demo_A\<rparr>)],
     learned := [(''10.0.0.2'', \<lparr>ie_addr = demo_wan, ie_seen = 0\<rparr>)]\<rparr>"

definition relay_node :: "ipBindingTable \<Rightarrow> (unit, byte) e2e_node" where
  "relay_node t = \<lparr>en_mesh = relay_mesh, en_bind = t, en_pq = newE2EPQ, en_sealer = newE2ESealer, en_opener = newE2EOpener,
     en_peerIPs = [(demo_peer, ''10.0.0.2'')], en_admLog = [], en_kicked = newRevocationList defaultRevocationTTL\<rparr>"

definition relay_bind :: ipBindingTable where
  "relay_bind = newIPBindingTable\<lparr>bt_verdicts := [(VerdictKey demo_peer ''10.0.0.2'' False, \<lparr>vd_ok = True, vd_exp = demo_now + 1\<rparr>)]\<rparr>"

definition relay_body :: "byte list \<Rightarrow> byte list \<Rightarrow> byte list" where
  "relay_body dst src = e2eFrameType # seal_header dst src demo_A demo_A 1000 1 [0, 0, 0, 0] @ replicate 16 0"

definition no_rand :: e2e_rand where "no_rand = \<lparr>rd_eph = (\<lambda>i. None), rd_seed = (\<lambda>i. [])\<rparr>"

lemma relay_body_parse:
  assumes "length dst = 4" "length src = 4"
  shows "parseE2E (tl (relay_body dst src)) = Inr (header_of 0 dst src demo_A demo_A 1000 1 [0, 0, 0, 0], replicate 16 0)"
proof -
  have "(seal_header dst src demo_A demo_A 1000 1 [0, 0, 0, 0])[e2eOffHop := 0] = seal_header dst src demo_A demo_A 1000 1 [0, 0, 0, 0]"
    by (simp add: seal_header_def e2eOffHop_def)
  with parseE2E_header [OF assms, of demo_A demo_A "[0, 0, 0, 0]" "replicate 16 0" 1000 1 0] show ?thesis
    by (simp add: relay_body_def demo_A_def)
qed

lemma show_relay_ip: "show_ipv4 [10, 0, 0, 2] = ''10.0.0.2''" "show_ipv4 [10, 0, 0, 7] = ''10.0.0.7''"
  by code_simp+

lemma relay_usable:
  "fst (usable_session relay_cfg (relay_node t) now (Some demo_wan)) = Some (demo_wan, demo_session demo_wan)"
  "\<exists>s. usable_session relay_cfg (relay_node t) now (Some relay_from) = (Some (relay_from, s), relay_node t)"
  "snd (usable_session relay_cfg (relay_node t) now (Some demo_wan)) = relay_node t"
  by (simp_all add: usable_session_def relay_node_def relay_mesh_def GetByAddr_def Established_def demo_session_def node_admits_def
    admissionOK_def admitted_def admissionRequired_def adminKeySet_def relay_cfg_def)

theorem relay_single_hop_witness:
  "fst (handleE2EFrame relay_cfg no_rand (relay_node relay_bind) (relay_body [10, 0, 0, 2] [10, 0, 0, 1]) relay_from demo_now) =
     [SendTo demo_wan demo_peer (ctlMagic @ (relay_body [10, 0, 0, 2] [10, 0, 0, 1])[2 := 1])] \<and>
   fst (handleE2EFrame relay_cfg no_rand (relay_node relay_bind) ((relay_body [10, 0, 0, 2] [10, 0, 0, 1])[2 := 1]) relay_from demo_now) = []"
proof -
  let ?b = "relay_body [10, 0, 0, 2] [10, 0, 0, 1]"
  let ?h = "header_of 0 [10, 0, 0, 2] [10, 0, 0, 1] demo_A demo_A 1000 1 [0, 0, 0, 0]"
  have parse: "parseE2E (tl ?b) = Inr (?h, replicate 16 0)" by (rule relay_body_parse) simp_all
  have dst: "show_ipv4 (eh_dst ?h) = ''10.0.0.2''" by (simp add: header_of_def show_relay_ip)
  have self: "show_ipv4 (eh_dst ?h) \<noteq> e2eSelfIP relay_cfg" by (simp add: dst e2eSelfIP_def relay_cfg_def wit_env_def)
  have rev: "\<not> dst_revoked relay_cfg ip" for ip by (simp add: dst_revoked_def relay_cfg_def wit_env_def)
  have at: "fst (node_is_at relay_cfg (relay_node relay_bind) demo_peer ''10.0.0.2'' demo_now)"
    by (simp add: node_is_at_def IsNodeAt_def OwnedBy_def cached_def peerOverlayIPByPub_def node_env_def relay_node_def relay_bind_def)
  have fwd: "fst (forward_e2e relay_cfg (relay_node relay_bind) ?b ?h relay_from demo_now) =
      [SendTo demo_wan demo_peer (ctlMagic @ ?b[2 := 1])]"
    using at relay_usable [of relay_bind demo_now]
    by (auto simp: forward_e2e_def Let_def case_prod_beta dst mark_hop_body header_of_def Lookup_def relay_node_def relay_mesh_def
      demo_session_def show_relay_ip prod_eq_iff split: prod.splits)
  have out: "fst (handleE2EFrame relay_cfg no_rand (relay_node relay_bind) ?b relay_from demo_now) =
      [SendTo demo_wan demo_peer (ctlMagic @ ?b[2 := 1])]"
    using relay_usable(2) [of relay_bind demo_now] fwd self rev by (auto simp: handleE2EFrame_def parse Let_def)
  have "SendTo demo_wan demo_peer (ctlMagic @ ?b[2 := 1]) \<in> set (fst (handleE2EFrame relay_cfg no_rand (relay_node relay_bind) ?b relay_from demo_now))"
    by (simp add: out)
  from relay_single_hop [OF parse self this self, of no_rand "relay_node relay_bind" relay_from demo_now] out show ?thesis by auto
qed



text \<open>C25: A relayed packet reaches the tunnel only after every check. If handling a frame delivers a
  packet, the frame came over an established session of an admitted peer, was addressed to this
  node, opened under a key that includes a post-quantum secret, and its sender is neither kicked
  nor revoked, is admitted, and owns the overlay address that both the envelope and the packet
  give as source; the packet is the opened payload, addressed to this node.\<close>

theorem delivery_checked:
  assumes "Deliver pkt \<in> set (fst (handleE2EFrame cfg R n body raddr now))"
  shows "\<exists>s hd1 ct o1. GetByAddr (en_mesh n) (Some raddr) = Some s \<and> Established (Some s) \<and>
    parseE2E (tl body) = Inr (hd1, ct) \<and> show_ipv4 (eh_dst hd1) = e2eSelfIP cfg \<and>
    e2e_open (cf_C cfg) (cf_self cfg) (cf_psk cfg) (\<lambda>sender tag. fst (secretFor (en_pq n) sender tag now)) (en_opener n)
      (tl body) (s_peerStatic s) now = (Inr (hd1, pkt), o1) \<and>
    cleared cfg n hd1 pkt now"
  using assms by (rule frame_delivers)

definition relay_pkt :: "byte list" where
  "relay_pkt = [0x45, 0, 0, 0, 0, 0, 0, 0, 0, 0, 0, 0, 10, 0, 0, 7, 10, 0, 0, 9]"

definition data_body :: "byte list" where
  "data_body = e2eFrameType # (seal_header [10, 0, 0, 9] [10, 0, 0, 7] demo_A demo_A 1000 1 [1, 2, 3, 4])[e2eOffHop := 1] @ replicate 16 0 @ relay_pkt"

definition data_node :: "(unit, byte) e2e_node" where
  "data_node = (relay_node (newIPBindingTable\<lparr>bt_verdicts := [(VerdictKey demo_A ''10.0.0.7'' True, \<lparr>vd_ok = True, vd_exp = demo_now + 1\<rparr>)]\<rparr>))
     \<lparr>en_pq := newE2EPQ\<lparr>pq_in := [(demo_A, empty_in\<lparr>pi_secrets := [\<lparr>pqs_id = [1, 2, 3, 4], pqs_ss = [], pqs_born = 0\<rparr>]\<rparr>)]\<rparr>\<rparr>"

abbreviation data_header :: e2eHeader where
  "data_header \<equiv> header_of 1 [10, 0, 0, 9] [10, 0, 0, 7] demo_A demo_A 1000 1 [1, 2, 3, 4]"

lemma data_parse: "parseE2E (tl data_body) = Inr (data_header, replicate 16 0 @ relay_pkt)"
  unfolding data_body_def list.sel by (rule parseE2E_header) (simp_all add: demo_A_def)

lemma data_opens:
  "\<exists>o2. node_open relay_cfg data_node (tl data_body) via demo_now = (Inr (data_header, relay_pkt), data_node\<lparr>en_opener := o2, en_pq :=
     lookup_touch (en_opener data_node) demo_B (en_pq data_node) (tl data_body) demo_now\<rparr>)"
proof -
  have ad: "be_u32 (drop 74 (e2eAD (tl data_body))) = 1000" using parseE2E_ts [OF data_parse] by (simp add: header_of_def)
  have diff: "demo_A \<noteq> demo_B" by (simp add: demo_A_def demo_B_def)
  have lk: "fst (secretFor (en_pq data_node) demo_A [1, 2, 3, 4] demo_now) = Some []"
    by (simp add: data_node_def secretFor_def newE2EPQ_def)
  have "\<exists>o2. e2e_open demo_crypto demo_self [] (\<lambda>sender tag. fst (secretFor (en_pq data_node) sender tag demo_now)) newE2EOpener
      (tl data_body) via demo_now = (Inr (data_header, relay_pkt), o2)"
    using ad diff lk
    by (simp add: e2e_open_def open_commit_def open_begin_def data_parse demo_self_def newE2EOpener_def open_derive_def hasPQ_def header_of_def demo_now_def
        allowDerivation_def openLocked_def demo_crypto_def e2eNewKeysPerSec_def seconds_def Let_def win_ok_def new_e2eWindow_def e2e_durations
        e2eMaxRecvKeys_def)
  then show ?thesis by (auto simp: node_open_def relay_cfg_def data_node_def relay_node_def demo_self_def Let_def)
qed

lemma show_data_ip: "show_ipv4 [10, 0, 0, 9] = ''10.0.0.9''"
  by code_simp

lemma data_packet: "isIPv4Packet relay_pkt" "extractIPv4Src relay_pkt = ''10.0.0.7''" "extractIPv4Dst relay_pkt = ''10.0.0.9''"
  by (simp_all add: isIPv4Packet_def extractIPv4Src_def extractIPv4Dst_def relay_pkt_def show_relay_ip show_data_ip)

lemma data_delivers: "Deliver relay_pkt \<in> set (fst (handleE2EFrame relay_cfg no_rand data_node data_body relay_from demo_now))"
proof -
  obtain s where us: "usable_session relay_cfg data_node demo_now (Some relay_from) = (Some (relay_from, s), data_node)"
    by (simp add: usable_session_def data_node_def relay_node_def relay_mesh_def GetByAddr_def Established_def demo_session_def node_admits_def
      admissionOK_def admitted_def admissionRequired_def adminKeySet_def relay_cfg_def)
  obtain o2 where op: "node_open relay_cfg data_node (tl data_body) (s_peerStatic s) demo_now = (Inr (data_header, relay_pkt), data_node\<lparr>en_opener := o2, en_pq :=
     lookup_touch (en_opener data_node) demo_B (en_pq data_node) (tl data_body) demo_now\<rparr>)" (is "_ = (_, ?n)")
    using data_opens by blast
  have self: "e2eSelfIP relay_cfg = ''10.0.0.9''" "\<not> dst_revoked relay_cfg ip" "\<not> env_revoked (cf_env relay_cfg) k" for ip k
    by (simp_all add: e2eSelfIP_def dst_revoked_def env_revoked_def relay_cfg_def wit_env_def)
  have hdr: "eh_sender data_header = demo_A" "eh_src data_header = [10, 0, 0, 7]" "eh_dst data_header = [10, 0, 0, 9]" "hasPQ data_header"
    by (simp_all add: header_of_def hasPQ_def)
  have kick: "rl_isRevoked (en_kicked ?n) demo_A demo_now = (False, en_kicked ?n)"
    by (simp add: rl_isRevoked_def data_node_def relay_node_def newRevocationList_def)
  have adm: "node_admits relay_cfg n demo_now k = (True, n)" for n :: "(unit, byte) e2e_node" and k
    by (simp add: node_admits_def admissionOK_def admitted_def admissionRequired_def adminKeySet_def relay_cfg_def)
  have owned: "fst (node_owned relay_cfg ?n demo_A ''10.0.0.7'' True demo_now)"
    by (simp add: node_owned_def OwnedBy_def cached_def data_node_def relay_node_def)
  have sub: "inOverlaySubnet (cf_ip6 relay_cfg) (cf_env relay_cfg) ''10.0.0.7''" using wit_subnet by (simp add: relay_cfg_def)
  have "Deliver relay_pkt \<in> set (fst (handle_opened relay_cfg no_rand ?n data_header relay_pkt relay_from demo_now))"
    using kick owned by (simp add: handle_opened_def hdr show_relay_ip adm sub self data_packet Let_def case_prod_beta)
  then show ?thesis by (simp add: handleE2EFrame_def us data_parse Let_def hdr show_data_ip self e2eDeliverLocal_def op)
qed

theorem delivery_checked_witness: "cleared relay_cfg data_node data_header relay_pkt demo_now"
  using delivery_checked [OF data_delivers] data_parse by auto

end
