(* ===== verification/Policy_Config.thy ===== *)
theory Policy_Config
  imports Approvals Session_Table
begin

text \<open>
  Two more admin-signed records: the post-quantum policy of the network or of one node
  (\<open>client/policy.go\<close>) and the rotation of the network's name and pre-shared key
  (\<open>client/netconfig.go\<close>), with the rule who may receive the latter (\<open>client/control.go\<close>).

  \<open>json\<close> parameters are \<open>encoding/json\<close> on the record. A flood is the list of sessions a frame goes
  to. \<open>wrote\<close> says whether writing and renaming the file succeeded. Restarting is \<open>os.Exit\<close> and the
  start-up of the next process, which reads the file.
\<close>

section \<open>Policies\<close>

record SignedPolicy =
  pl_PubKey :: string
  pl_PostQuantum :: bool
  pl_Epoch :: int
  pl_Ts :: int
  pl_Sig :: string

definition show_bool :: "bool \<Rightarrow> string" where
  "show_bool b = (if b then ''true'' else ''false'')"

definition canonicalPolicy :: "string \<Rightarrow> bool \<Rightarrow> int \<Rightarrow> int \<Rightarrow> string" where
  "canonicalPolicy pubB64 pq epoch ts =
     ''OVLYPOLICY1|'' @ pubB64 @ ''|'' @ show_bool pq @ ''|'' @ show_int epoch @ ''|'' @ show_int ts"

record policy_state =
  nodePolicies :: "(string \<times> SignedPolicy) list"
  currentPolicyEpoch :: int
  pqEnabled :: bool
  policyFile :: "SignedPolicy list option"

definition selfPubB64 :: "node_key \<Rightarrow> string" where
  "selfPubB64 self = (if self = zero_key then [] else b64_encode self)"

definition policy_cands :: "node_key \<Rightarrow> policy_state \<Rightarrow> SignedPolicy list" where
  "policy_cands self st =
     (case gget (nodePolicies st) [] of None \<Rightarrow> [] | Some p \<Rightarrow> [p]) @
     (if selfPubB64 self = [] then []
      else case gget (nodePolicies st) (selfPubB64 self) of None \<Rightarrow> [] | Some p \<Rightarrow> [p])"

definition best_policy :: "SignedPolicy list \<Rightarrow> SignedPolicy option" where
  "best_policy cands =
     foldl (\<lambda>best p. if (case best of None \<Rightarrow> - 1 | Some b \<Rightarrow> pl_Epoch b) < pl_Epoch p then Some p else best) None cands"

definition recomputeSelfPolicy :: "node_key \<Rightarrow> policy_state \<Rightarrow> policy_state" where
  "recomputeSelfPolicy self st =
     (case best_policy (policy_cands self st) of
        None \<Rightarrow> st
      | Some best \<Rightarrow>
          if currentPolicyEpoch st < pl_Epoch best
          then st\<lparr>pqEnabled := pl_PostQuantum best, currentPolicyEpoch := pl_Epoch best\<rparr> else st)"

definition pl_put :: "policy_state \<Rightarrow> string \<Rightarrow> SignedPolicy \<Rightarrow> policy_state" where
  "pl_put st k p =
     (if (case gget (nodePolicies st) k of None \<Rightarrow> True | Some cur \<Rightarrow> pl_Epoch cur < pl_Epoch p)
      then st\<lparr>nodePolicies := gput k p (nodePolicies st)\<rparr> else st)"

definition applyPolicyFile ::
  "(byte list \<Rightarrow> SignedPolicy list option) \<Rightarrow> (byte list \<Rightarrow> SignedPolicy option) \<Rightarrow> node_key \<Rightarrow> policy_state \<Rightarrow> byte list option
   \<Rightarrow> policy_state" where
  "applyPolicyFile json_list json_one self st data =
     (case data of
        None \<Rightarrow> st
      | Some d \<Rightarrow>
          let xs = (case json_list d of
                 Some xs \<Rightarrow> xs
               | None \<Rightarrow> (case json_one d of Some p \<Rightarrow> if pl_Sig p \<noteq> [] then [p] else [] | None \<Rightarrow> []))
          in recomputeSelfPolicy self (foldl (\<lambda>s p. pl_put s (pl_PubKey p) p) st xs))"

definition verifyPolicy :: "'pk sigscheme \<Rightarrow> 'pk admin_state \<Rightarrow> SignedPolicy \<Rightarrow> bool" where
  "verifyPolicy S a p =
     (if \<not> adminKeySet a then False
      else case b64_decode (pl_Sig p) of
          None \<Rightarrow> False
        | Some sig \<Rightarrow> adminVerify S a (bytes_of (canonicalPolicy (pl_PubKey p) (pl_PostQuantum p) (pl_Epoch p) (pl_Ts p))) sig)"

definition savePolicies :: "policy_state \<Rightarrow> policy_state" where
  "savePolicies st = st\<lparr>policyFile := Some (map snd (nodePolicies st))\<rparr>"

text \<open>The Boolean: the policy is new here and flooded to every established session.\<close>

definition adoptPolicy :: "'pk sigscheme \<Rightarrow> 'pk admin_state \<Rightarrow> node_key \<Rightarrow> policy_state \<Rightarrow> SignedPolicy \<Rightarrow> bool \<times> policy_state" where
  "adoptPolicy S a self st p =
     (if \<not> verifyPolicy S a p then (False, st)
      else case gget (nodePolicies st) (pl_PubKey p) of
          Some cur \<Rightarrow>
            if pl_Epoch p \<le> pl_Epoch cur then (False, st)
            else (True, recomputeSelfPolicy self (savePolicies (st\<lparr>nodePolicies := gput (pl_PubKey p) p (nodePolicies st)\<rparr>)))
        | None \<Rightarrow> (True, recomputeSelfPolicy self (savePolicies (st\<lparr>nodePolicies := gput (pl_PubKey p) p (nodePolicies st)\<rparr>))))"

definition handlePolicyGossip ::
  "(byte list \<Rightarrow> SignedPolicy option) \<Rightarrow> 'pk sigscheme \<Rightarrow> 'pk admin_state \<Rightarrow> node_key \<Rightarrow> policy_state \<Rightarrow> byte list \<Rightarrow> policy_state" where
  "handlePolicyGossip json S a self st payload =
     (case json payload of None \<Rightarrow> st | Some p \<Rightarrow> snd (adoptPolicy S a self st p))"

definition buildPQStatus :: "policy_state \<Rightarrow> byte list" where
  "buildPQStatus st = ctlMagic @ [of_char (CHR ''p''), if pqEnabled st then 1 else 0]"

section \<open>Network configuration\<close>

record SignedNetworkConfig =
  nc_NetworkName :: string
  nc_PSK :: string
  nc_Epoch :: int
  nc_Ts :: int
  nc_Sig :: string

definition canonicalNetConfig :: "string \<Rightarrow> string \<Rightarrow> int \<Rightarrow> int \<Rightarrow> string" where
  "canonicalNetConfig name psk epoch ts =
     ''OVLYNETCFG1|'' @ name @ ''|'' @ psk @ ''|'' @ show_int epoch @ ''|'' @ show_int ts"

record net_state =
  ns_name :: string
  ns_psk :: string
  currentNetEpoch :: int
  netConfigFile :: "SignedNetworkConfig option"
  ns_restart :: bool

definition applyNetConfigFile :: "net_state \<Rightarrow> net_state" where
  "applyNetConfigFile st =
     (case netConfigFile st of
        None \<Rightarrow> st
      | Some nc \<Rightarrow>
          if nc_NetworkName nc = [] \<or> nc_PSK nc = [] then st
          else st\<lparr>ns_name := nc_NetworkName nc, ns_psk := nc_PSK nc, currentNetEpoch := nc_Epoch nc\<rparr>)"

definition verifyNetConfig :: "'pk sigscheme \<Rightarrow> 'pk admin_state \<Rightarrow> SignedNetworkConfig \<Rightarrow> bool" where
  "verifyNetConfig S a nc =
     (if \<not> adminKeySet a then False
      else if nc_NetworkName nc = [] \<or> nc_PSK nc = [] then False
      else case b64_decode (nc_Sig nc) of
          None \<Rightarrow> False
        | Some sig \<Rightarrow> adminVerify S a (bytes_of (canonicalNetConfig (nc_NetworkName nc) (nc_PSK nc) (nc_Epoch nc) (nc_Ts nc))) sig)"

definition persistedNetConfig :: "net_state \<Rightarrow> SignedNetworkConfig option" where
  "persistedNetConfig st = (case netConfigFile st of None \<Rightarrow> None | Some nc \<Rightarrow> if nc_Sig nc = [] then None else Some nc)"

definition mayReceiveAdminSecrets :: "string \<Rightarrow> node_key \<Rightarrow> 'pk admin_state \<Rightarrow> approvalStore \<Rightarrow> node_key \<Rightarrow> bool" where
  "mayReceiveAdminSecrets env self a aps pub \<longleftrightarrow> admitted self a aps pub \<or> \<not> admissionEnforced env a aps"

definition sendToAdmittedPeers ::
  "string \<Rightarrow> node_key \<Rightarrow> 'pk admin_state \<Rightarrow> approvalStore \<Rightarrow> 'c mesh \<Rightarrow> (udp_addr option \<times> node_key) list" where
  "sendToAdmittedPeers env self a aps m = concat (map (\<lambda>addr.
     case GetByAddr m addr of
       None \<Rightarrow> []
     | Some s \<Rightarrow> if Established (Some s) \<and> mayReceiveAdminSecrets env self a aps (s_peerStatic s) then [(addr, s_peerStatic s)] else [])
     (EstablishedAddrs m))"

text \<open>The Boolean: the configuration is sent to the admitted peers.\<close>

definition adoptNetConfig :: "'pk sigscheme \<Rightarrow> 'pk admin_state \<Rightarrow> bool \<Rightarrow> net_state \<Rightarrow> SignedNetworkConfig \<Rightarrow> bool \<times> net_state" where
  "adoptNetConfig S a wrote st nc =
     (if \<not> verifyNetConfig S a nc then (False, st)
      else if nc_Epoch nc \<le> currentNetEpoch st then (False, st)
      else if \<not> wrote then (False, st)
      else (True, st\<lparr>netConfigFile := Some nc, currentNetEpoch := nc_Epoch nc, ns_restart := True\<rparr>))"

definition handleNetConfigGossip ::
  "(byte list \<Rightarrow> SignedNetworkConfig option) \<Rightarrow> 'pk sigscheme \<Rightarrow> 'pk admin_state \<Rightarrow> bool \<Rightarrow> net_state \<Rightarrow> byte list \<Rightarrow> net_state" where
  "handleNetConfigGossip json S a wrote st payload =
     (case json payload of None \<Rightarrow> st | Some nc \<Rightarrow> snd (adoptNetConfig S a wrote st nc))"

text \<open>The next process starts from the configured name and key, then reads the file.\<close>

definition restart_node :: "string \<Rightarrow> string \<Rightarrow> net_state \<Rightarrow> net_state" where
  "restart_node name psk st =
     applyNetConfigFile (st\<lparr>ns_name := name, ns_psk := psk, currentNetEpoch := 0, ns_restart := False\<rparr>)"

section \<open>Signed strings\<close>

lemma bar_split_last:
  assumes "CHR ''|'' \<notin> set ys" and "CHR ''|'' \<notin> set ys'"
    and eq: "xs @ CHR ''|'' # ys = xs' @ CHR ''|'' # ys'"
  shows "xs = xs' \<and> ys = ys'"
proof -
  from eq have "rev ys @ CHR ''|'' # rev xs = rev ys' @ CHR ''|'' # rev xs'"
    by (metis append.assoc append_Cons append_Nil rev.simps(2) rev_append)
  from bar_split [OF _ _ this] assms(1,2) show ?thesis by simp
qed

lemma show_bool_facts: "CHR ''|'' \<notin> set (show_bool b)" "show_bool b = show_bool c \<longleftrightarrow> b = c"
  by (auto simp: show_bool_def)

lemma canonicalPolicy_inj:
  assumes "canonicalPolicy p b e t = canonicalPolicy p' b' e' t'"
  shows "p = p' \<and> b = b' \<and> e = e' \<and> t = t'"
proof -
  from assms have "((p @ CHR ''|'' # show_bool b) @ CHR ''|'' # show_int e) @ CHR ''|'' # show_int t =
      ((p' @ CHR ''|'' # show_bool b') @ CHR ''|'' # show_int e') @ CHR ''|'' # show_int t'"
    by (simp add: canonicalPolicy_def)
  from bar_split_last [OF _ _ this]
  have 1: "(p @ CHR ''|'' # show_bool b) @ CHR ''|'' # show_int e = (p' @ CHR ''|'' # show_bool b') @ CHR ''|'' # show_int e'"
    and t: "t = t'" by (simp_all add: show_int_inj)
  from bar_split_last [OF _ _ 1] have 2: "p @ CHR ''|'' # show_bool b = p' @ CHR ''|'' # show_bool b'" and e: "e = e'"
    by (simp_all add: show_int_inj)
  from bar_split_last [OF _ _ 2] t e show ?thesis by (simp add: show_bool_facts)
qed

section \<open>The newest applicable policy rules\<close>

interpretation policy_store: newest_wins "\<lambda>s. gget (nodePolicies s)" pl_put pl_Epoch
  by unfold_locales (auto simp: pl_put_def gomap_simps split: option.splits)

definition applies :: "node_key \<Rightarrow> SignedPolicy \<Rightarrow> bool" where
  "applies self p \<longleftrightarrow> pl_PubKey p = [] \<or> pl_PubKey p = selfPubB64 self"

text \<open>The applicable policies among a list of payloads that the admin signed.\<close>

definition valid_policies ::
  "(byte list \<Rightarrow> SignedPolicy option) \<Rightarrow> 'pk sigscheme \<Rightarrow> 'pk admin_state \<Rightarrow> node_key \<Rightarrow> byte list list \<Rightarrow> SignedPolicy list" where
  "valid_policies json S a self ps = filter (\<lambda>p. verifyPolicy S a p \<and> applies self p) (List.map_filter json ps)"

text \<open>What holds of the store and of the applied policy after the applicable policies \<open>V\<close> have been seen.\<close>

definition store_ok :: "node_key \<Rightarrow> SignedPolicy list \<Rightarrow> (string \<times> SignedPolicy) list \<Rightarrow> bool" where
  "store_ok self V m \<longleftrightarrow>
     (\<forall>k p. gget m k = Some p \<longrightarrow> pl_PubKey p = k \<and> (applies self p \<longrightarrow> p \<in> set V)) \<and>
     (\<forall>p \<in> set V. applies self p \<and> (\<exists>q. gget m (pl_PubKey p) = Some q \<and> pl_Epoch p \<le> pl_Epoch q))"

definition rule_ok :: "bool \<Rightarrow> SignedPolicy list \<Rightarrow> policy_state \<Rightarrow> bool" where
  "rule_ok pq0 V st \<longleftrightarrow> (\<forall>p \<in> set V. pl_Epoch p \<le> currentPolicyEpoch st) \<and>
     (if currentPolicyEpoch st = 0 then V = [] \<and> pqEnabled st = pq0
      else \<exists>p \<in> set V. pl_Epoch p = currentPolicyEpoch st \<and> pl_PostQuantum p = pqEnabled st)"

definition policy_inv :: "node_key \<Rightarrow> bool \<Rightarrow> SignedPolicy list \<Rightarrow> policy_state \<Rightarrow> bool" where
  "policy_inv self pq0 V st \<longleftrightarrow> store_ok self V (nodePolicies st) \<and> rule_ok pq0 V st"

lemma store_ok_put:
  assumes "store_ok self V m" and old: "\<And>cur. gget m (pl_PubKey p) = Some cur \<Longrightarrow> pl_Epoch cur < pl_Epoch p"
  shows "applies self p \<Longrightarrow> store_ok self (V @ [p]) (gput (pl_PubKey p) p m)"
proof -
  assume app: "applies self p"
  have "\<exists>q. gget (gput (pl_PubKey p) p m) (pl_PubKey r) = Some q \<and> pl_Epoch r \<le> pl_Epoch q" if "r \<in> set V" for r
  proof -
    from assms(1) that obtain q where "gget m (pl_PubKey r) = Some q" "pl_Epoch r \<le> pl_Epoch q" by (auto simp: store_ok_def)
    with old show ?thesis by (cases "pl_PubKey r = pl_PubKey p") (auto simp: gget_gput dest: less_imp_le order_trans)
  qed
  with assms(1) app show ?thesis by (auto simp: store_ok_def gget_gput)
qed

lemma store_ok_foreign: "store_ok self V m \<Longrightarrow> \<not> applies self p \<Longrightarrow> store_ok self V (gput (pl_PubKey p) p m)"
  by (auto simp: store_ok_def gget_gput applies_def)

lemma policy_cands_seen:
  "store_ok self V (nodePolicies st) \<Longrightarrow> p \<in> set (policy_cands self st) \<Longrightarrow> p \<in> set V"
  by (auto simp: policy_cands_def applies_def store_ok_def split: option.splits if_splits)

lemma policy_cands_stored:
  "gget (nodePolicies st) (pl_PubKey p) = Some p \<Longrightarrow> applies self p \<Longrightarrow> p \<in> set (policy_cands self st)"
  by (auto simp: policy_cands_def applies_def split: option.splits if_splits)

lemma best_policy_snoc:
  "best_policy (xs @ [p]) = (if (case best_policy xs of None \<Rightarrow> - 1 | Some b \<Rightarrow> pl_Epoch b) < pl_Epoch p then Some p else best_policy xs)"
  by (simp add: best_policy_def)

lemma best_policy_max:
  "(case best_policy xs of
      None \<Rightarrow> \<forall>p \<in> set xs. pl_Epoch p < 0
    | Some b \<Rightarrow> b \<in> set xs \<and> 0 \<le> pl_Epoch b \<and> (\<forall>p \<in> set xs. pl_Epoch p \<le> pl_Epoch b))"
proof (induction xs rule: rev_induct)
  case (snoc p xs)
  then show ?case by (cases "best_policy xs") (auto simp: best_policy_snoc)
qed (simp add: best_policy_def)

lemma recompute_same:
  assumes "\<And>p. p \<in> set (policy_cands self st) \<Longrightarrow> pl_Epoch p \<le> currentPolicyEpoch st"
  shows "recomputeSelfPolicy self st = st"
  using best_policy_max [of "policy_cands self st"] assms
  by (fastforce simp: recomputeSelfPolicy_def split: option.splits)

lemma recompute_new:
  assumes "q \<in> set (policy_cands self st)" "currentPolicyEpoch st < pl_Epoch q" "0 < pl_Epoch q"
    and "\<And>p. p \<in> set (policy_cands self st) \<Longrightarrow> p = q \<or> pl_Epoch p < pl_Epoch q"
  shows "recomputeSelfPolicy self st = st\<lparr>pqEnabled := pl_PostQuantum q, currentPolicyEpoch := pl_Epoch q\<rparr>"
proof -
  have "best_policy (policy_cands self st) = Some q"
    using best_policy_max [of "policy_cands self st"] assms(1,3,4) by (fastforce split: option.splits)
  with assms(2) show ?thesis by (simp add: recomputeSelfPolicy_def)
qed

abbreviation stored_policy :: "SignedPolicy \<Rightarrow> policy_state \<Rightarrow> policy_state" where
  "stored_policy p st \<equiv> savePolicies (st\<lparr>nodePolicies := gput (pl_PubKey p) p (nodePolicies st)\<rparr>)"

lemma policy_inv_known:
  assumes inv: "policy_inv self pq0 V st" and cur: "gget (nodePolicies st) (pl_PubKey p) = Some cur" "pl_Epoch p \<le> pl_Epoch cur"
    and app: "applies self p"
  shows "policy_inv self pq0 (V @ [p]) st"
proof -
  from inv cur(1) app have "cur \<in> set V" by (auto simp: policy_inv_def store_ok_def applies_def)
  with inv cur(2) have "rule_ok pq0 (V @ [p]) st" by (auto simp: policy_inv_def rule_ok_def split: if_splits)
  with inv cur app show ?thesis by (auto simp: policy_inv_def store_ok_def)
qed

lemma policy_inv_stored:
  assumes inv: "policy_inv self pq0 V st" and app: "applies self p" and pos: "0 < pl_Epoch p"
    and old: "\<And>cur. gget (nodePolicies st) (pl_PubKey p) = Some cur \<Longrightarrow> pl_Epoch cur < pl_Epoch p"
  shows "policy_inv self pq0 (V @ [p]) (recomputeSelfPolicy self (stored_policy p st))"
proof -
  define st1 where "st1 = stored_policy p st"
  have st1: "nodePolicies st1 = gput (pl_PubKey p) p (nodePolicies st)" "currentPolicyEpoch st1 = currentPolicyEpoch st" "pqEnabled st1 = pqEnabled st"
    by (simp_all add: st1_def savePolicies_def)
  from inv have store: "store_ok self (V @ [p]) (nodePolicies st1)" and rule: "rule_ok pq0 V st"
    unfolding st1(1) by (simp_all add: policy_inv_def store_ok_put old app)
  have others: "q \<in> set (policy_cands self st1) \<Longrightarrow> q = p \<or> pl_Epoch q \<le> currentPolicyEpoch st" for q
    using policy_cands_seen [OF store] rule by (auto simp: rule_ok_def)
  show ?thesis
  proof (cases "currentPolicyEpoch st < pl_Epoch p")
    case True
    have "p \<in> set (policy_cands self st1)" by (rule policy_cands_stored) (simp_all add: st1 gget_gput app)
    from recompute_new [OF this] True pos others
    have re: "recomputeSelfPolicy self st1 = st1\<lparr>pqEnabled := pl_PostQuantum p, currentPolicyEpoch := pl_Epoch p\<rparr>"
      unfolding st1(2) by fastforce
    have "rule_ok pq0 (V @ [p]) (recomputeSelfPolicy self st1)"
      unfolding re using True pos rule by (auto simp: rule_ok_def intro: less_imp_le order_trans)
    with store re show ?thesis by (simp add: policy_inv_def flip: st1_def)
  next
    case False
    then have re: "recomputeSelfPolicy self st1 = st1" using others by (intro recompute_same) (fastforce simp: st1)
    have "rule_ok pq0 (V @ [p]) st1" using False pos rule by (auto simp: rule_ok_def st1 split: if_splits)
    with store re show ?thesis by (simp add: policy_inv_def flip: st1_def)
  qed
qed

lemma policy_inv_foreign:
  assumes inv: "policy_inv self pq0 V st" and app: "\<not> applies self p"
  shows "policy_inv self pq0 V (recomputeSelfPolicy self (stored_policy p st))"
proof -
  from inv app have store: "store_ok self V (nodePolicies (stored_policy p st))" and rule: "rule_ok pq0 V (stored_policy p st)"
    by (simp_all add: policy_inv_def store_ok_foreign savePolicies_def rule_ok_def)
  have "recomputeSelfPolicy self (stored_policy p st) = stored_policy p st"
    using policy_cands_seen [OF store] rule by (intro recompute_same) (auto simp: rule_ok_def)
  with store rule show ?thesis by (simp add: policy_inv_def)
qed

lemma policy_inv_gossip:
  assumes "policy_inv self pq0 V st" and "\<And>p. json payload = Some p \<Longrightarrow> verifyPolicy S a p \<Longrightarrow> applies self p \<Longrightarrow> 0 < pl_Epoch p"
  shows "policy_inv self pq0 (V @ valid_policies json S a self [payload]) (handlePolicyGossip json S a self st payload)"
proof (cases "json payload")
  case None
  with assms(1) show ?thesis by (simp add: handlePolicyGossip_def valid_policies_def map_filter_simps)
next
  case (Some p)
  have v: "valid_policies json S a self [payload] = (if verifyPolicy S a p \<and> applies self p then [p] else [])"
    by (simp add: valid_policies_def Some map_filter_simps)
  show ?thesis
    using assms Some v policy_inv_known [OF assms(1), of p] policy_inv_stored [OF assms(1), of p] policy_inv_foreign [OF assms(1), of p]
    by (auto simp: handlePolicyGossip_def adoptPolicy_def not_le split: option.splits)
qed

definition fresh_policies :: "bool \<Rightarrow> policy_state" where
  "fresh_policies pq0 = \<lparr>nodePolicies = [], currentPolicyEpoch = 0, pqEnabled = pq0, policyFile = None\<rparr>"

lemma policy_inv_run:
  "(\<And>p. p \<in> set (valid_policies json S a self ps) \<Longrightarrow> 0 < pl_Epoch p) \<Longrightarrow>
     policy_inv self pq0 (valid_policies json S a self ps) (foldl (handlePolicyGossip json S a self) (fresh_policies pq0) ps)"
proof (induction ps rule: rev_induct)
  case Nil
  show ?case by (simp add: policy_inv_def store_ok_def rule_ok_def fresh_policies_def valid_policies_def map_filter_simps)
next
  case (snoc payload ps)
  have split: "valid_policies json S a self (ps @ [payload]) = valid_policies json S a self ps @ valid_policies json S a self [payload]"
    by (simp add: valid_policies_def map_filter_def)
  have "policy_inv self pq0 (valid_policies json S a self ps) (foldl (handlePolicyGossip json S a self) (fresh_policies pq0) ps)"
    by (rule snoc.IH) (use snoc.prems split in auto)
  from policy_inv_gossip [OF this, of json payload S a] snoc.prems show ?case
    by (simp add: split) (simp add: valid_policies_def map_filter_simps)
qed

section \<open>Runs of the network configuration\<close>

datatype net_event = NetGossip bool "byte list" | Restart string string

fun net_step :: "(byte list \<Rightarrow> SignedNetworkConfig option) \<Rightarrow> 'pk sigscheme \<Rightarrow> 'pk admin_state \<Rightarrow> net_state \<Rightarrow> net_event \<Rightarrow> net_state" where
  "net_step json S a st (NetGossip wrote payload) = handleNetConfigGossip json S a wrote st payload"
| "net_step json S a st (Restart name psk) = restart_node name psk st"

fun received :: "(byte list \<Rightarrow> SignedNetworkConfig option) \<Rightarrow> 'pk sigscheme \<Rightarrow> 'pk admin_state \<Rightarrow> net_event \<Rightarrow> SignedNetworkConfig list" where
  "received json S a (NetGossip wrote payload) =
     (case json payload of None \<Rightarrow> [] | Some nc \<Rightarrow> if wrote \<and> verifyNetConfig S a nc then [nc] else [])"
| "received json S a (Restart name psk) = []"

definition fresh_net :: "string \<Rightarrow> string \<Rightarrow> net_state" where
  "fresh_net name psk = \<lparr>ns_name = name, ns_psk = psk, currentNetEpoch = 0, netConfigFile = None, ns_restart = False\<rparr>"

definition net_inv :: "'pk sigscheme \<Rightarrow> 'pk admin_state \<Rightarrow> SignedNetworkConfig list \<Rightarrow> net_state \<Rightarrow> bool" where
  "net_inv S a V st \<longleftrightarrow> list_all (\<lambda>nc. nc_Epoch nc \<le> currentNetEpoch st) V \<and>
     (case netConfigFile st of
        None \<Rightarrow> currentNetEpoch st = 0
      | Some nc \<Rightarrow> nc \<in> set V \<and> verifyNetConfig S a nc \<and> nc_Epoch nc = currentNetEpoch st \<and> 0 < currentNetEpoch st)"

lemma net_inv_restart: "net_inv S a V st \<Longrightarrow> net_inv S a V (restart_node name psk st)"
  by (auto simp: net_inv_def restart_node_def applyNetConfigFile_def verifyNetConfig_def split: option.splits if_splits)

lemma net_inv_adopt:
  assumes "net_inv S a V st"
  shows "net_inv S a (V @ (if wrote \<and> verifyNetConfig S a nc then [nc] else [])) (snd (adoptNetConfig S a wrote st nc))"
proof -
  have "0 \<le> currentNetEpoch st" using assms by (auto simp: net_inv_def split: option.splits)
  with assms show ?thesis by (auto simp: net_inv_def adoptNetConfig_def list_all_iff split: option.splits)
qed

lemma net_inv_run: "net_inv S a (concat (map (received json S a) es)) (foldl (net_step json S a) (fresh_net name psk) es)"
proof (induction es rule: rev_induct)
  case (snoc e es)
  show ?case
  proof (cases e)
    case (NetGossip wrote payload)
    with snoc net_inv_adopt [OF snoc, of wrote] show ?thesis by (auto simp: handleNetConfigGossip_def split: option.splits)
  next
    case (Restart n p)
    with net_inv_restart [OF snoc] show ?thesis by simp
  qed
qed (simp add: net_inv_def fresh_net_def)

section \<open>Properties\<close>

text \<open>The admin's newest policy rules a node, whatever the order of gossip. After any payloads,
  forged ones included, the post-quantum layer is set as some signed policy for the network or
  for this node says that no other such policy received has a higher epoch than; with no such
  policy it stays as it was. Epochs are assumed positive.\<close>

theorem newest_policy_rules:
  assumes "st = foldl (handlePolicyGossip json S a self) (fresh_policies pq0) ps"
    and "V = valid_policies json S a self ps" and "\<And>p. p \<in> set V \<Longrightarrow> 0 < pl_Epoch p"
  shows "if V = [] then pqEnabled st = pq0
    else \<exists>p. p \<in> set V \<and> pqEnabled st = pl_PostQuantum p \<and> list_all (\<lambda>q. pl_Epoch q \<le> pl_Epoch p) V"
proof -
  have "rule_ok pq0 V st" using policy_inv_run [of json S a self ps pq0] assms by (auto simp: policy_inv_def)
  with assms(3) show ?thesis by (fastforce simp: rule_ok_def list_all_iff split: if_splits)
qed

definition demo_policy :: "string \<Rightarrow> bool \<Rightarrow> int \<Rightarrow> SignedPolicy" where
  "demo_policy pub pq e = \<lparr>pl_PubKey = pub, pl_PostQuantum = pq, pl_Epoch = e, pl_Ts = 0,
     pl_Sig = b64_encode ([1, 2, 3] @ bytes_of (canonicalPolicy pub pq e 0))\<rparr>"

definition demo_policy_json :: "byte list \<Rightarrow> SignedPolicy option" where
  "demo_policy_json p = (if p = [1] then Some (demo_policy [] True 5) else if p = [2] then Some (demo_policy (b64_encode demo_key) False 9)
     else None)"

lemma demo_policy_verifies: "verifyPolicy demo_scheme demo_trusted (demo_policy pub pq e)"
  by (simp add: verifyPolicy_def demo_policy_def demo_trusted_def adminKeySet_def b64_decode_encode adminVerify_def demo_scheme_def)

theorem newest_policy_rules_witness:
  "\<not> pqEnabled (foldl (handlePolicyGossip demo_policy_json demo_scheme demo_trusted demo_key) (fresh_policies True) [[2], [1], [3]])"
proof -
  let ?V = "valid_policies demo_policy_json demo_scheme demo_trusted demo_key [[2], [1], [3]]"
  let ?st = "foldl (handlePolicyGossip demo_policy_json demo_scheme demo_trusted demo_key) (fresh_policies True) [[2], [1], [3]]"
  have nz: "selfPubB64 demo_key = b64_encode demo_key" by (simp add: selfPubB64_def demo_key_def replicate_eq_replicate)
  have V: "?V = [demo_policy (b64_encode demo_key) False 9, demo_policy [] True 5]"
    by (simp add: valid_policies_def map_filter_simps demo_policy_json_def demo_policy_verifies applies_def nz)
      (simp add: demo_policy_def)
  have pos: "\<And>p. p \<in> set ?V \<Longrightarrow> 0 < pl_Epoch p" unfolding V by (auto simp: demo_policy_def)
  have "if ?V = [] then pqEnabled ?st = True
    else \<exists>p. p \<in> set ?V \<and> pqEnabled ?st = pl_PostQuantum p \<and> list_all (\<lambda>q. pl_Epoch q \<le> pl_Epoch p) ?V"
    by (rule newest_policy_rules [OF refl refl pos])
  then show ?thesis unfolding V by (auto simp: demo_policy_def simp del: foldl_Cons)
qed

text \<open>C37: A rotation of the network never goes back. Through any gossip, failed writes and restarts,
  the persisted configuration is one the admin signed, its epoch is the node's epoch, no signed
  configuration that arrived and could be written has a higher one, and the next start comes up
  under exactly that name and key.\<close>

theorem rotation_never_rolls_back:
  fixes json :: "byte list \<Rightarrow> SignedNetworkConfig option" and S :: "'pk sigscheme" and a :: "'pk admin_state"
  shows "let st = foldl (net_step json S a) (fresh_net name psk) es; V = concat (map (received json S a) es) in
    list_all (\<lambda>nc. nc_Epoch nc \<le> currentNetEpoch st) V \<and>
    (case netConfigFile st of
       None \<Rightarrow> currentNetEpoch st = 0
     | Some nc \<Rightarrow> nc \<in> set V \<and> verifyNetConfig S a nc \<and> nc_Epoch nc = currentNetEpoch st \<and>
         ns_name (restart_node n p st) = nc_NetworkName nc \<and> ns_psk (restart_node n p st) = nc_PSK nc \<and>
         currentNetEpoch (restart_node n p st) = currentNetEpoch st)"
  using net_inv_run [of S a json es name psk]
  by (auto simp: net_inv_def Let_def restart_node_def applyNetConfigFile_def verifyNetConfig_def split: option.splits if_splits)

text \<open>The signature of a rotation does not bind the boundary between name and key. If a signed
  configuration has a name with a bar in it, the configuration that moves the rest of the name to
  the front of the key has the same signed bytes and verifies as well; a node that gets it first
  adopts it, with another key, and refuses the genuine one.\<close>

theorem rotation_signature_ambiguous:
  assumes "verifyNetConfig S a nc" and name: "nc_NetworkName nc = n1 @ CHR ''|'' # n2" "n1 \<noteq> []"
    and "currentNetEpoch st < nc_Epoch nc"
    and nc': "nc' = nc\<lparr>nc_NetworkName := n1, nc_PSK := n2 @ CHR ''|'' # nc_PSK nc\<rparr>"
  shows "verifyNetConfig S a nc' \<and> nc_PSK nc' \<noteq> nc_PSK nc \<and>
    netConfigFile (snd (adoptNetConfig S a True (snd (adoptNetConfig S a True st nc')) nc)) = Some nc'"
proof -
  have "canonicalNetConfig n1 (n2 @ CHR ''|'' # nc_PSK nc) (nc_Epoch nc) (nc_Ts nc) =
      canonicalNetConfig (nc_NetworkName nc) (nc_PSK nc) (nc_Epoch nc) (nc_Ts nc)"
    by (simp add: canonicalNetConfig_def name)
  with assms have v: "verifyNetConfig S a nc'"
    by (auto simp: verifyNetConfig_def split: if_splits option.splits)
  moreover have "length (nc_PSK nc') \<noteq> length (nc_PSK nc)" by (simp add: nc')
  ultimately show ?thesis using assms(4) by (auto simp: adoptNetConfig_def nc')
qed

theorem rotation_signature_ambiguous_witness:
  "\<exists>nc. nc_NetworkName nc = ''home|lab'' \<and> verifyNetConfig demo_scheme demo_trusted nc \<and>
     verifyNetConfig demo_scheme demo_trusted (nc\<lparr>nc_NetworkName := ''home'', nc_PSK := ''lab|base64:k''\<rparr>)"
proof -
  let ?nc = "\<lparr>nc_NetworkName = ''home|lab'', nc_PSK = ''base64:k'', nc_Epoch = 7, nc_Ts = 0,
     nc_Sig = b64_encode ([1, 2, 3] @ bytes_of (canonicalNetConfig ''home|lab'' ''base64:k'' 7 0))\<rparr>"
  have v: "verifyNetConfig demo_scheme demo_trusted ?nc"
    by (simp add: verifyNetConfig_def demo_trusted_def adminKeySet_def b64_decode_encode adminVerify_def demo_scheme_def)
  have "verifyNetConfig demo_scheme demo_trusted (?nc\<lparr>nc_NetworkName := ''home'', nc_PSK := ''lab|base64:k''\<rparr>)"
    by (rule conjunct1 [OF rotation_signature_ambiguous [OF v, of "''home''" "''lab''" "fresh_net [] []"]]) (simp_all add: fresh_net_def)
  with v show ?thesis by (intro exI [of _ ?nc]) simp
qed

text \<open>The signature of a policy binds every field, whatever text stands for the key.\<close>

theorem policy_signature_binds:
  "bytes_of (canonicalPolicy p b e t) = bytes_of (canonicalPolicy p' b' e' t') \<longleftrightarrow> p = p' \<and> b = b' \<and> e = e' \<and> t = t'"
  using canonicalPolicy_inj [of p b e t p' b' e' t'] by (auto simp: bytes_of_inj)

end
