(* ===== verification/Relay_Policy.thy ===== *)
theory Relay_Policy
  imports IPv4_Text Bandwidth
begin

text \<open>
  When to relay: NAT classes and the per-peer verdicts of \<open>client/relaypolicy.go\<close>, the router
  test of \<open>client/reachability.go\<close>, and the metering of exit traffic (\<open>client/exitlimit.go\<close>).

  Verdict records are pointers in the code; a handler's updates are written back to the map here.
  \<open>relayPolicyFor\<close> sweeps old records but never the one it returns, which it has just touched. The
  NAT observations and the addresses of the host are arguments.
\<close>

section \<open>NAT classes\<close>

definition natUnknown :: string where "natUnknown = ''unknown''"
definition natStable :: string where "natStable = ''stable''"
definition natSymmetric :: string where "natSymmetric = ''sym''"
definition natTokenPfx :: string where "natTokenPfx = ''nat=''"
definition natTokenMaxLn :: nat where "natTokenMaxLn = 16"

lemmas nat_class_defs = natUnknown_def natStable_def natSymmetric_def

record natMapping =
  nm_ip :: string
  nm_port :: int
  nm_stride :: int
  nm_symmetric :: bool
  nm_samples :: int

definition natTokenFor :: "natMapping \<Rightarrow> string" where
  "natTokenFor m =
     (if nm_ip m = [] \<or> nm_samples m < 2 then []
      else if nm_symmetric m then natTokenPfx @ natSymmetric
      else natTokenPfx @ natStable)"

definition ourNATClass :: "natMapping \<Rightarrow> string" where
  "ourNATClass m =
     (if nm_ip m = [] \<or> nm_samples m < 2 then natUnknown
      else if nm_symmetric m then natSymmetric else natStable)"

fun nat_class_of :: "string list \<Rightarrow> string" where
  "nat_class_of [] = natUnknown"
| "nat_class_of (c # cs) =
     (let c = trim_space c; v = drop (length natTokenPfx) c in
      if natTokenMaxLn < length c \<or> \<not> has_prefix c natTokenPfx then nat_class_of cs
      else if v = natSymmetric then natSymmetric
      else if v = natStable then natStable
      else nat_class_of cs)"

definition parseNATClass :: "string \<Rightarrow> string" where
  "parseNATClass candidateList = nat_class_of (split_on (CHR '','') candidateList)"

definition directPunchViable :: "string \<Rightarrow> string \<Rightarrow> bool" where
  "directPunchViable mine theirs =
     (if mine = natUnknown \<or> theirs = natUnknown then True
      else if mine = natSymmetric \<and> theirs = natSymmetric then False
      else if mine = natSymmetric \<and> theirs = natStable then False
      else if mine = natStable \<and> theirs = natSymmetric then False
      else True)"

section \<open>Per-peer verdicts\<close>

definition relayEscalateAfter :: duration where "relayEscalateAfter = 15 * second"
definition relayUpgradeProbeEvery :: duration where "relayUpgradeProbeEvery = 60 * second"
definition relayPolicyForget :: duration where "relayPolicyForget = 30 * minute"

record relayPeerPolicy =
  rp_firstPunch :: go_time
  rp_lastSeen :: go_time
  rp_lastProbe :: go_time
  rp_natClass :: string
  rp_relayFirst :: bool
  rp_escalated :: bool
  rp_reason :: string

type_synonym relay_pol = "(string \<times> relayPeerPolicy) list"

definition relayPolicyFor :: "relay_pol \<Rightarrow> string \<Rightarrow> go_time \<Rightarrow> relayPeerPolicy \<times> relay_pol" where
  "relayPolicyFor m ip now =
     (let p0 = (case gget m ip of
            Some p \<Rightarrow> p
          | None \<Rightarrow> \<lparr>rp_firstPunch = now, rp_lastSeen = 0, rp_lastProbe = 0, rp_natClass = natUnknown,
                     rp_relayFirst = False, rp_escalated = False, rp_reason = []\<rparr>);
          p = p0\<lparr>rp_lastSeen := now\<rparr>
      in (p, gdrop (\<lambda>k v. relayPolicyForget < time_sub now (rp_lastSeen v)) (gput ip p m)))"

text \<open>The results: whether to punch, and whether a port spray is started.\<close>

definition noteConnectCandidates :: "string \<Rightarrow> relay_pol \<Rightarrow> string \<Rightarrow> string \<Rightarrow> go_time \<Rightarrow> (bool \<times> bool) \<times> relay_pol" where
  "noteConnectCandidates mine m ip candidateList now =
     (let theirs = parseNATClass candidateList;
          (p0, m1) = relayPolicyFor m ip now;
          p = p0\<lparr>rp_natClass := theirs\<rparr>;
          viable = directPunchViable mine theirs;
          p1 = (if \<not> viable \<and> \<not> rp_relayFirst p
                then p\<lparr>rp_relayFirst := True, rp_reason := ''nat pairing '' @ mine @ ''/'' @ theirs @ '' cannot be punched''\<rparr>
                else if viable \<and> rp_relayFirst p then p\<lparr>rp_relayFirst := False, rp_reason := []\<rparr>
                else p)
      in ((\<not> rp_relayFirst p1, \<not> viable), gput ip p1 m1))"

definition relayPreferred :: "relay_pol \<Rightarrow> string \<Rightarrow> bool \<Rightarrow> go_time \<Rightarrow> bool \<times> relay_pol" where
  "relayPreferred m ip established now =
     (let (p, m1) = relayPolicyFor m ip now in
      if established then
        (False, gput ip (p\<lparr>rp_relayFirst := False, rp_firstPunch := now, rp_escalated := False\<rparr>) m1)
      else if rp_relayFirst p then (True, m1)
      else
        let p1 = (if \<not> rp_escalated p \<and> relayEscalateAfter \<le> time_sub now (rp_firstPunch p)
                  then p\<lparr>rp_escalated := True\<rparr> else p)
        in (rp_escalated p1, gput ip p1 m1))"

definition shouldProbeDirect :: "relay_pol \<Rightarrow> string \<Rightarrow> go_time \<Rightarrow> bool \<times> relay_pol" where
  "shouldProbeDirect m ip now =
     (let (p, m1) = relayPolicyFor m ip now in
      if time_sub now (rp_lastProbe p) < relayUpgradeProbeEvery then (False, m1)
      else (True, gput ip (p\<lparr>rp_lastProbe := now\<rparr>) m1))"

section \<open>Routers\<close>

text \<open>\<open>pub\<close> is the public address STUN reported, \<open>nets\<close> the host's interface addresses, \<open>parse_ip\<close> \<open>net.ParseIP\<close>.\<close>

definition localIPv4Strings :: "ip_nets \<Rightarrow> string list" where
  "localIPv4Strings nets = map (\<lambda>n. show_ipv4 (fst n)) nets"

definition behindRouter :: "(string \<Rightarrow> ip_addr option) \<Rightarrow> string \<Rightarrow> ip_nets \<Rightarrow> bool" where
  "behindRouter parse_ip pub nets =
     (if pub = [] then False
      else case parse_ip pub of
          None \<Rightarrow> False
        | Some ip \<Rightarrow> if is_private ip then True else pub \<notin> set (localIPv4Strings nets))"

function itoa_loop :: "nat \<Rightarrow> string \<Rightarrow> string" where
  "itoa_loop p b = (if 0 < p then itoa_loop (p div 10) (digit_char (p mod 10) # b) else b)"
  by auto
termination by (relation "measure fst") auto

declare itoa_loop.simps [simp del]

definition itoaPort :: "nat \<Rightarrow> string" where
  "itoaPort p = (if p = 0 then ''0'' else itoa_loop p [])"

section \<open>Exit metering\<close>

text \<open>\<open>None\<close>: no limiter was ever configured.\<close>

definition exit_allow ::
  "(bandwidthLimiter \<Rightarrow> go_time \<Rightarrow> int \<Rightarrow> bool \<times> bandwidthLimiter) \<Rightarrow> bandwidthLimiter option \<Rightarrow> go_time \<Rightarrow> int
   \<Rightarrow> bool \<times> bandwidthLimiter option" where
  "exit_allow allow l0 now n =
     (case l0 of
        None \<Rightarrow> (True, None)
      | Some l \<Rightarrow>
          let (over, l1) = QuotaExceeded l now in
          if over then (False, Some l1)
          else let (ok, l2) = allow l1 now n in (ok, Some l2))"

definition exitAllowOut :: "bandwidthLimiter option \<Rightarrow> go_time \<Rightarrow> int \<Rightarrow> bool \<times> bandwidthLimiter option" where
  "exitAllowOut = exit_allow AllowUp"

definition exitAllowIn :: "bandwidthLimiter option \<Rightarrow> go_time \<Rightarrow> int \<Rightarrow> bool \<times> bandwidthLimiter option" where
  "exitAllowIn = exit_allow AllowDown"

section \<open>Runs\<close>

datatype rel_event = Note string string string go_time | Preferred string bool go_time | Probe string go_time

fun rel_time :: "rel_event \<Rightarrow> go_time" where
  "rel_time (Note mine ip cands now) = now"
| "rel_time (Preferred ip est now) = now"
| "rel_time (Probe ip now) = now"

fun rel_ip :: "rel_event \<Rightarrow> string" where
  "rel_ip (Note mine ip cands now) = ip"
| "rel_ip (Preferred ip est now) = ip"
| "rel_ip (Probe ip now) = ip"

fun rel_step :: "rel_event \<Rightarrow> relay_pol \<Rightarrow> bool \<times> relay_pol" where
  "rel_step (Note mine ip cands now) m = (let ((punch, spray), m1) = noteConnectCandidates mine m ip cands now in (punch, m1))"
| "rel_step (Preferred ip est now) m = relayPreferred m ip est now"
| "rel_step (Probe ip now) m = shouldProbeDirect m ip now"

lemma for_get:
  assumes "gwf m" "relayPolicyFor m ip now = (p, m1)"
  shows "gwf m1" "gget m1 ip = Some p" "rp_lastSeen p = now"
    and "gget m ip = Some p0 \<Longrightarrow> p = p0\<lparr>rp_lastSeen := now\<rparr>"
    and "jp \<noteq> ip \<Longrightarrow> gget m1 jp = (case gget m jp of None \<Rightarrow> None | Some v \<Rightarrow>
      if relayPolicyForget < time_sub now (rp_lastSeen v) then None else Some v)"
proof -
  have f: "\<not> relayPolicyForget < time_sub now now" by (simp add: relayPolicyForget_def duration_defs)
  have wf: "gwf (gput ip p m)" by (rule gwf_gput [OF assms(1)])
  from assms(2) have m1: "m1 = gdrop (\<lambda>k v. relayPolicyForget < time_sub now (rp_lastSeen v)) (gput ip p m)" and seen: "rp_lastSeen p = now"
    by (auto simp: relayPolicyFor_def Let_def)
  show "gwf m1" unfolding m1 by (rule gwf_gdrop [OF wf])
  show "gget m1 ip = Some p" using f seen by (simp add: m1 gget_gdrop [OF wf] gget_gput)
  show "rp_lastSeen p = now" by (rule seen)
  show "gget m ip = Some p0 \<Longrightarrow> p = p0\<lparr>rp_lastSeen := now\<rparr>" using assms(2) by (auto simp: relayPolicyFor_def Let_def)
  show "jp \<noteq> ip \<Longrightarrow> gget m1 jp = (case gget m jp of None \<Rightarrow> None | Some v \<Rightarrow>
      if relayPolicyForget < time_sub now (rp_lastSeen v) then None else Some v)"
    by (simp add: m1 gget_gdrop [OF wf] gget_gput)
qed

lemma note_get:
  assumes "relayPolicyFor m ip now = (p, m1)"
  obtains q where "snd (noteConnectCandidates mine m ip cands now) = gput ip q m1" "rp_lastSeen q = rp_lastSeen p"
    "rp_firstPunch q = rp_firstPunch p" "rp_lastProbe q = rp_lastProbe p" "rp_escalated q = rp_escalated p"
  by (simp add: noteConnectCandidates_def assms Let_def)

lemma preferred_get:
  assumes "relayPolicyFor m ip now = (p, m1)" "gget m1 ip = Some p"
  obtains q where "gget (snd (relayPreferred m ip est now)) = (gget m1)(ip \<mapsto> q)" "gwf m1 \<Longrightarrow> gwf (snd (relayPreferred m ip est now))"
    "rp_lastSeen q = rp_lastSeen p" "rp_lastProbe q = rp_lastProbe p" "\<not> est \<Longrightarrow> rp_firstPunch q = rp_firstPunch p"
proof (rule that [of "if est then p\<lparr>rp_relayFirst := False, rp_firstPunch := now, rp_escalated := False\<rparr>
    else if rp_relayFirst p then p
    else if \<not> rp_escalated p \<and> relayEscalateAfter \<le> time_sub now (rp_firstPunch p) then p\<lparr>rp_escalated := True\<rparr> else p"])
qed (use assms in \<open>simp_all add: relayPreferred_def Let_def update_conv' fun_upd_idem gwf_gput\<close>)

lemma probe_get:
  assumes "relayPolicyFor m ip now = (p, m1)" "gget m1 ip = Some p"
  obtains q where "gget (snd (shouldProbeDirect m ip now)) = (gget m1)(ip \<mapsto> q)" "gwf m1 \<Longrightarrow> gwf (snd (shouldProbeDirect m ip now))"
    "rp_lastSeen q = rp_lastSeen p" "rp_firstPunch q = rp_firstPunch p"
    "fst (shouldProbeDirect m ip now) \<longleftrightarrow> \<not> time_sub now (rp_lastProbe p) < relayUpgradeProbeEvery"
    "rp_lastProbe q = (if fst (shouldProbeDirect m ip now) then now else rp_lastProbe p)"
proof (rule that [of "if time_sub now (rp_lastProbe p) < relayUpgradeProbeEvery then p else p\<lparr>rp_lastProbe := now\<rparr>"])
qed (use assms in \<open>simp_all add: shouldProbeDirect_def Let_def update_conv' fun_upd_idem gwf_gput\<close>)

text \<open>One event: a map stays a map; the record of the peer is there, just seen, its probe time changed
  only by a probe and its first punch only by an established session; a record of another peer is
  untouched or swept.\<close>

lemma rel_step_get:
  assumes wf: "gwf m"
  obtains p m1 q where "relayPolicyFor m (rel_ip e) (rel_time e) = (p, m1)" "gwf m1" "gget m1 (rel_ip e) = Some p"
    "gwf (snd (rel_step e m))" "gget (snd (rel_step e m)) = (gget m1)(rel_ip e \<mapsto> q)"
    "rp_lastSeen q = rel_time e" "(\<nexists>ip now. e = Preferred ip True now) \<longrightarrow> rp_firstPunch q = rp_firstPunch p"
    "(\<nexists>ip now. e = Probe ip now) \<longrightarrow> rp_lastProbe q = rp_lastProbe p"
    "\<forall>ip now. e = Probe ip now \<longrightarrow> (fst (rel_step e m) \<longleftrightarrow> \<not> time_sub now (rp_lastProbe p) < relayUpgradeProbeEvery)"
    "\<forall>ip now. e = Probe ip now \<longrightarrow> rp_lastProbe q = (if fst (rel_step e m) then now else rp_lastProbe p)"
proof -
  obtain p m1 where f: "relayPolicyFor m (rel_ip e) (rel_time e) = (p, m1)" by fastforce
  note g = for_get(1-3) [OF wf f]
  show thesis
  proof (cases e)
    case (Note mine ip cands now)
    with f obtain q where q: "snd (noteConnectCandidates mine m ip cands now) = gput ip q m1" "rp_lastSeen q = rp_lastSeen p"
      "rp_firstPunch q = rp_firstPunch p" "rp_lastProbe q = rp_lastProbe p"
      using note_get [of m ip now p m1 mine cands] by auto
    have "snd (rel_step e m) = gput ip q m1" using Note q(1) by (simp add: case_prod_beta)
    with that [OF f g(1,2), of q] Note q g show thesis by (simp add: update_conv' gwf_gput)
  next
    case (Preferred ip est now)
    with f g preferred_get [of m ip now p m1 est] obtain q where
      "gget (snd (relayPreferred m ip est now)) = (gget m1)(ip \<mapsto> q)" "gwf (snd (relayPreferred m ip est now))"
      "rp_lastSeen q = rp_lastSeen p" "rp_lastProbe q = rp_lastProbe p" "\<not> est \<Longrightarrow> rp_firstPunch q = rp_firstPunch p" by auto
    with that [OF f g(1,2), of q] Preferred g show thesis by auto
  next
    case (Probe ip now)
    with f g probe_get [of m ip now p m1] obtain q where
      "gget (snd (shouldProbeDirect m ip now)) = (gget m1)(ip \<mapsto> q)" "gwf (snd (shouldProbeDirect m ip now))"
      "rp_lastSeen q = rp_lastSeen p" "rp_firstPunch q = rp_firstPunch p"
      "fst (shouldProbeDirect m ip now) \<longleftrightarrow> \<not> time_sub now (rp_lastProbe p) < relayUpgradeProbeEvery"
      "rp_lastProbe q = (if fst (shouldProbeDirect m ip now) then now else rp_lastProbe p)" by auto
    with that [OF f g(1,2), of q] Probe g show thesis by simp
  qed
qed

section \<open>Probes are spaced out\<close>

definition probe_key :: "rel_event \<Rightarrow> string option" where
  "probe_key e = (case e of Probe ip now \<Rightarrow> Some ip | _ \<Rightarrow> None)"

text \<open>After a probe at \<open>u\<close>, at time \<open>t\<close>: the record still knows, or the gap is over.\<close>

definition probed :: "string \<Rightarrow> go_time \<Rightarrow> go_time \<Rightarrow> relay_pol \<Rightarrow> bool" where
  "probed ip u t m \<longleftrightarrow>
     (u + relayUpgradeProbeEvery \<le> t \<or> (\<exists>p. gget m ip = Some p \<and> u \<le> rp_lastProbe p \<and> u \<le> rp_lastSeen p))"

lemma relay_gap_less: "time_sub a b < relayUpgradeProbeEvery \<longleftrightarrow> a < b + relayUpgradeProbeEvery"
  by (subst time_sub_less_iff) (auto simp: relayUpgradeProbeEvery_def duration_defs)

lemma relay_forget_less: "relayPolicyForget < time_sub a b \<Longrightarrow> b + relayUpgradeProbeEvery \<le> a"
  by (auto simp: time_sub_def relayPolicyForget_def relayUpgradeProbeEvery_def duration_defs split: if_splits)

lemma probed_step:
  assumes wf: "gwf m" and h: "probed ip u t m" and mono: "u \<le> t" "t \<le> rel_time e"
  shows "probed ip u (rel_time e) (snd (rel_step e m))"
    and "probe_key e = Some ip \<Longrightarrow> fst (rel_step e m) \<Longrightarrow> u + relayUpgradeProbeEvery \<le> rel_time e"
proof -
  obtain p m1 q where f: "relayPolicyFor m (rel_ip e) (rel_time e) = (p, m1)" "gwf m1" "gget m1 (rel_ip e) = Some p"
    "gwf (snd (rel_step e m))" and q: "gget (snd (rel_step e m)) = (gget m1)(rel_ip e \<mapsto> q)" "rp_lastSeen q = rel_time e"
      "(\<nexists>ip now. e = Preferred ip True now) \<longrightarrow> rp_firstPunch q = rp_firstPunch p"
    and np: "(\<nexists>ip now. e = Probe ip now) \<longrightarrow> rp_lastProbe q = rp_lastProbe p"
    and pr: "\<forall>ip now. e = Probe ip now \<longrightarrow> (fst (rel_step e m) \<longleftrightarrow> \<not> time_sub now (rp_lastProbe p) < relayUpgradeProbeEvery)"
      "\<forall>ip now. e = Probe ip now \<longrightarrow> rp_lastProbe q = (if fst (rel_step e m) then now else rp_lastProbe p)"
    by (rule rel_step_get [OF wf, of e])
  note g = for_get [OF wf f(1)]
  have p: "u + relayUpgradeProbeEvery \<le> rel_time e \<or> u \<le> rp_lastProbe p" if "rel_ip e = ip"
    using h mono g(4) that by (force simp: probed_def)
  have q_probe: "u \<le> rp_lastProbe q" if "rel_ip e = ip" "u \<le> rp_lastProbe p"
    using that np pr(2) mono by (cases e) auto
  show "probed ip u (rel_time e) (snd (rel_step e m))"
  proof (cases "rel_ip e = ip")
    case True
    with p q_probe q mono show ?thesis by (auto simp: probed_def)
  next
    case False
    with h mono q(1) g(5) [of ip] show ?thesis
      by (fastforce simp: probed_def dest: relay_forget_less split: if_splits)
  qed
  show "probe_key e = Some ip \<Longrightarrow> fst (rel_step e m) \<Longrightarrow> u + relayUpgradeProbeEvery \<le> rel_time e"
    using p pr(1) by (auto simp: relay_gap_less probe_key_def split: rel_event.splits)
qed

interpretation probe_gap: spaced_grants rel_step rel_time probe_key gwf probed relayUpgradeProbeEvery
proof
  fix e and m :: relay_pol and ip u t
  assume wf: "gwf m"
  show "gwf (snd (rel_step e m))" by (rule rel_step_get [OF wf, of e])
  show "probed ip (rel_time e) (rel_time e) (snd (rel_step e m))" if "probe_key e = Some ip" "fst (rel_step e m)"
    by (rule rel_step_get [OF wf, of e])
      (use that in \<open>auto simp: probed_def probe_key_def split: rel_event.splits\<close>)
  show "probed ip u (rel_time e) (snd (rel_step e m))" if "probed ip u t m" "u \<le> t" "t \<le> rel_time e"
    by (rule probed_step(1) [OF wf that])
  show "u + relayUpgradeProbeEvery \<le> rel_time e"
    if "probed ip u t m" "u \<le> t" "t \<le> rel_time e" "probe_key e = Some ip" "fst (rel_step e m)"
    by (rule probed_step(2) [OF wf that])
qed

text \<open>a relayed peer is probed for a direct path at most once a minute. Whatever sequence of
  candidate lists, preference questions and probe questions about any peers a node handles, in the order
  of its clock, the times at which \<open>shouldProbeDirect\<close> grants a probe of one peer are pairwise at least
  \<open>relayUpgradeProbeEvery\<close> apart; in particular forgetting a silent peer's record (the sweep of
  \<open>relayPolicyFor\<close>) never lets a probe through early.\<close>

theorem probes_spaced:
  assumes "sorted (map rel_time es)"
  shows "sorted_wrt (\<lambda>a b. a + relayUpgradeProbeEvery \<le> b)
    (grant_times rel_time probe_key ip (fst (run_steps rel_step es [])))"
  by (rule probe_gap.grants_spaced) (use assms in simp_all)

theorem probes_spaced_witness:
  "grant_times rel_time probe_key ''10.0.0.2'' (fst (run_steps rel_step
      [Probe ''10.0.0.2'' (2 * hour), Preferred ''10.0.0.2'' False (2 * hour + second), Probe ''10.0.0.2'' (2 * hour + 59 * second),
       Probe ''10.0.0.2'' (2 * hour + 60 * second)] [])) = [2 * hour, 2 * hour + 60 * second]
   \<and> sorted_wrt (\<lambda>a b. a + relayUpgradeProbeEvery \<le> b) (grant_times rel_time probe_key ''10.0.0.2'' (fst (run_steps rel_step
      [Probe ''10.0.0.2'' (2 * hour), Preferred ''10.0.0.2'' False (2 * hour + second), Probe ''10.0.0.2'' (2 * hour + 59 * second),
       Probe ''10.0.0.2'' (2 * hour + 60 * second)] [])))"
proof (rule conjI [OF _ probes_spaced])
  show "grant_times rel_time probe_key ''10.0.0.2'' (fst (run_steps rel_step
      [Probe ''10.0.0.2'' (2 * hour), Preferred ''10.0.0.2'' False (2 * hour + second), Probe ''10.0.0.2'' (2 * hour + 59 * second),
       Probe ''10.0.0.2'' (2 * hour + 60 * second)] [])) = [2 * hour, 2 * hour + 60 * second]"
    by code_simp
qed (simp add: duration_defs)

section \<open>Punching ends\<close>

text \<open>Since time \<open>s\<close> the peer is mentioned often enough that its record is not forgotten.\<close>

fun kept :: "string \<Rightarrow> go_time \<Rightarrow> rel_event list \<Rightarrow> bool" where
  "kept ip s [] = True"
| "kept ip s (e # es) =
     (\<not> relayPolicyForget < time_sub (rel_time e) s \<and> kept ip (if rel_ip e = ip then rel_time e else s) es)"

fun never_up :: "string \<Rightarrow> rel_event list \<Rightarrow> bool" where
  "never_up ip [] = True"
| "never_up ip (e # es) = ((case e of Preferred jp est now \<Rightarrow> jp \<noteq> ip \<or> \<not> est | _ \<Rightarrow> True) \<and> never_up ip es)"

definition punched_since :: "string \<Rightarrow> go_time \<Rightarrow> go_time \<Rightarrow> relay_pol \<Rightarrow> bool" where
  "punched_since ip t0 s m \<longleftrightarrow> gwf m \<and> (\<exists>p. gget m ip = Some p \<and> rp_firstPunch p = t0 \<and> rp_lastSeen p = s)"

lemma punched_step:
  assumes h: "punched_since ip t0 s m" and keep: "\<not> relayPolicyForget < time_sub (rel_time e) s" and up: "never_up ip [e]"
  shows "punched_since ip t0 (if rel_ip e = ip then rel_time e else s) (snd (rel_step e m))"
proof -
  have wf: "gwf m" using h by (simp add: punched_since_def)
  show ?thesis
  proof (rule rel_step_get [OF wf, of e])
    fix p m1 q
    assume f: "relayPolicyFor m (rel_ip e) (rel_time e) = (p, m1)" and "gwf (snd (rel_step e m))"
      and q: "gget (snd (rel_step e m)) = (gget m1)(rel_ip e \<mapsto> q)" "rp_lastSeen q = rel_time e"
      and fp: "(\<nexists>ip now. e = Preferred ip True now) \<longrightarrow> rp_firstPunch q = rp_firstPunch p"
    moreover have "rp_firstPunch q = rp_firstPunch p" if "rel_ip e = ip" using fp up that by (cases e) auto
    ultimately show ?thesis
      using h keep for_get(4) [OF wf f] for_get(5) [OF wf f, of ip] by (auto simp: punched_since_def)
  qed
qed

lemma punched_run:
  "punched_since ip t0 s m \<Longrightarrow> kept ip s (es @ [f]) \<Longrightarrow> never_up ip es \<Longrightarrow>
     \<exists>s'. punched_since ip t0 s' (snd (run_steps rel_step es m)) \<and> \<not> relayPolicyForget < time_sub (rel_time f) s'"
proof (induction es arbitrary: m s)
  case (Cons e es)
  from punched_step [OF Cons.prems(1), of e] Cons.prems
  have "punched_since ip t0 (if rel_ip e = ip then rel_time e else s) (snd (rel_step e m))" by simp
  from Cons.IH [OF this] Cons.prems show ?case by (simp add: case_prod_beta Let_def)
qed auto

lemma punched_answer:
  assumes h: "punched_since ip t0 s m" and late: "t0 + relayEscalateAfter \<le> now"
  shows "fst (relayPreferred m ip False now)"
proof -
  obtain p m1 where f: "relayPolicyFor m ip now = (p, m1)" by fastforce
  with h for_get(4) [OF _ f] have "rp_firstPunch p = t0" by (auto simp: punched_since_def)
  moreover have "relayEscalateAfter \<le> time_sub now t0"
    using late by (auto simp: time_sub_def relayEscalateAfter_def duration_defs)
  ultimately show ?thesis by (simp add: relayPreferred_def f Let_def)
qed

text \<open>punching does not go on for ever. A peer a node first hears of at \<open>t0\<close>, that is never
  reported established, and that is mentioned at least every \<open>relayPolicyForget\<close> so that its record is
  kept, is served by the relay at every question asked from \<open>relayEscalateAfter\<close> after \<open>t0\<close> on: the answer
  of \<open>relayPreferred\<close> is yes, whatever candidate lists, NAT classes, probes and other peers came in between.\<close>

theorem punching_escalates:
  assumes "rel_ip e0 = ip" "never_up ip (e0 # es)" "kept ip (rel_time e0) (es @ [Preferred ip False now])"
    and "rel_time e0 + relayEscalateAfter \<le> now"
  shows "last (fst (run_steps rel_step (e0 # es @ [Preferred ip False now]) [])) = (Preferred ip False now, True)"
proof -
  have "punched_since ip (rel_time e0) (rel_time e0) (snd (rel_step e0 []))"
  proof (rule rel_step_get [of "[]" e0])
    fix p m1 q
    assume f: "relayPolicyFor [] (rel_ip e0) (rel_time e0) = (p, m1)" and "gwf (snd (rel_step e0 []))"
      "gget (snd (rel_step e0 [])) = (gget m1)(rel_ip e0 \<mapsto> q)" "rp_lastSeen q = rel_time e0"
      and fp: "(\<nexists>ip now. e0 = Preferred ip True now) \<longrightarrow> rp_firstPunch q = rp_firstPunch p"
    moreover have "rp_firstPunch p = rel_time e0" using f by (auto simp: relayPolicyFor_def Let_def)
    moreover have "rp_firstPunch q = rp_firstPunch p" using fp assms(1,2) by (cases e0) auto
    ultimately show ?thesis using assms(1) by (auto simp: punched_since_def)
  qed simp
  from punched_run [OF this assms(3)] assms(2)
  obtain s' where "punched_since ip (rel_time e0) s' (snd (run_steps rel_step es (snd (rel_step e0 []))))" by auto
  from punched_answer [OF this assms(4)] show ?thesis
    by (simp add: run_steps_snoc case_prod_beta Let_def)
qed

theorem punching_escalates_witness:
  "last (fst (run_steps rel_step [Note ''sym'' ''10.0.0.2'' ''1.2.3.4:5,nat=stable'' (2 * hour),
      Note ''stable'' ''10.0.0.2'' ''1.2.3.4:5'' (2 * hour + 4 * second), Probe ''10.0.0.3'' (2 * hour + 9 * second),
      Preferred ''10.0.0.2'' False (2 * hour + 15 * second)] [])) = (Preferred ''10.0.0.2'' False (2 * hour + 15 * second), True)"
proof -
  have "kept ''10.0.0.2'' (2 * hour) [Note ''stable'' ''10.0.0.2'' ''1.2.3.4:5'' (2 * hour + 4 * second),
      Probe ''10.0.0.3'' (2 * hour + 9 * second), Preferred ''10.0.0.2'' False (2 * hour + 15 * second)]"
    by (simp add: time_sub_def relayPolicyForget_def duration_defs)
  then show ?thesis
    using punching_escalates [of "Note ''sym'' ''10.0.0.2'' ''1.2.3.4:5,nat=stable'' (2 * hour)" "''10.0.0.2''"
        "[Note ''stable'' ''10.0.0.2'' ''1.2.3.4:5'' (2 * hour + 4 * second), Probe ''10.0.0.3'' (2 * hour + 9 * second)]"
        "2 * hour + 15 * second"]
    by (simp add: relayEscalateAfter_def del: run_steps.simps)
qed

lemma itoa_loop_show: "0 < p \<Longrightarrow> itoa_loop p b = show_nat p @ b"
proof (induction p arbitrary: b rule: less_induct)
  case (less p)
  show ?case
  proof (cases "p < 10")
    case True
    with less.prems show ?thesis by (simp add: itoa_loop.simps show_nat.simps)
  next
    case False
    then have "0 < p div 10" "p div 10 < p" by (simp_all add: div_greater_zero_iff)
    from less.IH [OF this(2,1)] less.prems False show ?thesis
      by (subst itoa_loop.simps, subst show_nat.simps) simp
  qed
qed

text \<open>The hand-written decimal printer of \<open>reachability.go\<close> is \<open>strconv.Itoa\<close>.\<close>

lemma itoaPort_show: "itoaPort p = show_nat p"
proof (cases "p = 0")
  case True
  have "show_nat 0 = ''0''" by code_simp
  with True show ?thesis by (simp add: itoaPort_def)
qed (simp add: itoaPort_def itoa_loop_show)

end
