(* ===== verification/Host_Addrs.thy ===== *)
theory Host_Addrs
  imports IPv4_Text Bencode Session_Table "HOL-Library.Multiset"
begin

text \<open>
  The addresses of the host (\<open>client/main.go\<close>, \<open>client/v6preferred.go\<close>): which interfaces count,
  the subnets the node is attached to, the hosts it sweeps in LAN discovery, the broadcast addresses it
  beacons to and the IPv6 endpoints it advertises.

  What the operating system reports (\<open>net.Interfaces\<close>, \<open>Addrs\<close>) is the argument \<open>ifs\<close>, and the source
  address the kernel prefers (\<open>preferredV6Source\<close>) the argument \<open>pref\<close>. An address comes with the length
  of its mask; an IPv4 address has four bytes and a mask of at most 32 bits.
\<close>

record iface =
  if_up :: bool
  if_broadcast :: bool
  if_name :: string
  if_addrs :: "(ip_addr \<times> nat) list"

fun ip_string :: "ip_addr \<Rightarrow> string" where
  "ip_string (V4 b) = show_ipv4 b"
| "ip_string (V6 b) = v6_string b"

text \<open>\<open>net.SplitHostPort\<close>.\<close>

definition split_host_port :: "string \<Rightarrow> (string \<times> string) option" where
  "split_host_port s =
     (if CHR '':'' \<notin> set s then None
      else
        let port = rev (takeWhile (\<lambda>c. c \<noteq> CHR '':'') (rev s)); i = length s - 1 - length port in
        if hd s = CHR ''['' then
          if CHR '']'' \<notin> set s then None
          else
            let e = length (takeWhile (\<lambda>c. c \<noteq> CHR '']'') s) in
            if e + 1 \<noteq> i then None
            else if CHR ''['' \<in> set (drop 1 s) \<or> CHR '']'' \<in> set (drop (e + 1) s) then None
            else Some (take (e - 1) (drop 1 s), port)
        else
          let host = take i s in
          if CHR '':'' \<in> set host then None
          else if CHR ''['' \<in> set s \<or> CHR '']'' \<in> set s then None
          else Some (host, port))"

lemma split_host_port_colon:
  assumes "CHR '':'' \<notin> set p"
  shows "split_host_port (a @ CHR '':'' # p) =
     (if hd (a @ '':'') = CHR ''['' then
        if a \<noteq> [] \<and> last a = CHR '']'' \<and> CHR '']'' \<notin> set (butlast a) \<and> CHR ''['' \<notin> set (tl a @ p) \<and> CHR '']'' \<notin> set p
        then Some (tl (butlast a), p) else None
      else if CHR '':'' \<in> set a \<or> CHR ''['' \<in> set (a @ p) \<or> CHR '']'' \<in> set (a @ p) then None else Some (a, p))"
proof -
  have tw: "takeWhile (\<lambda>c. c \<noteq> CHR '':'') (rev (a @ CHR '':'' # p)) = rev p"
    using assms by (subst rev_append) (auto simp: takeWhile_append2 takeWhile_tail)
  show ?thesis
  proof (cases "hd (a @ '':'') = CHR ''[''")
    case False
    then have "hd (a @ CHR '':'' # p) \<noteq> CHR ''[''" by (cases a) auto
    with False tw show ?thesis by (simp add: split_host_port_def Let_def)
  next
    case True
    then obtain b where a: "a = CHR ''['' # b" by (cases a) auto
    show ?thesis
    proof (cases "CHR '']'' \<in> set b")
      case True
      then obtain x y where b: "b = x @ CHR '']'' # y" "CHR '']'' \<notin> set x" by (metis split_list_first)
      then have "takeWhile (\<lambda>c. c \<noteq> CHR '']'') (a @ CHR '':'' # p) = CHR ''['' # x" by (auto simp: a takeWhile_tail takeWhile_eq_all_conv)
      with tw show ?thesis by (auto simp: split_host_port_def Let_def a b butlast_append)
    next
      case False
      then have na: "CHR '']'' \<notin> set a" by (simp add: a)
      then have "takeWhile (\<lambda>c. c \<noteq> CHR '']'') (a @ CHR '':'' # p) = a @ CHR '':'' # takeWhile (\<lambda>c. c \<noteq> CHR '']'') p"
        by (subst takeWhile_append2) auto
      moreover have "last a \<noteq> CHR '']''" using na last_in_set [of a] a by auto
      ultimately show ?thesis using tw True by (simp add: split_host_port_def Let_def a)
    qed
  qed
qed

lemma split_host_port_shape:
  assumes "split_host_port s = Some (h, p)"
  shows "s = h @ '':'' @ p \<or> s = ''['' @ h @ '']:'' @ p"
proof -
  have "CHR '':'' \<in> set s" using assms by (simp add: split_host_port_def split: if_splits)
  then obtain a q where s: "s = a @ CHR '':'' # q" "CHR '':'' \<notin> set q" by (metis split_list_last)
  note split = assms [unfolded s(1) split_host_port_colon [OF s(2)]]
  show ?thesis
  proof (cases "hd (a @ '':'') = CHR ''[''")
    case True
    then obtain b where a: "a = CHR ''['' # b" by (cases a) auto
    with True split have b: "b \<noteq> []" "last b = CHR '']''" "h = butlast b" and "p = q" by (auto split: if_splits)
    from b have "b = h @ '']''" by (metis append_butlast_last_id)
    with a \<open>p = q\<close> show ?thesis by (simp add: s(1))
  next
    case False
    with split show ?thesis by (auto simp: s(1) split: if_splits)
  qed
qed

section \<open>Interfaces\<close>

definition isVirtualInterface :: "string \<Rightarrow> bool" where
  "isVirtualInterface name =
     list_ex (has_prefix (to_lower name))
       [''zt'', ''feth'', ''tailscale'', ''utun'', ''tun'', ''tap'', ''ovl'', ''wg'', ''docker'', ''br-'', ''veth'', ''virbr'',
        ''cni'', ''flannel'', ''cali'', ''ppp'', ''ipsec'', ''gpd0'', ''tap-'']"

fun v4_net :: "ip_addr \<times> nat \<Rightarrow> (byte list \<times> nat) list" where
  "v4_net (V4 b, ones) = (if is_loopback (V4 b) then [] else [(b, ones)])"
| "v4_net (V6 b, ones) = []"

definition scanLocalIPv4Nets :: "iface list \<Rightarrow> ip_nets" where
  "scanLocalIPv4Nets ifs = concat (map (\<lambda>i.
     if \<not> if_up i \<or> isVirtualInterface (if_name i) then [] else concat (map v4_net (if_addrs i))) ifs)"

definition localNetsCacheTTL :: duration where "localNetsCacheTTL = 2 * second"

text \<open>The cache: the last scan, if it found something, and its time.\<close>

definition localIPv4Nets :: "iface list \<Rightarrow> ip_nets \<times> go_time \<Rightarrow> go_time \<Rightarrow> ip_nets \<times> (ip_nets \<times> go_time)" where
  "localIPv4Nets ifs c now =
     (if time_sub now (snd c) < localNetsCacheTTL \<and> fst c \<noteq> [] then (fst c, c)
      else let v = scanLocalIPv4Nets ifs in (v, (v, now)))"

definition hasEstablishedLANPeer :: "ip_nets \<Rightarrow> 'c mesh \<Rightarrow> bool" where
  "hasEstablishedLANPeer nets m =
     list_ex (\<lambda>a. case a of None \<Rightarrow> False | Some a \<Rightarrow>
       (case to4 (ua_IP a) of None \<Rightarrow> False | Some ip \<Rightarrow> list_ex (\<lambda>n. net_contains n ip) nets)) (EstablishedAddrs m)"

definition localInterfaceIPs :: "iface list \<Rightarrow> string list" where
  "localInterfaceIPs ifs = concat (map (\<lambda>i. concat (map (\<lambda>(ip, ones).
     if is_loopback ip then []
     else case ip of
         V4 b \<Rightarrow> [show_ipv4 b]
       | V6 b \<Rightarrow> if is_global_unicast ip \<and> \<not> is_link_local ip then [v6_string b] else []) (if_addrs i))) ifs)"

section \<open>LAN sweep\<close>

lemma u32_loop_less: "i < n - 1 \<Longrightarrow> unat (n - 1) - unat (i + 1) < unat (n - 1) - unat i" for i n :: u32
proof -
  assume "i < n - 1"
  then have "unat i < unat (n - 1)" "unat (n - 1) < 2 ^ 32"
    using unsigned_less [of "n - 1"] by (simp_all add: word_less_nat_alt)
  then show ?thesis by (simp add: unat_word_ariths)
qed

text \<open>The loop over the hosts of one subnet; \<open>i\<close> and \<open>n\<close> are \<open>uint32\<close>.\<close>

function sweep_loop :: "string list \<Rightarrow> u32 \<Rightarrow> u32 \<Rightarrow> u32 \<Rightarrow> byte list list" where
  "sweep_loop self base i n =
     (if i < n - 1
      then let ip = put_u32 (base + i) in
           (if show_ipv4 ip \<in> set self then sweep_loop self base (i + 1) n
            else ip # sweep_loop self base (i + 1) n)
      else [])"
  by auto
termination
  by (relation "measure (\<lambda>(self, base, i, n). unat (n - 1) - unat i)") (simp_all add: u32_loop_less)

declare sweep_loop.simps [simp del]

definition sweep_net :: "string list \<Rightarrow> byte list \<times> nat \<Rightarrow> byte list list" where
  "sweep_net self n =
     (let ones = (if snd n < 24 then 24 else snd n);
          base = be_u32 (fst n) AND push_bit (32 - ones) (NOT 0)
      in sweep_loop self base 1 (push_bit (32 - ones) 1))"

definition sweepTargets :: "string list \<Rightarrow> ip_nets \<Rightarrow> byte list list" where
  "sweepTargets self nets = concat (map (sweep_net self) nets)"

definition subnetBroadcastAddrs :: "iface list \<Rightarrow> byte list list" where
  "subnetBroadcastAddrs ifs = concat (map (\<lambda>i.
     if \<not> if_up i \<or> \<not> if_broadcast i \<or> isVirtualInterface (if_name i) then []
     else map (\<lambda>(b, ones). put_u32 (be_u32 b OR (push_bit (32 - ones) 1 - 1))) (concat (map v4_net (if_addrs i)))) ifs)"

section \<open>IPv6 endpoints\<close>

definition v6_found :: "iface list \<Rightarrow> nat \<Rightarrow> (string \<times> string) list" where
  "v6_found ifs port = concat (map (\<lambda>i.
     if \<not> if_up i \<or> isVirtualInterface (if_name i) then []
     else concat (map (\<lambda>(ip, ones). if isGlobalIPv6 (Some ip) then [(joinHostPort (ip_string ip) (show_nat port), if_name i)] else [])
       (if_addrs i))) ifs)"

text \<open>\<open>ifOf\<close> is filled in the order of the list: the last entry of an endpoint counts.\<close>

definition if_of :: "(string \<times> string) list \<Rightarrow> string \<Rightarrow> string" where
  "if_of found ep = (case map_of (rev found) ep of None \<Rightarrow> [] | Some n \<Rightarrow> n)"

definition rankV6Endpoints :: "string \<times> string \<Rightarrow> string list \<Rightarrow> (string \<Rightarrow> string) \<Rightarrow> string list" where
  "rankV6Endpoints pref eps ifOf =
     (if length eps < 2 then eps
      else let (prefAddr, prefIf) = pref in
        if prefAddr = [] then eps
        else
          let prefEP = (case find (\<lambda>ep. case split_host_port ep of None \<Rightarrow> False | Some (h, p) \<Rightarrow> h = prefAddr) eps of None \<Rightarrow> [] | Some ep \<Rightarrow> ep);
              same = (\<lambda>ep. prefIf \<noteq> [] \<and> ifOf ep = prefIf)
          in filter (\<lambda>ep. ep = prefEP) eps @ filter (\<lambda>ep. ep \<noteq> prefEP \<and> same ep) eps @ filter (\<lambda>ep. ep \<noteq> prefEP \<and> \<not> same ep) eps)"

definition globalIPv6Endpoints :: "bool \<Rightarrow> iface list \<Rightarrow> string \<times> string \<Rightarrow> nat \<Rightarrow> string list" where
  "globalIPv6Endpoints ipv6Enabled ifs pref port =
     (if \<not> ipv6Enabled then []
      else let found = v6_found ifs port in rankV6Endpoints pref (map fst found) (if_of found))"

text \<open>Ranking only reorders the endpoints.\<close>

lemma mset_filter3:
  "mset (filter P xs @ filter (\<lambda>x. \<not> P x \<and> Q x) xs @ filter (\<lambda>x. \<not> P x \<and> \<not> Q x) xs) = mset xs"
  by (induction xs) auto

lemma mset_rankV6Endpoints: "mset (rankV6Endpoints pref eps ifOf) = mset eps"
proof -
  define P where "P = (\<lambda>ep. ep = (case find (\<lambda>ep. case split_host_port ep of None \<Rightarrow> False | Some (h, p) \<Rightarrow> h = fst pref) eps of
    None \<Rightarrow> [] | Some ep \<Rightarrow> ep))"
  define Q where "Q = (\<lambda>ep. snd pref \<noteq> [] \<and> ifOf ep = snd pref)"
  have "rankV6Endpoints pref eps ifOf =
      (if length eps < 2 \<or> fst pref = [] then eps
       else filter P eps @ filter (\<lambda>x. \<not> P x \<and> Q x) eps @ filter (\<lambda>x. \<not> P x \<and> \<not> Q x) eps)"
    by (simp add: rankV6Endpoints_def P_def Q_def Let_def case_prod_beta)
  then show ?thesis by (simp only: mset_filter3 split: if_split) simp
qed

section \<open>What the sweep reaches\<close>

lemma sweep_loop_list:
  "unat i \<le> unat (n - 1) \<Longrightarrow>
     sweep_loop self base i n =
       filter (\<lambda>ip. show_ipv4 ip \<notin> set self) (map (\<lambda>k. put_u32 (base + of_nat k)) [unat i..<unat (n - 1)])"
proof (induction self base i n rule: sweep_loop.induct)
  case (1 self base i n)
  show ?case
  proof (cases "i < n - 1")
    case True
    have lt: "unat i < unat (n - 1)" "unat (n - 1) < 2 ^ 32"
      using True unsigned_less [of "n - 1"] by (simp_all add: word_less_nat_alt)
    then have suc: "unat (i + 1) = Suc (unat i)" by (simp add: unat_word_ariths)
    have "sweep_loop self base (i + 1) n =
        filter (\<lambda>ip. show_ipv4 ip \<notin> set self) (map (\<lambda>k. put_u32 (base + of_nat k)) [Suc (unat i)..<unat (n - 1)])"
      using "1.IH" [OF True refl] lt suc by (cases "show_ipv4 (put_u32 (base + i)) \<in> set self") simp_all
    with True lt show ?thesis by (subst sweep_loop.simps) (simp add: Let_def upt_conv_Cons)
  next
    case False
    then have "unat (n - 1) \<le> unat i" by (simp add: word_less_nat_alt)
    with False show ?thesis by (subst sweep_loop.simps) simp
  qed
qed

lemma unat_masked: "k \<le> 32 \<Longrightarrow> unat (x AND push_bit k (NOT 0) :: u32) = unat x div 2 ^ k * 2 ^ k"
proof -
  have "x AND push_bit k (NOT 0) = push_bit k (drop_bit k x)" by (auto simp: bit_eq_iff bit_simps)
  then show ?thesis by (simp only: unat_cleared)
qed

lemma window_lt: "x < 2 ^ 32 \<Longrightarrow> k \<le> 32 \<Longrightarrow> j < 2 ^ k \<Longrightarrow> x div 2 ^ k * 2 ^ k + j < 2 ^ 32" for x :: nat
proof -
  assume x: "x < 2 ^ 32" and k: "k \<le> 32" and j: "j < 2 ^ k"
  have "x div 2 ^ k < 2 ^ (32 - k)" using x k by (simp add: div_less_iff_less_mult flip: power_add)
  then have "(x div 2 ^ k + 1) * 2 ^ k \<le> 2 ^ (32 - k) * 2 ^ k" by (intro mult_right_mono) auto
  also have "\<dots> = 2 ^ 32" using k by (simp flip: power_add)
  finally show ?thesis using j by simp
qed

text \<open>The network a sweep covers: a wide one is cut to the \<open>/24\<close> of the own address.\<close>

definition swept_bits :: "nat \<Rightarrow> nat" where
  "swept_bits ones = 32 - max 24 ones"

lemma sweep_net_hosts:
  assumes l: "length b = 4" and ones: "ones \<le> 32"
  shows "sweep_net self (b, ones) = filter (\<lambda>ip. show_ipv4 ip \<notin> set self)
    (map (\<lambda>k. be_put 4 (be_nat b div 2 ^ swept_bits ones * 2 ^ swept_bits ones + k)) [1..<2 ^ swept_bits ones - 1])"
proof -
  let ?k = "swept_bits ones"
  have k: "?k \<le> 8" by (simp add: swept_bits_def)
  then have pow: "(2 :: nat) ^ ?k \<le> 256" using power_increasing [of ?k 8 "2 :: nat"] by simp
  then have n: "unat (push_bit ?k 1 :: u32) = 2 ^ ?k"
    unfolding unsigned_push_bit_eq by (simp add: push_bit_eq_mult take_bit_eq_mod)
  then have n1: "unat (push_bit ?k 1 - 1 :: u32) = 2 ^ ?k - 1"
    by (subst unat_sub) (simp_all add: word_le_nat_alt)
  define base where "base = be_u32 b AND push_bit ?k (NOT 0 :: u32)"
  have small: "be_nat b < 2 ^ 32" using be_nat_bound [of b] l by simp
  then have "unat (be_u32 b) = be_nat b" using l by (simp add: be_u32_def unat_of_nat)
  with k have base: "unat base = be_nat b div 2 ^ ?k * 2 ^ ?k" unfolding base_def by (subst unat_masked) simp_all
  have put: "put_u32 (base + of_nat j) = be_put 4 (unat base + j)" if "j < 2 ^ ?k" for j
  proof -
    have "unat base + j < 2 ^ 32" unfolding base using small that k by (intro window_lt) simp_all
    then show ?thesis by (simp add: put_u32_def unat_word_ariths unat_of_nat)
  qed
  have loop: "sweep_net self (b, ones) = sweep_loop self base 1 (push_bit ?k 1)"
    by (auto simp: sweep_net_def swept_bits_def base_def Let_def max_def not_less intro: arg_cong)
  have le: "unat (1 :: u32) \<le> unat (push_bit ?k 1 - 1 :: u32)" if "?k \<noteq> 0"
    using that n1 power_increasing [of 1 ?k "2 :: nat"] by simp
  have hosts: "sweep_loop self base 1 (push_bit ?k 1) = filter (\<lambda>ip. show_ipv4 ip \<notin> set self)
      (map (\<lambda>k. put_u32 (base + of_nat k)) [1..<2 ^ ?k - 1])"
  proof (cases "?k = 0")
    case True
    then show ?thesis by (subst sweep_loop.simps) simp
  next
    case False
    show ?thesis unfolding sweep_loop_list [OF le [OF False]] n1 by simp
  qed
  have eq: "map (\<lambda>k. put_u32 (base + of_nat k)) [1..<2 ^ ?k - 1] = map (\<lambda>k. be_put 4 (unat base + k)) [1..<2 ^ ?k - 1]"
    using put by (intro map_cong) auto
  show ?thesis unfolding loop hosts eq base ..
qed

lemma be_put_window:
  assumes "length ip = 4" and "k \<le> 32" and "x < 2 ^ 32"
  shows "ip \<in> (\<lambda>j. be_put 4 (x div 2 ^ k * 2 ^ k + j)) ` {1..<2 ^ k - 1} \<longleftrightarrow>
    be_nat ip div 2 ^ k = x div 2 ^ k \<and> 0 < be_nat ip mod 2 ^ k \<and> be_nat ip mod 2 ^ k < 2 ^ k - 1"
proof
  assume "ip \<in> (\<lambda>j. be_put 4 (x div 2 ^ k * 2 ^ k + j)) ` {1..<2 ^ k - 1}"
  then obtain j where j: "1 \<le> j" "j < 2 ^ k - 1" "ip = be_put 4 (x div 2 ^ k * 2 ^ k + j)" by auto
  have "x div 2 ^ k * 2 ^ k + j < 256 ^ 4" using window_lt [OF assms(3,2), of j] j by simp
  then have "be_nat ip = x div 2 ^ k * 2 ^ k + j" using j by (simp add: be_nat_put)
  with j show "be_nat ip div 2 ^ k = x div 2 ^ k \<and> 0 < be_nat ip mod 2 ^ k \<and> be_nat ip mod 2 ^ k < 2 ^ k - 1" by simp
next
  assume h: "be_nat ip div 2 ^ k = x div 2 ^ k \<and> 0 < be_nat ip mod 2 ^ k \<and> be_nat ip mod 2 ^ k < 2 ^ k - 1"
  then have "be_nat ip = x div 2 ^ k * 2 ^ k + be_nat ip mod 2 ^ k" by (metis div_mult_mod_eq)
  then have "ip = be_put 4 (x div 2 ^ k * 2 ^ k + be_nat ip mod 2 ^ k)" using be_put_be_nat [OF assms(1)] by simp
  with h show "ip \<in> (\<lambda>j. be_put 4 (x div 2 ^ k * 2 ^ k + j)) ` {1..<2 ^ k - 1}" by force
qed

text \<open>the LAN sweep is exactly the neighbourhood. For every subnet of the host, whatever its mask,
  \<open>sweepTargets\<close> contains each host address of the \<open>/24\<close> (or narrower) network around the own address once,
  except the network address, the broadcast address and the host's own addresses, and nothing else; a
  sweep therefore sends to at most 254 hosts per subnet. The loop counter is a \<open>uint32\<close>.\<close>

theorem sweep_exact:
  assumes "length b = 4" and "ones \<le> 32"
  shows "distinct (sweep_net self (b, ones)) \<and> length (sweep_net self (b, ones)) \<le> 254 \<and>
    (ip \<in> set (sweep_net self (b, ones)) \<longleftrightarrow>
       length ip = 4 \<and> show_ipv4 ip \<notin> set self \<and> be_nat ip div 2 ^ swept_bits ones = be_nat b div 2 ^ swept_bits ones \<and>
       0 < be_nat ip mod 2 ^ swept_bits ones \<and> be_nat ip mod 2 ^ swept_bits ones < 2 ^ swept_bits ones - 1)"
proof (intro conjI)
  let ?k = "swept_bits ones"
  have k: "?k \<le> 8" by (simp add: swept_bits_def)
  then have pow: "(2 :: nat) ^ ?k \<le> 256" using power_increasing [of ?k 8 "2 :: nat"] by simp
  have small: "be_nat b < 2 ^ 32" using be_nat_bound [of b] assms(1) by simp
  note hosts = sweep_net_hosts [OF assms, of self]
  have "inj_on (\<lambda>j. be_put 4 (be_nat b div 2 ^ ?k * 2 ^ ?k + j)) {1..<2 ^ ?k - 1}"
  proof (rule inj_onI)
    fix i j assume ij: "i \<in> {1..<2 ^ ?k - 1}" "j \<in> {1..<2 ^ ?k - 1}"
      and eq: "be_put 4 (be_nat b div 2 ^ ?k * 2 ^ ?k + i) = be_put 4 (be_nat b div 2 ^ ?k * 2 ^ ?k + j)"
    have ge: "be_nat b div 2 ^ ?k * 2 ^ ?k + m < 256 ^ 4" if "m < 2 ^ ?k" for m
      using window_lt [OF small _ that] k by simp
    from ij have "i < 2 ^ ?k" "j < 2 ^ ?k" by auto
    with ge [of i] ge [of j] arg_cong [OF eq, of be_nat] show "i = j" by (simp add: be_nat_put)
  qed
  then show "distinct (sweep_net self (b, ones))" unfolding hosts by (intro distinct_filter) (simp add: distinct_map)
  have "length (sweep_net self (b, ones)) \<le> 2 ^ ?k - 1 - 1"
    unfolding hosts by (rule le_trans [OF length_filter_le]) simp
  with pow show "length (sweep_net self (b, ones)) \<le> 254" by linarith
  show "ip \<in> set (sweep_net self (b, ones)) \<longleftrightarrow>
       length ip = 4 \<and> show_ipv4 ip \<notin> set self \<and> be_nat ip div 2 ^ ?k = be_nat b div 2 ^ ?k \<and>
       0 < be_nat ip mod 2 ^ ?k \<and> be_nat ip mod 2 ^ ?k < 2 ^ ?k - 1"
  proof (cases "length ip = 4")
    case True
    have "?k \<le> 32" using k by simp
    from be_put_window [OF True this small] True show ?thesis unfolding hosts by auto
  next
    case False
    then have "ip \<noteq> be_put 4 x" for x by auto
    with False show ?thesis unfolding hosts by auto
  qed
qed

theorem sweep_exact_witness:
  "[192, 168, 1, 9] \<in> set (sweep_net [''192.168.1.77''] ([192, 168, 1, 77], 16)) \<and>
   length (sweep_net [''192.168.1.77''] ([192, 168, 1, 77], 16)) \<le> 254"
proof -
  have "show_ipv4 [192, 168, 1, 9] \<noteq> ''192.168.1.77''" by code_simp
  with sweep_exact [of "[192, 168, 1, 77]" 16 "[''192.168.1.77'']" "[192, 168, 1, 9]"] show ?thesis
    by (simp add: swept_bits_def be_nat_def)
qed

end
