(* ===== verification/Endpoints.thy ===== *)
theory Endpoints
  imports Relay_Policy Host_Addrs
begin

text \<open>
  Which endpoints a node dials, and how often (\<open>client/main.go\<close>, \<open>client/selfendpoints.go\<close>):
  validity of a candidate, the endpoints the node itself announced, the peers it remembers, the rate
  limits of connect signalling and the ladder of last-resort dials inside one site.

  \<open>ip6\<close> is \<open>net.ParseIP\<close> on text that is no dotted quad; \<open>dns\<close> resolves a host and port that are not
  an address and a number. The maps of the code are association lists with one entry per key.
\<close>

section \<open>Addresses as text\<close>

definition parse_ip :: "(string \<Rightarrow> ip_addr option) \<Rightarrow> string \<Rightarrow> ip_addr option" where
  "parse_ip ip6 s = (case parse_ipv4 s of Some b \<Rightarrow> Some (V4 b) | None \<Rightarrow> ip6 s)"

definition resolve_udp ::
  "(string \<Rightarrow> ip_addr option) \<Rightarrow> (string \<Rightarrow> string \<Rightarrow> udp_addr option) \<Rightarrow> string \<Rightarrow> udp_addr option" where
  "resolve_udp ip6 dns s =
     (case split_host_port s of
        None \<Rightarrow> None
      | Some (h, p) \<Rightarrow>
          (case (parse_ip ip6 h, parse_int64 p) of
             (Some ip, Some n) \<Rightarrow> if 0 \<le> n \<and> n \<le> 65535 then Some \<lparr>ua_IP = Some ip, ua_Port = nat n, ua_Zone = []\<rparr> else None
           | _ \<Rightarrow> dns h p))"

fun v4_in :: "byte list \<times> nat \<Rightarrow> ip_addr \<Rightarrow> bool" where
  "v4_in n (V4 b) = net_contains n b"
| "v4_in n (V6 b) = False"

definition isOverlayTransportAddr :: "(byte list \<times> nat) option \<Rightarrow> ip_addr option \<Rightarrow> bool" where
  "isOverlayTransportAddr overlayNet ip =
     (case (overlayNet, ip) of (Some n, Some i) \<Rightarrow> v4_in n i | _ \<Rightarrow> False)"

definition isPunchableAddr :: "(string \<Rightarrow> ip_addr option) \<Rightarrow> (byte list \<times> nat) option \<Rightarrow> string \<Rightarrow> bool" where
  "isPunchableAddr ip6 overlayNet addr =
     (case split_host_port addr of
        None \<Rightarrow> False
      | Some (h, portStr) \<Rightarrow>
          (case parse_ip ip6 h of
             None \<Rightarrow> False
           | Some ip \<Rightarrow>
               if is_unspecified ip \<or> is_loopback ip \<or> is_multicast ip \<or> is_link_local ip then False
               else if isOverlayTransportAddr overlayNet (Some ip) then False
               else (case parse_int64 portStr of None \<Rightarrow> False | Some p \<Rightarrow> 0 < p \<and> p \<le> 65535)))"

fun is_link_local_multicast :: "ip_addr \<Rightarrow> bool" where
  "is_link_local_multicast (V4 b) \<longleftrightarrow> b ! 0 = 224 \<and> b ! 1 = 0 \<and> b ! 2 = 0"
| "is_link_local_multicast (V6 b) \<longleftrightarrow> b ! 0 = 0xFF \<and> b ! 1 AND 0x0F = 0x02"

definition isValidPeer :: "(string \<Rightarrow> ip_addr option) \<Rightarrow> (byte list \<times> nat) option \<Rightarrow> string \<Rightarrow> bool" where
  "isValidPeer ip6 overlayNet addr =
     (case split_host_port addr of
        None \<Rightarrow> False
      | Some (h, portStr) \<Rightarrow>
          (case parse_ip ip6 h of
             None \<Rightarrow> False
           | Some ip \<Rightarrow>
               if is_unspecified ip \<or> is_loopback ip \<or> is_private ip \<or> is_link_local ip \<or> is_link_local_multicast ip then False
               else if isOverlayTransportAddr overlayNet (Some ip) then False
               else (case parse_int64 portStr of None \<Rightarrow> False | Some p \<Rightarrow> \<not> (p \<le> 0 \<or> 65535 < p))))"

definition punchCandidateDialable ::
  "(string \<Rightarrow> ip_addr option) \<Rightarrow> (byte list \<times> nat) option \<Rightarrow> ip_nets \<Rightarrow> string \<Rightarrow> udp_addr \<Rightarrow> bool \<Rightarrow> bool" where
  "punchCandidateDialable ip6 overlayNet nets c addr sameSite \<longleftrightarrow>
     isValidPeer ip6 overlayNet c \<or> isAttachedLANAddr nets (Some addr) \<or> sameSite"

fun first_public :: "(string \<Rightarrow> ip_addr option) \<Rightarrow> (byte list \<times> nat) option \<Rightarrow> string list \<Rightarrow> string" where
  "first_public ip6 overlayNet [] = []"
| "first_public ip6 overlayNet (c # cs) =
     (case split_host_port (trim_space c) of
        None \<Rightarrow> first_public ip6 overlayNet cs
      | Some (h, p) \<Rightarrow>
          (case parse_ip ip6 h of
             None \<Rightarrow> first_public ip6 overlayNet cs
           | Some ip \<Rightarrow>
               if is_private ip \<or> is_loopback ip \<or> is_link_local ip \<or> isOverlayTransportAddr overlayNet (Some ip)
               then first_public ip6 overlayNet cs else h))"

definition firstPublicExtraCandidateHost :: "(string \<Rightarrow> ip_addr option) \<Rightarrow> (byte list \<times> nat) option \<Rightarrow> string list \<Rightarrow> string" where
  "firstPublicExtraCandidateHost ip6 overlayNet extraCandidates = first_public ip6 overlayNet extraCandidates"

section \<open>Our own endpoints\<close>

definition selfEndpointTTL :: duration where "selfEndpointTTL = 45 * minute"

type_synonym time_map = "(string \<times> go_time) list"

text \<open>The table, and the file of it if the build has a state directory: endpoints with their time in
  seconds. The file is written without errors.\<close>

record self_eps =
  se_m :: time_map
  se_file :: "(string \<times> int) list option"
  se_path :: bool

definition loadSelfEndpoints :: "self_eps \<Rightarrow> go_time \<Rightarrow> self_eps" where
  "loadSelfEndpoints st now =
     (case se_file st of
        None \<Rightarrow> st
      | Some stored \<Rightarrow>
          st\<lparr>se_m := foldl (\<lambda>m (ep, unix). if time_sub now (time_Unix unix) < selfEndpointTTL then gput ep (time_Unix unix) m else m)
            (se_m st) stored\<rparr>)"

definition saveSelfEndpointsLocked :: "self_eps \<Rightarrow> self_eps" where
  "saveSelfEndpointsLocked st =
     (if se_path st then st\<lparr>se_file := Some (map (\<lambda>(ep, t). (ep, unix_of t)) (se_m st))\<rparr> else st)"

definition rememberSelfEndpoint :: "self_eps \<Rightarrow> string \<Rightarrow> go_time \<Rightarrow> self_eps" where
  "rememberSelfEndpoint st ep now =
     (if ep = [] then st
      else case split_host_port ep of
          None \<Rightarrow> st
        | Some (host, port) \<Rightarrow>
            if host = [] \<or> port = [] \<or> port = ''0'' then st
            else
              let m = gput ep now (se_m st);
                  m1 = gdrop (\<lambda>k t. selfEndpointTTL < time_sub now t) m;
                  changed = (gget (se_m st) ep = None \<or> m1 \<noteq> m);
                  st1 = st\<lparr>se_m := m1\<rparr>
              in if changed then saveSelfEndpointsLocked st1 else st1)"

definition rememberSelfEndpointsAt :: "self_eps \<Rightarrow> string list \<Rightarrow> string \<Rightarrow> int \<Rightarrow> go_time \<Rightarrow> self_eps" where
  "rememberSelfEndpointsAt m localIPs publicEndpoint port now =
     (if port \<le> 0 then m
      else
        let p = show_int port;
            m1 = rememberSelfEndpoint m publicEndpoint now;
            m2 = (if publicEndpoint = [] then m1
                  else case split_host_port publicEndpoint of
                      None \<Rightarrow> m1
                    | Some (h, q) \<Rightarrow> rememberSelfEndpoint m1 (joinHostPort h p) now)
        in foldl (\<lambda>m ip. rememberSelfEndpoint m (joinHostPort ip p) now) m2 localIPs)"

definition wasSelfEndpoint :: "self_eps \<Rightarrow> string \<Rightarrow> go_time \<Rightarrow> bool \<times> self_eps" where
  "wasSelfEndpoint st addr now =
     (if addr = [] then (False, st)
      else case gget (se_m st) addr of
          None \<Rightarrow> (False, st)
        | Some t \<Rightarrow> if selfEndpointTTL < time_sub now t then (False, st\<lparr>se_m := gdel addr (se_m st)\<rparr>) else (True, st))"

definition isSelf :: "self_eps \<Rightarrow> string \<Rightarrow> string \<Rightarrow> int \<Rightarrow> go_time \<Rightarrow> bool \<times> self_eps" where
  "isSelf m addr stunEndpoint listenPort now =
     (if addr = stunEndpoint then (True, m)
      else let (was, m1) = wasSelfEndpoint m addr now in
        if was then (True, m1)
        else if stunEndpoint = [] then (False, m1)
        else case split_host_port stunEndpoint of
            None \<Rightarrow> (False, m1)
          | Some (host, p) \<Rightarrow> (addr = joinHostPort host (show_int listenPort), m1))"

section \<open>Known peers\<close>

definition knownPeerExpiry :: duration where "knownPeerExpiry = 30 * minute"

record dial_book =
  db_known :: time_map
  db_selfEPs :: self_eps

definition addKnownPeer :: "(string \<Rightarrow> ip_addr option) \<Rightarrow> (byte list \<times> nat) option \<Rightarrow> dial_book \<Rightarrow> string \<Rightarrow> go_time \<Rightarrow> dial_book" where
  "addKnownPeer ip6 overlayNet b p now =
     (if (case split_host_port (trim_space p) of
            None \<Rightarrow> False | Some (h, q) \<Rightarrow> isOverlayTransportAddr overlayNet (parse_ip ip6 h))
      then b
      else let (was, self1) = wasSelfEndpoint (db_selfEPs b) (trim_space p) now; b1 = b\<lparr>db_selfEPs := self1\<rparr> in
        if was then b1 else b1\<lparr>db_known := gput p now (db_known b1)\<rparr>)"

definition knownPeerList :: "dial_book \<Rightarrow> go_time \<Rightarrow> string list \<times> dial_book" where
  "knownPeerList b now =
     (let kept = gdrop (\<lambda>p seen. knownPeerExpiry < time_sub now seen) (db_known b)
      in (map fst kept, b\<lparr>db_known := kept\<rparr>))"

section \<open>Rate limits\<close>

definition connectAttemptInterval :: duration where "connectAttemptInterval = 15 * second"
definition unprovenProbeInterval :: duration where "unprovenProbeInterval = second"
definition connectDedupWindow :: duration where "connectDedupWindow = 3 * second"

definition shouldTryConnect :: "time_map \<Rightarrow> string \<Rightarrow> go_time \<Rightarrow> bool \<times> time_map" where
  "shouldTryConnect m dstIP now =
     (if (case gget m dstIP of None \<Rightarrow> False | Some t \<Rightarrow> time_sub now t < connectAttemptInterval) then (False, m)
      else
        let m1 = (if 4096 < length m then gdrop (\<lambda>k t. t < now - 4 * connectAttemptInterval) m else m)
        in (True, gput dstIP now m1))"

definition shouldProbeUnprovenRoute :: "time_map \<Rightarrow> string \<Rightarrow> go_time \<Rightarrow> bool \<times> time_map" where
  "shouldProbeUnprovenRoute m dstIP now =
     (if (case gget m dstIP of None \<Rightarrow> False | Some t \<Rightarrow> time_sub now t < unprovenProbeInterval) then (False, m)
      else
        let m1 = (if 1024 < length m then gdrop (\<lambda>k t. t < now - 5 * minute) m else m)
        in (True, gput dstIP now m1))"

text \<open>Whether the line is written.\<close>

definition logUnprovenRoute :: "time_map \<Rightarrow> string \<Rightarrow> go_time \<Rightarrow> bool \<times> time_map" where
  "logUnprovenRoute m dstIP now =
     (if (case gget m dstIP of None \<Rightarrow> False | Some t \<Rightarrow> time_sub now t < 30 * second) then (False, m)
      else
        let m1 = gput dstIP now m
        in (True, if 1024 < length m1 then gdrop (\<lambda>k t. t < now - 5 * minute) m1 else m1))"

definition connect_key :: "char \<Rightarrow> string \<Rightarrow> string \<Rightarrow> string" where
  "connect_key kind srcIP cands = [kind] @ ''|'' @ srcIP @ ''|'' @ cands"

definition shouldHandleConnect :: "time_map \<Rightarrow> string \<Rightarrow> go_time \<Rightarrow> bool \<times> time_map" where
  "shouldHandleConnect m key now =
     (if (case gget m key of None \<Rightarrow> False | Some t \<Rightarrow> time_sub now t < connectDedupWindow) then (False, m)
      else
        let m1 = (if 512 < length m then gdrop (\<lambda>k t. connectDedupWindow < time_sub now t) m else m)
        in (True, gput key now m1))"

text \<open>What these maps have in common: a request is refused exactly while the last grant of its key is
  younger than \<open>gap\<close>, a grant is noted, and entries are swept only once they no longer refuse anything.\<close>

locale time_limiter =
  fixes allow :: "time_map \<Rightarrow> string \<Rightarrow> go_time \<Rightarrow> bool \<times> time_map" and gap :: duration
  assumes gap_range: "0 < gap" "gap < max_duration"
    and refused: "gget m k = Some t \<Longrightarrow> time_sub now t < gap \<Longrightarrow> allow m k now = (False, m)"
    and granted: "(\<And>t. gget m k = Some t \<Longrightarrow> \<not> time_sub now t < gap) \<Longrightarrow> gwf m \<Longrightarrow>
      fst (allow m k now) \<and> gwf (snd (allow m k now)) \<and> gget (snd (allow m k now)) k = Some now"
    and kept: "gwf m \<Longrightarrow> j \<noteq> k \<Longrightarrow> gget m j = Some t \<Longrightarrow> time_sub now t < gap \<Longrightarrow> gget (snd (allow m k now)) j = Some t"
begin

definition noted :: "string \<Rightarrow> go_time \<Rightarrow> go_time \<Rightarrow> time_map \<Rightarrow> bool" where
  "noted k u t m \<longleftrightarrow> u + gap \<le> t \<or> (\<exists>v. gget m k = Some v \<and> u \<le> v)"

lemma young: "time_sub now t < gap \<longleftrightarrow> now < t + gap"
  using gap_range by (subst time_sub_less_iff) (auto simp: max_duration_def min_duration_def)

lemma allow_wf: "gwf m \<Longrightarrow> gwf (snd (allow m k now))"
  using granted [of m k now] refused [of m k _ now] by (cases "\<exists>t. gget m k = Some t \<and> time_sub now t < gap") auto

lemma noted_step:
  assumes "gwf m" "noted k u t m" "t \<le> now"
  shows "noted k u now (snd (allow m j now))"
proof (cases "u + gap \<le> now")
  case False
  with assms obtain v where v: "gget m k = Some v" "u \<le> v" by (auto simp: noted_def)
  with False have "time_sub now v < gap" by (simp add: young)
  with v assms(1) kept [of m k j v now] refused [of m j v now] show ?thesis
    by (cases "j = k") (auto simp: noted_def)
qed (simp add: noted_def)

lemma noted_gap:
  assumes "noted k u t m" "t \<le> now" "fst (allow m k now)"
  shows "u + gap \<le> now"
  using assms refused [of m k _ now] by (force simp: noted_def young)

end

sublocale time_limiter \<subseteq> spaced_grants "\<lambda>(k, now) m. allow m k now" snd "\<lambda>e. Some (fst e)" gwf noted gap
proof
  fix m :: time_map and e :: "string \<times> go_time" and k u t
  assume wf: "gwf m"
  obtain j now where e: "e = (j, now)" by fastforce
  show "gwf (snd ((case e of (k, now) \<Rightarrow> \<lambda>m. allow m k now) m))" using allow_wf [OF wf] e by simp
  show "noted k (snd e) (snd e) (snd ((case e of (k, now) \<Rightarrow> \<lambda>m. allow m k now) m))"
    if "Some (fst e) = Some k" "fst ((case e of (k, now) \<Rightarrow> \<lambda>m. allow m k now) m)"
  proof -
    from that e refused [of m k _ now] have "\<not> time_sub now t < gap" if "gget m k = Some t" for t
      using that by (metis fst_conv old.prod.case option.inject)
    with granted [of m k now] wf that(1) e show ?thesis by (auto simp: noted_def)
  qed
  show "noted k u (snd e) (snd ((case e of (k, now) \<Rightarrow> \<lambda>m. allow m k now) m))" if "noted k u t m" "t \<le> snd e"
    using noted_step [OF wf that] e by simp
  show "u + gap \<le> snd e"
    if "noted k u t m" "t \<le> snd e" "Some (fst e) = Some k" "fst ((case e of (k, now) \<Rightarrow> \<lambda>m. allow m k now) m)"
    using noted_gap [OF that(1,2)] that(3,4) e by simp
qed

lemmas limiter_defs = shouldTryConnect_def shouldProbeUnprovenRoute_def shouldHandleConnect_def logUnprovenRoute_def
  connectAttemptInterval_def unprovenProbeInterval_def connectDedupWindow_def

interpretation try_connect: time_limiter shouldTryConnect connectAttemptInterval
  by unfold_locales (auto simp: limiter_defs duration_defs gomap_simps time_sub_def Let_def intro: wf_intros split: if_splits option.splits)

interpretation unproven_probe: time_limiter shouldProbeUnprovenRoute unprovenProbeInterval
  by unfold_locales (auto simp: limiter_defs duration_defs gomap_simps time_sub_def Let_def intro: wf_intros split: if_splits option.splits)

interpretation unproven_log: time_limiter logUnprovenRoute "30 * second"
  by unfold_locales (auto simp: limiter_defs duration_defs gomap_simps gwf_gput time_sub_def Let_def intro: wf_intros split: if_splits option.splits)

interpretation handle_connect: time_limiter shouldHandleConnect connectDedupWindow
  by unfold_locales (auto simp: limiter_defs duration_defs gomap_simps time_sub_def Let_def intro: wf_intros split: if_splits option.splits)

text \<open>connect signalling is throttled per peer. Over every run in the order of the clock, also one
  with so many peers that the tables are swept, a node starts connect signalling to one peer at most every
  15 seconds, acts on copies of one connect frame at most every 3 seconds, and probes one unproven route at
  most once a second.\<close>

theorem connect_signals_spaced:
  assumes "sorted (map snd es)"
  shows "sorted_wrt (\<lambda>a b. a + connectAttemptInterval \<le> b)
      (grant_times snd (\<lambda>e. Some (fst e)) k (fst (run_steps (\<lambda>(k, now) m. shouldTryConnect m k now) es []))) \<and>
    sorted_wrt (\<lambda>a b. a + connectDedupWindow \<le> b)
      (grant_times snd (\<lambda>e. Some (fst e)) k (fst (run_steps (\<lambda>(k, now) m. shouldHandleConnect m k now) es []))) \<and>
    sorted_wrt (\<lambda>a b. a + unprovenProbeInterval \<le> b)
      (grant_times snd (\<lambda>e. Some (fst e)) k (fst (run_steps (\<lambda>(k, now) m. shouldProbeUnprovenRoute m k now) es [])))"
  using try_connect.grants_spaced [OF _ assms] handle_connect.grants_spaced [OF _ assms] unproven_probe.grants_spaced [OF _ assms]
  by simp

theorem connect_signals_spaced_witness:
  "grant_times snd (\<lambda>e. Some (fst e)) ''10.0.0.2'' (fst (run_steps (\<lambda>(k, now) m. shouldTryConnect m k now)
     [(''10.0.0.2'', hour), (''10.0.0.3'', hour + second), (''10.0.0.2'', hour + 14 * second), (''10.0.0.2'', hour + 15 * second)] [])) =
     [hour, hour + 15 * second] \<and>
   sorted_wrt (\<lambda>a b. a + connectAttemptInterval \<le> b) (grant_times snd (\<lambda>e. Some (fst e)) ''10.0.0.2''
     (fst (run_steps (\<lambda>(k, now) m. shouldTryConnect m k now)
     [(''10.0.0.2'', hour), (''10.0.0.3'', hour + second), (''10.0.0.2'', hour + 14 * second), (''10.0.0.2'', hour + 15 * second)] [])))"
proof
  show "grant_times snd (\<lambda>e. Some (fst e)) ''10.0.0.2'' (fst (run_steps (\<lambda>(k, now) m. shouldTryConnect m k now)
     [(''10.0.0.2'', hour), (''10.0.0.3'', hour + second), (''10.0.0.2'', hour + 14 * second), (''10.0.0.2'', hour + 15 * second)] [])) =
     [hour, hour + 15 * second]" by code_simp
  show "sorted_wrt (\<lambda>a b. a + connectAttemptInterval \<le> b) (grant_times snd (\<lambda>e. Some (fst e)) ''10.0.0.2''
     (fst (run_steps (\<lambda>(k, now) m. shouldTryConnect m k now)
     [(''10.0.0.2'', hour), (''10.0.0.3'', hour + second), (''10.0.0.2'', hour + 14 * second), (''10.0.0.2'', hour + 15 * second)] [])))"
    by (rule connect_signals_spaced [THEN conjunct1]) (simp add: duration_defs)
qed

section \<open>Last-resort dials inside one site\<close>

definition sameSiteHairpinGrace :: duration where "sameSiteHairpinGrace = 25 * second"
definition sameSiteHairpinRetryMin :: duration where "sameSiteHairpinRetryMin = 30 * second"
definition sameSiteHairpinRetryMax :: duration where "sameSiteHairpinRetryMax = 10 * minute"

record hairpin =
  sameSiteFirstSeen :: time_map
  sameSiteLastTry :: time_map
  sameSiteTries :: "(string \<times> nat) list"

text \<open>The shift of the \<open>int64\<close> wraps.\<close>

definition hairpin_wait :: "nat \<Rightarrow> duration" where
  "hairpin_wait tries =
     (let w = wrap64 (sameSiteHairpinRetryMin * 2 ^ tries) in
      if w \<le> 0 \<or> sameSiteHairpinRetryMax < w then sameSiteHairpinRetryMax else w)"

definition hairpin_old :: "hairpin \<Rightarrow> go_time \<Rightarrow> string \<Rightarrow> go_time \<Rightarrow> bool" where
  "hairpin_old h now k f \<longleftrightarrow>
     f < now - 2 * hour \<and> (case gget (sameSiteLastTry h) k of None \<Rightarrow> True | Some lt \<Rightarrow> lt < now - 2 * hour)"

definition hairpin_prune :: "hairpin \<Rightarrow> go_time \<Rightarrow> hairpin" where
  "hairpin_prune h now =
     (if 1024 < length (sameSiteFirstSeen h) then
        let dead = map fst (filter (\<lambda>(k, f). hairpin_old h now k f) (sameSiteFirstSeen h)) in
        \<lparr>sameSiteFirstSeen = gdrop (\<lambda>k v. k \<in> set dead) (sameSiteFirstSeen h),
         sameSiteLastTry = gdrop (\<lambda>k v. k \<in> set dead) (sameSiteLastTry h),
         sameSiteTries = gdrop (\<lambda>k v. k \<in> set dead) (sameSiteTries h)\<rparr>
      else h)"

definition tries_of :: "hairpin \<Rightarrow> string \<Rightarrow> nat" where
  "tries_of h key = (case gget (sameSiteTries h) key of None \<Rightarrow> 0 | Some n \<Rightarrow> n)"

definition allowSameSiteHairpin :: "string \<Rightarrow> go_time \<Rightarrow> hairpin \<Rightarrow> bool \<times> hairpin" where
  "allowSameSiteHairpin key now h0 =
     (let h = hairpin_prune h0 now in
      case gget (sameSiteFirstSeen h) key of
        None \<Rightarrow> (False, h\<lparr>sameSiteFirstSeen := gput key now (sameSiteFirstSeen h)\<rparr>)
      | Some first \<Rightarrow>
          if time_sub now first < sameSiteHairpinGrace then (False, h)
          else
            let wait = hairpin_wait (tries_of h key) in
            if (case gget (sameSiteLastTry h) key of None \<Rightarrow> False | Some lt \<Rightarrow> time_sub now lt < wait) then (False, h)
            else (True, h\<lparr>sameSiteTries := gput key (tries_of h key + 1) (sameSiteTries h),
                          sameSiteLastTry := gput key now (sameSiteLastTry h)\<rparr>))"

lemma wrap64_dvd: "m \<le> 63 \<Longrightarrow> 2 ^ m dvd x \<Longrightarrow> 2 ^ m dvd wrap64 x"
proof -
  assume m: "m \<le> 63" and x: "2 ^ m dvd x"
  have p: "(2 :: int) ^ m dvd 2 ^ 63" "(2 :: int) ^ m dvd 2 ^ 64" using m by (intro le_imp_power_dvd; simp)+
  then have "2 ^ m dvd (x + 2 ^ 63) mod 2 ^ 64" using x by (metis dvd_add dvd_mod)
  with p show ?thesis unfolding wrap64_def by (metis dvd_diff)
qed

lemma wrap64_zero: "2 ^ 64 dvd x \<Longrightarrow> wrap64 x = 0"
  by (auto simp: wrap64_def mod_add_left_eq [symmetric] elim!: dvdE)

lemma hairpin_wait_small: "n < 5 \<Longrightarrow> wrap64 (sameSiteHairpinRetryMin * 2 ^ n) = sameSiteHairpinRetryMin * 2 ^ n"
proof (rule wrap64_id)
  assume "n < 5"
  then have "(2 :: int) ^ n \<le> 2 ^ 5" by (intro power_increasing) auto
  then have "sameSiteHairpinRetryMin * 2 ^ n < 2 ^ 63" by (simp add: sameSiteHairpinRetryMin_def duration_defs)
  moreover have "0 \<le> sameSiteHairpinRetryMin * 2 ^ n" by (simp add: sameSiteHairpinRetryMin_def duration_defs)
  ultimately show "int64_range (sameSiteHairpinRetryMin * 2 ^ n)" by (simp add: int64_range_def)
qed

lemma hairpin_wait_large:
  assumes "5 \<le> n"
  shows "wrap64 (sameSiteHairpinRetryMin * 2 ^ n) \<le> 0 \<or> sameSiteHairpinRetryMax < wrap64 (sameSiteHairpinRetryMin * 2 ^ n)"
proof -
  have x: "sameSiteHairpinRetryMin * 2 ^ n = 29296875 * 2 ^ (n + 10)"
    by (simp add: sameSiteHairpinRetryMin_def duration_defs power_add)
  consider "n \<le> 29" | "29 < n" "n \<le> 53" | "53 < n" by linarith
  then show ?thesis
  proof cases
    case 1
    then have "(2 :: int) ^ (n + 10) \<le> 2 ^ 39" by (intro power_increasing) auto
    moreover have "(2 :: int) ^ 15 \<le> 2 ^ (n + 10)" using assms by (intro power_increasing) auto
    ultimately show ?thesis
      unfolding x using wrap64_overflow [of "29296875 * 2 ^ (n + 10)"] wrap64_id [of "29296875 * 2 ^ (n + 10)"]
      by (cases "29296875 * 2 ^ (n + 10) < (2 ^ 63 :: int)")
        (simp_all add: int64_range_def sameSiteHairpinRetryMax_def duration_defs)
  next
    case 2
    then have "2 ^ (n + 10) dvd wrap64 (29296875 * 2 ^ (n + 10))" by (intro wrap64_dvd) auto
    then have "wrap64 (29296875 * 2 ^ (n + 10)) \<le> 0 \<or> 2 ^ (n + 10) \<le> wrap64 (29296875 * 2 ^ (n + 10))"
      using zdvd_imp_le by fastforce
    moreover have "(2 :: int) ^ 40 \<le> 2 ^ (n + 10)" using 2 by (intro power_increasing) auto
    ultimately show ?thesis unfolding x by (auto simp: sameSiteHairpinRetryMax_def duration_defs)
  next
    case 3
    have "(2 :: int) ^ 64 dvd 2 ^ (n + 10)" using 3 by (intro le_imp_power_dvd) simp
    then show ?thesis unfolding x by (simp add: wrap64_zero)
  qed
qed

lemma hairpin_wait_min: "hairpin_wait tries = min (sameSiteHairpinRetryMin * 2 ^ tries) sameSiteHairpinRetryMax"
proof (cases "tries < 5")
  case True
  then have "0 < sameSiteHairpinRetryMin * 2 ^ tries" by (simp add: sameSiteHairpinRetryMin_def duration_defs)
  with hairpin_wait_small [OF True] show ?thesis by (auto simp: hairpin_wait_def Let_def min_def)
next
  case False
  then have "(2 :: int) ^ 5 \<le> 2 ^ tries" by (intro power_increasing) auto
  then have "sameSiteHairpinRetryMax < sameSiteHairpinRetryMin * 2 ^ tries"
    by (simp add: sameSiteHairpinRetryMin_def sameSiteHairpinRetryMax_def duration_defs)
  with hairpin_wait_large [of tries] False show ?thesis by (simp add: hairpin_wait_def Let_def min_def)
qed

text \<open>An attempt is remembered: its key has a first sighting, at least one try and the time of the last.\<close>

definition hairpin_inv :: "hairpin \<Rightarrow> bool" where
  "hairpin_inv h \<longleftrightarrow> gwf (sameSiteFirstSeen h) \<and> gwf (sameSiteLastTry h) \<and> gwf (sameSiteTries h) \<and>
     (\<forall>k. gget (sameSiteLastTry h) k \<noteq> None \<longrightarrow> 1 \<le> tries_of h k)"

definition hairpin_noted :: "string \<Rightarrow> go_time \<Rightarrow> go_time \<Rightarrow> hairpin \<Rightarrow> bool" where
  "hairpin_noted k u t h \<longleftrightarrow> u + minute \<le> t \<or> (\<exists>v. gget (sameSiteLastTry h) k = Some v \<and> u \<le> v)"

definition hairpin_dead :: "hairpin \<Rightarrow> go_time \<Rightarrow> string set" where
  "hairpin_dead h now = (if 1024 < length (sameSiteFirstSeen h)
     then fst ` {(k, f) \<in> set (sameSiteFirstSeen h). hairpin_old h now k f} else {})"

lemma hairpin_dead_old: "k \<in> hairpin_dead h now \<Longrightarrow> gget (sameSiteLastTry h) k = Some v \<Longrightarrow> v + minute \<le> now"
  by (auto simp: hairpin_dead_def hairpin_old_def duration_defs split: if_splits)

lemma hairpin_prune_get:
  assumes "hairpin_inv h"
  shows "gget (sameSiteLastTry (hairpin_prune h now)) k = (if k \<in> hairpin_dead h now then None else gget (sameSiteLastTry h) k)"
    and "tries_of (hairpin_prune h now) k = (if k \<in> hairpin_dead h now then 0 else tries_of h k)"
    and "gwf (sameSiteFirstSeen (hairpin_prune h now))" "gwf (sameSiteLastTry (hairpin_prune h now))" "gwf (sameSiteTries (hairpin_prune h now))"
  using assms
  by (auto simp: hairpin_inv_def hairpin_prune_def hairpin_dead_def tries_of_def gget_gdrop Let_def gwf_gdrop image_iff
      split: option.splits if_splits)

lemma hairpin_prune_inv: "hairpin_inv h \<Longrightarrow> hairpin_inv (hairpin_prune h now)"
  by (simp add: hairpin_inv_def [of "hairpin_prune h now"] hairpin_prune_get) (simp add: hairpin_inv_def)

lemma hairpin_prune_noted: "hairpin_inv h \<Longrightarrow> hairpin_noted k u t h \<Longrightarrow> t \<le> now \<Longrightarrow> hairpin_noted k u now (hairpin_prune h now)"
  using hairpin_dead_old [of k h now] by (force simp: hairpin_noted_def hairpin_prune_get)

lemma hairpin_step_inv: "hairpin_inv h \<Longrightarrow> hairpin_inv (snd (allowSameSiteHairpin k now h))"
  using hairpin_prune_inv [of h now]
  by (auto simp: allowSameSiteHairpin_def hairpin_inv_def tries_of_def gget_gput gwf_gput Let_def split: option.splits)

lemma hairpin_step_last:
  "gget (sameSiteLastTry (snd (allowSameSiteHairpin k now h))) j =
     (if fst (allowSameSiteHairpin k now h) \<and> j = k then Some now else gget (sameSiteLastTry (hairpin_prune h now)) j)"
  by (auto simp: allowSameSiteHairpin_def gget_gput Let_def split: option.splits)

lemma hairpin_step_gap:
  assumes inv: "hairpin_inv h" and h: "hairpin_noted k u t h" "t \<le> now" and ok: "fst (allowSameSiteHairpin k now h)"
  shows "u + minute \<le> now"
proof (cases "u + minute \<le> now")
  case False
  let ?h = "hairpin_prune h now"
  from False hairpin_prune_noted [OF inv h] obtain v where v: "gget (sameSiteLastTry ?h) k = Some v" "u \<le> v"
    by (auto simp: hairpin_noted_def)
  with hairpin_prune_inv [OF inv, of now] have tr: "1 \<le> tries_of ?h k" by (auto simp: hairpin_inv_def)
  have "(2 :: int) ^ 1 \<le> 2 ^ tries_of ?h k" using tr by (rule power_increasing) simp
  then have "minute \<le> hairpin_wait (tries_of ?h k)"
    by (simp add: hairpin_wait_min sameSiteHairpinRetryMin_def sameSiteHairpinRetryMax_def duration_defs)
  moreover have "\<not> time_sub now v < hairpin_wait (tries_of ?h k)"
    using ok v by (auto simp: allowSameSiteHairpin_def Let_def split: option.splits if_splits)
  ultimately have "minute \<le> time_sub now v" by simp
  with v show ?thesis by (simp add: time_sub_def duration_defs split: if_splits)
qed

interpretation hairpin_gap: spaced_grants "\<lambda>(k, now). allowSameSiteHairpin k now" snd "\<lambda>e. Some (fst e)" hairpin_inv hairpin_noted minute
proof
  fix h and e :: "string \<times> go_time" and k u t
  assume inv: "hairpin_inv h"
  obtain j now where e: "e = (j, now)" by fastforce
  show "hairpin_inv (snd ((case e of (k, now) \<Rightarrow> allowSameSiteHairpin k now) h))" using hairpin_step_inv [OF inv] e by simp
  show "hairpin_noted k (snd e) (snd e) (snd ((case e of (k, now) \<Rightarrow> allowSameSiteHairpin k now) h))"
    if "Some (fst e) = Some k" "fst ((case e of (k, now) \<Rightarrow> allowSameSiteHairpin k now) h)"
    using that e by (simp add: hairpin_noted_def hairpin_step_last)
  show "hairpin_noted k u (snd e) (snd ((case e of (k, now) \<Rightarrow> allowSameSiteHairpin k now) h))"
    if "hairpin_noted k u t h" "u \<le> t" "t \<le> snd e"
    using hairpin_prune_noted [OF inv that(1), of now] that e by (auto simp: hairpin_noted_def hairpin_step_last)
  show "u + minute \<le> snd e"
    if "hairpin_noted k u t h" "t \<le> snd e" "Some (fst e) = Some k" "fst ((case e of (k, now) \<Rightarrow> allowSameSiteHairpin k now) h)"
    using hairpin_step_gap [OF inv that(1), of now] that e by simp
qed

text \<open>the ladder of same-site dials never collapses. The wait before the next attempt is
  \<open>sameSiteHairpinRetryMin << tries\<close> on an \<open>int64\<close>, which wraps after 28 attempts; with the two guards
  of the code it is, for every number of attempts, exactly the doubled interval capped at ten minutes. Over
  every run in the order of the clock, whatever endpoints are asked for and whatever is pruned, two dials of
  one endpoint are at least a minute apart.\<close>

theorem hairpin_ladder:
  assumes "sorted (map snd es)"
  shows "hairpin_wait tries = min (sameSiteHairpinRetryMin * 2 ^ tries) sameSiteHairpinRetryMax \<and>
    sorted_wrt (\<lambda>a b. a + minute \<le> b) (grant_times snd (\<lambda>e. Some (fst e)) k
      (fst (run_steps (\<lambda>(k, now). allowSameSiteHairpin k now) es
        \<lparr>sameSiteFirstSeen = [], sameSiteLastTry = [], sameSiteTries = []\<rparr>)))"
  using hairpin_wait_min [of tries] hairpin_gap.grants_spaced [OF _ assms] by (simp add: hairpin_inv_def)

theorem hairpin_ladder_witness:
  "hairpin_wait 60 = 10 * minute \<and>
   sorted_wrt (\<lambda>a b. a + minute \<le> b) (grant_times snd (\<lambda>e. Some (fst e)) ''1.2.3.4:5''
      (fst (run_steps (\<lambda>(k, now). allowSameSiteHairpin k now)
        [(''1.2.3.4:5'', hour), (''1.2.3.4:5'', hour + 25 * second), (''1.2.3.4:5'', hour + 84 * second), (''1.2.3.4:5'', hour + 85 * second)]
        \<lparr>sameSiteFirstSeen = [], sameSiteLastTry = [], sameSiteTries = []\<rparr>))) \<and>
   grant_times snd (\<lambda>e. Some (fst e)) ''1.2.3.4:5''
      (fst (run_steps (\<lambda>(k, now). allowSameSiteHairpin k now)
        [(''1.2.3.4:5'', hour), (''1.2.3.4:5'', hour + 25 * second), (''1.2.3.4:5'', hour + 84 * second), (''1.2.3.4:5'', hour + 85 * second)]
        \<lparr>sameSiteFirstSeen = [], sameSiteLastTry = [], sameSiteTries = []\<rparr>)) = [hour + 25 * second, hour + 85 * second]"
  (is "_ \<and> _ \<and> ?g")
proof -
  have g: ?g by code_simp
  show ?thesis
    using g hairpin_ladder [of "[(''1.2.3.4:5'', hour), (''1.2.3.4:5'', hour + 25 * second), (''1.2.3.4:5'', hour + 84 * second),
        (''1.2.3.4:5'', hour + 85 * second)]" 60 "''1.2.3.4:5''"]
    by (simp add: sameSiteHairpinRetryMin_def sameSiteHairpinRetryMax_def duration_defs)
qed

section \<open>Dialling\<close>

text \<open>\<open>UDPAddr.String\<close> and \<open>IP.String\<close>.\<close>

definition addr_string :: "udp_addr \<Rightarrow> string" where
  "addr_string a =
     (let ip = (case ua_IP a of None \<Rightarrow> [] | Some i \<Rightarrow> ip_string i)
      in joinHostPort (if ua_Zone a \<noteq> [] then ip @ ''%'' @ ua_Zone a else ip) (show_nat (ua_Port a)))"

definition addr_ip_string :: "udp_addr \<Rightarrow> string" where
  "addr_ip_string a = (case ua_IP a of None \<Rightarrow> ''<nil>'' | Some i \<Rightarrow> ip_string i)"

text \<open>What \<open>EnsureSession\<close> (the handshake) returns.\<close>

datatype 'c ensured = EnsureOK "'c session option" | ErrHandshakeInProgress | ErrHandshakeAborted | EnsureFailed

record 'c dial_cfg =
  dc_ip6 :: "string \<Rightarrow> ip_addr option"
  dc_dns :: "string \<Rightarrow> string \<Rightarrow> udp_addr option"
  dc_overlayNet :: "(byte list \<times> nat) option"
  dc_nets :: ip_nets
  dc_localIPs :: "string list"
  dc_haveV6 :: bool
  dc_lastPublicIP :: string
  dc_myUDPPort :: int
  dc_myOverlayIP :: string
  dc_ensure :: "udp_addr \<Rightarrow> 'c mesh \<Rightarrow> 'c ensured \<times> 'c mesh"
  dc_offer :: "'c session \<Rightarrow> byte list option"

record 'c dial_state =
  ds_mesh :: "'c mesh"
  ds_hairpin :: hairpin
  ds_v6 :: "go_time \<times> bool"
  ds_book :: dial_book

datatype dial_effect = Dialled udp_addr | SentFrame udp_addr "byte list" | SentRoster udp_addr

definition hasGlobalIPv6 :: "bool \<Rightarrow> go_time \<times> bool \<Rightarrow> go_time \<Rightarrow> bool \<times> (go_time \<times> bool)" where
  "hasGlobalIPv6 have c now =
     (if time_sub now (fst c) < 30 * second then (snd c, c) else (have, (now, have)))"

definition buildAddrAnnounce :: "string \<Rightarrow> byte list" where
  "buildAddrAnnounce ip = ctlMagic @ [of_char (CHR ''A'')] @ bytes_of ip"

definition may_hairpin :: "('c, 'x) dial_cfg_scheme \<Rightarrow> udp_addr \<Rightarrow> go_time \<Rightarrow> hairpin \<Rightarrow> bool \<times> hairpin" where
  "may_hairpin cfg addr now h =
     (if dc_lastPublicIP cfg = [] then (True, h)
      else case split_host_port (dc_lastPublicIP cfg) of
          None \<Rightarrow> (True, h)
        | Some (host, p) \<Rightarrow>
            if addr_ip_string addr = host then allowSameSiteHairpin (addr_string addr) now h else (True, h))"

definition connected_sends :: "('c, 'x) dial_cfg_scheme \<Rightarrow> udp_addr \<Rightarrow> 'c session option \<Rightarrow> dial_effect list" where
  "connected_sends cfg addr s =
     (case s of
        None \<Rightarrow> []
      | Some ss \<Rightarrow>
          (if Established s \<and> dc_myOverlayIP cfg \<noteq> []
           then [SentFrame addr (buildAddrAnnounce (dc_myOverlayIP cfg)), SentRoster addr] else []) @
          (if Established s then (case dc_offer cfg ss of None \<Rightarrow> [] | Some f \<Rightarrow> [SentFrame addr f]) else []))"

definition connectToPeer ::
  "('c, 'x) dial_cfg_scheme \<Rightarrow> string \<Rightarrow> go_time \<Rightarrow> ('c, 'y) dial_state_scheme \<Rightarrow> dial_effect list \<times> ('c, 'y) dial_state_scheme" where
  "connectToPeer cfg annPeer now st =
     (case resolve_udp (dc_ip6 cfg) (dc_dns cfg) annPeer of
        None \<Rightarrow> ([], st)
      | Some addr \<Rightarrow>
          let (v6ok, st1) = (if to4 (ua_IP addr) = None
                then let (have, c) = hasGlobalIPv6 (dc_haveV6 cfg) (ds_v6 st) now in (have, st\<lparr>ds_v6 := c\<rparr>) else (True, st)) in
          if \<not> v6ok then ([], st1)
          else if isOverlayTransportAddr (dc_overlayNet cfg) (ua_IP addr) then ([], st1)
          else
            let (go, h) = may_hairpin cfg addr now (ds_hairpin st1); st2 = st1\<lparr>ds_hairpin := h\<rparr> in
            if \<not> go then ([], st2)
            else if ShouldSkip (ds_mesh st2) now addr then ([], st2)
            else if Established (GetByAddr (ds_mesh st2) (Some addr)) then ([], st2)
            else
              let (r, m) = dc_ensure cfg addr (ds_mesh st2) in
              (case r of
                 EnsureOK s \<Rightarrow> (Dialled addr # connected_sends cfg addr s, st2\<lparr>ds_mesh := RecordSuccess m now addr\<rparr>)
               | ErrHandshakeInProgress \<Rightarrow> ([Dialled addr], st2\<lparr>ds_mesh := m\<rparr>)
               | ErrHandshakeAborted \<Rightarrow> ([Dialled addr], st2\<lparr>ds_mesh := m\<rparr>)
               | EnsureFailed \<Rightarrow> ([Dialled addr], st2\<lparr>ds_mesh := RecordFailure m now addr\<rparr>)))"

section \<open>Ghosts of ourselves\<close>

definition real_endpoint :: "string \<Rightarrow> bool" where
  "real_endpoint ep \<longleftrightarrow> ep \<noteq> [] \<and> (case split_host_port ep of None \<Rightarrow> False | Some (h, p) \<Rightarrow> h \<noteq> [] \<and> p \<noteq> [] \<and> p \<noteq> ''0'')"

definition no_endpoints :: self_eps where
  "no_endpoints = \<lparr>se_m = [], se_file = None, se_path = True\<rparr>"

datatype self_event = Remember string | AskSelf string

definition self_step :: "self_event \<times> go_time \<Rightarrow> self_eps \<Rightarrow> bool \<times> self_eps" where
  "self_step e st = (case e of (Remember ep, now) \<Rightarrow> (True, rememberSelfEndpoint st ep now) | (AskSelf ep, now) \<Rightarrow> wasSelfEndpoint st ep now)"

lemma remember_get:
  assumes "gwf (se_m st)"
  shows "gwf (se_m (rememberSelfEndpoint st ep now))"
    and "real_endpoint ep \<Longrightarrow> gget (se_m (rememberSelfEndpoint st ep now)) ep = Some now"
    and "ep' \<noteq> ep \<Longrightarrow> gget (se_m st) ep' = Some t \<Longrightarrow> \<not> selfEndpointTTL < time_sub now t \<Longrightarrow>
      gget (se_m (rememberSelfEndpoint st ep now)) ep' = Some t"
proof -
  have pos: "\<not> selfEndpointTTL < 0" by (simp add: selfEndpointTTL_def duration_defs)
  show "gwf (se_m (rememberSelfEndpoint st ep now))" using assms
    by (auto simp: rememberSelfEndpoint_def saveSelfEndpointsLocked_def Let_def gwf_gput gwf_gdrop split: option.splits)
  show "real_endpoint ep \<Longrightarrow> gget (se_m (rememberSelfEndpoint st ep now)) ep = Some now" using assms pos
    by (auto simp: real_endpoint_def rememberSelfEndpoint_def saveSelfEndpointsLocked_def Let_def gget_gdrop gget_gput gwf_gput split: option.splits)
  show "ep' \<noteq> ep \<Longrightarrow> gget (se_m st) ep' = Some t \<Longrightarrow> \<not> selfEndpointTTL < time_sub now t \<Longrightarrow>
      gget (se_m (rememberSelfEndpoint st ep now)) ep' = Some t" using assms
    by (auto simp: rememberSelfEndpoint_def saveSelfEndpointsLocked_def Let_def gget_gdrop gget_gput gwf_gput split: option.splits)
qed

definition remembered :: "string \<Rightarrow> go_time \<Rightarrow> self_eps \<Rightarrow> bool" where
  "remembered ep t st \<longleftrightarrow> gwf (se_m st) \<and> (\<exists>v. gget (se_m st) ep = Some v \<and> t \<le> v)"

lemma self_age: "\<not> selfEndpointTTL < time_sub now t \<longleftrightarrow> now \<le> t + selfEndpointTTL"
  by (subst time_sub_greater_iff) (auto simp: selfEndpointTTL_def duration_defs)

lemma remembered_step:
  assumes "remembered ep t st" "real_endpoint ep" "t \<le> now" "now \<le> t + selfEndpointTTL"
  shows "remembered ep t (snd (self_step (e, now) st))" and "e = AskSelf ep \<Longrightarrow> fst (self_step (e, now) st)"
proof -
  from assms obtain v where wf: "gwf (se_m st)" and v: "gget (se_m st) ep = Some v" "t \<le> v" by (auto simp: remembered_def)
  with assms(4) have young: "\<not> selfEndpointTTL < time_sub now v" by (simp add: self_age)
  show "remembered ep t (snd (self_step (e, now) st))"
  proof (cases e)
    case (Remember ep')
    with remember_get [OF wf] v young assms show ?thesis
      by (cases "ep' = ep") (auto simp: self_step_def remembered_def)
  next
    case (AskSelf ep')
    with wf v young show ?thesis
      by (auto simp: self_step_def remembered_def wasSelfEndpoint_def gomap_simps gwf_gdel split: option.splits)
  qed
  show "e = AskSelf ep \<Longrightarrow> fst (self_step (e, now) st)"
    using v young assms(2) by (simp add: self_step_def wasSelfEndpoint_def real_endpoint_def)
qed

lemma remembered_run:
  "remembered ep t st \<Longrightarrow> real_endpoint ep \<Longrightarrow> (\<And>e now. (e, now) \<in> set es \<Longrightarrow> t \<le> now \<and> now \<le> t + selfEndpointTTL) \<Longrightarrow>
     remembered ep t (snd (run_steps self_step es st))"
proof (induction es arbitrary: st)
  case (Cons e es)
  obtain x now where e: "e = (x, now)" by fastforce
  with Cons.prems(3) [of x now] remembered_step(1) [OF Cons.prems(1,2)] have "remembered ep t (snd (self_step e st))" by simp
  then have "remembered ep t (snd (run_steps self_step es (snd (self_step e st))))"
    by (rule Cons.IH) (use Cons.prems in auto)
  then show ?case by (simp add: case_prod_beta Let_def)
qed simp

text \<open>a running node knows itself. Once an endpoint is noted as its own, whatever other
  endpoints are noted or asked about in the next 45 minutes, it is recognised, so neither the tracker, peer
  exchange nor punch paths take it for a peer.\<close>

theorem own_endpoint_recognised:
  assumes "real_endpoint ep" "gwf (se_m st)" "list_all (\<lambda>(e, u). t \<le> u \<and> u \<le> t + selfEndpointTTL) es"
    and "t \<le> now" "now \<le> t + selfEndpointTTL"
  shows "fst (wasSelfEndpoint (snd (run_steps self_step es (rememberSelfEndpoint st ep t))) ep now)"
proof -
  have "remembered ep t (rememberSelfEndpoint st ep t)"
    using remember_get(1,2) [OF assms(2)] assms(1) by (simp add: remembered_def)
  then have "remembered ep t (snd (run_steps self_step es (rememberSelfEndpoint st ep t)))"
    by (rule remembered_run) (use assms in \<open>auto simp: list_all_iff\<close>)
  from remembered_step(2) [OF this assms(1,4,5)] show ?thesis by (simp add: self_step_def)
qed

theorem own_endpoint_recognised_witness:
  "fst (wasSelfEndpoint (snd (run_steps self_step [(Remember ''1.2.3.4:6'', hour), (AskSelf ''1.2.3.4:6'', hour + 44 * minute)]
     (rememberSelfEndpoint no_endpoints ''1.2.3.4:5'' hour))) ''1.2.3.4:5'' (hour + 45 * minute))"
proof -
  have ep: "real_endpoint ''1.2.3.4:5''" by code_simp
  show ?thesis
    by (rule own_endpoint_recognised [OF ep])
      (simp_all add: no_endpoints_def selfEndpointTTL_def duration_defs)
qed

lemma refresh_file:
  assumes "real_endpoint ep"
  shows "foldl (\<lambda>s t. rememberSelfEndpoint s ep t) (rememberSelfEndpoint no_endpoints ep t0) ts =
    \<lparr>se_m = [(ep, last (t0 # ts))], se_file = Some [(ep, unix_of t0)], se_path = True\<rparr>"
proof -
  have pos: "\<not> selfEndpointTTL < 0" by (simp add: selfEndpointTTL_def duration_defs)
  have first: "rememberSelfEndpoint no_endpoints ep t0 = \<lparr>se_m = [(ep, t0)], se_file = Some [(ep, unix_of t0)], se_path = True\<rparr>"
    using assms pos
    by (auto simp: real_endpoint_def rememberSelfEndpoint_def saveSelfEndpointsLocked_def no_endpoints_def gdrop_def Let_def split: option.splits)
  have again: "rememberSelfEndpoint \<lparr>se_m = [(ep, u)], se_file = f, se_path = True\<rparr> ep t = \<lparr>se_m = [(ep, t)], se_file = f, se_path = True\<rparr>"
    for u t f
    using assms pos by (auto simp: real_endpoint_def rememberSelfEndpoint_def gdrop_def Let_def split: option.splits)
  show ?thesis unfolding first by (induction ts arbitrary: t0 rule: rev_induct) (auto simp: again)
qed

text \<open>a restart forgets the endpoint in use. The table of own endpoints exists so that a node
  does not dial its previous self after a restart; an endpoint is refreshed with every announce, but the
  file is only written when an entry is new or expires. So for an endpoint announced again and again since
  \<open>t0\<close>, however recently, a process that starts 45 minutes or more after \<open>t0\<close> does not recognise it.\<close>

theorem restart_forgets_own_endpoint:
  assumes "real_endpoint ep" and "t0 + selfEndpointTTL \<le> now"
  shows "\<not> fst (wasSelfEndpoint (loadSelfEndpoints
    ((foldl (\<lambda>s t. rememberSelfEndpoint s ep t) no_endpoints (t0 # ts))\<lparr>se_m := []\<rparr>) now) ep now)"
proof -
  have "time_Unix (unix_of t0) \<le> t0" by (simp add: time_Unix_def unix_of_def second_def)
  with assms(2) have "\<not> time_sub now (time_Unix (unix_of t0)) < selfEndpointTTL"
    by (subst time_sub_less_iff) (auto simp: selfEndpointTTL_def duration_defs)
  then show ?thesis using refresh_file [OF assms(1), of t0 ts] assms(1)
    by (simp add: loadSelfEndpoints_def wasSelfEndpoint_def)
qed

theorem restart_forgets_own_endpoint_witness:
  "real_endpoint ''1.2.3.4:5'' \<and>
   fst (wasSelfEndpoint (foldl (\<lambda>s t. rememberSelfEndpoint s ''1.2.3.4:5'' t) no_endpoints
     [2 * hour, 2 * hour + 30 * minute, 2 * hour + 46 * minute]) ''1.2.3.4:5'' (2 * hour + 47 * minute)) \<and>
   \<not> fst (wasSelfEndpoint (loadSelfEndpoints ((foldl (\<lambda>s t. rememberSelfEndpoint s ''1.2.3.4:5'' t) no_endpoints
     [2 * hour, 2 * hour + 30 * minute, 2 * hour + 46 * minute])\<lparr>se_m := []\<rparr>) (2 * hour + 47 * minute)) ''1.2.3.4:5'' (2 * hour + 47 * minute))"
proof -
  have ep: "real_endpoint ''1.2.3.4:5''" by code_simp
  show ?thesis
  proof (intro conjI)
    show "fst (wasSelfEndpoint (foldl (\<lambda>s t. rememberSelfEndpoint s ''1.2.3.4:5'' t) no_endpoints
       [2 * hour, 2 * hour + 30 * minute, 2 * hour + 46 * minute]) ''1.2.3.4:5'' (2 * hour + 47 * minute))"
      using refresh_file [OF ep, of "2 * hour" "[2 * hour + 30 * minute, 2 * hour + 46 * minute]"]
      by (simp add: wasSelfEndpoint_def selfEndpointTTL_def time_sub_def duration_defs)
    show "\<not> fst (wasSelfEndpoint (loadSelfEndpoints ((foldl (\<lambda>s t. rememberSelfEndpoint s ''1.2.3.4:5'' t) no_endpoints
       [2 * hour, 2 * hour + 30 * minute, 2 * hour + 46 * minute])\<lparr>se_m := []\<rparr>) (2 * hour + 47 * minute)) ''1.2.3.4:5'' (2 * hour + 47 * minute))"
      by (rule restart_forgets_own_endpoint [OF ep]) (simp add: selfEndpointTTL_def duration_defs)
  qed (rule ep)
qed

end
