(* ===== verification/Connect.thy ===== *)
theory Connect
  imports Endpoints Approvals
begin

text \<open>
  Finding a path to a peer (\<open>client/main.go\<close>, \<open>client/pex.go\<close>, \<open>client/heard.go\<close>): what a node learns of
  its own NAT, the candidate endpoints it advertises, and what it does with candidates, peer lists,
  tracker answers and LAN beacons it receives.

  A handler that starts \<open>go connectToPeer(c)\<close> returns the endpoint \<open>c\<close> in the list of dials; the dial
  itself is \<open>connectToPeer\<close>, a later step of its own. The node's configuration, the operating system's
  answers and the admin state are the argument \<open>cfg\<close>. A handler reads the clock once.
\<close>

section \<open>What the NAT does\<close>

text \<open>Go's integer division.\<close>

definition trunc_div :: "int \<Rightarrow> int \<Rightarrow> int" where
  "trunc_div a b = (if (a < 0) = (b < 0) then \<bar>a\<bar> div \<bar>b\<bar> else - (\<bar>a\<bar> div \<bar>b\<bar>))"

text \<open>For each server of the list: the address its name resolves to, and the endpoint it reported.\<close>

fun probe_samples :: "(string option \<times> string option) list \<Rightarrow> string list \<Rightarrow> string \<Rightarrow> int list \<Rightarrow> string \<times> int list" where
  "probe_samples [] seen ip ports = (ip, ports)"
| "probe_samples ((ra, ep) # rest) seen ip ports =
     (if (case ra of None \<Rightarrow> False | Some a \<Rightarrow> a \<in> set seen) then probe_samples rest seen ip ports
      else
        let seen1 = (case ra of None \<Rightarrow> seen | Some a \<Rightarrow> a # seen) in
        case ep of
          None \<Rightarrow> probe_samples rest seen1 ip ports
        | Some e \<Rightarrow>
            (if e = [] then probe_samples rest seen1 ip ports
             else case split_host_port e of
                 None \<Rightarrow> probe_samples rest seen1 ip ports
               | Some (host, portStr) \<Rightarrow>
                   (case parse_int64 portStr of
                      None \<Rightarrow> probe_samples rest seen1 ip ports
                    | Some p \<Rightarrow>
                        let ports1 = ports @ [p] in
                        if 3 \<le> length ports1 then (host, ports1) else probe_samples rest seen1 host ports1)))"

definition uniform_steps :: "int list \<Rightarrow> bool" where
  "uniform_steps ports = list_all (\<lambda>i. ports ! (i + 1) - ports ! i = ports ! 1 - ports ! 0) [1..<length ports - 1]"

definition stride_of :: "int list \<Rightarrow> int" where
  "stride_of ports =
     (let span = last ports - hd ports;
          s = trunc_div span (int (length ports) - 1);
          s1 = (if s = 0 then 1 else s)
      in if \<not> uniform_steps ports \<or> 64 < s1 \<or> s1 < - 64 then 0 else s1)"

definition probeNAT :: "(string option \<times> string option) list \<Rightarrow> natMapping option" where
  "probeNAT servers =
     (if servers = [] then None
      else let (ip, ports) = probe_samples servers [] [] [] in
        if ports = [] then None
        else
          let m = \<lparr>nm_ip = ip, nm_port = last ports, nm_stride = 0, nm_symmetric = False, nm_samples = int (length ports)\<rparr> in
          if 2 \<le> length ports \<and> \<not> list_all (\<lambda>p. p = hd ports) (tl ports)
          then Some (m\<lparr>nm_symmetric := True, nm_stride := stride_of ports\<rparr>) else Some m)"

definition natTypeLabel :: "natMapping \<Rightarrow> string" where
  "natTypeLabel m =
     (if nm_ip m = [] then [] else if nm_samples m < 2 then ''unknown''
      else if nm_symmetric m then ''symmetric'' else ''port-stable'')"

section \<open>Configuration and state\<close>

record ('c, 'pk) conn_cfg = "'c dial_cfg" +
  cc_self :: node_key
  cc_admEnv :: string
  cc_admin :: "'pk admin_state"
  cc_approvals :: approvalStore
  cc_advertisePort :: int
  cc_extraCandidates :: "string list"
  cc_v6Endpoints :: "string list"
  cc_mapped :: string
  cc_label :: "udp_addr \<Rightarrow> string"

record heardEntry =
  he_Via :: string
  he_Seen :: go_time

record 'c conn_state = "'c dial_state" +
  cs_nat :: natMapping
  cs_predict :: bool
  cs_pol :: relay_pol
  cs_attempt :: time_map
  cs_seen :: time_map
  cs_heard :: "(string \<times> heardEntry) list"
  cs_lastReply :: time_map
  cs_admLog :: "(node_key \<times> go_time) list"

text \<open>One round of \<open>startNATProbing\<close>.\<close>

definition nat_update :: "(string option \<times> string option) list \<Rightarrow> 'c conn_state \<Rightarrow> 'c conn_state" where
  "nat_update servers st =
     (case probeNAT servers of
        None \<Rightarrow> st
      | Some m \<Rightarrow> st\<lparr>cs_nat := m, cs_predict := cs_predict st \<or> nm_symmetric m\<rparr>)"

section \<open>Our candidates\<close>

definition maxLANCandidates :: nat where "maxLANCandidates = 3"
definition maxV6Candidates :: nat where "maxV6Candidates = 4"
definition predictedPortSpread :: nat where "predictedPortSpread = 4"

definition publicIPOnly :: "string \<Rightarrow> string" where
  "publicIPOnly ep =
     (if ep = [] then [] else case split_host_port ep of Some (host, p) \<Rightarrow> host | None \<Rightarrow> ep)"

definition extra_tier :: "('c, 'pk) conn_cfg \<Rightarrow> string list" where
  "extra_tier cfg = filter (\<lambda>c. c \<noteq> [] \<and> isPunchableAddr (dc_ip6 cfg) (dc_overlayNet cfg) c) (map trim_space (cc_extraCandidates cfg))"

definition lan_tier :: "('c, 'pk) conn_cfg \<Rightarrow> string list" where
  "lan_tier cfg =
     (if 0 < dc_myUDPPort cfg
      then take maxLANCandidates (map (\<lambda>n. show_ipv4 (fst n) @ '':'' @ show_int (dc_myUDPPort cfg))
        (filter (\<lambda>n. is_global_unicast (V4 (fst n)) \<and> \<not> is_link_local (V4 (fst n))) (dc_nets cfg)))
      else [])"

definition v6_tier :: "('c, 'pk) conn_cfg \<Rightarrow> string list" where
  "v6_tier cfg = (if 0 < dc_myUDPPort cfg then take maxV6Candidates (cc_v6Endpoints cfg) else [])"

definition predicted_ports :: "natMapping \<Rightarrow> int list" where
  "predicted_ports m = filter (\<lambda>p. 0 < p \<and> p < 65536)
     (map (\<lambda>k. nm_port m + int k * nm_stride m) [1..<predictedPortSpread + 1])"

definition connect_candidates :: "('c, 'pk) conn_cfg \<Rightarrow> natMapping \<Rightarrow> bool \<Rightarrow> string list" where
  "connect_candidates cfg m predict =
     extra_tier cfg @ lan_tier cfg @ v6_tier cfg @
     (if 0 < cc_advertisePort cfg
      then (let host = publicIPOnly (dc_lastPublicIP cfg) in
            if host \<noteq> [] then [joinHostPort host (show_int (cc_advertisePort cfg))] else [])
      else []) @
     (if cc_mapped cfg \<noteq> [] then [cc_mapped cfg] else []) @
     (if nm_ip m = [] then (if dc_lastPublicIP cfg \<noteq> [] then [dc_lastPublicIP cfg] else [])
      else [nm_ip m @ '':'' @ show_int (nm_port m)]) @
     (if nm_ip m \<noteq> [] \<and> 0 < dc_myUDPPort cfg \<and> nm_port m \<noteq> dc_myUDPPort cfg
      then [nm_ip m @ '':'' @ show_int (dc_myUDPPort cfg)] else []) @
     (if nm_ip m \<noteq> [] \<and> predict \<and> nm_symmetric m \<and> nm_stride m \<noteq> 0
      then map (\<lambda>p. nm_ip m @ '':'' @ show_int p) (predicted_ports m) else []) @
     (if natTokenFor m \<noteq> [] then [natTokenFor m] else [])"

definition myConnectCandidates :: "('c, 'pk) conn_cfg \<Rightarrow> natMapping \<Rightarrow> bool \<Rightarrow> string" where
  "myConnectCandidates cfg m predict = join '','' (connect_candidates cfg m predict)"

section \<open>Dialling what a peer advertises\<close>

definition same_site :: "('c, 'pk) conn_cfg \<Rightarrow> string \<Rightarrow> bool" where
  "same_site cfg candidateList =
     (if dc_lastPublicIP cfg = [] then False
      else case split_host_port (dc_lastPublicIP cfg) of
          None \<Rightarrow> False
        | Some (selfIP, p) \<Rightarrow>
            selfIP \<noteq> [] \<and> list_ex (\<lambda>c. case split_host_port (trim_space c) of None \<Rightarrow> False | Some (h, q) \<Rightarrow> h = selfIP)
              (split_on (CHR '','') candidateList))"

definition punch_one :: "('c, 'pk) conn_cfg \<Rightarrow> bool \<Rightarrow> string \<Rightarrow> bool" where
  "punch_one cfg sameSite c =
     (if c = [] \<or> \<not> isPunchableAddr (dc_ip6 cfg) (dc_overlayNet cfg) c then False
      else case resolve_udp (dc_ip6 cfg) (dc_dns cfg) c of
          None \<Rightarrow> False
        | Some addr \<Rightarrow> punchCandidateDialable (dc_ip6 cfg) (dc_overlayNet cfg) (dc_nets cfg) c addr sameSite)"

definition note_dials :: "('c, 'pk) conn_cfg \<Rightarrow> string list \<Rightarrow> go_time \<Rightarrow> 'c conn_state \<Rightarrow> string list \<times> 'c conn_state" where
  "note_dials cfg cs now st =
     (cs, st\<lparr>ds_book := foldl (\<lambda>b c. addKnownPeer (dc_ip6 cfg) (dc_overlayNet cfg) b c now) (ds_book st) cs\<rparr>)"

text \<open>The relay policy of the peer decides whether the list is punched at all.\<close>

definition punch_decision :: "string \<Rightarrow> string \<Rightarrow> string \<Rightarrow> go_time \<Rightarrow> relay_pol \<Rightarrow> bool \<times> relay_pol" where
  "punch_decision mine peerOverlayIP candidateList now pol =
     (if peerOverlayIP = [] then (True, pol)
      else
        let ((punch, spray), pol1) = noteConnectCandidates mine pol peerOverlayIP candidateList now in
        if punch then (True, pol1) else shouldProbeDirect pol1 peerOverlayIP now)"

definition punchCandidates :: "('c, 'pk) conn_cfg \<Rightarrow> string \<Rightarrow> string \<Rightarrow> go_time \<Rightarrow> 'c conn_state \<Rightarrow> string list \<times> 'c conn_state" where
  "punchCandidates cfg peerOverlayIP candidateList now st =
     (let (go, pol) = punch_decision (ourNATClass (cs_nat st)) peerOverlayIP candidateList now (cs_pol st); st1 = st\<lparr>cs_pol := pol\<rparr> in
      if \<not> go then ([], st1)
      else note_dials cfg (filter (punch_one cfg (same_site cfg candidateList)) (map trim_space (split_on (CHR '','') candidateList))) now st1)"

section \<open>Connect signalling\<close>

definition buildConnectFrame :: "char \<Rightarrow> string \<Rightarrow> string \<Rightarrow> string \<Rightarrow> byte list" where
  "buildConnectFrame kind dstIP srcIP srcEndpoint =
     ctlMagic @ [of_char kind] @ bytes_of (dstIP @ ''|'' @ srcIP @ ''|'' @ srcEndpoint)"

definition direct_session :: "'c mesh \<Rightarrow> string \<Rightarrow> udp_addr option" where
  "direct_session m overlayIP =
     (case Lookup (learned m) overlayIP of
        None \<Rightarrow> None
      | Some a \<Rightarrow> if Established (GetByAddr m (Some a)) then Some a else None)"

text \<open>The sessions a frame is sent on, in order.\<close>

definition sendControlToward :: "'c mesh \<Rightarrow> string \<Rightarrow> go_time \<Rightarrow> udp_addr list" where
  "sendControlToward m overlayIP now =
     (let flood = (\<lambda>skip. concat (map (\<lambda>a. case a of None \<Rightarrow> [] | Some addr \<Rightarrow>
            if Some addr = skip then [] else if Established (GetByAddr m (Some addr)) then [addr] else []) (EstablishedAddrs m)))
      in case direct_session m overlayIP of
           None \<Rightarrow> flood None
         | Some a \<Rightarrow> if RouteIsLive m now (Some a) then [a] else a # flood (Some a))"

definition forwardControlToward :: "'c mesh \<Rightarrow> string \<Rightarrow> udp_addr list" where
  "forwardControlToward m overlayIP = (case direct_session m overlayIP of None \<Rightarrow> [] | Some a \<Rightarrow> [a])"

definition heardTTL :: duration where "heardTTL = 10 * minute"
definition heardMaxEntries :: nat where "heardMaxEntries = 128"

fun oldest_heard :: "(string \<times> heardEntry) list \<Rightarrow> string \<Rightarrow> go_time \<Rightarrow> string" where
  "oldest_heard [] oip t = oip"
| "oldest_heard ((k, v) # rest) oip t =
     (if oip = [] \<or> he_Seen v < t then oldest_heard rest k (he_Seen v) else oldest_heard rest oip t)"

definition noteHeardFrom ::
  "(string \<Rightarrow> ip_addr option) \<Rightarrow> string \<Rightarrow> (string \<times> heardEntry) list \<Rightarrow> string \<Rightarrow> string \<Rightarrow> go_time \<Rightarrow> (string \<times> heardEntry) list" where
  "noteHeardFrom ip6 myIP m ip via now =
     (if ip = [] \<or> parse_ip ip6 ip = None \<or> ip = myIP then m
      else
        let m1 = (if gget m ip = None \<and> heardMaxEntries \<le> length m then gdel (oldest_heard m [] 0) m else m)
        in gput ip \<lparr>he_Via = via, he_Seen = now\<rparr> m1)"

definition heardSnapshot :: "(string \<times> heardEntry) list \<Rightarrow> go_time \<Rightarrow> (string \<times> heardEntry) list" where
  "heardSnapshot m now = gdrop (\<lambda>ip e. heardTTL < time_sub now (he_Seen e)) m"

text \<open>\<open>strings.SplitN(s, "|", 3)\<close> with exactly three parts.\<close>

definition split3 :: "string \<Rightarrow> (string \<times> string \<times> string) option" where
  "split3 s =
     (case split_on (CHR ''|'') s of
        a # b # c # rest \<Rightarrow> Some (a, b, join ''|'' (c # rest))
      | _ \<Rightarrow> None)"

text \<open>The branch of \<open>handleControl\<close> for \<open>C\<close> and \<open>K\<close> frames: the dials it starts and the frames it sends.\<close>

definition handle_connect_frame ::
  "('c, 'pk) conn_cfg \<Rightarrow> byte list \<Rightarrow> udp_addr \<Rightarrow> go_time \<Rightarrow> 'c conn_state
   \<Rightarrow> (string list \<times> (udp_addr \<times> byte list) list) \<times> 'c conn_state" where
  "handle_connect_frame cfg body raddr now st =
     (case split3 (str_of (tl body)) of
        None \<Rightarrow> (([], []), st)
      | Some (dstIP, srcIP, srcCands) \<Rightarrow>
          if dstIP \<noteq> dc_myOverlayIP cfg
          then (([], map (\<lambda>a. (a, ctlMagic @ body)) (forwardControlToward (ds_mesh st) dstIP)), st)
          else
            let st1 = st\<lparr>cs_heard := noteHeardFrom (dc_ip6 cfg) (dc_myOverlayIP cfg) (cs_heard st) srcIP (cc_label cfg raddr) now\<rparr>;
                (fresh, seen) = shouldHandleConnect (cs_seen st1) (connect_key (char_of (unat (hd body))) srcIP srcCands) now;
                st2 = st1\<lparr>cs_seen := seen\<rparr>
            in if \<not> fresh then (([], []), st2)
               else
                 let (dials, st3) = punchCandidates cfg srcIP srcCands now st2;
                     mine = myConnectCandidates cfg (cs_nat st3) (cs_predict st3)
                 in if hd body = of_char (CHR ''C'') \<and> mine \<noteq> []
                    then ((dials, map (\<lambda>a. (a, buildConnectFrame (CHR ''K'') srcIP (dc_myOverlayIP cfg) mine))
                            (sendControlToward (ds_mesh st3) srcIP now)), st3)
                    else ((dials, []), st3))"

section \<open>Peer exchange\<close>

definition pex_one :: "('c, 'pk) conn_cfg \<Rightarrow> go_time \<Rightarrow> string list \<times> 'c conn_state \<Rightarrow> string \<Rightarrow> string list \<times> 'c conn_state" where
  "pex_one cfg now acc ep0 =
     (let ep = trim_space ep0; (dials, st) = acc in
      if ep = [] then acc
      else
        let (self, se) = isSelf (db_selfEPs (ds_book st)) ep (dc_lastPublicIP cfg) 0 now;
            st1 = st\<lparr>ds_book := (ds_book st)\<lparr>db_selfEPs := se\<rparr>\<rparr>
        in if self then (dials, st1)
           else case resolve_udp (dc_ip6 cfg) (dc_dns cfg) ep of
               None \<Rightarrow> (dials, st1)
             | Some addr \<Rightarrow>
                 if isOverlayTransportAddr (dc_overlayNet cfg) (ua_IP addr) then (dials, st1)
                 else if \<not> isValidPeer (dc_ip6 cfg) (dc_overlayNet cfg) ep \<and> \<not> isAttachedLANAddr (dc_nets cfg) (Some addr) then (dials, st1)
                 else if addr_ip_string addr \<in> set (dc_localIPs cfg) \<and> int (ua_Port addr) = dc_myUDPPort cfg then (dials, st1)
                 else if Established (GetByAddr (ds_mesh st1) (Some addr)) then (dials, st1)
                 else if ShouldSkip (ds_mesh st1) now addr then (dials, st1)
                 else (dials @ [ep], st1\<lparr>ds_book := addKnownPeer (dc_ip6 cfg) (dc_overlayNet cfg) (ds_book st1) ep now\<rparr>))"

definition handlePeerExchange :: "('c, 'pk) conn_cfg \<Rightarrow> byte list \<Rightarrow> go_time \<Rightarrow> 'c conn_state \<Rightarrow> string list \<times> 'c conn_state" where
  "handlePeerExchange cfg payload now st = foldl (pex_one cfg now) ([], st) (split_on (CHR '','') (str_of payload))"

definition conn_admitted :: "('c, 'pk) conn_cfg \<Rightarrow> node_key \<Rightarrow> go_time \<Rightarrow> 'c conn_state \<Rightarrow> bool \<times> 'c conn_state" where
  "conn_admitted cfg pub now st =
     (let (ok, l) = admissionOK (cc_admEnv cfg) (cc_self cfg) (cc_admin cfg) (cc_approvals cfg) (cs_admLog st) now pub
      in (ok, st\<lparr>cs_admLog := l\<rparr>))"

text \<open>The branch of \<open>handleControl\<close> for \<open>X\<close> frames.\<close>

definition handle_pex_frame :: "('c, 'pk) conn_cfg \<Rightarrow> byte list \<Rightarrow> udp_addr \<Rightarrow> go_time \<Rightarrow> 'c conn_state \<Rightarrow> string list \<times> 'c conn_state" where
  "handle_pex_frame cfg body raddr now st =
     (case GetByAddr (ds_mesh st) (Some raddr) of
        None \<Rightarrow> ([], st)
      | Some s \<Rightarrow>
          let (ok, st1) = conn_admitted cfg (s_peerStatic s) now st in
          if \<not> ok then ([], st1) else handlePeerExchange cfg (tl body) now st1)"

text \<open>What we share. A peer connected over loopback is on our host: a same-site receiver reaches it at
  our LAN addresses.\<close>

definition add_ep :: "string list \<Rightarrow> string \<Rightarrow> string list" where
  "add_ep eps s = (if s \<in> set eps then eps else eps @ [s])"

definition share_one :: "('c, 'pk) conn_cfg \<Rightarrow> udp_addr option \<Rightarrow> bool \<Rightarrow> string list \<Rightarrow> udp_addr \<Rightarrow> string list" where
  "share_one cfg dst includeLAN eps addr =
     (if 64 \<le> length eps then eps
      else if includeLAN \<and> (case ua_IP addr of None \<Rightarrow> False | Some ip \<Rightarrow> is_loopback ip)
      then foldl (\<lambda>eps n. add_ep eps (joinHostPort (show_ipv4 (fst n)) (show_nat (ua_Port addr)))) eps (dc_nets cfg)
      else if (case dst of None \<Rightarrow> False | Some d \<Rightarrow> addr_string addr = addr_string d) then eps
      else if isOverlayTransportAddr (dc_overlayNet cfg) (ua_IP addr) then eps
      else if \<not> isValidPeer (dc_ip6 cfg) (dc_overlayNet cfg) (addr_string addr) \<and>
              \<not> (includeLAN \<and> isAttachedLANAddr (dc_nets cfg) (Some addr)) then eps
      else add_ep eps (addr_string addr))"

definition shared_endpoints :: "('c, 'pk) conn_cfg \<Rightarrow> 'c mesh \<Rightarrow> udp_addr option \<Rightarrow> string list" where
  "shared_endpoints cfg m dst =
     (let eps = foldl (share_one cfg dst (isAttachedLANAddr (dc_nets cfg) dst)) [] (List.map_filter (\<lambda>a. a) (EstablishedAddrs m)) in
      if 0 < dc_myUDPPort cfg
      then foldl (\<lambda>eps ep. if (case dst of None \<Rightarrow> False | Some d \<Rightarrow> ep = addr_string d) then eps else add_ep eps ep) eps (cc_v6Endpoints cfg)
      else eps)"

definition buildPeerExchangeFor :: "('c, 'pk) conn_cfg \<Rightarrow> 'c mesh \<Rightarrow> udp_addr option \<Rightarrow> byte list option" where
  "buildPeerExchangeFor cfg m dst =
     (let eps = shared_endpoints cfg m dst in
      if eps = [] then None else Some (ctlMagic @ [of_char (CHR ''X'')] @ bytes_of (join '','' eps)))"

definition sendPeerExchangeTo :: "('c, 'pk) conn_cfg \<Rightarrow> 'c mesh \<Rightarrow> udp_addr \<Rightarrow> (udp_addr \<times> byte list) list" where
  "sendPeerExchangeTo cfg m raddr =
     (case buildPeerExchangeFor cfg m (Some raddr) of
        None \<Rightarrow> []
      | Some frame \<Rightarrow> if Established (GetByAddr m (Some raddr)) then [(raddr, frame)] else [])"

section \<open>Trackers, LAN beacons and retries\<close>

text \<open>The endpoint and port a node announces.\<close>

definition announce_endpoint :: "('c, 'pk) conn_cfg \<Rightarrow> int \<Rightarrow> string \<Rightarrow> string" where
  "announce_endpoint cfg port pubEndpoint =
     (let h = firstPublicExtraCandidateHost (dc_ip6 cfg) (dc_overlayNet cfg) (cc_extraCandidates cfg) in
      if h \<noteq> [] \<and> h \<noteq> publicIPOnly (dc_lastPublicIP cfg) then joinHostPort h (show_int port) else pubEndpoint)"

definition announced_port :: "('c, 'pk) conn_cfg \<Rightarrow> int \<Rightarrow> string \<Rightarrow> bool \<Rightarrow> int" where
  "announced_port cfg port pubEndpoint passive =
     (if passive then 0
      else if 0 < cc_advertisePort cfg then cc_advertisePort cfg
      else case split_host_port pubEndpoint of
          None \<Rightarrow> port
        | Some (h, portStr) \<Rightarrow> (case parse_int64 portStr of None \<Rightarrow> port | Some p \<Rightarrow> if 0 < p then p else port))"

text \<open>The answer of one tracker: which of its peers are new, valid and not ourselves.\<close>

definition fresh_one :: "('c, 'pk) conn_cfg \<Rightarrow> string \<Rightarrow> int \<Rightarrow> go_time \<Rightarrow> (string list \<times> string list) \<times> self_eps \<Rightarrow> string
   \<Rightarrow> (string list \<times> string list) \<times> self_eps" where
  "fresh_one cfg pubEndpoint port now acc p =
     (let ((seen, fresh), se) = acc in
      if \<not> isValidPeer (dc_ip6 cfg) (dc_overlayNet cfg) p then acc
      else let (self, se1) = isSelf se p pubEndpoint port now in
        if self then ((seen, fresh), se1)
        else if p \<in> set seen then ((seen, fresh), se1)
        else ((p # seen, fresh @ [p]), se1))"

definition tracker_peers :: "('c, 'pk) conn_cfg \<Rightarrow> string \<Rightarrow> int \<Rightarrow> string list \<Rightarrow> string list \<Rightarrow> go_time \<Rightarrow> 'c conn_state
   \<Rightarrow> (string list \<times> string list) \<times> 'c conn_state" where
  "tracker_peers cfg pubEndpoint port seenPeers peers now st =
     (let ((seen, fresh), se) = foldl (fresh_one cfg pubEndpoint port now) ((seenPeers, []), db_selfEPs (ds_book st)) peers;
          (dials, st1) = note_dials cfg fresh now (st\<lparr>ds_book := (ds_book st)\<lparr>db_selfEPs := se\<rparr>\<rparr>)
      in ((seen, dials), st1))"

definition localDiscoveryPort :: "byte list \<Rightarrow> int" where
  "localDiscoveryPort infoHash = 40000 + int (unat (infoHash ! 0) * 256 + unat (infoHash ! 1)) mod 10000"

definition beacon_text :: "string \<Rightarrow> int \<Rightarrow> string" where
  "beacon_text infoHashHex udpPort = ''OVLY1:'' @ infoHashHex @ '':'' @ show_int udpPort @ [CHR 0x0A]"

text \<open>A beacon on the LAN port: the dial it starts and whether it is answered.\<close>

definition handle_beacon :: "('c, 'pk) conn_cfg \<Rightarrow> string \<Rightarrow> byte list \<Rightarrow> udp_addr \<Rightarrow> go_time \<Rightarrow> 'c conn_state
   \<Rightarrow> (string list \<times> bool) \<times> 'c conn_state" where
  "handle_beacon cfg infoHashHex buf raddr now st =
     (case split_on (CHR '':'') (trim_space (str_of buf)) of
        [tag, hash, portText] \<Rightarrow>
          if tag \<noteq> ''OVLY1'' \<or> hash \<noteq> infoHashHex then (([], False), st)
          else (case parse_int64 portText of
              None \<Rightarrow> (([], False), st)
            | Some peerPort \<Rightarrow>
                if peerPort \<le> 0 \<or> 65535 < peerPort then (([], False), st)
                else
                  let peerAddr = joinHostPort (addr_ip_string raddr) (show_int peerPort) in
                  if peerPort = dc_myUDPPort cfg \<and> addr_ip_string raddr \<in> set (dc_localIPs cfg) then (([], False), st)
                  else
                    let st1 = st\<lparr>ds_book := addKnownPeer (dc_ip6 cfg) (dc_overlayNet cfg) (ds_book st) peerAddr now\<rparr> in
                    if (case resolve_udp (dc_ip6 cfg) (dc_dns cfg) peerAddr of
                          None \<Rightarrow> False | Some ua \<Rightarrow> Established (GetByAddr (ds_mesh st1) (Some ua)))
                    then (([], False), st1)
                    else
                      let reply = (case gget (cs_lastReply st1) (addr_ip_string raddr) of
                            None \<Rightarrow> True | Some t \<Rightarrow> 5 * second < time_sub now t)
                      in (([peerAddr], reply),
                          if reply then st1\<lparr>cs_lastReply := gput (addr_ip_string raddr) now (cs_lastReply st1)\<rparr> else st1))
      | _ \<Rightarrow> (([], False), st))"

definition retry_tick :: "('c, 'pk) conn_cfg \<Rightarrow> go_time \<Rightarrow> 'c conn_state \<Rightarrow> string list \<times> 'c conn_state" where
  "retry_tick cfg now st =
     (let (ps, b) = knownPeerList (ds_book st) now; st1 = st\<lparr>ds_book := b\<rparr> in
      (filter (\<lambda>p. case resolve_udp (dc_ip6 cfg) (dc_dns cfg) p of
          None \<Rightarrow> False
        | Some addr \<Rightarrow> \<not> Established (GetByAddr (ds_mesh st1) (Some addr)) \<and> \<not> ShouldSkip (ds_mesh st1) now addr) ps, st1))"

section \<open>Port prediction\<close>

lemma probe_samples_length: "length ports < 3 \<Longrightarrow> length (snd (probe_samples servers seen ip ports)) \<le> 3"
proof (induction servers seen ip ports rule: probe_samples.induct)
  case (2 ra ep rest seen ip ports)
  show ?case
    by (rule probe_samples.cases [of "((ra, ep) # rest, seen, ip, ports)"])
      (use 2 in \<open>auto simp: Let_def split: option.splits\<close>)
qed simp

lemma trunc_div_1 [simp]: "trunc_div a 1 = a"
  by (auto simp: trunc_div_def)

lemma trunc_div_double [simp]: "trunc_div (2 * a) 2 = a"
  by (auto simp: trunc_div_def)

lemma stride_two: "a \<noteq> b \<Longrightarrow> stride_of [a, b] = (if \<bar>b - a\<bar> \<le> 64 then b - a else 0)"
  by (auto simp: stride_of_def uniform_steps_def Let_def)

lemma stride_three: "\<not> (b = a \<and> c = a) \<Longrightarrow> stride_of [a, b, c] = (if c - b = b - a \<and> \<bar>b - a\<bar> \<le> 64 then b - a else 0)"
proof -
  assume ne: "\<not> (b = a \<and> c = a)"
  have u: "uniform_steps [a, b, c] \<longleftrightarrow> c - b = b - a" by (simp add: uniform_steps_def upt_rec)
  show ?thesis
  proof (cases "c - b = b - a")
    case True
    then have d: "c - a = 2 * (b - a)" and ab: "b - a \<noteq> 0" using ne by auto
    have t: "trunc_div (c - a) 2 = b - a" unfolding d by (rule trunc_div_double)
    have "stride_of [a, b, c] = (if 64 < b - a \<or> b - a < - 64 then 0 else b - a)"
      unfolding stride_of_def Let_def u using True ab t by simp
    with True show ?thesis by (simp add: abs_le_iff)
  next
    case False
    with u show ?thesis by (simp add: stride_of_def Let_def)
  qed
qed

text \<open>ports are predicted exactly for arithmetic allocation. After a probe of the NAT, a step \<open>d\<close>
  other than 0 is adopted if and only if at least two servers answered, every two consecutive
  external ports they saw differ by exactly \<open>d\<close>, and \<open>d\<close> is at most 64 either way. A NAT that allocates at
  random never yields a prediction, although its average step may look plausible.\<close>

theorem prediction_exact:
  assumes "probeNAT servers = Some m" and "d \<noteq> 0"
  shows "nm_stride m = d \<longleftrightarrow> \<bar>d\<bar> \<le> 64 \<and> 2 \<le> length (snd (probe_samples servers [] [] [])) \<and>
    (\<forall>i < length (snd (probe_samples servers [] [] [])) - 1.
       snd (probe_samples servers [] [] []) ! (i + 1) - snd (probe_samples servers [] [] []) ! i = d)"
proof -
  obtain ip ports where s: "probe_samples servers [] [] [] = (ip, ports)" by fastforce
  with assms(1) have ne: "ports \<noteq> []"
    and m: "nm_stride m = (if 2 \<le> length ports \<and> \<not> list_all (\<lambda>p. p = hd ports) (tl ports) then stride_of ports else 0)"
    by (auto simp: probeNAT_def Let_def split: if_splits)
  have "length ports \<le> 3" using probe_samples_length [of "[]" servers "[]" "[]"] s by simp
  with ne consider a where "ports = [a]" | a b where "ports = [a, b]" | a b c where "ports = [a, b, c]"
    by (cases ports; cases "tl ports"; cases "tl (tl ports)"; auto simp: length_Suc_conv)
  then show ?thesis
  proof cases
    case 1
    with s m assms(2) show ?thesis by simp
  next
    case (2 a b)
    with s m assms(2) stride_two [of a b] show ?thesis by (cases "a = b") auto
  next
    case (3 a b c)
    have "(\<forall>i<2. [a, b, c] ! (i + 1) - [a, b, c] ! i = d) \<longleftrightarrow> b - a = d \<and> c - b = d"
      by (auto simp: less_Suc_eq numeral_2_eq_2)
    with 3 s m assms(2) stride_three [of b a c] show ?thesis by (cases "b = a \<and> c = a") auto
  qed
qed

theorem prediction_exact_witness:
  "probeNAT [(Some ''9.9.9.9:1'', Some ''5.6.7.8:100''), (Some ''9.9.9.8:1'', Some ''5.6.7.8:102'')] =
     Some \<lparr>nm_ip = ''5.6.7.8'', nm_port = 102, nm_stride = 2, nm_symmetric = True, nm_samples = 2\<rparr> \<and>
   snd (probe_samples [(Some ''9.9.9.9:1'', Some ''5.6.7.8:100''), (Some ''9.9.9.8:1'', Some ''5.6.7.8:102'')] [] [] []) ! 1 -
   snd (probe_samples [(Some ''9.9.9.9:1'', Some ''5.6.7.8:100''), (Some ''9.9.9.8:1'', Some ''5.6.7.8:102'')] [] [] []) ! 0 = 2"
proof -
  have p: "probeNAT [(Some ''9.9.9.9:1'', Some ''5.6.7.8:100''), (Some ''9.9.9.8:1'', Some ''5.6.7.8:102'')] =
     Some \<lparr>nm_ip = ''5.6.7.8'', nm_port = 102, nm_stride = 2, nm_symmetric = True, nm_samples = 2\<rparr>"
  proof -
    have "split_host_port ''5.6.7.8:100'' = Some (''5.6.7.8'', ''100'')" "split_host_port ''5.6.7.8:102'' = Some (''5.6.7.8'', ''102'')"
      by code_simp+
    then show ?thesis
      by (simp add: probeNAT_def parse_int64_def digit_val_def stride_two)
  qed
  from prediction_exact [OF p, of 2] p show ?thesis by simp
qed

section \<open>The NAT class travels with the candidates\<close>

text \<open>The characters of an endpoint.\<close>

definition addr_chars :: "char set" where
  "addr_chars = set ''0123456789abcdefABCDEF:.[]+-''"

abbreviation addr_text :: "string \<Rightarrow> bool" where
  "addr_text s \<equiv> set s \<subseteq> addr_chars"

definition clean :: "string \<Rightarrow> bool" where
  "clean c \<longleftrightarrow> CHR '','' \<notin> set c \<and> \<not> has_prefix (trim_space c) natTokenPfx"

lemma set_trim_space: "set (trim_space s) \<subseteq> set s"
  unfolding trim_space_def by (auto dest!: set_dropWhileD)

lemma addr_text_clean: "addr_text c \<Longrightarrow> clean c"
proof -
  assume c: "addr_text c"
  have n: "CHR ''n'' \<notin> addr_chars" "CHR '','' \<notin> addr_chars" by (simp_all add: addr_chars_def)
  have "CHR ''n'' \<notin> set (trim_space c)" using c n set_trim_space [of c] by auto
  then have "\<not> has_prefix (trim_space c) natTokenPfx"
    by (cases "trim_space c") (auto simp: has_prefix_def natTokenPfx_def)
  with c n show ?thesis by (auto simp: clean_def)
qed

lemma addr_text_show_nat [simp]: "addr_text (show_nat n)"
proof
  fix c assume "c \<in> set (show_nat n)"
  then obtain d where "d < 10" "c = digit_char d" using set_show_nat by blast
  moreover have "digit_char d \<in> addr_chars" if "d < 10" for d
  proof -
    have "list_all (\<lambda>d. digit_char d \<in> addr_chars) [0..<10]" unfolding addr_chars_def by code_simp
    with that show ?thesis by (auto simp: list_all_iff)
  qed
  ultimately show "c \<in> addr_chars" by simp
qed

lemma addr_chars_special [simp]:
  "CHR ''-'' \<in> addr_chars" "CHR ''+'' \<in> addr_chars" "CHR '':'' \<in> addr_chars" "CHR ''.'' \<in> addr_chars"
  "CHR ''['' \<in> addr_chars" "CHR '']'' \<in> addr_chars"
  by (simp_all add: addr_chars_def)

lemma addr_text_show_int [simp]: "addr_text (show_int i)"
  by (simp add: show_int_def)

lemma addr_text_show_ipv4 [simp]: "addr_text (show_ipv4 b)"
  by (simp add: show_ipv4_def)

lemma digit_val_addr: "digit_val c = Some d \<Longrightarrow> c \<in> addr_chars"
proof -
  assume "digit_val c = Some d"
  then have "48 \<le> (of_char c :: nat)" "(of_char c :: nat) \<le> 57"
    by (auto simp: digit_val_def Let_def split: if_splits)
  then have "(of_char c :: nat) \<in> set [48..<58]" unfolding set_upt atLeastLessThan_iff by linarith
  then have "c \<in> char_of ` set [48..<58 :: nat]" by (metis char_of_char image_eqI)
  moreover have "list_all (\<lambda>n. char_of n \<in> addr_chars) [48..<58 :: nat]" unfolding addr_chars_def by code_simp
  ultimately show ?thesis by (auto simp: list_all_iff)
qed

lemma digits_val_addr: "digits_val n s = Some v \<Longrightarrow> addr_text s"
  by (induction n s rule: digits_val.induct) (auto simp: digit_val_addr split: option.splits)

lemma parse_int64_addr: "parse_int64 s = Some v \<Longrightarrow> addr_text s"
  by (cases s) (auto simp: parse_int64_def Let_def dest!: digits_val_addr dest: digit_val_addr split: if_splits option.splits)

lemma set_split_on: "set s \<subseteq> insert c (\<Union> (set ` set (split_on c s)))"
proof (induction s)
  case (Cons x xs)
  have "split_on c xs \<noteq> []" by (cases xs) (auto split: list.splits)
  then obtain f fs where f: "split_on c xs = f # fs" by (meson neq_Nil_conv)
  with Cons have "set xs \<subseteq> insert c (set f \<union> \<Union> (set ` set fs))" by simp
  with f show ?case by (cases "x = c") auto
qed simp

lemma parse_octet_addr: "parse_octet s = Some b \<Longrightarrow> addr_text s"
  by (auto simp: parse_octet_def dest!: digits_val_addr split: if_splits option.splits)

lemma parse_ipv4_addr: "parse_ipv4 s = Some b \<Longrightarrow> addr_text s"
proof -
  assume "parse_ipv4 s = Some b"
  then obtain v w x y where m: "map parse_octet (split_on (CHR ''.'') s) = [Some v, Some w, Some x, Some y]"
    by (auto simp: parse_ipv4_def split: list.splits option.splits)
  have "addr_text f" if "f \<in> set (split_on (CHR ''.'') s)" for f
  proof -
    from that have "parse_octet f \<in> set (map parse_octet (split_on (CHR ''.'') s))" by auto
    then show ?thesis unfolding m using parse_octet_addr by auto
  qed
  then show ?thesis using set_split_on [of s "CHR ''.''"] by force
qed

lemma split_host_port_addr: "split_host_port s = Some (h, p) \<Longrightarrow> addr_text s \<longleftrightarrow> addr_text h \<and> addr_text p"
  using split_host_port_shape [of s h p] by auto

text \<open>\<open>net.ParseIP\<close> accepts only hexadecimal digits, colons and dots.\<close>

definition ip_chars :: "char set" where
  "ip_chars = set ''0123456789abcdefABCDEF:.''"

lemma ip_chars_addr: "ip_chars \<subseteq> addr_chars"
  unfolding ip_chars_def addr_chars_def by code_simp

definition ip6_ok :: "(string \<Rightarrow> ip_addr option) \<Rightarrow> bool" where
  "ip6_ok ip6 \<longleftrightarrow> (\<forall>s. ip6 s \<noteq> None \<longrightarrow> set s \<subseteq> ip_chars)"

lemma punchable_addr: "ip6_ok ip6 \<Longrightarrow> isPunchableAddr ip6 ov c \<Longrightarrow> addr_text c"
proof -
  assume ok: "ip6_ok ip6" and c: "isPunchableAddr ip6 ov c"
  then obtain h q ip v where s: "split_host_port c = Some (h, q)" "parse_ip ip6 h = Some ip" "parse_int64 q = Some v"
    by (auto simp: isPunchableAddr_def split: option.splits if_splits prod.splits)
  have "addr_text h"
  proof (cases "parse_ipv4 h")
    case None
    with s ok have "set h \<subseteq> ip_chars" by (auto simp: parse_ip_def ip6_ok_def)
    with ip_chars_addr show ?thesis by auto
  qed (use parse_ipv4_addr in auto)
  with parse_int64_addr [OF s(3)] split_host_port_addr [OF s(1)] show ?thesis by simp
qed

lemma split_on_join:
  "list_all (\<lambda>x. c \<notin> set x) xs \<Longrightarrow> xs \<noteq> [] \<Longrightarrow> split_on c (join [c] xs) = xs"
  by (induction "[c]" xs rule: join.induct) (auto simp: split_on_none split_on_append)

lemma nat_class_clean: "list_all clean cs \<Longrightarrow> nat_class_of (cs @ ts) = nat_class_of ts"
  by (induction cs) (auto simp: clean_def Let_def)

lemma nat_class_token: "natTokenFor m \<noteq> [] \<Longrightarrow> nat_class_of [natTokenFor m] = ourNATClass m"
  by (auto simp: natTokenFor_def ourNATClass_def nat_class_defs natTokenPfx_def natTokenMaxLn_def Let_def has_prefix_def
      trim_space_def is_space_def)

lemma no_comma_token: "CHR '','' \<notin> set (natTokenFor m)"
  by (simp add: natTokenFor_def nat_class_defs natTokenPfx_def)

text \<open>What the operating system, STUN and the router report is endpoint text.\<close>

definition net_texts :: "('c, 'pk) conn_cfg \<Rightarrow> natMapping \<Rightarrow> bool" where
  "net_texts cfg m \<longleftrightarrow> ip6_ok (dc_ip6 cfg) \<and> list_all addr_text (cc_v6Endpoints cfg) \<and> addr_text (cc_mapped cfg) \<and>
     addr_text (dc_lastPublicIP cfg) \<and> addr_text (nm_ip m)"

lemma list_all_take: "list_all P xs \<Longrightarrow> list_all P (take n xs)"
  by (auto simp: list_all_iff dest: in_set_takeD)

lemma addr_text_joinHostPort: "addr_text h \<Longrightarrow> addr_text p \<Longrightarrow> addr_text (joinHostPort h p)"
  by (simp add: joinHostPort_def)

lemma addr_text_publicIPOnly: "addr_text ep \<Longrightarrow> addr_text (publicIPOnly ep)"
  using split_host_port_addr [of ep] by (auto simp: publicIPOnly_def split: option.splits)

lemma extra_tier_addr: "ip6_ok (dc_ip6 cfg) \<Longrightarrow> list_all addr_text (extra_tier cfg)"
  by (auto simp: extra_tier_def list_all_iff dest: punchable_addr)

lemma candidates_split:
  assumes "net_texts cfg m"
  obtains eps where "connect_candidates cfg m predict = eps @ (if natTokenFor m \<noteq> [] then [natTokenFor m] else [])"
    "list_all addr_text eps"
proof (rule that)
  show "connect_candidates cfg m predict =
     (extra_tier cfg @ lan_tier cfg @ v6_tier cfg @
     (if 0 < cc_advertisePort cfg
      then (let host = publicIPOnly (dc_lastPublicIP cfg) in
            if host \<noteq> [] then [joinHostPort host (show_int (cc_advertisePort cfg))] else [])
      else []) @
     (if cc_mapped cfg \<noteq> [] then [cc_mapped cfg] else []) @
     (if nm_ip m = [] then (if dc_lastPublicIP cfg \<noteq> [] then [dc_lastPublicIP cfg] else [])
      else [nm_ip m @ '':'' @ show_int (nm_port m)]) @
     (if nm_ip m \<noteq> [] \<and> 0 < dc_myUDPPort cfg \<and> nm_port m \<noteq> dc_myUDPPort cfg
      then [nm_ip m @ '':'' @ show_int (dc_myUDPPort cfg)] else []) @
     (if nm_ip m \<noteq> [] \<and> predict \<and> nm_symmetric m \<and> nm_stride m \<noteq> 0
      then map (\<lambda>p. nm_ip m @ '':'' @ show_int p) (predicted_ports m) else [])) @ (if natTokenFor m \<noteq> [] then [natTokenFor m] else [])"
    by (simp only: connect_candidates_def append.assoc)
  have "list_all addr_text (extra_tier cfg)" using assms by (simp add: net_texts_def extra_tier_addr)
  moreover have "list_all addr_text (map (\<lambda>n. show_ipv4 (fst n) @ '':'' @ show_int p) ns)" for p and ns :: ip_nets
    by (simp add: list_all_iff)
  then have "list_all addr_text (lan_tier cfg)" unfolding lan_tier_def by (simp add: list_all_take)
  moreover have "list_all addr_text (v6_tier cfg)"
    using assms by (simp add: v6_tier_def net_texts_def list_all_take)
  moreover have pred: "list_all addr_text (map (\<lambda>p. nm_ip m @ CHR '':'' # show_int p) ps)" for ps
    using assms by (simp add: net_texts_def list_all_iff)
  ultimately show "list_all addr_text (extra_tier cfg @ lan_tier cfg @ v6_tier cfg @
     (if 0 < cc_advertisePort cfg
      then (let host = publicIPOnly (dc_lastPublicIP cfg) in
            if host \<noteq> [] then [joinHostPort host (show_int (cc_advertisePort cfg))] else [])
      else []) @
     (if cc_mapped cfg \<noteq> [] then [cc_mapped cfg] else []) @
     (if nm_ip m = [] then (if dc_lastPublicIP cfg \<noteq> [] then [dc_lastPublicIP cfg] else [])
      else [nm_ip m @ '':'' @ show_int (nm_port m)]) @
     (if nm_ip m \<noteq> [] \<and> 0 < dc_myUDPPort cfg \<and> nm_port m \<noteq> dc_myUDPPort cfg
      then [nm_ip m @ '':'' @ show_int (dc_myUDPPort cfg)] else []) @
     (if nm_ip m \<noteq> [] \<and> predict \<and> nm_symmetric m \<and> nm_stride m \<noteq> 0
      then map (\<lambda>p. nm_ip m @ '':'' @ show_int p) (predicted_ports m) else []))"
    using assms by (simp add: net_texts_def addr_text_joinHostPort addr_text_publicIPOnly Let_def pred)
qed

text \<open>both ends agree on a node's NAT class. The class token a node appends to its candidate list is
  read back by the peer exactly as the node classifies itself, whatever endpoints precede it in the list
  (operator-supplied, LAN, IPv6, mapped, observed, predicted) and also when the node cannot classify its
  NAT and sends none: no endpoint is mistaken for a token and no separator is lost.\<close>

theorem nat_class_travels:
  assumes "net_texts cfg m"
  shows "parseNATClass (myConnectCandidates cfg m predict) = ourNATClass m"
proof -
  obtain eps where split: "connect_candidates cfg m predict = eps @ (if natTokenFor m \<noteq> [] then [natTokenFor m] else [])"
    and eps: "list_all addr_text eps" by (rule candidates_split [OF assms])
  have clean: "list_all clean eps" using eps addr_text_clean by (simp add: list_all_iff)
  have none: "ourNATClass m = natUnknown" if "natTokenFor m = []"
    using that by (auto simp: natTokenFor_def ourNATClass_def natTokenPfx_def split: if_splits)
  show ?thesis
  proof (cases "connect_candidates cfg m predict = []")
    case True
    with split have "natTokenFor m = []" by (auto split: if_splits)
    with True none show ?thesis
      by (simp add: parseNATClass_def myConnectCandidates_def Let_def has_prefix_def natTokenPfx_def trim_space_def)
  next
    case False
    have "list_all (\<lambda>x. CHR '','' \<notin> set x) (connect_candidates cfg m predict)"
      using clean no_comma_token [of m] by (auto simp: split list_all_iff clean_def)
    from split_on_join [OF this False]
    have "parseNATClass (myConnectCandidates cfg m predict) = nat_class_of (eps @ (if natTokenFor m \<noteq> [] then [natTokenFor m] else []))"
      by (simp add: parseNATClass_def myConnectCandidates_def split)
    with nat_class_clean [OF clean] nat_class_token [of m] none show ?thesis by auto
  qed
qed

text \<open>A configuration for the examples: admission is enforced and nobody is approved.\<close>

definition demo_conn :: "(unit, byte list) conn_cfg" where
  "demo_conn = \<lparr>dc_ip6 = (\<lambda>s. None), dc_dns = (\<lambda>h p. None), dc_overlayNet = Some ([10, 22, 22, 0], 24), dc_nets = [([192, 168, 1, 77], 24)],
     dc_localIPs = [''192.168.1.77''], dc_haveV6 = False, dc_lastPublicIP = ''5.6.7.8:40'', dc_myUDPPort = 70,
     dc_myOverlayIP = ''10.22.22.1'', dc_ensure = (\<lambda>a m. (EnsureFailed, m)), dc_offer = (\<lambda>s. None),
     cc_self = demo_key, cc_admEnv = ''on'', cc_admin = demo_trusted,
     cc_approvals = \<lparr>ap_recs = [], ap_path = [], ap_file = None\<rparr>, cc_advertisePort = 0, cc_extraCandidates = [],
     cc_v6Endpoints = [], cc_mapped = [], cc_label = (\<lambda>a. [])\<rparr>"

definition demo_nat :: natMapping where
  "demo_nat = \<lparr>nm_ip = ''5.6.7.8'', nm_port = 40, nm_stride = 2, nm_symmetric = True, nm_samples = 2\<rparr>"

theorem nat_class_travels_witness:
  "net_texts demo_conn demo_nat \<and>
   parseNATClass (myConnectCandidates demo_conn demo_nat True) = ''sym'' \<and>
   myConnectCandidates demo_conn demo_nat True =
     ''192.168.1.77:70,5.6.7.8:40,5.6.7.8:70,5.6.7.8:42,5.6.7.8:44,5.6.7.8:46,5.6.7.8:48,nat=sym''"
proof -
  have t: "net_texts demo_conn demo_nat"
    by (simp add: net_texts_def ip6_ok_def demo_conn_def demo_nat_def) (simp add: addr_chars_def)
  have "myConnectCandidates demo_conn demo_nat True =
     ''192.168.1.77:70,5.6.7.8:40,5.6.7.8:70,5.6.7.8:42,5.6.7.8:44,5.6.7.8:46,5.6.7.8:48,nat=sym''" by code_simp
  moreover have "ourNATClass demo_nat = ''sym''" by code_simp
  ultimately show ?thesis using nat_class_travels [OF t, of True] t by simp
qed

text \<open>no tier of candidates crowds out another. Besides the operator's own entries a node
  advertises at most 16 candidates, whatever the host's interfaces, and once STUN has answered the observed
  public endpoint is always among them.\<close>

theorem candidates_bounded:
  "length (connect_candidates cfg m predict) \<le> length (cc_extraCandidates cfg) + 16 \<and>
   (nm_ip m = [] \<or> nm_ip m @ '':'' @ show_int (nm_port m) \<in> set (connect_candidates cfg m predict))"
proof -
  have "length (extra_tier cfg) \<le> length (cc_extraCandidates cfg)"
    unfolding extra_tier_def by (rule order_trans [OF length_filter_le]) simp
  moreover have "length (lan_tier cfg) \<le> 3" "length (v6_tier cfg) \<le> 4"
    by (simp_all add: lan_tier_def v6_tier_def maxLANCandidates_def maxV6Candidates_def)
  moreover have "length (predicted_ports m) \<le> 4"
    unfolding predicted_ports_def by (rule le_trans [OF length_filter_le]) (simp add: predictedPortSpread_def)
  ultimately show ?thesis by (simp add: connect_candidates_def Let_def)
qed

section \<open>Hopeless punches are rare\<close>

record punch_req =
  pr_mine :: string
  pr_ip :: string
  pr_cands :: string
  pr_now :: go_time

definition punch_step :: "punch_req \<Rightarrow> relay_pol \<Rightarrow> bool \<times> relay_pol" where
  "punch_step e pol = punch_decision (pr_mine e) (pr_ip e) (pr_cands e) (pr_now e) pol"

text \<open>The peer of a request whose NAT pairing cannot be punched.\<close>

definition hopeless :: "punch_req \<Rightarrow> string option" where
  "hopeless e = (if pr_ip e \<noteq> [] \<and> \<not> directPunchViable (pr_mine e) (parseNATClass (pr_cands e)) then Some (pr_ip e) else None)"

lemma note_punch: "fst (fst (noteConnectCandidates mine pol ip cands now)) \<longleftrightarrow> directPunchViable mine (parseNATClass cands)"
  by (auto simp: noteConnectCandidates_def Let_def split: prod.splits)

lemma punch_step_rel:
  "punch_step e pol =
     (if pr_ip e = [] then (True, pol)
      else
        let m1 = snd (rel_step (Note (pr_mine e) (pr_ip e) (pr_cands e) (pr_now e)) pol) in
        if directPunchViable (pr_mine e) (parseNATClass (pr_cands e)) then (True, m1)
        else rel_step (Probe (pr_ip e) (pr_now e)) m1)"
  using note_punch [of "pr_mine e" pol "pr_ip e" "pr_cands e" "pr_now e"]
  by (auto simp: punch_step_def punch_decision_def Let_def split: prod.splits)

lemma probed_later: "probed ip u t m \<Longrightarrow> t \<le> t' \<Longrightarrow> probed ip u t' m"
  by (auto simp: probed_def)

interpretation punch_gap: spaced_grants punch_step pr_now hopeless gwf probed relayUpgradeProbeEvery
proof
  fix e :: punch_req and m :: relay_pol and ip u t
  assume wf: "gwf m"
  let ?note = "Note (pr_mine e) (pr_ip e) (pr_cands e) (pr_now e)" and ?probe = "Probe (pr_ip e) (pr_now e)"
  let ?m1 = "snd (rel_step ?note m)"
  have wf1: "gwf ?m1" by (rule probe_gap.inv_step [OF wf])
  show "gwf (snd (punch_step e m))"
    using wf wf1 probe_gap.inv_step [OF wf1, of ?probe] by (auto simp: punch_step_rel Let_def)
  show "probed ip (pr_now e) (pr_now e) (snd (punch_step e m))" if "hopeless e = Some ip" "fst (punch_step e m)"
    using that probe_gap.since_new [OF wf1, of ?probe ip]
    by (auto simp: punch_step_rel hopeless_def probe_key_def Let_def split: if_splits)
  show "probed ip u (pr_now e) (snd (punch_step e m))" if h: "probed ip u t m" "u \<le> t" "t \<le> pr_now e"
  proof -
    have n: "probed ip u (pr_now e) ?m1" using probe_gap.since_step [OF wf h(1,2), of ?note] h(3) by simp
    have "probed ip u (pr_now e) (snd (rel_step ?probe ?m1))"
      using probe_gap.since_step [OF wf1 n, of ?probe] h by simp
    with n probed_later [OF h(1,3)] show ?thesis by (auto simp: punch_step_rel Let_def)
  qed
  show "u + relayUpgradeProbeEvery \<le> pr_now e"
    if h: "probed ip u t m" "u \<le> t" "t \<le> pr_now e" "hopeless e = Some ip" "fst (punch_step e m)"
  proof -
    have n: "probed ip u (pr_now e) ?m1" using probe_gap.since_step [OF wf h(1,2), of ?note] h(3) by simp
    from h(4,5) have "fst (rel_step ?probe ?m1)" "ip = pr_ip e"
      by (auto simp: punch_step_rel hopeless_def Let_def split: if_splits)
    then show ?thesis using probe_gap.since_gap [OF wf1 n, of ?probe] h by (simp add: probe_key_def)
  qed
qed

text \<open>an impossible NAT pairing costs one burst of handshakes a minute. Whatever connect signals
  reach a node in the order of its clock, from any peers and with any mix of punchable and unpunchable
  candidate lists, the times at which it punches at one peer although the two NATs cannot be punched are
  at least \<open>relayUpgradeProbeEvery\<close> apart.\<close>

theorem hopeless_punches_rare:
  assumes "sorted (map pr_now es)"
  shows "sorted_wrt (\<lambda>a b. a + relayUpgradeProbeEvery \<le> b) (grant_times pr_now hopeless ip (fst (run_steps punch_step es [])))"
  by (rule punch_gap.grants_spaced) (use assms in simp_all)

definition demo_sym :: "go_time \<Rightarrow> punch_req" where
  "demo_sym now = \<lparr>pr_mine = ''sym'', pr_ip = ''10.22.22.9'', pr_cands = ''1.2.3.4:69,nat=stable'', pr_now = now\<rparr>"

theorem hopeless_punches_rare_witness:
  "grant_times pr_now hopeless ''10.22.22.9'' (fst (run_steps punch_step (map demo_sym [hour, hour + 15 * second, hour + 61 * second]) [])) =
     [hour, hour + 61 * second] \<and>
   sorted_wrt (\<lambda>a b. a + relayUpgradeProbeEvery \<le> b)
     (grant_times pr_now hopeless ''10.22.22.9'' (fst (run_steps punch_step (map demo_sym [hour, hour + 15 * second, hour + 61 * second]) [])))"
proof
  show "grant_times pr_now hopeless ''10.22.22.9'' (fst (run_steps punch_step (map demo_sym [hour, hour + 15 * second, hour + 61 * second]) [])) =
     [hour, hour + 61 * second]" by code_simp
  show "sorted_wrt (\<lambda>a b. a + relayUpgradeProbeEvery \<le> b)
     (grant_times pr_now hopeless ''10.22.22.9'' (fst (run_steps punch_step (map demo_sym [hour, hour + 15 * second, hour + 61 * second]) [])))"
    by (rule hopeless_punches_rare) (simp add: demo_sym_def duration_defs)
qed

section \<open>Who can make a node dial\<close>

lemma split_on_single: "CHR ''|'' \<notin> set a \<Longrightarrow> CHR ''|'' \<notin> set b \<Longrightarrow> CHR ''|'' \<notin> set c \<Longrightarrow>
    split3 (a @ ''|'' @ b @ ''|'' @ c) = Some (a, b, c)"
  by (simp add: split3_def split_on_append split_on_none)

lemma punchable_resolves: "isPunchableAddr ip6 ov c \<Longrightarrow> \<exists>addr. resolve_udp ip6 dns c = Some addr"
  by (auto simp: isPunchableAddr_def resolve_udp_def split: option.splits if_splits prod.splits)

lemma punch_lone_endpoint:
  assumes c: "isPunchableAddr (dc_ip6 cfg) (dc_overlayNet cfg) c" "isValidPeer (dc_ip6 cfg) (dc_overlayNet cfg) c" "ip6_ok (dc_ip6 cfg)"
    and trim: "trim_space c = c"
  shows "fst (punchCandidates cfg srcIP c now st) = [c]"
proof -
  have cl: "clean c" by (rule addr_text_clean [OF punchable_addr [OF c(3,1)]])
  then have split: "split_on (CHR '','') c = [c]" by (intro split_on_none) (simp add: clean_def)
  have "parseNATClass c = natUnknown" using cl nat_class_clean [of "[c]" "[]"] by (simp add: parseNATClass_def split)
  then have viable: "directPunchViable mine (parseNATClass c)" for mine by (simp add: directPunchViable_def)
  have go: "fst (punch_decision mine srcIP c now pol)" for mine pol
    using note_punch [of mine pol srcIP c now] viable by (auto simp: punch_decision_def Let_def split: prod.splits)
  have "c \<noteq> []" using c(1) by (auto simp: isPunchableAddr_def split_host_port_def)
  with c(1,2) punchable_resolves [OF c(1), of "dc_dns cfg"] have "punch_one cfg ss c" for ss
    by (auto simp: punch_one_def punchCandidateDialable_def)
  with go split trim show ?thesis
    by (simp add: punchCandidates_def note_dials_def case_prod_beta Let_def)
qed

text \<open>C29: a device that is not approved can make a node dial. The \<open>X\<close> branch of \<open>handleControl\<close> refuses peer
  lists from a device that is not admitted, because the frame makes the node send to addresses of the
  sender's choosing. The \<open>C\<close> and \<open>K\<close> branch has no such gate: from the same device, a connect frame with
  any public endpoint \<open>c\<close> makes the node start a handshake with \<open>c\<close>.\<close>

theorem unapproved_connect_dials:
  fixes cfg :: "('c, 'pk) conn_cfg"
  assumes s: "GetByAddr (ds_mesh st) (Some raddr) = Some s"
    and refused: "\<not> fst (conn_admitted cfg (s_peerStatic s) now st)"
    and c: "isPunchableAddr (dc_ip6 cfg) (dc_overlayNet cfg) c" "isValidPeer (dc_ip6 cfg) (dc_overlayNet cfg) c" "ip6_ok (dc_ip6 cfg)"
      "trim_space c = c"
    and ips: "CHR ''|'' \<notin> set (dc_myOverlayIP cfg)" "CHR ''|'' \<notin> set srcIP"
    and fresh: "gget (cs_seen st) (connect_key (CHR ''C'') srcIP c) = None"
  shows "fst (handle_pex_frame cfg (of_char (CHR ''X'') # bytes_of c) raddr now st) = [] \<and>
    fst (fst (handle_connect_frame cfg (of_char (CHR ''C'') # bytes_of (dc_myOverlayIP cfg @ ''|'' @ srcIP @ ''|'' @ c)) raddr now st)) = [c]"
proof
  show "fst (handle_pex_frame cfg (of_char (CHR ''X'') # bytes_of c) raddr now st) = []"
    using s refused by (simp add: handle_pex_frame_def case_prod_beta Let_def)
  have "CHR ''|'' \<notin> addr_chars" by (simp add: addr_chars_def)
  with punchable_addr [OF c(3,1)] have "CHR ''|'' \<notin> set c" by auto
  with ips have split: "split3 (dc_myOverlayIP cfg @ ''|'' @ srcIP @ ''|'' @ c) = Some (dc_myOverlayIP cfg, srcIP, c)"
    by (intro split_on_single)
  have "fst (shouldHandleConnect (cs_seen st) (connect_key (CHR ''C'') srcIP c) now)"
    using fresh by (simp add: shouldHandleConnect_def Let_def)
  moreover have "char_of (67 :: nat) = CHR ''C''" by code_simp
  ultimately show "fst (fst (handle_connect_frame cfg (of_char (CHR ''C'') # bytes_of (dc_myOverlayIP cfg @ ''|'' @ srcIP @ ''|'' @ c)) raddr now st)) = [c]"
    using split punch_lone_endpoint [OF c, of srcIP now]
    by (simp add: handle_connect_frame_def case_prod_beta Let_def unat_of_char)
qed

definition demo_conn_state :: "unit conn_state" where
  "demo_conn_state = \<lparr>ds_mesh = demo_mesh, ds_hairpin = \<lparr>sameSiteFirstSeen = [], sameSiteLastTry = [], sameSiteTries = []\<rparr>,
     ds_v6 = (0, False), ds_book = \<lparr>db_known = [], db_selfEPs = no_endpoints\<rparr>, cs_nat = demo_nat, cs_predict = False,
     cs_pol = [], cs_attempt = [], cs_seen = [], cs_heard = [], cs_lastReply = [], cs_admLog = []\<rparr>"

theorem unapproved_connect_dials_witness:
  "fst (handle_pex_frame demo_conn (of_char (CHR ''X'') # bytes_of ''1.2.3.4:5'') demo_wan hour demo_conn_state) = [] \<and>
   fst (fst (handle_connect_frame demo_conn (of_char (CHR ''C'') # bytes_of (dc_myOverlayIP demo_conn @ ''|'' @ ''10.22.22.9'' @ ''|'' @ ''1.2.3.4:5''))
     demo_wan hour demo_conn_state)) = [''1.2.3.4:5'']"
proof (rule unapproved_connect_dials)
  show "GetByAddr (ds_mesh demo_conn_state) (Some demo_wan) = Some (demo_session demo_wan)"
    by (simp add: demo_conn_state_def GetByAddr_def demo_mesh_def)
  show "\<not> fst (conn_admitted demo_conn (s_peerStatic (demo_session demo_wan)) hour demo_conn_state)" by code_simp
  have sp: "split_host_port ''1.2.3.4:5'' = Some (''1.2.3.4'', ''5'')" by code_simp
  have p: "parse_ipv4 ''1.2.3.4'' = Some [1, 2, 3, 4]" by (simp add: parse_ipv4_def parse_octet_def digit_val_def)
  have q: "parse_int64 ''5'' = Some 5" by (simp add: parse_int64_def digit_val_def)
  have ov: "\<not> isOverlayTransportAddr (dc_overlayNet demo_conn) (Some (V4 [1, 2, 3, 4]))"
    by (simp add: isOverlayTransportAddr_def demo_conn_def net_contains_def be_nat_def)
  have ip6: "dc_ip6 demo_conn = (\<lambda>s. None)" by (simp add: demo_conn_def)
  show "isPunchableAddr (dc_ip6 demo_conn) (dc_overlayNet demo_conn) ''1.2.3.4:5''"
    "isValidPeer (dc_ip6 demo_conn) (dc_overlayNet demo_conn) ''1.2.3.4:5''"
    by (simp_all add: isPunchableAddr_def isValidPeer_def sp p q ov parse_ip_def)
  show "ip6_ok (dc_ip6 demo_conn)" by (simp add: ip6 ip6_ok_def)
qed (simp_all add: demo_conn_def demo_conn_state_def trim_space_def is_space_def)

section \<open>The overlay is never a transport\<close>

datatype conn_event = ConnectFrame "byte list" udp_addr | PexFrame "byte list" udp_addr
  | TrackerReply string int "string list" "string list" | Beacon string "byte list" udp_addr | RetryTick | Dial string

text \<open>One event: what it sends itself. The dials a handler starts are \<open>Dial\<close> events of their own.\<close>

fun conn_step :: "('c, 'pk) conn_cfg \<Rightarrow> conn_event \<times> go_time \<Rightarrow> 'c conn_state \<Rightarrow> dial_effect list \<times> 'c conn_state" where
  "conn_step cfg (ConnectFrame body raddr, now) st =
     (let ((dials, sent), st1) = handle_connect_frame cfg body raddr now st in (map (\<lambda>(a, f). SentFrame a f) sent, st1))"
| "conn_step cfg (PexFrame body raddr, now) st = ([], snd (handle_pex_frame cfg body raddr now st))"
| "conn_step cfg (TrackerReply pub port seen peers, now) st = ([], snd (tracker_peers cfg pub port seen peers now st))"
| "conn_step cfg (Beacon hash buf raddr, now) st = ([], snd (handle_beacon cfg hash buf raddr now st))"
| "conn_step cfg (RetryTick, now) st = ([], snd (retry_tick cfg now st))"
| "conn_step cfg (Dial c, now) st = connectToPeer cfg c now st"

definition overlay_text :: "('c, 'pk) conn_cfg \<Rightarrow> string \<Rightarrow> bool" where
  "overlay_text cfg p = (case split_host_port (trim_space p) of
     None \<Rightarrow> False | Some (h, q) \<Rightarrow> isOverlayTransportAddr (dc_overlayNet cfg) (parse_ip (dc_ip6 cfg) h))"

definition known_ok :: "('c, 'pk) conn_cfg \<Rightarrow> dial_book \<Rightarrow> bool" where
  "known_ok cfg b = list_all (\<lambda>(p, t). \<not> overlay_text cfg p) (db_known b)"

lemma known_ok_add: "known_ok cfg b \<Longrightarrow> known_ok cfg (addKnownPeer (dc_ip6 cfg) (dc_overlayNet cfg) b p now)"
  using set_gput_subset [of p now "db_known b"]
  by (fastforce simp: known_ok_def addKnownPeer_def overlay_text_def list_all_iff Let_def split: option.splits prod.splits)

lemma known_ok_adds: "known_ok cfg b \<Longrightarrow> known_ok cfg (foldl (\<lambda>b c. addKnownPeer (dc_ip6 cfg) (dc_overlayNet cfg) b c now) b cs)"
  by (induction cs arbitrary: b) (auto intro: known_ok_add)

lemma known_ok_self [simp]: "known_ok cfg (b\<lparr>db_selfEPs := se\<rparr>) = known_ok cfg b"
  by (simp add: known_ok_def)

lemma known_ok_list: "known_ok cfg b \<Longrightarrow> known_ok cfg (snd (knownPeerList b now))"
  by (auto simp: known_ok_def knownPeerList_def list_all_iff set_gdrop Let_def)

lemma known_ok_pex_one: "known_ok cfg (ds_book (snd acc)) \<Longrightarrow> known_ok cfg (ds_book (snd (pex_one cfg now acc ep)))"
  by (auto simp: pex_one_def Let_def case_prod_beta intro!: known_ok_add split: option.splits)

lemma known_ok_pex: "known_ok cfg (ds_book (snd acc)) \<Longrightarrow> known_ok cfg (ds_book (snd (foldl (pex_one cfg now) acc eps)))"
proof (induction eps arbitrary: acc)
  case (Cons ep eps)
  from Cons.IH [OF known_ok_pex_one [OF Cons.prems]] show ?case by simp
qed simp

lemma punch_book: "known_ok cfg (ds_book st) \<Longrightarrow> known_ok cfg (ds_book (snd (punchCandidates cfg ip cands now st)))"
  by (auto simp: punchCandidates_def note_dials_def Let_def case_prod_beta intro: known_ok_adds)

lemma dial_book_same [simp]: "ds_book (snd (connectToPeer cfg c now st)) = ds_book st"
  by (auto simp: connectToPeer_def Let_def case_prod_beta split: option.splits ensured.splits)

definition off_overlay :: "('c, 'pk) conn_cfg \<Rightarrow> conn_event \<times> go_time \<Rightarrow> dial_effect list \<Rightarrow> bool" where
  "off_overlay cfg e fx = list_all (\<lambda>f. case f of Dialled a \<Rightarrow> \<not> isOverlayTransportAddr (dc_overlayNet cfg) (ua_IP a) | _ \<Rightarrow> True) fx"

lemma dial_off_overlay: "off_overlay cfg e (fst (connectToPeer cfg c now st))"
  by (auto simp: off_overlay_def connectToPeer_def connected_sends_def Let_def case_prod_beta split: option.splits ensured.splits)

lemma known_ok_step: "known_ok cfg (ds_book st) \<Longrightarrow> known_ok cfg (ds_book (snd (conn_step cfg e st)))"
proof (induction cfg e st rule: conn_step.induct)
  case (1 cfg body raddr now st)
  then show ?case by (auto simp: handle_connect_frame_def Let_def case_prod_beta intro!: punch_book split: option.splits)
next
  case (2 cfg body raddr now st)
  then show ?case
    by (auto simp: handle_pex_frame_def handlePeerExchange_def conn_admitted_def Let_def case_prod_beta intro!: known_ok_pex split: option.splits)
next
  case (3 cfg pub port seen peers now st)
  then show ?case by (auto simp: tracker_peers_def note_dials_def Let_def case_prod_beta intro!: known_ok_adds)
next
  case (4 cfg hash buf raddr now st)
  then show ?case by (auto simp: handle_beacon_def Let_def intro!: known_ok_add split: list.splits option.splits)
next
  case (5 cfg now st)
  then show ?case by (auto simp: retry_tick_def Let_def case_prod_beta intro!: known_ok_list)
qed simp

interpretation overlay_inv: step_invariant "conn_step cfg" "\<lambda>e. True" "\<lambda>st. known_ok cfg (ds_book st)" "off_overlay cfg"
proof
  fix e and st :: "'a conn_state"
  assume k: "known_ok cfg (ds_book st)"
  then show "known_ok cfg (ds_book (snd (conn_step cfg e st)))" by (rule known_ok_step)
  show "off_overlay cfg e (fst (conn_step cfg e st))"
    by (cases "(cfg, e, st)" rule: conn_step.cases)
      (simp_all add: dial_off_overlay, simp_all add: off_overlay_def list_all_iff Let_def case_prod_beta)
qed

text \<open>C31: the overlay is never a transport. Whatever connect frames, peer lists, tracker answers, LAN
  beacons and retries a node handles, in any order and from anyone, and whatever the resolver answers, it
  never starts a handshake with an address inside the overlay's own subnet, and no such endpoint enters
  the table of peers it keeps dialling.\<close>

theorem overlay_never_transport:
  assumes "db_known (ds_book st) = []"
  shows "list_all (\<lambda>(e, fx). off_overlay cfg e fx) (fst (run_steps (conn_step cfg) es st)) \<and>
    list_all (\<lambda>(p, t). \<not> overlay_text cfg p) (db_known (ds_book (snd (run_steps (conn_step cfg) es st))))"
  using overlay_inv.run_inv [where cfg = cfg and es = es and s = st] assms by (simp add: known_ok_def list_all_iff)

theorem overlay_never_transport_witness:
  "fst (connectToPeer demo_conn ''1.2.3.4:5'' hour demo_conn_state) = [Dialled (udp4 [1, 2, 3, 4] 5)] \<and>
   list_all (\<lambda>(e, fx). off_overlay demo_conn e fx) (fst (run_steps (conn_step demo_conn)
     [(Dial ''1.2.3.4:5'', hour), (Dial ''10.22.22.9:5'', hour)] demo_conn_state))"
proof
  have sp: "split_host_port ''1.2.3.4:5'' = Some (''1.2.3.4'', ''5'')" "split_host_port ''5.6.7.8:40'' = Some (''5.6.7.8'', ''40'')" by code_simp+
  have p: "parse_ipv4 ''1.2.3.4'' = Some [1, 2, 3, 4]" by (simp add: parse_ipv4_def parse_octet_def digit_val_def)
  have q: "parse_int64 ''5'' = Some 5" by (simp add: parse_int64_def digit_val_def)
  have str: "show_ipv4 [1, 2, 3, 4] \<noteq> ''5.6.7.8''" by code_simp
  show "fst (connectToPeer demo_conn ''1.2.3.4:5'' hour demo_conn_state) = [Dialled (udp4 [1, 2, 3, 4] 5)]"
    using str by (simp add: connectToPeer_def resolve_udp_def sp p q parse_ip_def demo_conn_def demo_conn_state_def isOverlayTransportAddr_def
        net_contains_def be_nat_def may_hairpin_def addr_ip_string_def ShouldSkip_def demo_mesh_def GetByAddr_def Established_def)
  show "list_all (\<lambda>(e, fx). off_overlay demo_conn e fx) (fst (run_steps (conn_step demo_conn)
     [(Dial ''1.2.3.4:5'', hour), (Dial ''10.22.22.9:5'', hour)] demo_conn_state))"
    by (rule overlay_never_transport [THEN conjunct1]) (simp add: demo_conn_state_def)
qed

end
