(* ===== verification/Exit_Packet.thy ===== *)
theory Exit_Packet
  imports IPv4_Text
begin

text \<open>
  IPv4 packets at a public exit, \<open>client/pubexit_proto.go\<close>: parsing, the ranges that are not the
  public internet, and the rewriting of an address in place with its checksums.

  A packet is a list of bytes; an update in place is \<open>put_at\<close>. Sums are on 32-bit words as in the code;
  \<open>word_sum\<close> is the same sum as a natural number, and a checksum is right if the sum of the 16-bit words
  it covers, itself included, is a multiple of 65535 (one's complement zero).
\<close>

section \<open>Parsing\<close>

record pxIPv4 =
  px_ihl :: nat
  px_proto :: byte
  px_src :: "byte list"
  px_dst :: "byte list"
  px_firstFrg :: bool
  px_dport :: u16
  px_hasPort :: bool
  px_icmpType :: byte
  px_tcpFlags :: byte

definition px_base :: "byte list \<Rightarrow> pxIPv4" where
  "px_base pkt = \<lparr>px_ihl = unat (pkt ! 0 AND 0x0F) * 4, px_proto = pkt ! 9, px_src = take 4 (drop 12 pkt), px_dst = take 4 (drop 16 pkt),
     px_firstFrg = (be_u16 (drop 6 pkt) AND 0x1FFF = 0), px_dport = 0, px_hasPort = False, px_icmpType = 0, px_tcpFlags = 0\<rparr>"

definition px_transport :: "pxIPv4 \<Rightarrow> byte list \<Rightarrow> pxIPv4 option" where
  "px_transport p l4 =
     (if px_proto p = 6 then
        (if length l4 < 20 then None
         else Some (p\<lparr>px_dport := be_u16 (drop 2 l4), px_hasPort := True, px_tcpFlags := l4 ! 13\<rparr>))
      else if px_proto p = 17 then
        (if length l4 < 8 then None else Some (p\<lparr>px_dport := be_u16 (drop 2 l4), px_hasPort := True\<rparr>))
      else if px_proto p = 1 then
        (if length l4 < 8 then None else Some (p\<lparr>px_icmpType := l4 ! 0\<rparr>))
      else Some p)"

definition pxParse :: "byte list \<Rightarrow> pxIPv4 option" where
  "pxParse pkt =
     (if length pkt < 20 \<or> drop_bit 4 (pkt ! 0) \<noteq> 4 then None
      else
        let p = px_base pkt; total = unat (be_u16 (drop 2 pkt)) in
        if px_ihl p < 20 \<or> total < px_ihl p \<or> total \<noteq> length pkt then None
        else if \<not> px_firstFrg p then Some p
        else px_transport p (drop (px_ihl p) pkt))"

section \<open>The public internet\<close>

definition pxNonPublic :: "(byte list \<times> nat) list" where
  "pxNonPublic =
     [([0, 0, 0, 0], 8), ([10, 0, 0, 0], 8), ([100, 64, 0, 0], 10), ([127, 0, 0, 0], 8),
      ([169, 254, 0, 0], 16), ([172, 16, 0, 0], 12), ([192, 0, 0, 0], 24), ([192, 0, 2, 0], 24),
      ([192, 31, 196, 0], 24), ([192, 52, 193, 0], 24), ([192, 88, 99, 0], 24), ([192, 168, 0, 0], 16),
      ([192, 175, 48, 0], 24), ([198, 18, 0, 0], 15), ([198, 51, 100, 0], 24), ([203, 0, 113, 0], 24),
      ([224, 0, 0, 0], 3)]"

definition pxIsPublicIPv4 :: "byte list \<Rightarrow> bool" where
  "pxIsPublicIPv4 ip \<longleftrightarrow> \<not> list_ex (\<lambda>n. net_contains n ip) pxNonPublic"

section \<open>Checksums\<close>

lemma u32_low: "unat (s AND 0xFFFF) = unat s mod 65536" for s :: u32
proof -
  have "s AND 0xFFFF = take_bit 16 s" by (simp add: take_bit_eq_mask mask_eq_exp_minus_1)
  then show ?thesis by (simp add: unat_mod_distrib take_bit_eq_mod)
qed

lemma u32_high: "unat (drop_bit 16 s) = unat s div 65536" for s :: u32
  by (simp add: drop_bit_eq_div unat_div_distrib)

lemma fold_val: "unat ((s AND 0xFFFF) + drop_bit 16 s) = unat s mod 65536 + unat s div 65536" for s :: u32
proof -
  have "unat s < 2 ^ 32" using unsigned_less [of s] by simp
  then have "unat s div 65536 < 65536" by (simp add: div_less_iff_less_mult)
  moreover have "unat s mod 65536 < 65536" by simp
  ultimately have "unat s mod 65536 + unat s div 65536 < 65536 + 65536" by linarith
  then show ?thesis by (simp add: unat_word_ariths u32_low u32_high)
qed

lemma fold_less: "drop_bit 16 s \<noteq> 0 \<Longrightarrow> unat ((s AND 0xFFFF) + drop_bit 16 s) < unat s" for s :: u32
proof -
  assume "drop_bit 16 s \<noteq> 0"
  then have "0 < unat s div 65536" using u32_high [of s] by (metis gr0I unsigned_eq_0_iff)
  moreover have "unat s = unat s div 65536 * 65536 + unat s mod 65536" by simp
  ultimately show ?thesis unfolding fold_val by linarith
qed

function px_fold :: "u32 \<Rightarrow> u32" where
  "px_fold s = (if drop_bit 16 s \<noteq> 0 then px_fold ((s AND 0xFFFF) + drop_bit 16 s) else s)"
  by auto
termination by (relation "measure unat") (use fold_less in auto)

declare px_fold.simps [simp del]

fun px_sum :: "u32 \<Rightarrow> byte list \<Rightarrow> u32" where
  "px_sum s (a # b # r) = px_sum (s + (push_bit 8 (ucast a) OR ucast b)) r"
| "px_sum s [a] = s + push_bit 8 (ucast a)"
| "px_sum s [] = s"

definition pxChecksum :: "byte list \<Rightarrow> u16" where
  "pxChecksum b = NOT (ucast (px_fold (px_sum 0 b)))"

definition px_word :: "byte \<Rightarrow> byte \<Rightarrow> u16" where
  "px_word a b = push_bit 8 (ucast a) OR ucast b"

definition pxAdjust :: "byte list \<Rightarrow> byte list \<Rightarrow> byte list \<Rightarrow> byte list" where
  "pxAdjust field old new =
     (let s0 = ucast (NOT (be_u16 field)) :: u32;
          s1 = s0 + ucast (NOT (px_word (old ! 0) (old ! 1))) + ucast (px_word (new ! 0) (new ! 1));
          s2 = s1 + ucast (NOT (px_word (old ! 2) (old ! 3))) + ucast (px_word (new ! 2) (new ! 3))
      in put_u16 (NOT (ucast (px_fold s2))))"

section \<open>Rewriting\<close>

definition put_at :: "nat \<Rightarrow> byte list \<Rightarrow> byte list \<Rightarrow> byte list" where
  "put_at i bs pkt = take i pkt @ bs @ drop (i + length bs) pkt"

text \<open>The quoted header of an ICMP error.\<close>

definition px_quoted :: "byte list \<Rightarrow> byte list \<Rightarrow> byte list \<Rightarrow> byte list" where
  "px_quoted old addr inner =
     (let ihl = unat (inner ! 0 AND 0x0F) * 4 in
      if drop_bit 4 (inner ! 0) = 4 \<and> 20 \<le> ihl \<and> ihl \<le> length inner \<and> take 4 (drop 12 inner) = old
      then let i1 = put_at 10 [0, 0] (put_at 12 addr inner) in put_at 10 (put_u16 (pxChecksum (take ihl i1))) i1
      else inner)"

definition px_fix_l4 :: "pxIPv4 \<Rightarrow> bool \<Rightarrow> byte list \<Rightarrow> byte list \<Rightarrow> byte list \<Rightarrow> byte list" where
  "px_fix_l4 p src old addr l4 =
     (if px_proto p = 6 then put_at 16 (pxAdjust (take 2 (drop 16 l4)) old addr) l4
      else if px_proto p = 17 then
        (if l4 ! 6 \<noteq> 0 \<or> l4 ! 7 \<noteq> 0 then
           let l = put_at 6 (pxAdjust (take 2 (drop 6 l4)) old addr) l4 in
           if l ! 6 = 0 \<and> l ! 7 = 0 then put_at 6 [0xFF, 0xFF] l else l
         else l4)
      else if px_proto p = 1 then
        (if \<not> src \<and> (px_icmpType p = 3 \<or> px_icmpType p = 11 \<or> px_icmpType p = 12) \<and> 8 + 20 \<le> length l4 then
           let l = put_at 2 [0, 0] (take 8 l4 @ px_quoted old addr (drop 8 l4)) in put_at 2 (put_u16 (pxChecksum l)) l
         else l4)
      else l4)"

definition pxRewrite :: "byte list \<Rightarrow> bool \<Rightarrow> byte list \<Rightarrow> bool \<times> byte list" where
  "pxRewrite pkt src addr =
     (case pxParse pkt of
        None \<Rightarrow> (False, pkt)
      | Some p \<Rightarrow>
          let off = (if src then 12 else 16); old = (if src then px_src p else px_dst p) in
          if old = addr then (True, pkt)
          else
            let p1 = put_at 10 [0, 0] (put_at off addr pkt);
                p2 = put_at 10 (put_u16 (pxChecksum (take (px_ihl p) p1))) p1
            in if \<not> px_firstFrg p then (True, p2)
               else (True, take (px_ihl p) p2 @ px_fix_l4 p src old addr (drop (px_ihl p) p2)))"

section \<open>Sums modulo 65535\<close>

fun word_sum :: "byte list \<Rightarrow> nat" where
  "word_sum (a # b # r) = unat a * 256 + unat b + word_sum r"
| "word_sum [a] = unat a * 256"
| "word_sum [] = 0"

lemma word_sum_bound: "word_sum bs \<le> 65535 * ((length bs + 1) div 2)"
proof (induction bs rule: word_sum.induct)
  case (1 a b r)
  have "unat a \<le> 255" "unat b \<le> 255" using unat_byte_lt [of a] unat_byte_lt [of b] by simp_all
  with 1 show ?case by simp
next
  case (2 a)
  have "unat a \<le> 255" using unat_byte_lt [of a] by simp
  then show ?case by simp
qed simp

lemma word_sum_append: "even (length xs) \<Longrightarrow> word_sum (xs @ ys) = word_sum xs + word_sum ys"
  by (induction xs rule: word_sum.induct) auto

lemma word_sum_put: "length bs = 2 \<Longrightarrow> word_sum bs = unat (be_u16 bs)"
proof -
  assume "length bs = 2"
  then obtain a b where bs: "bs = [a, b]" by (auto simp: length_Suc_conv numeral_2_eq_2)
  have "unat a \<le> 255" "unat b \<le> 255" using unat_byte_lt [of a] unat_byte_lt [of b] by simp_all
  then have "unat (of_nat (unat a * 256 + unat b) :: u16) = unat a * 256 + unat b" unfolding unat_of_nat by simp
  then show ?thesis by (simp add: bs be_u16_def be_nat_def ac_simps)
qed

lemma unat_byte_pair: "unat (push_bit 8 (ucast a) OR ucast b :: 'l::len word) = unat a * 256 + unat b" if "16 \<le> LENGTH('l)" for a b :: byte
proof -
  have lt: "unat a < 256" "unat b < 256" by (rule unat_byte_lt)+
  have "(65536 :: nat) \<le> 2 ^ LENGTH('l)" using power_increasing [OF that, of "2 :: nat"] by simp
  then have "unat (of_nat (unat a * 256) :: 'l word) = unat a * 256" and "unat (of_nat (unat b) :: 'l word) = unat b"
    unfolding unat_of_nat using lt by simp_all
  then have "unat (push_bit 8 (ucast a) :: 'l word) = unat a * 256" and "unat (ucast b :: 'l word) = unat b"
    by (simp_all add: push_bit_eq_mult)
  then have "unat (push_bit 8 (ucast a) OR ucast b :: 'l word) = push_bit 8 (unat a) OR unat b"
    by (simp add: unsigned_or_eq push_bit_eq_mult)
  also have "\<dots> = unat a * 2 ^ 8 + unat b" using lt by (intro shifted_or_add) simp
  finally show ?thesis by simp
qed

lemma unat_px_sum: "unat s + word_sum bs < 2 ^ 32 \<Longrightarrow> unat (px_sum s bs) = unat s + word_sum bs"
proof (induction s bs rule: px_sum.induct)
  case (1 s a b r)
  have "unat (push_bit 8 (ucast a) OR ucast b :: u32) = unat a * 256 + unat b" by (rule unat_byte_pair) simp
  with 1 show ?case by (simp add: unat_word_ariths)
next
  case (2 s a)
  have "unat (push_bit 8 (ucast a) :: u32) = unat a * 256" using unat_byte_pair [of a 0, where 'l = 32] by simp
  with 2 show ?case by (simp add: unat_word_ariths)
qed simp

lemma px_fold_props: "unat (px_fold s) < 65536 \<and> unat (px_fold s) mod 65535 = unat s mod 65535 \<and> (px_fold s = 0 \<longleftrightarrow> s = 0)"
proof (induction s rule: px_fold.induct)
  case (1 s)
  show ?case
  proof (cases "drop_bit 16 s \<noteq> 0")
    case True
    let ?t = "(s AND 0xFFFF) + drop_bit 16 s"
    have "unat s = unat s div 65536 * 65536 + unat s mod 65536" by simp
    then have "unat s = unat s div 65536 * 65535 + unat ?t" unfolding fold_val by linarith
    then have "unat ?t mod 65535 = unat s mod 65535" by (metis mod_mult_self3)
    moreover have "?t \<noteq> 0"
    proof
      assume "?t = 0"
      then have "unat s div 65536 = 0" using fold_val [of s] by simp
      with True show False by (metis u32_high unsigned_eq_0_iff)
    qed
    moreover have "s \<noteq> 0" using True by auto
    ultimately show ?thesis using 1 True by (subst px_fold.simps, subst px_fold.simps, subst px_fold.simps) simp
  next
    case False
    then have "unat s div 65536 = 0" using u32_high [of s] by simp
    then have "unat s < 65536" by simp
    with False show ?thesis by (simp add: px_fold.simps)
  qed
qed

lemma unat_not16: "unat (NOT x) = 65535 - unat x" for x :: u16
proof -
  have "NOT x = - 1 - x" by (simp add: not_eq_complement)
  moreover have "unat (- 1 :: u16) = 65535" by (simp add: unsigned_minus_1_eq_mask mask_eq_exp_minus_1)
  moreover have "x \<le> - 1" by simp
  ultimately show ?thesis by (simp add: unat_sub)
qed

lemma unat_fold16: "unat (ucast (px_fold s) :: u16) = unat (px_fold s)"
  using px_fold_props [of s] by (simp add: unsigned_ucast_eq take_bit_eq_mod)

lemma checksum_closes:
  assumes "word_sum b < 2 ^ 32"
  shows "(unat (pxChecksum b) + word_sum b) mod 65535 = 0"
proof -
  let ?f = "unat (px_fold (px_sum 0 b))"
  have f: "?f < 65536" "?f mod 65535 = word_sum b mod 65535"
    using px_fold_props [of "px_sum 0 b"] unat_px_sum [of 0 b] assms by simp_all
  have "unat (pxChecksum b) = 65535 - ?f" by (simp add: pxChecksum_def unat_not16 unat_fold16)
  with f have "(unat (pxChecksum b) + ?f) mod 65535 = 0" by simp
  with f show ?thesis by (metis mod_add_right_eq)
qed

lemma checksum_zero_iff:
  assumes "word_sum b < 2 ^ 32"
  shows "pxChecksum b = 0 \<longleftrightarrow> word_sum b \<noteq> 0 \<and> word_sum b mod 65535 = 0"
proof -
  let ?f = "unat (px_fold (px_sum 0 b))"
  have s: "unat (px_sum 0 b) = word_sum b" using unat_px_sum [of 0 b] assms by simp
  then have f: "?f < 65536" "?f mod 65535 = word_sum b mod 65535" and "?f = 0 \<longleftrightarrow> px_sum 0 b = 0"
    using px_fold_props [of "px_sum 0 b"] by (simp_all add: unsigned_eq_0_iff)
  moreover have "px_sum 0 b = 0 \<longleftrightarrow> word_sum b = 0" unfolding s [symmetric] by (simp only: unsigned_eq_0_iff)
  ultimately have z: "?f = 0 \<longleftrightarrow> word_sum b = 0" by simp
  have "pxChecksum b = 0 \<longleftrightarrow> unat (pxChecksum b) = 0" by (simp add: unsigned_eq_0_iff)
  also have "\<dots> \<longleftrightarrow> ?f = 65535" using f(1) by (auto simp: pxChecksum_def unat_not16 unat_fold16)
  also have "\<dots> \<longleftrightarrow> ?f \<noteq> 0 \<and> ?f mod 65535 = 0" using f(1) by auto
  finally show ?thesis using f z by simp
qed

lemma unat_u16_le: "unat x \<le> 65535" for x :: u16
  using word_le_nat_alt [of x "- 1"] by (simp add: unsigned_minus_1_eq_mask mask_eq_exp_minus_1)

lemma u16_words: "unat (ucast x :: u32) = unat x" for x :: u16
  using unat_u16_le [of x] by (simp add: unsigned_ucast_eq take_bit_eq_mod)

lemma adjust_value: "\<exists>r. pxAdjust field old new = put_u16 r \<and> (unat r + word_sum new) mod 65535 = (unat (be_u16 field) + word_sum old) mod 65535"
  if l: "length old = 4" "length new = 4"
proof -
  obtain a b c d where old: "old = [a, b, c, d]" using l(1) by (auto simp: length_Suc_conv numeral_eq_Suc)
  obtain e f g h where new: "new = [e, f, g, h]" using l(2) by (auto simp: length_Suc_conv numeral_eq_Suc)
  let ?c = "be_u16 field" and ?o = "px_word a b" and ?p = "px_word c d" and ?m = "px_word e f" and ?n = "px_word g h"
  let ?s = "ucast (NOT ?c) + ucast (NOT ?o) + ucast ?m + ucast (NOT ?p) + ucast ?n :: u32"
  have word: "unat (px_word x y) = unat x * 256 + unat y" for x y unfolding px_word_def by (rule unat_byte_pair) simp
  note bs = unat_u16_le [of ?c] unat_u16_le [of ?o] unat_u16_le [of ?p] unat_u16_le [of ?m] unat_u16_le [of ?n]
  have s: "unat ?s = (65535 - unat ?c) + (65535 - unat ?o) + unat ?m + (65535 - unat ?p) + unat ?n"
    using bs by (simp add: unat_word_ariths u16_words unat_not16)
  define r where "r = (NOT (ucast (px_fold ?s)) :: u16)"
  have f: "unat (px_fold ?s) < 65536" "unat (px_fold ?s) mod 65535 = unat ?s mod 65535" using px_fold_props [of ?s] by simp_all
  have r: "unat r + unat (px_fold ?s) = 65535" using f(1) by (simp add: r_def unat_not16 unat_fold16)
  have "(unat r + unat ?s) mod 65535 = (unat r + unat (px_fold ?s)) mod 65535"
    by (subst (1 2) mod_add_right_eq [symmetric]) (simp only: f(2))
  then have "(unat r + unat ?s) mod 65535 = 0" by (simp only: r mod_self)
  then have "((unat r + unat ?s) + (unat ?c + word_sum old)) mod 65535 = (unat ?c + word_sum old) mod 65535"
    by (subst mod_add_left_eq [symmetric]) (simp only: add_0)
  moreover have "unat r + word_sum new + 3 * 65535 = (unat r + unat ?s) + (unat ?c + word_sum old)"
    using bs by (simp add: s old new word)
  moreover have "(unat r + word_sum new) mod 65535 = (unat r + word_sum new + 3 * 65535) mod 65535"
    by (rule mod_mult_self1 [symmetric])
  ultimately have "(unat r + word_sum new) mod 65535 = (unat ?c + word_sum old) mod 65535" by (simp only:)
  moreover have "pxAdjust field old new = put_u16 r" by (simp add: pxAdjust_def old new r_def Let_def add.assoc)
  ultimately show ?thesis by blast
qed


section \<open>Updates in place\<close>

lemma length_put_at [simp]: "i + length bs \<le> length pkt \<Longrightarrow> length (put_at i bs pkt) = length pkt"
  by (simp add: put_at_def)

lemma nth_put_at:
  "i + length bs \<le> length pkt \<Longrightarrow> j < length pkt \<Longrightarrow>
   put_at i bs pkt ! j = (if i \<le> j \<and> j < i + length bs then bs ! (j - i) else pkt ! j)"
  by (auto simp: put_at_def nth_append min_def)

lemma take_put_at: "i + length bs \<le> n \<Longrightarrow> n \<le> length pkt \<Longrightarrow> take n (put_at i bs pkt) = put_at i bs (take n pkt)"
  by (cases "n = i") (auto simp: put_at_def drop_take min_def)

lemma drop_put_at: "i + length bs \<le> n \<Longrightarrow> n \<le> length pkt \<Longrightarrow> drop n (put_at i bs pkt) = drop n pkt"
  by (simp add: put_at_def)

lemma word_sum_split: "even i \<Longrightarrow> i \<le> length l \<Longrightarrow> word_sum l = word_sum (take i l) + word_sum (drop i l)"
  using word_sum_append [of "take i l" "drop i l"] by (simp add: min_def)

lemma word_sum_put_at:
  assumes "even i" "i + length x \<le> length l" "even (length x)"
  shows "word_sum (put_at i x l) + word_sum (take (length x) (drop i l)) = word_sum l + word_sum x"
proof -
  have "word_sum (put_at i x l) = word_sum (take i l) + (word_sum x + word_sum (drop (i + length x) l))"
  proof -
    have "length (take i l) = i" using assms by simp
    then have "even (length (take i l))" using assms by simp
    then show ?thesis unfolding put_at_def using assms(3) by (simp only: word_sum_append)
  qed
  moreover have "word_sum l = word_sum (take i l) + word_sum (drop i l)" using assms by (intro word_sum_split) auto
  moreover have "word_sum (drop i l) = word_sum (take (length x) (drop i l)) + word_sum (drop (i + length x) l)"
    using word_sum_split [of "length x" "drop i l"] assms by (simp add: add.commute)
  ultimately show ?thesis by simp
qed

lemma word_sum_u16 [simp]: "word_sum (put_u16 w) = unat w"
  using be_u16_put [of w "[]"] by (simp add: word_sum_put)


section \<open>What a rewrite changes\<close>

definition l4_min :: "byte \<Rightarrow> nat" where
  "l4_min proto = (if proto = 6 then 20 else if proto = 17 \<or> proto = 1 then 8 else 0)"

lemma ihl_even: "px_ihl (px_base pkt) \<le> 60" "even (px_ihl (px_base pkt))"
proof -
  have "unat (pkt ! 0 AND 0x0F) \<le> unat (0x0F :: byte)" by (rule word_le_nat_alt [THEN iffD1]) (rule word_and_le1)
  then show "px_ihl (px_base pkt) \<le> 60" by (simp add: px_base_def)
  show "even (px_ihl (px_base pkt))" by (simp add: px_base_def)
qed

lemma parse_facts:
  assumes "pxParse pkt = Some p"
  shows "20 \<le> px_ihl p" "px_ihl p \<le> length pkt" "px_ihl p = px_ihl (px_base pkt)" "drop_bit 4 (pkt ! 0) = 4"
    "px_src p = take 4 (drop 12 pkt)" "px_dst p = take 4 (drop 16 pkt)" "px_proto p = pkt ! 9"
    "px_firstFrg p \<Longrightarrow> px_ihl p + l4_min (px_proto p) \<le> length pkt" "length pkt = unat (be_u16 (drop 2 pkt))"
  using assms by (auto simp: pxParse_def px_transport_def px_base_def Let_def l4_min_def split: if_splits)

lemma be_u16_cong: "length q = length pkt \<Longrightarrow> Suc k < length pkt \<Longrightarrow> q ! k = pkt ! k \<Longrightarrow> q ! Suc k = pkt ! Suc k \<Longrightarrow>
  be_u16 (drop k q) = be_u16 (drop k pkt)"
  by (simp add: be_u16_def numeral_2_eq_2 take_Suc_conv_app_nth Cons_nth_drop_Suc [symmetric])

lemma transport_keeps:
  assumes "px_transport b l4 = Some p"
  shows "px_ihl p = px_ihl b" "px_proto p = px_proto b" "px_firstFrg p = px_firstFrg b" "l4_min (px_proto b) \<le> length l4"
  using assms by (auto simp: px_transport_def l4_min_def split: if_splits)

lemma transport_cong:
  assumes "px_transport b l4 = Some p" "length l4' = length l4"
    and "px_proto b = 6 \<or> px_proto b = 17 \<Longrightarrow> be_u16 (drop 2 l4') = be_u16 (drop 2 l4)"
    and "px_proto b = 6 \<Longrightarrow> l4' ! 13 = l4 ! 13" "px_proto b = 1 \<Longrightarrow> l4' ! 0 = l4 ! 0"
  shows "px_transport (b\<lparr>px_src := x, px_dst := y\<rparr>) l4' = Some (p\<lparr>px_src := x, px_dst := y\<rparr>)"
  using assms by (auto simp: px_transport_def split: if_splits)

lemma parse_cong:
  assumes p: "pxParse pkt = Some p" and len: "length q = length pkt"
    and hd: "\<And>j. j < 10 \<Longrightarrow> q ! j = pkt ! j"
    and l4: "\<And>j. px_firstFrg p \<Longrightarrow> j = 0 \<or> px_proto p \<noteq> 1 \<and> (j = 2 \<or> j = 3) \<or> px_proto p = 6 \<and> j = 13 \<Longrightarrow>
               px_ihl p + j < length pkt \<Longrightarrow> q ! (px_ihl p + j) = pkt ! (px_ihl p + j)"
  shows "pxParse q = Some (p\<lparr>px_src := take 4 (drop 12 q), px_dst := take 4 (drop 16 q)\<rparr>)"
proof -
  note f = parse_facts [OF p]
  have u: "be_u16 (drop 2 q) = be_u16 (drop 2 pkt)" "be_u16 (drop 6 q) = be_u16 (drop 6 pkt)"
    using hd len f(1,2) by (auto intro!: be_u16_cong)
  have base: "px_base q = px_base pkt\<lparr>px_src := take 4 (drop 12 q), px_dst := take 4 (drop 16 q)\<rparr>"
    using hd [of 0] hd [of 9] u by (simp add: px_base_def)
  have ports: "be_u16 (drop 2 (drop (px_ihl p) q)) = be_u16 (drop 2 (drop (px_ihl p) pkt))"
    if "px_firstFrg p" "px_proto p = 6 \<or> px_proto p = 17"
  proof -
    have lt: "px_ihl p + 8 \<le> length pkt" using that f(8) by (auto simp: l4_min_def)
    have "q ! (px_ihl p + 2) = pkt ! (px_ihl p + 2)" using that lt by (intro l4) auto
    moreover have "q ! (px_ihl p + 3) = pkt ! (px_ihl p + 3)" using that lt by (intro l4) auto
    moreover have "px_ihl p + 3 = Suc (px_ihl p + 2)" by simp
    ultimately have "be_u16 (drop (px_ihl p + 2) q) = be_u16 (drop (px_ihl p + 2) pkt)"
      using len lt by (intro be_u16_cong) simp_all
    then show ?thesis by (simp add: add.commute)
  qed
  have ok: "\<not> (length pkt < 20 \<or> drop_bit 4 (pkt ! 0) \<noteq> 4)"
    "\<not> (px_ihl (px_base pkt) < 20 \<or> unat (be_u16 (drop 2 pkt)) < px_ihl (px_base pkt) \<or> unat (be_u16 (drop 2 pkt)) \<noteq> length pkt)"
    using f(1-4) f(9) by auto
  note head = ok len hd [of 0] base u(1)
  show ?thesis
  proof (cases "px_firstFrg (px_base pkt)")
    case False
    then have "p = px_base pkt" using p ok by (simp add: pxParse_def Let_def)
    with False show ?thesis using head by (simp add: pxParse_def Let_def)
  next
    case True
    let ?i = "px_ihl p"
    have t: "px_transport (px_base pkt) (drop ?i pkt) = Some p" using p ok True f(3) by (simp add: pxParse_def Let_def)
    note k = transport_keeps [OF t]
    have "px_transport (px_base q) (drop ?i q) = Some (p\<lparr>px_src := take 4 (drop 12 q), px_dst := take 4 (drop 16 q)\<rparr>)"
      unfolding base
    proof (rule transport_cong [OF t])
      show "be_u16 (drop 2 (drop ?i q)) = be_u16 (drop 2 (drop ?i pkt))" if "px_proto (px_base pkt) = 6 \<or> px_proto (px_base pkt) = 17"
        using ports that True k by simp
      show "drop ?i q ! 13 = drop ?i pkt ! 13" if "px_proto (px_base pkt) = 6"
        using l4 [of 13] that True k f(2) len by (simp add: l4_min_def)
      show "drop ?i q ! 0 = drop ?i pkt ! 0" if "px_proto (px_base pkt) = 1"
        using l4 [of 0] that True k f(2) len by (simp add: l4_min_def)
    qed (use len in simp)
    with True show ?thesis using head f(3) by (simp add: pxParse_def Let_def)
  qed
qed


lemma checksum_set:
  assumes "even i" "i + 2 \<le> length h" "length h \<le> 65535" "word_sum (put_at i [0, 0] h) \<noteq> 0"
  shows "pxChecksum (put_at i (put_u16 (pxChecksum (put_at i [0, 0] h))) (put_at i [0, 0] h)) = 0"
proof -
  let ?z = "put_at i [0, 0] h" let ?c = "put_u16 (pxChecksum ?z)"
  have len: "length ?z = length h" "length (put_at i ?c ?z) = length h" using assms by simp_all
  have bound: "word_sum x < 2 ^ 32" if "length x \<le> 65535" for x
  proof -
    have "word_sum x \<le> 65535 * ((length x + 1) div 2)" by (rule word_sum_bound)
    also have "\<dots> \<le> 65535 * 32768" using that by (intro mult_le_mono2) linarith
    finally show ?thesis by simp
  qed
  have "take 2 (drop i ?z) = [0, 0]" using assms by (simp add: put_at_def)
  then have sum: "word_sum (put_at i ?c ?z) = word_sum ?z + unat (pxChecksum ?z)"
    using word_sum_put_at [of i ?c ?z] assms by simp
  have "(unat (pxChecksum ?z) + word_sum ?z) mod 65535 = 0" using len assms by (intro checksum_closes bound) simp
  then have "word_sum (put_at i ?c ?z) mod 65535 = 0" by (simp only: sum add.commute)
  moreover have "word_sum (put_at i ?c ?z) \<noteq> 0" using assms(4) sum by simp
  ultimately show ?thesis using len assms checksum_zero_iff [OF bound [of "put_at i ?c ?z"]] by simp
qed

lemma word_sum_pos: "h \<noteq> [] \<Longrightarrow> h ! 0 \<noteq> 0 \<Longrightarrow> word_sum h \<noteq> 0"
  by (induction h rule: word_sum.induct) (auto simp: unsigned_eq_0_iff)

lemma length_adjust [simp]: "length (pxAdjust f a b) = 2"
  by (simp add: pxAdjust_def Let_def)

lemma length_quoted: "length addr = 4 \<Longrightarrow> 20 \<le> length inner \<Longrightarrow> length (px_quoted old addr inner) = length inner"
  by (simp add: px_quoted_def Let_def)

lemma fix_l4_length: "length addr = 4 \<Longrightarrow> l4_min (px_proto p) \<le> length l4 \<Longrightarrow> length (px_fix_l4 p src old addr l4) = length l4"
  by (auto simp: px_fix_l4_def l4_min_def length_quoted Let_def)

lemma fix_l4_nth:
  assumes "length addr = 4" "l4_min (px_proto p) \<le> length l4" "j < length l4"
    and "px_proto p = 6 \<Longrightarrow> j < 16" "px_proto p = 17 \<Longrightarrow> j < 6" "px_proto p = 1 \<Longrightarrow> j < 2"
  shows "px_fix_l4 p src old addr l4 ! j = l4 ! j"
proof -
  consider "px_proto p = 6" | "px_proto p = 17" | "px_proto p = 1" | "px_proto p \<noteq> 6" "px_proto p \<noteq> 17" "px_proto p \<noteq> 1" by blast
  then show ?thesis
  proof cases
    case 1
    then show ?thesis using assms by (simp add: px_fix_l4_def l4_min_def nth_put_at)
  next
    case 2
    then show ?thesis using assms by (simp add: px_fix_l4_def l4_min_def nth_put_at Let_def)
  next
    case 3
    then show ?thesis using assms by (simp add: px_fix_l4_def l4_min_def nth_put_at Let_def length_quoted nth_append)
  next
    case 4
    then show ?thesis by (simp add: px_fix_l4_def)
  qed
qed

definition px_with :: "bool \<Rightarrow> byte list \<Rightarrow> pxIPv4 \<Rightarrow> pxIPv4" where
  "px_with src addr p = (if src then p\<lparr>px_src := addr\<rparr> else p\<lparr>px_dst := addr\<rparr>)"

definition px_end :: "bool \<Rightarrow> pxIPv4 \<Rightarrow> byte list" where
  "px_end src p = (if src then px_src p else px_dst p)"

lemma rewrite_cases:
  assumes "pxParse pkt = Some p" "px_end src p \<noteq> addr" "length addr = 4"
  defines "h \<equiv> put_at (if src then 12 else 16) addr pkt"
  defines "p2 \<equiv> put_at 10 (put_u16 (pxChecksum (put_at 10 [0, 0] (take (px_ihl p) h)))) (put_at 10 [0, 0] h)"
  shows "pxRewrite pkt src addr =
    (True, if px_firstFrg p then take (px_ihl p) p2 @ px_fix_l4 p src (px_end src p) addr (drop (px_ihl p) pkt) else p2)"
    and "length p2 = length pkt" "drop (px_ihl p) p2 = drop (px_ihl p) pkt"
proof -
  note f = parse_facts [OF assms(1)]
  show "drop (px_ihl p) p2 = drop (px_ihl p) pkt" "length p2 = length pkt"
    using f(1,2) assms(3) by (simp_all add: p2_def h_def drop_put_at)
  then show "pxRewrite pkt src addr =
    (True, if px_firstFrg p then take (px_ihl p) p2 @ px_fix_l4 p src (px_end src p) addr (drop (px_ihl p) pkt) else p2)"
    using f(1,2) assms by (auto simp: pxRewrite_def px_end_def Let_def p2_def h_def take_put_at)
qed


lemma rewritten:
  assumes p: "pxParse pkt = Some p" and ne: "px_end src p \<noteq> addr" and l: "length addr = 4"
    and rw: "pxRewrite pkt src addr = (ok, q)"
  shows "ok" "length q = length pkt"
    "take (px_ihl p) q = (let h = put_at 10 [0, 0] (put_at (if src then 12 else 16) addr (take (px_ihl p) pkt)) in put_at 10 (put_u16 (pxChecksum h)) h)"
    "drop (px_ihl p) q = (if px_firstFrg p then px_fix_l4 p src (px_end src p) addr (drop (px_ihl p) pkt) else drop (px_ihl p) pkt)"
proof -
  note f = parse_facts [OF p] and c = rewrite_cases [OF p ne l]
  have len: "length (px_fix_l4 p src (px_end src p) addr (drop (px_ihl p) pkt)) = length pkt - px_ihl p" if "px_firstFrg p"
    using fix_l4_length [OF l, of p "drop (px_ihl p) pkt"] f(2,8) that by simp
  show "ok" using c(1) rw by simp
  show "length q = length pkt" using c rw f(2) len by (auto split: if_splits)
  show "take (px_ihl p) q = (let h = put_at 10 [0, 0] (put_at (if src then 12 else 16) addr (take (px_ihl p) pkt)) in put_at 10 (put_u16 (pxChecksum h)) h)"
    using c rw f(1,2) l by (auto simp: Let_def take_put_at split: if_splits)
  show "drop (px_ihl p) q = (if px_firstFrg p then px_fix_l4 p src (px_end src p) addr (drop (px_ihl p) pkt) else drop (px_ihl p) pkt)"
    using c rw f(2) by (auto split: if_splits)
qed

lemma take_drop_prefix: "k + m \<le> n \<Longrightarrow> take m (drop k (take n xs)) = take m (drop k xs)"
  by (simp add: drop_take min_def)

lemma rewritten_header:
  assumes p: "pxParse pkt = Some p" and ne: "px_end src p \<noteq> addr" and l: "length addr = 4"
    and rw: "pxRewrite pkt src addr = (ok, q)"
  shows "j < 10 \<Longrightarrow> q ! j = pkt ! j"
    "take 4 (drop 12 q) = (if src then addr else px_src p)" "take 4 (drop 16 q) = (if src then px_dst p else addr)"
    "pxChecksum (take (px_ihl p) q) = 0"
proof -
  note f = parse_facts [OF p] and r = rewritten [OF p ne l rw]
  let ?h = "put_at (if src then 12 else 16) addr (take (px_ihl p) pkt)"
  have th: "take (px_ihl p) q = put_at 10 (put_u16 (pxChecksum (put_at 10 [0, 0] ?h))) (put_at 10 [0, 0] ?h)"
    using r(3) by (simp add: Let_def)
  have hl: "length ?h = px_ihl p" using f(1,2) l by simp
  have low: "q ! j = pkt ! j" if "j < 10" for j
  proof -
    have "q ! j = take (px_ihl p) q ! j" using that f(1) by simp
    also have "\<dots> = pkt ! j" unfolding th using that f(1,2) hl l by (simp add: nth_put_at)
    finally show ?thesis .
  qed
  then show "j < 10 \<Longrightarrow> q ! j = pkt ! j" .
  have "take 4 (drop 12 q) = take 4 (drop 12 (take (px_ihl p) q))" using f(1) by (simp add: take_drop_prefix)
  also have "\<dots> = (if src then addr else px_src p)" unfolding th using hl f(1,2,5) l by (simp add: put_at_def take_drop_prefix drop_take)
  finally show "take 4 (drop 12 q) = (if src then addr else px_src p)" .
  have "take 4 (drop 16 q) = take 4 (drop 16 (take (px_ihl p) q))" using f(1) by (simp add: take_drop_prefix)
  also have "\<dots> = (if src then px_dst p else addr)" unfolding th using hl f(1,2,6) l by (simp add: put_at_def take_drop_prefix)
  finally show "take 4 (drop 16 q) = (if src then px_dst p else addr)" .
  have "put_at 10 [0, 0] ?h ! 0 = pkt ! 0" using hl f(1,2) l by (simp add: nth_put_at)
  moreover have "pkt ! 0 \<noteq> 0" using f(4) by auto
  ultimately have "word_sum (put_at 10 [0, 0] ?h) \<noteq> 0" using hl f(1) by (intro word_sum_pos) (auto simp: put_at_def)
  moreover have "px_ihl p \<le> 60" using f(3) ihl_even by simp
  ultimately show "pxChecksum (take (px_ihl p) q) = 0" unfolding th using hl f(1) by (intro checksum_set) simp_all
qed

lemma rewritten_parse:
  assumes p: "pxParse pkt = Some p" and ne: "px_end src p \<noteq> addr" and l: "length addr = 4"
    and rw: "pxRewrite pkt src addr = (ok, q)"
  shows "pxParse q = Some (px_with src addr p)"
proof -
  note f = parse_facts [OF p] and r = rewritten [OF p ne l rw] and h = rewritten_header [OF p ne l rw]
  have "pxParse q = Some (p\<lparr>px_src := take 4 (drop 12 q), px_dst := take 4 (drop 16 q)\<rparr>)"
  proof (rule parse_cong [OF p r(2) h(1)])
    fix j
    assume a: "px_firstFrg p" "j = 0 \<or> px_proto p \<noteq> 1 \<and> (j = 2 \<or> j = 3) \<or> px_proto p = 6 \<and> j = 13" "px_ihl p + j < length pkt"
    have "q ! (px_ihl p + j) = drop (px_ihl p) q ! j" using f(2) r(2) by simp
    also have "\<dots> = px_fix_l4 p src (px_end src p) addr (drop (px_ihl p) pkt) ! j" using a(1) r(4) by simp
    also have "\<dots> = drop (px_ihl p) pkt ! j" using a f(8) l by (intro fix_l4_nth) auto
    finally show "q ! (px_ihl p + j) = pkt ! (px_ihl p + j)" using f(2) by simp
  qed simp
  also have "\<dots> = Some (px_with src addr p)" using h(2,3) f(5,6) by (simp add: px_with_def)
  finally show ?thesis .
qed


lemma rewrite_parse:
  assumes "length addr = 4" "pxParse pkt = Some p"
  shows "pxParse (snd (pxRewrite pkt src addr)) = Some (px_with src addr p)"
proof (cases "px_end src p = addr")
  case True
  then show ?thesis using assms(2) by (auto simp: pxRewrite_def px_end_def px_with_def Let_def)
next
  case False
  show ?thesis using rewritten_parse [OF assms(2) False assms(1)] by (metis prod.collapse)
qed

definition transport_sum :: "pxIPv4 \<Rightarrow> byte list \<Rightarrow> nat" where
  "transport_sum p l4 = word_sum (px_src p) + word_sum (px_dst p) + unat (px_proto p) + length l4 + word_sum l4"

lemma fix_l4_sum:
  assumes l: "length addr = 4" "length old = 4" and pr: "px_proto p = 6 \<or> px_proto p = 17 \<and> (l4 ! 6 \<noteq> 0 \<or> l4 ! 7 \<noteq> 0)"
    and min: "l4_min (px_proto p) \<le> length l4"
  shows "(word_sum addr + word_sum (px_fix_l4 p src old addr l4)) mod 65535 = (word_sum old + word_sum l4) mod 65535"
proof -
  have adj: "(word_sum addr + word_sum (put_at i (pxAdjust (take 2 (drop i l4)) old addr) l4)) mod 65535 = (word_sum old + word_sum l4) mod 65535"
    if i: "even i" "i + 2 \<le> length l4" for i
  proof -
    let ?c = "take 2 (drop i l4)"
    obtain r where r: "pxAdjust ?c old addr = put_u16 r" "(unat r + word_sum addr) mod 65535 = (unat (be_u16 ?c) + word_sum old) mod 65535"
      using adjust_value [OF l(2,1)] by blast
    have "length ?c = 2" using i by simp
    then have c: "word_sum ?c = unat (be_u16 ?c)" by (rule word_sum_put)
    have s: "word_sum (put_at i (put_u16 r) l4) + word_sum ?c = word_sum l4 + unat r"
      using word_sum_put_at [of i "put_u16 r" l4] i by simp
    then have rest: "word_sum ?c \<le> word_sum l4 + unat r" "word_sum (put_at i (put_u16 r) l4) = word_sum l4 + unat r - word_sum ?c" by linarith+
    have le: "word_sum ?c \<le> word_sum l4"
      using word_sum_split [of i l4] word_sum_split [of 2 "drop i l4"] i by simp
    then obtain m where m: "word_sum l4 = m + word_sum ?c" by (metis add.commute le_iff_add)
    with rest have "word_sum (put_at i (put_u16 r) l4) = m + unat r" by simp
    then have "(word_sum addr + word_sum (put_at i (put_u16 r) l4)) mod 65535 = (m + (unat r + word_sum addr)) mod 65535" by (simp add: ac_simps)
    also have "\<dots> = (m + (unat (be_u16 ?c) + word_sum old)) mod 65535" by (rule mod_add_cong [OF refl r(2)])
    finally show ?thesis by (simp only: r(1) m c ac_simps)
  qed
  show ?thesis
  proof (cases "px_proto p = 6")
    case True
    then show ?thesis using adj [of 16] min by (simp add: px_fix_l4_def l4_min_def)
  next
    case False
    with pr have u: "px_proto p = 17" "l4 ! 6 \<noteq> 0 \<or> l4 ! 7 \<noteq> 0" by auto
    with min have len: "8 \<le> length l4" by (simp add: l4_min_def)
    let ?l = "put_at 6 (pxAdjust (take 2 (drop 6 l4)) old addr) l4"
    have ones: "word_sum (put_at 6 [0xFF, 0xFF] ?l) mod 65535 = word_sum ?l mod 65535" if "?l ! 6 = 0" "?l ! 7 = 0"
    proof -
      have "take (Suc (Suc 0)) (drop 6 ?l) = [0, 0]" using that len by (auto simp: list_eq_iff_nth_eq less_Suc_eq)
      then show ?thesis using word_sum_put_at [of 6 "[0xFF, 0xFF]" ?l] len by simp
    qed
    have "(word_sum addr + word_sum (px_fix_l4 p src old addr l4)) mod 65535 = (word_sum addr + word_sum ?l) mod 65535"
      using u len ones by (auto simp: px_fix_l4_def Let_def intro: mod_add_cong)
    also have "\<dots> = (word_sum old + word_sum l4) mod 65535" using adj [of 6] len by simp
    finally show ?thesis .
  qed
qed


text \<open>
  C26: The in-place NAT of the public exit: every packet that parses is rewritten (no error, same length); the
  result parses to the same header with only the chosen address replaced, and when anything changed its header
  checksum is right. A packet that does not parse is refused and left as it is.
\<close>

theorem rewrite_sound:
  assumes "length addr = 4"
  shows "case pxParse pkt of
      None \<Rightarrow> pxRewrite pkt src addr = (False, pkt)
    | Some p \<Rightarrow> (case pxRewrite pkt src addr of (ok, q) \<Rightarrow>
        ok \<and> length q = length pkt \<and> pxParse q = Some (px_with src addr p) \<and> (px_end src p = addr \<or> pxChecksum (take (px_ihl p) q) = 0))"
proof (cases "pxParse pkt")
  case None
  then show ?thesis by (simp add: pxRewrite_def)
next
  case (Some p)
  obtain ok q where rw: "pxRewrite pkt src addr = (ok, q)" by fastforce
  show ?thesis
  proof (cases "px_end src p = addr")
    case True
    then have "(ok, q) = (True, pkt)" using rw Some by (simp add: pxRewrite_def px_end_def Let_def split: if_splits)
    then show ?thesis using True Some rw by (auto simp: px_with_def px_end_def split: if_splits)
  next
    case False
    note r = rewritten [OF Some False assms rw] rewritten_header [OF Some False assms rw] rewritten_parse [OF Some False assms rw]
    then show ?thesis using Some rw by simp
  qed
qed

definition sample_udp :: "byte list" where
  "sample_udp = [0x45, 0, 0, 28, 0, 0, 0, 0, 64, 17, 0, 0, 10, 1, 2, 3, 8, 8, 8, 8, 0x30, 0x39, 0, 53, 0, 8, 0x12, 0x34]"

lemma sample_parse: "pxParse sample_udp = Some \<lparr>px_ihl = 20, px_proto = 17, px_src = [10, 1, 2, 3], px_dst = [8, 8, 8, 8],
    px_firstFrg = True, px_dport = 53, px_hasPort = True, px_icmpType = 0, px_tcpFlags = 0\<rparr>"
  by (simp add: sample_udp_def pxParse_def px_base_def px_transport_def be_u16_def be_nat_def Let_def)

lemma sample_length: "length sample_udp = 28"
  by (simp add: sample_udp_def)

theorem rewrite_sound_witness:
  "\<exists>q. pxRewrite sample_udp True [100, 64, 0, 2] = (True, q) \<and> length q = 28 \<and> map_option px_src (pxParse q) = Some [100, 64, 0, 2] \<and> pxChecksum (take 20 q) = 0"
  using rewrite_sound [of "[100, 64, 0, 2]" sample_udp True]
  by (auto simp: sample_parse px_end_def px_with_def sample_length split: prod.splits)

text \<open>
  C27: The incremental update of the TCP or UDP checksum (RFC 1624) agrees with recomputing it: the sum over the
  pseudo-header and the segment, which a receiver tests against zero modulo 65535, is the same before and after
  the rewrite; so a segment that was valid stays valid and one that was corrupt stays corrupt.
\<close>

theorem transport_sum_kept:
  assumes "pxParse pkt = Some p" "length addr = 4" "px_firstFrg p"
    and "px_proto p = 6 \<or> px_proto p = 17 \<and> (drop (px_ihl p) pkt ! 6 \<noteq> 0 \<or> drop (px_ihl p) pkt ! 7 \<noteq> 0)"
  shows "transport_sum (px_with src addr p) (drop (px_ihl p) (snd (pxRewrite pkt src addr))) mod 65535 =
    transport_sum p (drop (px_ihl p) pkt) mod 65535"
proof (cases "px_end src p = addr")
  case True
  then show ?thesis using assms(1) by (auto simp: pxRewrite_def px_end_def px_with_def Let_def)
next
  case False
  obtain ok q where rw: "pxRewrite pkt src addr = (ok, q)" by fastforce
  note f = parse_facts [OF assms(1)] and r = rewritten [OF assms(1) False assms(2) rw]
  let ?l4 = "drop (px_ihl p) pkt" and ?n = "drop (px_ihl p) q"
  have old: "length (px_end src p) = 4" using f(1,2,5,6) by (simp add: px_end_def)
  have "(word_sum addr + word_sum ?n) mod 65535 = (word_sum (px_end src p) + word_sum ?l4) mod 65535"
    using fix_l4_sum [OF assms(2) old assms(4)] f(8) r(4) assms(3) by simp
  moreover have "length ?n = length ?l4" using r(2) by simp
  moreover have "transport_sum (px_with src addr p) ?n = (word_sum (px_end (\<not> src) p) + unat (px_proto p) + length ?n) + (word_sum addr + word_sum ?n)"
    by (simp add: transport_sum_def px_with_def px_end_def)
  moreover have "transport_sum p ?l4 = (word_sum (px_end (\<not> src) p) + unat (px_proto p) + length ?l4) + (word_sum (px_end src p) + word_sum ?l4)"
    by (simp add: transport_sum_def px_end_def)
  ultimately show ?thesis unfolding rw snd_conv by (metis mod_add_right_eq)
qed

lemma sample_checked: "drop 20 sample_udp ! 6 = 0x12"
  by (simp add: sample_udp_def)

theorem transport_sum_kept_witness:
  "\<exists>p. pxParse sample_udp = Some p \<and>
    transport_sum (px_with True [100, 64, 0, 2] p) (drop 20 (snd (pxRewrite sample_udp True [100, 64, 0, 2]))) mod 65535 = 
    transport_sum p (drop 20 sample_udp) mod 65535"
  using transport_sum_kept [OF sample_parse, of "[100, 64, 0, 2]" True] sample_parse
  by (simp add: sample_checked)

end
