(* ===== verification/Exit_Channel.thy ===== *)
theory Exit_Channel
  imports Exit_Packet E2E_Envelope
begin

text \<open>
  The sealed channel of a public-exit session (\<open>client/pubexit_proto.go\<close>): the keys both ends derive, the
  datagrams they seal under a counter, and how they are opened behind a replay window.

  The cryptography is the parameter record \<open>e2e_crypto\<close> of \<open>E2E_Relay\<close>; an AEAD is represented by its key,
  and reading 32 bytes from HKDF and keying ChaCha20-Poly1305 with them cannot fail. \<open>open\<close> releases its
  mutex while it decrypts: it is \<open>px_open_check\<close> up to there and \<open>px_open_commit\<close> after, so that two calls
  may overlap.
\<close>

section \<open>Constants\<close>

definition PktPubExit :: byte where "PktPubExit = 0x20"
definition pxHello :: byte where "pxHello = 1"
definition pxHelloReply :: byte where "pxHelloReply = 2"
definition pxFinish :: byte where "pxFinish = 3"
definition pxData :: byte where "pxData = 4"
definition pxDeny :: byte where "pxDeny = 5"

definition pxInPacket :: byte where "pxInPacket = 1"
definition pxInPing :: byte where "pxInPing = 2"
definition pxInPong :: byte where "pxInPong = 3"
definition pxInAssign :: byte where "pxInAssign = 4"
definition pxInClose :: byte where "pxInClose = 5"

definition pxDenyDisabled :: byte where "pxDenyDisabled = 1"
definition pxDenyFull :: byte where "pxDenyFull = 2"
definition pxDenyQuota :: byte where "pxDenyQuota = 3"
definition pxDenyRate :: byte where "pxDenyRate = 4"
definition pxDenyVersion :: byte where "pxDenyVersion = 5"

definition pxVersion :: byte where "pxVersion = 1"
definition pxHelloSize :: nat where "pxHelloSize = 1400"
definition pxHdrLen :: nat where "pxHdrLen = 2 + 4 + 8"
definition pxMTU :: u16 where "pxMTU = 1280"
definition pxLease :: duration where "pxLease = 6 * hour"
definition pxHandshakeTTL :: duration where "pxHandshakeTTL = 10 * second"
definition pxIdle :: duration where "pxIdle = 3 * minute"

lemmas px_types = PktPubExit_def pxHello_def pxHelloReply_def pxFinish_def pxData_def pxDeny_def
lemmas px_kinds = pxInPacket_def pxInPing_def pxInPong_def pxInAssign_def pxInClose_def

datatype px_error = PxShort | PxAuth | PxRepl

section \<open>Keys\<close>

definition px_derive :: "e2e_crypto \<Rightarrow> byte list \<Rightarrow> byte list \<Rightarrow> byte list \<Rightarrow> string \<Rightarrow> byte list" where
  "px_derive C pqss k binding label = hkdf_key C (pqss @ k) binding (bytes_of label)"

text \<open>The pair is the key to send with and the key to receive with.\<close>

definition pxDeriveKeys ::
  "e2e_crypto \<Rightarrow> bool \<Rightarrow> byte list \<Rightarrow> byte list \<Rightarrow> byte list \<Rightarrow> byte list \<Rightarrow> byte list \<times> byte list" where
  "pxDeriveKeys C initiator c2s s2c binding pqss =
     (let a = px_derive C pqss c2s binding ''apgo-public-exit-v1 client->exit'';
          b = px_derive C pqss s2c binding ''apgo-public-exit-v1 exit->client''
      in if initiator then (a, b) else (b, a))"

section \<open>The channel\<close>

record pxChannel =
  ch_sid :: u32
  ch_send :: "byte list"
  ch_recv :: "byte list"
  ch_sendCtr :: u64
  ch_win :: e2eWindow

definition new_pxChannel :: "u32 \<Rightarrow> byte list \<times> byte list \<Rightarrow> pxChannel" where
  "new_pxChannel sid keys =
     \<lparr>ch_sid = sid, ch_send = fst keys, ch_recv = snd keys, ch_sendCtr = 0, ch_win = new_e2eWindow\<rparr>"

definition pxNonce :: "u64 \<Rightarrow> byte list" where
  "pxNonce ctr = replicate 4 0 @ put_u64 ctr"

definition px_header :: "u32 \<Rightarrow> u64 \<Rightarrow> byte list" where
  "px_header sid ctr = [PktPubExit, pxData] @ put_u32 sid @ put_u64 ctr"

definition px_seal :: "e2e_crypto \<Rightarrow> pxChannel \<Rightarrow> byte \<Rightarrow> byte list \<Rightarrow> byte list \<times> pxChannel" where
  "px_seal C c kind body =
     (let ctr = ch_sendCtr c + 1; out = px_header (ch_sid c) ctr in
      (out @ aead_seal C (ch_send c) (pxNonce ctr) (kind # body) out, c\<lparr>ch_sendCtr := ctr\<rparr>))"

definition px_open_check :: "e2e_crypto \<Rightarrow> pxChannel \<Rightarrow> byte list \<Rightarrow> px_error + (u64 \<times> byte \<times> byte list)" where
  "px_open_check C c dgram =
     (if length dgram < pxHdrLen + 1 + aeadOverhead then Inl PxShort
      else
        let ctr = be_u64 (drop 6 dgram) in
        if \<not> win_ok (ch_win c) ctr then Inl PxRepl
        else case aead_open C (ch_recv c) (pxNonce ctr) (drop pxHdrLen dgram) (take pxHdrLen dgram) of
            None \<Rightarrow> Inl PxAuth
          | Some [] \<Rightarrow> Inl PxAuth
          | Some (kind # body) \<Rightarrow> Inr (ctr, kind, body))"

definition px_open_commit :: "pxChannel \<Rightarrow> u64 \<Rightarrow> bool \<times> pxChannel" where
  "px_open_commit c ctr =
     (if win_ok (ch_win c) ctr then (True, c\<lparr>ch_win := win_mark (ch_win c) ctr\<rparr>) else (False, c))"

definition px_open :: "e2e_crypto \<Rightarrow> pxChannel \<Rightarrow> byte list \<Rightarrow> (px_error + (byte \<times> byte list)) \<times> pxChannel" where
  "px_open C c dgram =
     (case px_open_check C c dgram of
        Inl e \<Rightarrow> (Inl e, c)
      | Inr (ctr, kind, body) \<Rightarrow>
          let (ok, c1) = px_open_commit c ctr in (if ok then Inr (kind, body) else Inl PxRepl, c1))"

definition pxSessionID :: "byte list \<Rightarrow> u32 option" where
  "pxSessionID dgram = (if length dgram < 6 then None else Some (be_u32 (drop 2 dgram)))"

section \<open>The event limiter\<close>

record pxRate =
  rt_rate :: rat
  rt_burst :: rat
  rt_tokens :: rat
  rt_last :: go_time

definition newPxRate :: "go_time \<Rightarrow> rat \<Rightarrow> rat \<Rightarrow> pxRate" where
  "newPxRate now perSec burst = \<lparr>rt_rate = perSec, rt_burst = burst, rt_tokens = burst, rt_last = now\<rparr>"

definition rate_allow :: "pxRate \<Rightarrow> go_time \<Rightarrow> bool \<times> pxRate" where
  "rate_allow r now =
     (let t = rt_tokens r + seconds (time_sub now (rt_last r)) * rt_rate r;
          t = (if t > rt_burst r then rt_burst r else t)
      in if t < 1 then (False, r\<lparr>rt_tokens := t, rt_last := now\<rparr>) else (True, r\<lparr>rt_tokens := t - 1, rt_last := now\<rparr>))"

section \<open>Sealing and opening\<close>

lemma header_length [simp]: "length (px_header sid ctr) = pxHdrLen"
  by (simp add: px_header_def pxHdrLen_def)

lemma header_ctr: "be_u64 (drop 6 (px_header sid ctr @ r)) = ctr"
  by (simp add: px_header_def put_u32_def)

lemma header_sid: "pxSessionID (px_header sid ctr @ r) = Some sid"
  by (simp add: pxSessionID_def px_header_def)

fun px_seal_all :: "e2e_crypto \<Rightarrow> pxChannel \<Rightarrow> (byte \<times> byte list) list \<Rightarrow> byte list list" where
  "px_seal_all C c [] = []"
| "px_seal_all C c ((kind, body) # ms) = (let (d, c1) = px_seal C c kind body in d # px_seal_all C c1 ms)"

text \<open>The receiver is offered datagrams one after the other.\<close>

definition px_open_all :: "e2e_crypto \<Rightarrow> pxChannel \<Rightarrow> byte list list \<Rightarrow> pxChannel" where
  "px_open_all C c ds = foldl (\<lambda>c d. snd (px_open C c d)) c ds"

lemma length_px_seal_all [simp]: "length (px_seal_all C c ms) = length ms"
  by (induction C c ms rule: px_seal_all.induct) (auto simp: px_seal_def Let_def)

lemma nth_px_seal_all:
  "i < length ms \<Longrightarrow> px_seal_all C c ms ! i =
    (let ctr = ch_sendCtr c + of_nat (Suc i); out = px_header (ch_sid c) ctr
     in out @ aead_seal C (ch_send c) (pxNonce ctr) (fst (ms ! i) # snd (ms ! i)) out)"
proof (induction C c ms arbitrary: i rule: px_seal_all.induct)
  case (2 C c kind body ms)
  show ?case
  proof (cases i)
    case 0
    then show ?thesis by (simp add: px_seal_def Let_def)
  next
    case (Suc j)
    then show ?thesis using 2 by (simp add: px_seal_def Let_def ac_simps)
  qed
qed simp

lemma open_sealed:
  assumes "crypto_ok C" "ch_recv b = k"
  shows "px_open C b (px_header sid ctr @ aead_seal C k (pxNonce ctr) (kind # body) (px_header sid ctr)) =
    (if win_ok (ch_win b) ctr then (Inr (kind, body), b\<lparr>ch_win := win_mark (ch_win b) ctr\<rparr>) else (Inl PxRepl, b))"
proof -
  define ct where "ct = aead_seal C k (pxNonce ctr) (kind # body) (px_header sid ctr)"
  define d where "d = px_header sid ctr @ ct"
  have "\<not> length d < pxHdrLen + 1 + aeadOverhead" "be_u64 (drop 6 d) = ctr" "drop pxHdrLen d = ct" "take pxHdrLen d = px_header sid ctr"
    unfolding d_def header_ctr by (simp_all add: ct_def crypto_seal_len [OF assms(1)] aeadOverhead_def)
  moreover have "aead_open C (ch_recv b) (pxNonce ctr) ct (px_header sid ctr) = Some (kind # body)"
    by (simp add: ct_def assms crypto_open_seal)
  ultimately have "px_open C b d =
    (if win_ok (ch_win b) ctr then (Inr (kind, body), b\<lparr>ch_win := win_mark (ch_win b) ctr\<rparr>) else (Inl PxRepl, b))"
    by (simp add: px_open_def px_open_check_def px_open_commit_def Let_def)
  then show ?thesis by (simp only: d_def ct_def)
qed

lemma open_all_window:
  assumes C: "crypto_ok C" and key: "ch_recv b = ch_send a" and "\<forall>i \<in> set js. i < length ms"
  shows "px_open_all C b (map (\<lambda>i. px_seal_all C a ms ! i) js) =
    b\<lparr>ch_win := foldl (\<lambda>w n. if win_ok w n then win_mark w n else w) (ch_win b) (map (\<lambda>i. ch_sendCtr a + of_nat (Suc i)) js)\<rparr>"
  using assms(2,3)
proof (induction js arbitrary: b)
  case Nil
  then show ?case by (simp add: px_open_all_def)
next
  case (Cons i js)
  let ?n = "ch_sendCtr a + of_nat (Suc i)"
  let ?b = "b\<lparr>ch_win := if win_ok (ch_win b) ?n then win_mark (ch_win b) ?n else ch_win b\<rparr>"
  from Cons.prems have i: "i < length ms" by simp
  have "snd (px_open C b (px_seal_all C a ms ! i)) = ?b"
    unfolding nth_px_seal_all [OF i] Let_def using open_sealed [OF C] Cons.prems(1) by simp
  moreover have "px_open_all C ?b (map (\<lambda>i. px_seal_all C a ms ! i) js) =
    ?b\<lparr>ch_win := foldl (\<lambda>w n. if win_ok w n then win_mark w n else w) (ch_win ?b) (map (\<lambda>i. ch_sendCtr a + of_nat (Suc i)) js)\<rparr>"
    by (rule Cons.IH) (use Cons.prems in simp_all)
  ultimately show ?case by (simp add: px_open_all_def)
qed

text \<open>The two ends of a session derive mirrored keys.\<close>

lemma keys_mirror: "pxDeriveKeys C True c2s s2c binding pqss = (snd (pxDeriveKeys C False c2s s2c binding pqss), fst (pxDeriveKeys C False c2s s2c binding pqss))"
  by (simp add: pxDeriveKeys_def Let_def)

text \<open>
  C30: The channel of a public-exit session delivers exactly once. Client and exit derive their keys from the
  same handshake; the client seals any messages; the exit is handed the datagrams in any order, with any losses
  and repetitions. A datagram at most 1023 behind every datagram handed over before it is opened to the very
  message that was sealed exactly if it was not handed over before, and is refused as a replay otherwise.
\<close>

theorem channel_exactly_once:
  fixes c2s s2c binding pqss :: "byte list" and sid :: u32
  assumes "crypto_ok C" "length ms < 2 ^ 64" "\<forall>j \<in> set js. j < length ms \<and> j - i < 1024" "i < length ms"
  defines "client \<equiv> new_pxChannel sid (pxDeriveKeys C True c2s s2c binding pqss)"
    and "exit \<equiv> new_pxChannel sid (pxDeriveKeys C False c2s s2c binding pqss)"
  defines "ds \<equiv> px_seal_all C client ms"
  shows "fst (px_open C (px_open_all C exit (map (\<lambda>j. ds ! j) js)) (ds ! i)) = (if i \<in> set js then Inl PxRepl else Inr (ms ! i))"
proof -
  let ?ctr = "\<lambda>j. of_nat (Suc j) :: u64" and ?off = "\<lambda>w n. if win_ok w n then win_mark w n else w"
  have key: "ch_recv exit = ch_send client" by (simp add: client_def exit_def new_pxChannel_def keys_mirror)
  have c0: "ch_sendCtr client = 0" "ch_win exit = new_e2eWindow" by (simp_all add: client_def exit_def new_pxChannel_def)
  have val: "unat (?ctr j) = Suc j" if "j < length ms" for j
    using that assms(2) by (simp only: unat_of_nat) simp
  have win: "ch_win (px_open_all C exit (map (\<lambda>j. ds ! j) js)) = foldl ?off new_e2eWindow (map ?ctr js)"
    "ch_recv (px_open_all C exit (map (\<lambda>j. ds ! j) js)) = ch_send client"
    unfolding ds_def using open_all_window [OF assms(1) key] assms(3) by (simp_all add: c0 key)
  have "win_ok (foldl ?off new_e2eWindow (map ?ctr js)) (?ctr i) \<longleftrightarrow> ?ctr i \<notin> set (map ?ctr js)"
  proof (rule relay_window.offered_exact)
    fix m
    assume "m \<in> set (map ?ctr js)"
    then obtain j where j: "j \<in> set js" "m = ?ctr j" by auto
    then have "unat m = Suc j" "unat (?ctr i) = Suc i" using val assms(3,4) by auto
    moreover have "j - i < 1024" using j assms(3) by auto
    ultimately show "unat m - unat (?ctr i) < e2eWindowWords * 64" by (simp add: e2eWindowWords_def)
  qed
  moreover have "?ctr i \<in> set (map ?ctr js) \<longleftrightarrow> i \<in> set js"
  proof
    assume "?ctr i \<in> set (map ?ctr js)"
    then obtain j where j: "j \<in> set js" "?ctr i = ?ctr j" by auto
    then have "unat (?ctr i) = unat (?ctr j)" by (simp only:)
    then have "Suc i = Suc j" using val j(1) assms(3,4) by (metis (no_types))
    with j show "i \<in> set js" by simp
  qed auto
  ultimately have ok: "win_ok (foldl ?off new_e2eWindow (map ?ctr js)) (?ctr i) \<longleftrightarrow> i \<notin> set js" by blast
  have "ds ! i = px_header (ch_sid client) (?ctr i) @ aead_seal C (ch_send client) (pxNonce (?ctr i)) (fst (ms ! i) # snd (ms ! i)) (px_header (ch_sid client) (?ctr i))"
    unfolding ds_def nth_px_seal_all [OF assms(4)] Let_def c0 by (simp only: add_0)
  then show ?thesis using open_sealed [OF assms(1) win(2)] ok win(1) by simp
qed


theorem channel_exactly_once_witness:
  "fst (px_open xor_crypto (px_open_all xor_crypto (new_pxChannel 7 (pxDeriveKeys xor_crypto False [1] [2] [3] [4]))
      (map (\<lambda>j. px_seal_all xor_crypto (new_pxChannel 7 (pxDeriveKeys xor_crypto True [1] [2] [3] [4])) [(1, [69]), (2, [])] ! j) [1, 1]))
      (px_seal_all xor_crypto (new_pxChannel 7 (pxDeriveKeys xor_crypto True [1] [2] [3] [4])) [(1, [69]), (2, [])] ! 0)) = Inr (1, [69])"
  using channel_exactly_once [OF xor_crypto_ok, where ms = "[(1, [69]), (2, [])]" and js = "[1, 1]" and i = 0 and sid = 7 and
      c2s = "[1]" and s2c = "[2]" and binding = "[3]" and pqss = "[4]"] by simp

text \<open>Overlapping calls of \<open>open\<close>: whatever was checked before, a counter is committed at most once.\<close>

fun commit_run :: "pxChannel \<Rightarrow> u64 list \<Rightarrow> u64 list" where
  "commit_run c [] = []"
| "commit_run c (n # ns) = (let (ok, c1) = px_open_commit c n in (if ok then [n] else []) @ commit_run c1 ns)"

lemma commits_distinct:
  "relay_window.tracks (ch_win c) A \<Longrightarrow> distinct (commit_run c ns) \<and> set (commit_run c ns) \<inter> A = {}"
proof (induction ns arbitrary: c A)
  case (Cons n ns)
  show ?case
  proof (cases "win_ok (ch_win c) n")
    case True
    have "relay_window.tracks (ch_win (c\<lparr>ch_win := win_mark (ch_win c) n\<rparr>)) (insert n A)"
      using relay_window.tracks_mark [OF Cons.prems True] by simp
    from Cons.IH [OF this] True relay_window.tracks_ok_fresh [OF Cons.prems True] show ?thesis
      by (auto simp: px_open_commit_def)
  next
    case False
    with Cons show ?thesis by (simp add: px_open_commit_def)
  qed
qed simp

section \<open>The event limiter as a token bucket\<close>

definition rate_bucket :: "pxRate \<Rightarrow> tokenBucket" where
  "rate_bucket r = \<lparr>tb_rate = rt_rate r, tb_burst = rt_burst r, tb_tokens = rt_tokens r, tb_lastFill = rt_last r\<rparr>"

lemma rate_is_bucket: "0 < rt_rate r \<Longrightarrow> rate_allow r now = (ok, r') \<Longrightarrow> Allow (rate_bucket r) now 1 = (ok, rate_bucket r')"
  by (auto simp: rate_allow_def Allow_def rate_bucket_def Let_def split: if_splits)

fun rate_run :: "pxRate \<Rightarrow> go_time list \<Rightarrow> nat" where
  "rate_run r [] = 0"
| "rate_run r (t # ts) = (let (ok, r1) = rate_allow r t in (if ok then 1 else 0) + rate_run r1 ts)"

lemma rate_run_bucket: "0 < rt_rate r \<Longrightarrow> int (rate_run r ts) = bucket_run (rate_bucket r) (map (\<lambda>t. (t, 1)) ts)"
proof (induction ts arbitrary: r)
  case (Cons t ts)
  obtain ok r1 where a: "rate_allow r t = (ok, r1)" by fastforce
  then have "rt_rate r1 = rt_rate r" by (auto simp: rate_allow_def Let_def split: if_splits)
  with Cons a rate_is_bucket [OF Cons.prems a] show ?case by simp
qed simp

text \<open>
  The event limiter that guards the exit's handshakes and a client's new flows is a ceiling: over any
  sequence of requests in time order, it grants at most the burst plus the rate times the elapsed seconds.
\<close>

theorem rate_ceiling:
  assumes "0 < perSec" "0 \<le> burst" "sorted (t0 # ts)"
  shows "of_nat (rate_run (newPxRate t0 perSec burst) ts) \<le> burst + perSec * (of_int (last (t0 # ts) - t0) / 1000000000)"
proof -
  let ?b = "rate_bucket (newPxRate t0 perSec burst)"
  have run: "int (rate_run (newPxRate t0 perSec burst) ts) = bucket_run ?b (map (\<lambda>t. (t, 1)) ts)"
    using assms by (intro rate_run_bucket) (simp add: newPxRate_def)
  have "of_int (bucket_run ?b (map (\<lambda>t. (t, 1)) ts)) \<le>
    tb_tokens ?b + tb_rate ?b * (of_int (last (tb_lastFill ?b # map fst (map (\<lambda>t. (t, 1 :: int)) ts)) - tb_lastFill ?b) / 1000000000)"
    using assms by (intro bucket_run_bound) (auto simp: rate_bucket_def newPxRate_def comp_def)
  then show ?thesis using run by (simp add: rate_bucket_def newPxRate_def comp_def flip: run)
qed

theorem rate_ceiling_witness:
  "of_nat (rate_run (newPxRate 0 1 2) [0, 0, 0, 1000000000]) \<le> (3 :: rat)"
  using rate_ceiling [of 1 2 0 "[0, 0, 0, 1000000000]"] by simp

end
