(* ===== verification/Exit_Server.thy ===== *)
theory Exit_Server
  imports Exit_Channel Endpoints
begin

text \<open>
  Being a public exit, \<open>client/pubexit_server.go\<close>: handshakes with strangers, the address pool, the filter on
  what a client sends to the internet and the way back.

  \<open>'hs\<close> is a Noise handshake state; the Noise XX and ML-KEM calls are the parameter record \<open>px_noise\<close>, and
  each reports its errors as \<open>None\<close>. What a call draws from \<open>crypto/rand\<close> is its argument \<open>px_rand\<close>. A
  session is reached by pointer from \<open>sessions\<close> and \<open>byPool\<close>; here \<open>byPool\<close> holds its id. A handler runs
  under one clock reading and is one step; \<open>conn\<close> and \<open>tunIF\<close> are there. What the host reports of itself is
  the argument \<open>px_env\<close>; the NAT set-up of the operating system is an argument of \<open>px_SetEnabled\<close>.
\<close>

section \<open>State\<close>

definition pxDefaultMaxClients :: int where "pxDefaultMaxClients = 16"
definition pxDefaultMaxPerSource :: int where "pxDefaultMaxPerSource = 2"
definition pxDefaultClientBps :: int where "pxDefaultClientBps = 10 * 1000 * 1000 div 8"
definition pxMaxPending :: nat where "pxMaxPending = 256"
definition pxHellosPerSec :: rat where "pxHellosPerSec = 20"
definition pxNewFlowsPerSec :: rat where "pxNewFlowsPerSec = 20"
definition pxNewFlowsBurst :: rat where "pxNewFlowsBurst = 200"
definition pxMaxFlows :: nat where "pxMaxFlows = 4096"
definition pxFlowIdle :: duration where "pxFlowIdle = 2 * minute"
definition pxDefaultBlockedPorts :: "int list" where "pxDefaultBlockedPorts = [25]"

definition pxPoolCandidates :: "(byte list \<times> nat) list" where
  "pxPoolCandidates = [([198, 18, 0, 0], 16), ([198, 19, 0, 0], 16), ([100, 127, 0, 0], 16)]"

type_synonym pxFlowKey = "byte \<times> byte list \<times> u16"

record pxSrvSession =
  sx_ch :: pxChannel
  sx_addr :: udp_addr
  sx_src :: "ip_addr option"
  sx_poolIP :: "byte list"
  sx_created :: go_time
  sx_lastSeen :: go_time
  sx_up :: tokenBucket
  sx_down :: tokenBucket
  sx_newFlows :: pxRate
  sx_flows :: "(pxFlowKey \<times> go_time) list"
  sx_bytesUp :: u64
  sx_bytesDown :: u64

record 'hs pxPending =
  pe_hs :: 'hs
  pe_pqss :: "byte list"
  pe_addr :: udp_addr
  pe_created :: go_time

record 'hs pxServer =
  sv_enabled :: bool
  sv_static :: "byte list"
  sv_limits :: bandwidthLimiter
  sv_pending :: "(u32 \<times> 'hs pxPending) list"
  sv_sessions :: "(u32 \<times> pxSrvSession) list"
  sv_byPool :: "(byte list \<times> u32) list"
  sv_perSource :: "(ip_addr option \<times> int) list"
  sv_pool :: "(byte list \<times> nat) option"
  sv_poolBase :: u32
  sv_poolSize :: u32
  sv_natReady :: bool
  sv_natErr :: string
  sv_maxClients :: int
  sv_maxPerSrc :: int
  sv_clientBps :: int
  sv_blocked :: "u16 list"
  sv_hellos :: pxRate
  sv_selfIPs :: "byte list list option"
  sv_selfSeen :: go_time
  sv_statSessions :: u64
  sv_statDenied :: u64
  sv_statFiltered :: u64
  sv_statThrottled :: u64
  sv_statBytes :: u64

record px_env =
  env_overlay :: "(byte list \<times> nat) option"
  env_ifs :: "iface list"
  env_pub :: string
  env_ip6 :: "string \<Rightarrow> ip_addr option"
  env_dht :: bool
  env_relay :: bool

record 'hs px_noise =
  nz_new :: "byte list \<Rightarrow> byte list \<Rightarrow> 'hs option"
  nz_read1 :: "'hs \<Rightarrow> byte list \<Rightarrow> (byte list \<times> 'hs) option"
  nz_encap :: "byte list \<Rightarrow> byte list \<Rightarrow> (byte list \<times> byte list) option"
  nz_write2 :: "'hs \<Rightarrow> byte list \<Rightarrow> (byte list \<times> 'hs) option"
  nz_read3 :: "'hs \<Rightarrow> byte list \<Rightarrow> (byte list \<times> byte list \<times> byte list) option"

record px_rand =
  rd_noise :: "byte list"
  rd_sids :: "u32 option list"
  rd_alloc :: u32

datatype px_effect = PxSend udp_addr "byte list" | PxTun "byte list"

section \<open>Configuration\<close>

definition blocked_ports :: "int list option \<Rightarrow> u16 list" where
  "blocked_ports ports =
     map of_int (filter (\<lambda>p. 0 < p \<and> p < 65536) (case ports of None \<Rightarrow> pxDefaultBlockedPorts | Some ps \<Rightarrow> ps))"

definition setBlockedPorts :: "int list option \<Rightarrow> 'hs pxServer \<Rightarrow> 'hs pxServer" where
  "setBlockedPorts ports s = s\<lparr>sv_blocked := blocked_ports ports\<rparr>"

definition startPublicExit ::
  "go_time \<Rightarrow> string \<Rightarrow> string \<Rightarrow> string \<Rightarrow> int \<Rightarrow> int \<Rightarrow> string \<Rightarrow> int list option \<Rightarrow> string \<Rightarrow> quotaCounters option \<Rightarrow> 'hs pxServer" where
  "startPublicExit now up down quota days0 maxC perClient ports path file =
     (let days = (if days0 \<le> 0 then 30 else days0); v = parseRate perClient in
      setBlockedPorts ports
       \<lparr>sv_enabled = False, sv_static = [],
        sv_limits = newBandwidthLimiter now (parseRate up) (parseRate down) (parseRate quota) days path file,
        sv_pending = [], sv_sessions = [], sv_byPool = [], sv_perSource = [], sv_pool = None, sv_poolBase = 0, sv_poolSize = 0,
        sv_natReady = False, sv_natErr = [], sv_maxClients = (if maxC > 0 then maxC else pxDefaultMaxClients),
        sv_maxPerSrc = pxDefaultMaxPerSource, sv_clientBps = (if v > 0 then v else pxDefaultClientBps), sv_blocked = [],
        sv_hellos = newPxRate now pxHellosPerSec (pxHellosPerSec * 2), sv_selfIPs = None, sv_selfSeen = 0,
        sv_statSessions = 0, sv_statDenied = 0, sv_statFiltered = 0, sv_statThrottled = 0, sv_statBytes = 0\<rparr>)"

definition publicExitPrereqs :: "px_env \<Rightarrow> string" where
  "publicExitPrereqs E =
     (let missing = (if env_dht E then [] else [''the DHT'']) @ (if env_relay E then [] else [''public relay'']) in
      case missing of
        [] \<Rightarrow> []
      | [a] \<Rightarrow> ''a public exit node must also have '' @ a @ '' turned on''
      | a # b # _ \<Rightarrow> ''a public exit node must also have '' @ a @ '' and '' @ b @ '' turned on'')"

definition nets_overlap :: "byte list \<times> nat \<Rightarrow> byte list \<times> nat \<Rightarrow> bool" where
  "nets_overlap a b \<longleftrightarrow> net_contains a (fst b) \<or> net_contains b (fst a)"

fun v4_of :: "ip_addr \<times> nat \<Rightarrow> (byte list \<times> nat) list" where
  "v4_of (V4 b, ones) = [(b, ones)]"
| "v4_of (V6 b, ones) = []"

definition px_local_nets :: "px_env \<Rightarrow> (byte list \<times> nat) list" where
  "px_local_nets E =
     concat (map (\<lambda>i. concat (map v4_of (if_addrs i))) (env_ifs E)) @ (case env_overlay E of None \<Rightarrow> [] | Some n \<Rightarrow> [n])"

definition pxChoosePool :: "px_env \<Rightarrow> (byte list \<times> nat) option" where
  "pxChoosePool E = List.find (\<lambda>pool. \<not> list_ex (nets_overlap pool) (px_local_nets E)) pxPoolCandidates"

definition inPool :: "'hs pxServer \<Rightarrow> byte list \<Rightarrow> bool" where
  "inPool s ip = (case sv_pool s of None \<Rightarrow> False | Some n \<Rightarrow> net_contains n ip)"

section \<open>Accounting\<close>

definition px_deny :: "udp_addr \<Rightarrow> byte \<Rightarrow> 'hs pxServer \<Rightarrow> px_effect list \<times> 'hs pxServer" where
  "px_deny addr reason s = ([PxSend addr [PktPubExit, pxDeny, reason]], s\<lparr>sv_statDenied := sv_statDenied s + 1\<rparr>)"

definition per_source :: "'hs pxServer \<Rightarrow> ip_addr option \<Rightarrow> int" where
  "per_source s src = (case gget (sv_perSource s) src of None \<Rightarrow> 0 | Some n \<Rightarrow> n)"

definition decSource :: "ip_addr option \<Rightarrow> 'hs pxServer \<Rightarrow> 'hs pxServer" where
  "decSource src s =
     (if per_source s src \<le> 1 then s\<lparr>sv_perSource := gdel src (sv_perSource s)\<rparr>
      else s\<lparr>sv_perSource := gput src (per_source s src - 1) (sv_perSource s)\<rparr>)"

definition incSource :: "ip_addr option \<Rightarrow> 'hs pxServer \<Rightarrow> 'hs pxServer" where
  "incSource src s = s\<lparr>sv_perSource := gput src (per_source s src + 1) (sv_perSource s)\<rparr>"

definition put_session :: "u32 \<Rightarrow> pxSrvSession \<Rightarrow> 'hs pxServer \<Rightarrow> 'hs pxServer" where
  "put_session sid x s = s\<lparr>sv_sessions := gput sid x (sv_sessions s)\<rparr>"

definition px_remove :: "e2e_crypto \<Rightarrow> u32 \<Rightarrow> bool \<Rightarrow> 'hs pxServer \<Rightarrow> px_effect list \<times> 'hs pxServer" where
  "px_remove C sid notify s =
     (case gget (sv_sessions s) sid of
        None \<Rightarrow> ([], s)
      | Some x \<Rightarrow>
          (if notify then [PxSend (sx_addr x) (fst (px_seal C (sx_ch x) pxInClose []))] else [],
           decSource (sx_src x) (s\<lparr>sv_sessions := gdel sid (sv_sessions s), sv_byPool := gdel (sx_poolIP x) (sv_byPool s)\<rparr>)))"

fun px_remove_all :: "e2e_crypto \<Rightarrow> u32 list \<Rightarrow> 'hs pxServer \<Rightarrow> px_effect list \<times> 'hs pxServer" where
  "px_remove_all C [] s = ([], s)"
| "px_remove_all C (sid # ids) s =
     (let (e1, s1) = px_remove C sid True s; (e2, s2) = px_remove_all C ids s1 in (e1 @ e2, s2))"

text \<open>Dropping the half-finished handshakes that satisfy a test.\<close>

fun drop_pending :: "('hs pxPending \<Rightarrow> bool) \<Rightarrow> (u32 \<times> 'hs pxPending) list \<Rightarrow> 'hs pxServer \<Rightarrow> 'hs pxServer" where
  "drop_pending P [] s = s"
| "drop_pending P ((sid, p) # ps) s =
     drop_pending P ps
       (if P p then decSource (ua_IP (pe_addr p)) (s\<lparr>sv_pending := gdel sid (sv_pending s)\<rparr>) else s)"

definition px_closeAll :: "e2e_crypto \<Rightarrow> 'hs pxServer \<Rightarrow> px_effect list \<times> 'hs pxServer" where
  "px_closeAll C s = px_remove_all C (map fst (sv_sessions s)) (drop_pending (\<lambda>p. True) (sv_pending s) s)"


section \<open>Handshakes\<close>

fun new_sid :: "'hs pxServer \<Rightarrow> u32 option list \<Rightarrow> u32 option" where
  "new_sid s [] = None"
| "new_sid s (None # rs) = None"
| "new_sid s (Some i # rs) =
     (if i = 0 then new_sid s rs
      else if gget (sv_pending s) i = None \<and> gget (sv_sessions s) i = None then Some i
      else new_sid s rs)"

definition newSessionID :: "'hs pxServer \<Rightarrow> u32 option list \<Rightarrow> u32 option" where
  "newSessionID s rs = new_sid s (take 8 rs)"

definition onHello ::
  "e2e_crypto \<Rightarrow> 'hs px_noise \<Rightarrow> px_rand \<Rightarrow> go_time \<Rightarrow> byte list \<Rightarrow> udp_addr \<Rightarrow> 'hs pxServer \<Rightarrow> px_effect list \<times> 'hs pxServer" where
  "onHello C N rnd now data raddr s =
     (if length data \<noteq> pxHelloSize then ([], s)
      else if data ! 2 \<noteq> pxVersion then px_deny raddr pxDenyVersion s
      else
        let (ok, h) = rate_allow (sv_hellos s) now; s1 = s\<lparr>sv_hellos := h\<rparr> in
        if \<not> ok then ([], s1\<lparr>sv_statDenied := sv_statDenied s1 + 1\<rparr>)
        else
          let (q, l) = QuotaExceeded (sv_limits s1) now; s2 = s1\<lparr>sv_limits := l\<rparr>; src = ua_IP raddr in
          if q then px_deny raddr pxDenyQuota s2
          else if sv_maxClients s2 \<le> int (length (sv_sessions s2)) \<or> pxMaxPending \<le> length (sv_pending s2) then px_deny raddr pxDenyFull s2
          else if sv_maxPerSrc s2 \<le> per_source s2 src then px_deny raddr pxDenyRate s2
          else
            let n = unat (be_u16 (drop 3 data)) in
            if n = 0 \<or> length data < 5 + n then ([], s2)
            else case nz_new N (rd_noise rnd) (sv_static s2) of
                None \<Rightarrow> ([], s2)
              | Some hs \<Rightarrow> (case nz_read1 N hs (take n (drop 5 data)) of
                  None \<Rightarrow> ([], s2)
                | Some (payload, hs1) \<Rightarrow> (case nz_encap N (rd_noise rnd) payload of
                    None \<Rightarrow> ([], s2)
                  | Some (ct, ss) \<Rightarrow> (case nz_write2 N hs1 (pxVersion # ct) of
                      None \<Rightarrow> ([], s2)
                    | Some (msg2, hs2) \<Rightarrow> (case newSessionID s2 (rd_sids rnd) of
                        None \<Rightarrow> ([], s2)
                      | Some sid \<Rightarrow>
                          let s3 = incSource src (s2\<lparr>sv_pending := gput sid \<lparr>pe_hs = hs2, pe_pqss = ss, pe_addr = raddr, pe_created = now\<rparr> (sv_pending s2)\<rparr>);
                              out = [PktPubExit, pxHelloReply] @ put_u32 sid @ put_u16 (of_nat (length msg2)) @ msg2
                          in (if pxHelloSize \<le> length out then [] else [PxSend raddr out], s3))))))"

definition assignBody :: "pxSrvSession \<Rightarrow> byte list" where
  "assignBody x = take 4 (sx_poolIP x) @ put_u16 pxMTU @ put_u32 (of_int (pxLease div second))"

text \<open>One attempt per host number, starting at a random one.\<close>

fun alloc_loop :: "'hs pxServer \<Rightarrow> u32 \<Rightarrow> u32 \<Rightarrow> nat \<Rightarrow> byte list option" where
  "alloc_loop s start i n =
     (if n = 0 then None
      else
        let out = put_u32 (sv_poolBase s + (2 + (start + i) mod (sv_poolSize s - 1))) in
        if gget (sv_byPool s) out = None then Some out else alloc_loop s start (i + 1) (n - 1))"

declare alloc_loop.simps [simp del]

definition allocLocked :: "u32 \<Rightarrow> 'hs pxServer \<Rightarrow> byte list option" where
  "allocLocked r s =
     (if sv_poolSize s < 3 then None
      else alloc_loop s (r mod (sv_poolSize s - 1)) 0 (unat (sv_poolSize s - 1)))"

text \<open>Sending a sealed message on a session.\<close>

definition px_send_sealed :: "e2e_crypto \<Rightarrow> u32 \<Rightarrow> pxSrvSession \<Rightarrow> udp_addr \<Rightarrow> byte \<Rightarrow> byte list \<Rightarrow> 'hs pxServer \<Rightarrow> px_effect list \<times> 'hs pxServer" where
  "px_send_sealed C sid x addr kind body s =
     (let (d, c) = px_seal C (sx_ch x) kind body in ([PxSend addr d], put_session sid (x\<lparr>sx_ch := c\<rparr>) s))"

definition new_srv_session ::
  "e2e_crypto \<Rightarrow> go_time \<Rightarrow> u32 \<Rightarrow> 'hs pxPending \<Rightarrow> udp_addr \<Rightarrow> byte list \<times> byte list \<times> byte list \<Rightarrow> byte list \<Rightarrow> int \<Rightarrow> pxSrvSession" where
  "new_srv_session C now sid p raddr ks ip bps =
     (case ks of (c2s, s2c, binding) \<Rightarrow>
        \<lparr>sx_ch = new_pxChannel sid (pxDeriveKeys C False c2s s2c binding (pe_pqss p)), sx_addr = raddr, sx_src = ua_IP (pe_addr p),
         sx_poolIP = ip, sx_created = now, sx_lastSeen = now, sx_up = newTokenBucket now bps, sx_down = newTokenBucket now bps,
         sx_newFlows = newPxRate now pxNewFlowsPerSec pxNewFlowsBurst, sx_flows = [], sx_bytesUp = 0, sx_bytesDown = 0\<rparr>)"

definition px_establish :: "e2e_crypto \<Rightarrow> u32 \<Rightarrow> pxSrvSession \<Rightarrow> udp_addr \<Rightarrow> 'hs pxServer \<Rightarrow> px_effect list \<times> 'hs pxServer" where
  "px_establish C sid x raddr s =
     (let s1 = put_session sid x (s\<lparr>sv_byPool := gput (sx_poolIP x) sid (sv_byPool s)\<rparr>);
          s2 = s1\<lparr>sv_statSessions := sv_statSessions s1 + 1, sv_limits := NoteCircuit (sv_limits s1)\<rparr>
      in px_send_sealed C sid x raddr pxInAssign (assignBody x) s2)"

definition onFinish ::
  "e2e_crypto \<Rightarrow> 'hs px_noise \<Rightarrow> px_rand \<Rightarrow> go_time \<Rightarrow> byte list \<Rightarrow> udp_addr \<Rightarrow> 'hs pxServer \<Rightarrow> px_effect list \<times> 'hs pxServer" where
  "onFinish C N rnd now data raddr s =
     (if length data < 8 then ([], s)
      else
        let sid = be_u32 (drop 2 data); n = unat (be_u16 (drop 6 data)) in
        if n = 0 \<or> length data < 8 + n then ([], s)
        else case gget (sv_sessions s) sid of
            Some x \<Rightarrow> if sx_addr x = raddr then px_send_sealed C sid x raddr pxInAssign (assignBody x) s else ([], s)
          | None \<Rightarrow> (case gget (sv_pending s) sid of
              None \<Rightarrow> ([], s)
            | Some p \<Rightarrow>
                let s1 = s\<lparr>sv_pending := gdel sid (sv_pending s)\<rparr>; src = ua_IP (pe_addr p) in
                if pe_addr p \<noteq> raddr \<or> pxHandshakeTTL < time_sub now (pe_created p) then ([], decSource src s1)
                else case nz_read3 N (pe_hs p) (take n (drop 8 data)) of
                    None \<Rightarrow> ([], decSource src s1)
                  | Some ks \<Rightarrow>
                      if sv_maxClients s1 \<le> int (length (sv_sessions s1)) then px_deny raddr pxDenyFull (decSource src s1)
                      else case allocLocked (rd_alloc rnd) s1 of
                          None \<Rightarrow> px_deny raddr pxDenyFull (decSource src s1)
                        | Some ip \<Rightarrow>
                            px_establish C sid (new_srv_session C now sid p raddr ks ip (sv_clientBps s1)) raddr s1))"

definition px_handleHandshake ::
  "e2e_crypto \<Rightarrow> 'hs px_noise \<Rightarrow> px_rand \<Rightarrow> go_time \<Rightarrow> byte list \<Rightarrow> udp_addr \<Rightarrow> 'hs pxServer \<Rightarrow> px_effect list \<times> 'hs pxServer" where
  "px_handleHandshake C N rnd now data raddr s =
     (if \<not> sv_enabled s then
        (if data ! 1 = pxHello \<and> length data = pxHelloSize then px_deny raddr pxDenyDisabled s else ([], s))
      else if data ! 1 = pxHello then onHello C N rnd now data raddr s
      else if data ! 1 = pxFinish then onFinish C N rnd now data raddr s
      else ([], s))"

section \<open>The filter\<close>

definition px_own_ips :: "px_env \<Rightarrow> byte list list" where
  "px_own_ips E =
     concat (map (\<lambda>i. concat (map (\<lambda>a. map fst (v4_of a)) (if_addrs i))) (env_ifs E)) @
     (case split_host_port (env_pub E) of
        None \<Rightarrow> []
      | Some (h, p) \<Rightarrow> (case to4 (parse_ip (env_ip6 E) h) of None \<Rightarrow> [] | Some b \<Rightarrow> [b]))"

definition px_isSelf :: "px_env \<Rightarrow> go_time \<Rightarrow> byte list \<Rightarrow> 'hs pxServer \<Rightarrow> bool \<times> 'hs pxServer" where
  "px_isSelf E now ip s =
     (case sv_selfIPs s of
        Some m \<Rightarrow>
          if minute < time_sub now (sv_selfSeen s) then (ip \<in> set (px_own_ips E), s\<lparr>sv_selfIPs := Some (px_own_ips E), sv_selfSeen := now\<rparr>)
          else (ip \<in> set m, s)
      | None \<Rightarrow> (ip \<in> set (px_own_ips E), s\<lparr>sv_selfIPs := Some (px_own_ips E), sv_selfSeen := now\<rparr>))"

definition in_overlay :: "px_env \<Rightarrow> byte list \<Rightarrow> bool" where
  "in_overlay E ip = (case env_overlay E of None \<Rightarrow> False | Some n \<Rightarrow> net_contains n ip)"

definition pxAllowedDestination :: "px_env \<Rightarrow> go_time \<Rightarrow> pxIPv4 \<Rightarrow> 'hs pxServer \<Rightarrow> bool \<times> 'hs pxServer" where
  "pxAllowedDestination E now p s =
     (if px_ihl p \<noteq> 20 then (False, s)
      else if \<not> pxIsPublicIPv4 (px_dst p) then (False, s)
      else if in_overlay E (px_dst p) then (False, s)
      else
        let (self, s1) = px_isSelf E now (px_dst p) s in
        if self then (False, s1)
        else if px_proto p = 1 \<and> px_firstFrg p \<and> px_icmpType p \<noteq> 8 then (False, s1)
        else if px_proto p \<noteq> 6 \<and> px_proto p \<noteq> 17 \<and> px_proto p \<noteq> 1 then (False, s1)
        else (\<not> (px_hasPort p \<and> px_dport p \<in> set (sv_blocked s1)), s1))"

definition flowAllowed :: "go_time \<Rightarrow> pxIPv4 \<Rightarrow> pxSrvSession \<Rightarrow> bool \<times> pxSrvSession" where
  "flowAllowed now p x =
     (if \<not> px_hasPort p \<and> px_proto p \<noteq> 1 then (True, x)
      else
        let k = (px_proto p, px_dst p, px_dport p) in
        if gget (sx_flows x) k \<noteq> None then (True, x\<lparr>sx_flows := gput k now (sx_flows x)\<rparr>)
        else
          let x1 = (if pxMaxFlows \<le> length (sx_flows x)
                    then x\<lparr>sx_flows := gdrop (\<lambda>_ t. pxFlowIdle < time_sub now t) (sx_flows x)\<rparr> else x) in
          if pxMaxFlows \<le> length (sx_flows x1) then (False, x1)
          else
            let (ok, r) = rate_allow (sx_newFlows x1) now; x2 = x1\<lparr>sx_newFlows := r\<rparr> in
            if ok then (True, x2\<lparr>sx_flows := gput k now (sx_flows x2)\<rparr>) else (False, x2))"

definition fromClient ::
  "px_env \<Rightarrow> go_time \<Rightarrow> u32 \<Rightarrow> pxSrvSession \<Rightarrow> byte list \<Rightarrow> 'hs pxServer \<Rightarrow> px_effect list \<times> 'hs pxServer" where
  "fromClient E now sid x pkt s =
     (case pxParse pkt of
        None \<Rightarrow> ([], s\<lparr>sv_statFiltered := sv_statFiltered s + 1\<rparr>)
      | Some p \<Rightarrow>
          let (allowed, s1) = pxAllowedDestination E now p s in
          if \<not> allowed then ([], s1\<lparr>sv_statFiltered := sv_statFiltered s1 + 1\<rparr>)
          else
            let (fl, x1) = (if px_firstFrg p then flowAllowed now p x else (True, x)) in
            if \<not> fl then ([], put_session sid x1 (s1\<lparr>sv_statFiltered := sv_statFiltered s1 + 1\<rparr>))
            else
              let (u, b) = Allow (sx_up x1) now (int (length pkt)); x2 = x1\<lparr>sx_up := b\<rparr> in
              if \<not> u then ([], put_session sid x2 (s1\<lparr>sv_statThrottled := sv_statThrottled s1 + 1\<rparr>))
              else
                let (v, l) = AllowUp (sv_limits s1) now (int (length pkt)); s2 = s1\<lparr>sv_limits := l\<rparr> in
                if \<not> v then ([], put_session sid x2 (s2\<lparr>sv_statThrottled := sv_statThrottled s2 + 1\<rparr>))
                else
                  let (ok, buf) = pxRewrite pkt True (sx_poolIP x2) in
                  if \<not> ok then ([], put_session sid x2 (s2\<lparr>sv_statFiltered := sv_statFiltered s2 + 1\<rparr>))
                  else ([PxTun buf],
                        put_session sid (x2\<lparr>sx_bytesUp := sx_bytesUp x2 + of_nat (length buf)\<rparr>)
                          (s2\<lparr>sv_statBytes := sv_statBytes s2 + of_nat (length buf)\<rparr>)))"


definition px_handleData ::
  "e2e_crypto \<Rightarrow> px_env \<Rightarrow> go_time \<Rightarrow> u32 \<Rightarrow> byte list \<Rightarrow> udp_addr \<Rightarrow> 'hs pxServer \<Rightarrow> bool \<times> px_effect list \<times> 'hs pxServer" where
  "px_handleData C E now sid data raddr s =
     (case gget (sv_sessions s) sid of
        None \<Rightarrow> (False, [], s)
      | Some x \<Rightarrow>
          (case px_open C (sx_ch x) data of
             (Inl PxRepl, c) \<Rightarrow> (True, [], put_session sid (x\<lparr>sx_ch := c\<rparr>) s)
           | (Inl e, c) \<Rightarrow> (False, [], put_session sid (x\<lparr>sx_ch := c\<rparr>) s)
           | (Inr (kind, body), c) \<Rightarrow>
               let x1 = x\<lparr>sx_ch := c, sx_addr := raddr, sx_lastSeen := now\<rparr>; s1 = put_session sid x1 s in
               (True,
                if kind = pxInPacket then (if sv_enabled s1 then fromClient E now sid x1 body s1 else ([], s1))
                else if kind = pxInPing then (if length body \<le> 64 then px_send_sealed C sid x1 raddr pxInPong body s1 else ([], s1))
                else if kind = pxInClose then px_remove C sid False s1
                else ([], s1))))"

text \<open>Return traffic from the TUN; \<open>True\<close>: the packet was the exit's.\<close>

definition pubExitFromTUN ::
  "e2e_crypto \<Rightarrow> go_time \<Rightarrow> byte list \<Rightarrow> 'hs pxServer \<Rightarrow> bool \<times> px_effect list \<times> 'hs pxServer" where
  "pubExitFromTUN C now pkt s =
     (if length pkt < 20 \<or> drop_bit 4 (pkt ! 0) \<noteq> 4 then (False, [], s)
      else
        let dst = take 4 (drop 16 pkt) in
        if \<not> inPool s dst then (False, [], s)
        else if \<not> sv_enabled s then (True, [], s)
        else case Option.bind (gget (sv_byPool s) dst) (\<lambda>sid. map_option (Pair sid) (gget (sv_sessions s) sid)) of
            None \<Rightarrow> (True, [], s)
          | Some (sid, x) \<Rightarrow>
              if \<not> pxIsPublicIPv4 (take 4 (drop 12 pkt)) then (True, [], s)
              else
                let (d, b) = Allow (sx_down x) now (int (length pkt)); x1 = x\<lparr>sx_down := b\<rparr> in
                if \<not> d then (True, [], put_session sid x1 (s\<lparr>sv_statThrottled := sv_statThrottled s + 1\<rparr>))
                else
                  let (v, l) = AllowDown (sv_limits s) now (int (length pkt)); s1 = s\<lparr>sv_limits := l\<rparr> in
                  if \<not> v then (True, [], put_session sid x1 (s1\<lparr>sv_statThrottled := sv_statThrottled s1 + 1\<rparr>))
                  else
                    let x2 = x1\<lparr>sx_bytesDown := sx_bytesDown x1 + of_nat (length pkt)\<rparr>;
                        s2 = s1\<lparr>sv_statBytes := sv_statBytes s1 + of_nat (length pkt)\<rparr>
                    in (True, px_send_sealed C sid x2 (sx_addr x2) pxInPacket pkt s2))"

section \<open>Switching on and off, housekeeping\<close>

text \<open>\<open>key\<close> is what \<open>pxLoadStatic\<close> returns, \<open>nerr\<close> the error of \<open>setupPublicExitNAT\<close> if any.\<close>

definition px_prepare :: "px_env \<Rightarrow> byte list \<Rightarrow> string option \<Rightarrow> 'hs pxServer \<Rightarrow> string option \<times> 'hs pxServer" where
  "px_prepare E key nerr s =
     (let s1 = (if sv_static s = [] then s\<lparr>sv_static := key\<rparr> else s) in
      if sv_static s1 = [] then (Some ''no public-exit identity key'', s1)
      else
        case (case sv_pool s1 of
                Some n \<Rightarrow> Some s1
              | None \<Rightarrow> map_option (\<lambda>n. s1\<lparr>sv_pool := Some n, sv_poolBase := be_u32 (fst n), sv_poolSize := push_bit (32 - snd n) 1 - 2\<rparr>)
                          (pxChoosePool E)) of
          None \<Rightarrow> (Some ''no free address range for public-exit clients'', s1)
        | Some s2 \<Rightarrow>
            if sv_natReady s2 then (None, s2\<lparr>sv_enabled := True\<rparr>)
            else case nerr of
                Some e \<Rightarrow> (Some (''could not set up internet sharing: '' @ e), s2\<lparr>sv_natErr := e\<rparr>)
              | None \<Rightarrow> (None, s2\<lparr>sv_natReady := True, sv_natErr := [], sv_enabled := True\<rparr>))"

definition px_SetEnabled ::
  "e2e_crypto \<Rightarrow> px_env \<Rightarrow> byte list \<Rightarrow> string option \<Rightarrow> bool \<Rightarrow> 'hs pxServer \<Rightarrow> string option \<times> px_effect list \<times> 'hs pxServer" where
  "px_SetEnabled C E key nerr on s =
     (if \<not> on then
        (None, if sv_enabled s then px_closeAll C (s\<lparr>sv_enabled := False\<rparr>) else ([], s))
      else if sv_enabled s then (None, [], s)
      else if publicExitPrereqs E \<noteq> [] then (Some (publicExitPrereqs E), [], s)
      else let (err, s1) = px_prepare E key nerr s in (err, [], s1))"

definition px_Configure :: "int \<Rightarrow> int \<Rightarrow> int \<Rightarrow> int \<Rightarrow> int \<Rightarrow> 'hs pxServer \<Rightarrow> 'hs pxServer" where
  "px_Configure up down quota maxC perClient s =
     (let s1 = s\<lparr>sv_limits := Configure (sv_limits s) up down quota 0,
                 sv_maxClients := (if maxC > 0 then maxC else sv_maxClients s),
                 sv_clientBps := (if perClient > 0 then perClient else sv_clientBps s)\<rparr>
      in s1\<lparr>sv_sessions := gmap (\<lambda>_ x. x\<lparr>sx_up := SetRate (sx_up x) (sv_clientBps s1), sx_down := SetRate (sx_down x) (sv_clientBps s1)\<rparr>) (sv_sessions s1)\<rparr>)"

definition px_expired :: "go_time \<Rightarrow> pxSrvSession \<Rightarrow> bool" where
  "px_expired now x \<longleftrightarrow> pxIdle < time_sub now (sx_lastSeen x) \<or> pxLease + 10 * minute < time_sub now (sx_created x)"

text \<open>One tick of the janitor.\<close>

definition px_janitor :: "e2e_crypto \<Rightarrow> px_env \<Rightarrow> go_time \<Rightarrow> 'hs pxServer \<Rightarrow> px_effect list \<times> 'hs pxServer" where
  "px_janitor C E now s =
     (let s1 = drop_pending (\<lambda>p. pxHandshakeTTL < time_sub now (pe_created p)) (sv_pending s) s;
          expired = map fst (filter (\<lambda>(_, x). px_expired now x) (sv_sessions s1));
          (e1, s2) = px_remove_all C expired s1
      in if \<not> sv_enabled s2 then (e1, s2)
         else if publicExitPrereqs E \<noteq> [] then
           (let (_, e2, s3) = px_SetEnabled C E [] None False s2 in (e1 @ e2, s3))
         else
           let (q, l) = QuotaExceeded (sv_limits s2) now; s3 = s2\<lparr>sv_limits := l\<rparr> in
           if q then (let (e2, s4) = px_closeAll C s3 in (e1 @ e2, s4)) else (e1, s3))"

section \<open>Control requests\<close>

record publicExitRequest =
  rq_Enabled :: "bool option"
  rq_Up :: "string option"
  rq_Down :: "string option"
  rq_Quota :: "string option"
  rq_MaxClients :: "int option"
  rq_PerClient :: "string option"
  rq_BlockedPorts :: "string option"

definition rate_or :: "int \<Rightarrow> string option \<Rightarrow> int" where
  "rate_or d v = (case v of None \<Rightarrow> d | Some t \<Rightarrow> parseRate t)"

definition parse_ports :: "string \<Rightarrow> int list" where
  "parse_ports t = List.map_filter parse_int64 (filter (\<lambda>f. f \<noteq> []) (concat (map (split_on (CHR '' '')) (split_on (CHR '','') t))))"

definition applyPublicExitRequest ::
  "e2e_crypto \<Rightarrow> px_env \<Rightarrow> go_time \<Rightarrow> byte list \<Rightarrow> string option \<Rightarrow> publicExitRequest \<Rightarrow> 'hs pxServer \<Rightarrow> string option \<times> px_effect list \<times> 'hs pxServer" where
  "applyPublicExitRequest C E now key nerr req s0 =
     (let l = rollPeriodLocked (sv_limits s0) now; s = s0\<lparr>sv_limits := l\<rparr>;
          s1 = px_Configure (rate_or (floor (tb_rate (bw_up l))) (rq_Up req)) (rate_or (floor (tb_rate (bw_down l))) (rq_Down req))
                 (rate_or (quotaBytes l) (rq_Quota req)) (case rq_MaxClients req of None \<Rightarrow> 0 | Some n \<Rightarrow> n) (rate_or 0 (rq_PerClient req)) s;
          s2 = (case rq_BlockedPorts req of None \<Rightarrow> s1 | Some t \<Rightarrow> setBlockedPorts (Some (parse_ports t)) s1)
      in case rq_Enabled req of None \<Rightarrow> (None, [], s2) | Some on \<Rightarrow> px_SetEnabled C E key nerr on s2)"


section \<open>The invariant of the tables\<close>

definition pend_at :: "ip_addr option \<Rightarrow> 'hs pxPending \<Rightarrow> int" where
  "pend_at src p = of_bool (ua_IP (pe_addr p) = src)"

definition sess_at :: "ip_addr option \<Rightarrow> pxSrvSession \<Rightarrow> int" where
  "sess_at src x = of_bool (sx_src x = src)"

definition src_count :: "'hs pxServer \<Rightarrow> ip_addr option \<Rightarrow> int" where
  "src_count s src = gsum (pend_at src) (sv_pending s) + gsum (sess_at src) (sv_sessions s)"

definition count_inv :: "'hs pxServer \<Rightarrow> bool" where
  "count_inv s \<longleftrightarrow> gwf (sv_pending s) \<and> gwf (sv_sessions s) \<and>
     (\<forall>src. per_source s src = src_count s src \<and> src_count s src \<le> sv_maxPerSrc s)"

definition pool_cfg :: "(byte list \<times> nat) option \<Rightarrow> u32 \<Rightarrow> u32 \<Rightarrow> bool" where
  "pool_cfg pool base hosts =
     (case pool of
        None \<Rightarrow> hosts = 0
      | Some n \<Rightarrow> n \<in> set pxPoolCandidates \<and> base = be_u32 (fst n) \<and> hosts = 65534)"

definition pool_inv :: "'hs pxServer \<Rightarrow> bool" where
  "pool_inv s \<longleftrightarrow> gwf (sv_byPool s) \<and>
     (\<forall>ip sid. gget (sv_byPool s) ip = Some sid \<longleftrightarrow> (\<exists>x. gget (sv_sessions s) sid = Some x \<and> sx_poolIP x = ip)) \<and>
     pool_cfg (sv_pool s) (sv_poolBase s) (sv_poolSize s) \<and>
     (\<forall>sid x. gget (sv_sessions s) sid = Some x \<longrightarrow> length (sx_poolIP x) = 4 \<and> inPool s (sx_poolIP x))"

definition id_inv :: "'hs pxServer \<Rightarrow> bool" where
  "id_inv s \<longleftrightarrow>
     (\<forall>sid. gget (sv_pending s) sid = None \<or> gget (sv_sessions s) sid = None) \<and>
     (\<forall>sid x. gget (sv_sessions s) sid = Some x \<longrightarrow> ch_sid (sx_ch x) = sid)"

definition cap_inv :: "int \<Rightarrow> 'hs pxServer \<Rightarrow> bool" where
  "cap_inv M s \<longleftrightarrow> int (length (sv_sessions s)) \<le> M \<and> sv_maxClients s \<le> M"

definition srv_inv :: "int \<Rightarrow> 'hs pxServer \<Rightarrow> bool" where
  "srv_inv M s \<longleftrightarrow> count_inv s \<and> pool_inv s \<and> id_inv s \<and> cap_inv M s"

lemmas srv_inv_defs = srv_inv_def cap_inv_def count_inv_def pool_inv_def id_inv_def src_count_def per_source_def inPool_def

lemma srv_inv_frame [simp]:
  "srv_inv M (s\<lparr>sv_enabled := v1\<rparr>) = srv_inv M s" "srv_inv M (s\<lparr>sv_static := v2\<rparr>) = srv_inv M s" "srv_inv M (s\<lparr>sv_limits := v3\<rparr>) = srv_inv M s"
  "srv_inv M (s\<lparr>sv_natReady := v4\<rparr>) = srv_inv M s" "srv_inv M (s\<lparr>sv_natErr := v5\<rparr>) = srv_inv M s"
  "srv_inv M (s\<lparr>sv_clientBps := v7\<rparr>) = srv_inv M s" "srv_inv M (s\<lparr>sv_blocked := v8\<rparr>) = srv_inv M s" "srv_inv M (s\<lparr>sv_hellos := v9\<rparr>) = srv_inv M s"
  "srv_inv M (s\<lparr>sv_selfIPs := v10\<rparr>) = srv_inv M s" "srv_inv M (s\<lparr>sv_selfSeen := v11\<rparr>) = srv_inv M s" "srv_inv M (s\<lparr>sv_statSessions := v12\<rparr>) = srv_inv M s"
  "srv_inv M (s\<lparr>sv_statDenied := v13\<rparr>) = srv_inv M s" "srv_inv M (s\<lparr>sv_statFiltered := v14\<rparr>) = srv_inv M s" "srv_inv M (s\<lparr>sv_statThrottled := v15\<rparr>) = srv_inv M s"
  "srv_inv M (s\<lparr>sv_statBytes := v16\<rparr>) = srv_inv M s"
  by (simp_all add: srv_inv_defs)

lemma at_nonneg [simp]: "0 \<le> pend_at src p" "0 \<le> sess_at src x"
  by (simp_all add: pend_at_def sess_at_def)

definition same_session :: "pxSrvSession \<Rightarrow> pxSrvSession \<Rightarrow> bool" where
  "same_session x y \<longleftrightarrow> sx_src x = sx_src y \<and> sx_poolIP x = sx_poolIP y \<and> ch_sid (sx_ch x) = ch_sid (sx_ch y)"

lemma inPool_frame [simp]:
  "inPool (put_session sid y s) ip = inPool s ip" "inPool (s\<lparr>sv_pending := ps\<rparr>) ip = inPool s ip" "inPool (s\<lparr>sv_sessions := xs\<rparr>) ip = inPool s ip"
  "inPool (s\<lparr>sv_byPool := bs\<rparr>) ip = inPool s ip" "inPool (s\<lparr>sv_perSource := qs\<rparr>) ip = inPool s ip"
  by (simp_all add: inPool_def put_session_def)

lemma put_session_frame [simp]:
  "sv_pending (put_session sid y s) = sv_pending s" "sv_sessions (put_session sid y s) = gput sid y (sv_sessions s)"
  "sv_byPool (put_session sid y s) = sv_byPool s" "sv_pool (put_session sid y s) = sv_pool s" "sv_poolBase (put_session sid y s) = sv_poolBase s"
  "sv_poolSize (put_session sid y s) = sv_poolSize s" "sv_perSource (put_session sid y s) = sv_perSource s"
  "sv_maxPerSrc (put_session sid y s) = sv_maxPerSrc s" "sv_enabled (put_session sid y s) = sv_enabled s"
  "sv_maxClients (put_session sid y s) = sv_maxClients s" "sv_blocked (put_session sid y s) = sv_blocked s"
  by (simp_all add: put_session_def)

lemma srv_inv_put:
  assumes inv: "srv_inv M s" and x: "gget (sv_sessions s) sid = Some x" and same: "same_session y x"
  shows "srv_inv M (put_session sid y s)"
proof -
  have "gsum (sess_at src) (gput sid y (sv_sessions s)) = gsum (sess_at src) (sv_sessions s)" for src
    using x same by (simp add: gsum_gput sess_at_def same_session_def)
  then have "count_inv (put_session sid y s)" using inv by (simp add: srv_inv_defs put_session_def gwf_gput)
  moreover have "pool_inv (put_session sid y s)" using inv x same
    by (auto simp: srv_inv_def pool_inv_def id_inv_def gomap_simps same_session_def split: if_splits)
  moreover have "id_inv (put_session sid y s)" using inv x same
    by (auto simp: srv_inv_def id_inv_def gomap_simps same_session_def)
  moreover have "cap_inv M (put_session sid y s)" using inv x by (simp add: srv_inv_def cap_inv_def length_gput)
  ultimately show ?thesis by (simp add: srv_inv_def)
qed

lemma per_source_frame [simp]:
  "per_source (s\<lparr>sv_pending := ps\<rparr>) t = per_source s t" "per_source (s\<lparr>sv_sessions := xs\<rparr>) t = per_source s t"
  "per_source (s\<lparr>sv_byPool := bs\<rparr>) t = per_source s t"
  by (simp_all add: per_source_def)

lemma per_source_dec: "per_source (decSource src s) t = (if t = src then (if per_source s src \<le> 1 then 0 else per_source s src - 1) else per_source s t)"
  by (simp add: decSource_def per_source_def gomap_simps split: if_splits)

lemma decSource_frame [simp]:
  "sv_pending (decSource src s) = sv_pending s" "sv_sessions (decSource src s) = sv_sessions s" "sv_byPool (decSource src s) = sv_byPool s"
  "sv_pool (decSource src s) = sv_pool s" "sv_poolBase (decSource src s) = sv_poolBase s" "sv_poolSize (decSource src s) = sv_poolSize s"
  "sv_maxPerSrc (decSource src s) = sv_maxPerSrc s" "sv_enabled (decSource src s) = sv_enabled s" "sv_maxClients (decSource src s) = sv_maxClients s"
  by (simp_all add: decSource_def)

text \<open>Taking one entry of either table out and giving its place back.\<close>

lemma srv_inv_drop_pending:
  assumes inv: "srv_inv M s" and p: "gget (sv_pending s) sid = Some p"
  shows "srv_inv M (decSource (ua_IP (pe_addr p)) (s\<lparr>sv_pending := gdel sid (sv_pending s)\<rparr>))" (is "srv_inv M ?t")
proof -
  from inv have wf: "gwf (sv_pending s)" and cnt: "per_source s src = src_count s src" "src_count s src \<le> sv_maxPerSrc s" for src
    by (auto simp: srv_inv_def count_inv_def)
  have less: "src_count ?t src = src_count s src - pend_at src p" for src
    using gsum_gdel [OF wf, of "pend_at src" sid] p by (simp add: src_count_def)
  have "pend_at src p \<le> gsum (pend_at src) (sv_pending s)" for src by (rule gsum_ge_member [OF wf p]) simp
  moreover have "0 \<le> gsum (sess_at src) (sv_sessions s)" for src by (rule gsum_nonneg) simp
  ultimately have ge: "pend_at src p \<le> src_count s src" for src unfolding src_count_def by (metis add_increasing2)
  have "per_source ?t src = src_count ?t src" for src
    using ge [of src] cnt(1) [of src] less [of src] by (auto simp: per_source_dec pend_at_def)
  then have "count_inv ?t" using inv less cnt(2) by (simp add: srv_inv_def count_inv_def gwf_gdel)
    (metis add_increasing2 at_nonneg(1) diff_le_eq)
  moreover have "pool_inv ?t" using inv by (simp add: srv_inv_def pool_inv_def inPool_def)
  moreover have "id_inv ?t" using inv by (auto simp: srv_inv_def id_inv_def gomap_simps)
  moreover have "cap_inv M ?t" using inv by (simp add: srv_inv_def cap_inv_def)
  ultimately show ?thesis by (simp add: srv_inv_def)
qed


section \<open>The address pool\<close>

definition pool_ip :: "'hs pxServer \<Rightarrow> u32 \<Rightarrow> byte list" where
  "pool_ip s h = put_u32 (sv_poolBase s + (2 + h))"

lemma alloc_some:
  "alloc_loop s start i n = Some ip \<Longrightarrow> 1 < sv_poolSize s \<Longrightarrow>
     \<exists>h < sv_poolSize s - 1. ip = pool_ip s h \<and> gget (sv_byPool s) ip = None"
proof (induction n arbitrary: i)
  case 0
  then show ?case by (simp add: alloc_loop.simps)
next
  case (Suc n)
  have "(start + i) mod (sv_poolSize s - 1) < sv_poolSize s - 1" using Suc.prems(2)
    by (simp add: word_mod_less_divisor word_gt_0)
  with Suc show ?case by (subst (asm) (2) alloc_loop.simps) (auto simp: Let_def pool_ip_def split: if_splits)
qed

lemma alloc_none:
  "alloc_loop s start i n = None \<Longrightarrow> j < n \<Longrightarrow> gget (sv_byPool s) (pool_ip s ((start + (i + of_nat j)) mod (sv_poolSize s - 1))) \<noteq> None"
proof (induction n arbitrary: i j)
  case (Suc n)
  from Suc.prems(1) have used: "gget (sv_byPool s) (pool_ip s ((start + i) mod (sv_poolSize s - 1))) \<noteq> None"
    and rest: "alloc_loop s start (i + 1) n = None"
    by (subst (asm) alloc_loop.simps, simp add: Let_def pool_ip_def split: if_splits)+
  show ?case
  proof (cases j)
    case 0
    with used show ?thesis by simp
  next
    case (Suc k)
    with Suc.IH [OF rest, of k] Suc.prems(2) show ?thesis by (simp add: ac_simps)
  qed
qed simp

lemma unat_base:
  "unat (be_u32 [198, 18, 0, 0] :: u32) = 50706 * 65536" "unat (be_u32 [198, 19, 0, 0] :: u32) = 50707 * 65536"
  "unat (be_u32 [100, 127, 0, 0] :: u32) = 25727 * 65536"
  by (simp_all add: be_u32_def be_nat_def)

lemma pool_cfg_base:
  assumes "pool_cfg (Some n) base hosts"
  shows "\<exists>q. unat base = q * 65536 \<and> q < 65536 \<and> be_nat (fst n) = q * 65536 \<and> snd n = 16 \<and> (q = 50706 \<or> q = 50707 \<or> q = 25727)"
  using assms unat_base by (auto simp: pool_cfg_def pxPoolCandidates_def be_nat_def)

lemma pool_ip_value:
  assumes "pool_cfg (Some n) (sv_poolBase s) (sv_poolSize s)" "h < sv_poolSize s - 1"
  shows "\<exists>q. be_nat (pool_ip s h) = q * 65536 + 2 + unat h \<and> unat h < 65533 \<and> be_nat (fst n) = q * 65536 \<and> snd n = 16 \<and> (q = 50706 \<or> q = 50707 \<or> q = 25727)"
proof -
  obtain q where q: "unat (sv_poolBase s) = q * 65536" "q < 65536" "be_nat (fst n) = q * 65536" "snd n = 16" "q = 50706 \<or> q = 50707 \<or> q = 25727"
    using pool_cfg_base [OF assms(1)] by blast
  have "h < 65533" using assms by (simp add: pool_cfg_def)
  then have h: "unat h < 65533" by (simp add: word_less_nat_alt)
  then have "unat (2 + h) = 2 + unat h" by (simp add: unat_word_ariths)
  then have "unat (sv_poolBase s + (2 + h)) = q * 65536 + 2 + unat h" using q(1,2) h by (simp add: unat_word_ariths)
  with q h show ?thesis by (auto simp: pool_ip_def)
qed

lemma pool_ip_in:
  assumes "pool_cfg (sv_pool s) (sv_poolBase s) (sv_poolSize s)" "h < sv_poolSize s - 1" "sv_pool s \<noteq> None"
  shows "inPool s (pool_ip s h)" "length (pool_ip s h) = 4"
proof -
  from assms(3) obtain n where n: "sv_pool s = Some n" by auto
  obtain q where "be_nat (pool_ip s h) = q * 65536 + 2 + unat h" "unat h < 65533" "be_nat (fst n) = q * 65536" "snd n = 16"
    using pool_ip_value [of n s h] assms n by auto
  then show "inPool s (pool_ip s h)" by (simp add: inPool_def n net_contains_def)
  show "length (pool_ip s h) = 4" by (simp add: pool_ip_def)
qed

lemma pool_ip_inj:
  assumes "pool_cfg (Some n) (sv_poolBase s) (sv_poolSize s)" "h < sv_poolSize s - 1" "h' < sv_poolSize s - 1" "pool_ip s h = pool_ip s h'"
  shows "h = h'"
  using pool_ip_value [OF assms(1,2)] pool_ip_value [OF assms(1,3)] assms(4) by (auto simp: word_unat_eq_iff)

text \<open>No address of the pool belongs to the public internet.\<close>

lemma pool_not_public: "pool_cfg (sv_pool s) base hosts \<Longrightarrow> inPool s ip \<Longrightarrow> \<not> pxIsPublicIPv4 ip"
proof -
  assume cfg: "pool_cfg (sv_pool s) base hosts" and ip: "inPool s ip"
  then obtain n where n: "sv_pool s = Some n" by (auto simp: inPool_def split: option.splits)
  obtain q where q: "be_nat (fst n) = q * 65536" "snd n = 16" "q = 50706 \<or> q = 50707 \<or> q = 25727"
    using pool_cfg_base [of n base hosts] cfg n by auto
  from ip n q have d: "be_nat ip div 65536 = q" by (simp add: inPool_def net_contains_def)
  have "be_nat ip div 131072 = q div 2"
  proof -
    have "be_nat ip div 131072 = be_nat ip div 65536 div 2" by (simp add: div_mult2_eq [symmetric])
    with d show ?thesis by simp
  qed
  moreover have "be_nat ip div 4194304 = q div 64"
  proof -
    have "be_nat ip div 4194304 = be_nat ip div 65536 div 64" by (simp add: div_mult2_eq [symmetric])
    with d show ?thesis by simp
  qed
  ultimately have "net_contains ([198, 18, 0, 0], 15) ip \<or> net_contains ([100, 64, 0, 0], 10) ip" using q(3)
    by (auto simp: net_contains_def be_nat_def)
  then show "\<not> pxIsPublicIPv4 ip" unfolding pxIsPublicIPv4_def pxNonPublic_def by auto
qed


lemma alloc_locked:
  assumes inv: "pool_inv s" and a: "allocLocked r s = Some ip"
  shows "gget (sv_byPool s) ip = None" "inPool s ip" "length ip = 4"
proof -
  have size: "\<not> sv_poolSize s < 3" and loop: "alloc_loop s (r mod (sv_poolSize s - 1)) 0 (unat (sv_poolSize s - 1)) = Some ip"
    using a by (auto simp: allocLocked_def split: if_splits)
  from size have "1 < sv_poolSize s" "sv_poolSize s \<noteq> 0" by (auto simp: word_less_nat_alt)
  then obtain h where h: "h < sv_poolSize s - 1" "ip = pool_ip s h" "gget (sv_byPool s) ip = None" using alloc_some [OF loop] by blast
  moreover from inv have cfg: "pool_cfg (sv_pool s) (sv_poolBase s) (sv_poolSize s)" by (simp add: pool_inv_def)
  moreover have "sv_pool s \<noteq> None" using cfg \<open>sv_poolSize s \<noteq> 0\<close> by (cases "sv_pool s") (simp_all add: pool_cfg_def)
  ultimately show "gget (sv_byPool s) ip = None" "inPool s ip" "length ip = 4" using pool_ip_in by blast+
qed

section \<open>Every operation keeps the invariant\<close>

lemma pool_unique:
  assumes "pool_inv s" "gget (sv_sessions s) sid = Some x" "gget (sv_sessions s) sid' = Some y" "sx_poolIP y = sx_poolIP x"
  shows "sid' = sid"
proof -
  have "gget (sv_byPool s) (sx_poolIP x) = Some sid" "gget (sv_byPool s) (sx_poolIP x) = Some sid'"
    using assms unfolding pool_inv_def by blast+
  then show ?thesis by simp
qed

lemma srv_inv_remove: "srv_inv M s \<Longrightarrow> srv_inv M (snd (px_remove C sid notify s))"
proof (cases "gget (sv_sessions s) sid")
  case None
  then show "srv_inv M s \<Longrightarrow> ?thesis" by (simp add: px_remove_def)
next
  case (Some x)
  assume inv: "srv_inv M s"
  let ?t = "decSource (sx_src x) (s\<lparr>sv_sessions := gdel sid (sv_sessions s), sv_byPool := gdel (sx_poolIP x) (sv_byPool s)\<rparr>)"
  from inv have wf: "gwf (sv_sessions s)" and cnt: "per_source s src = src_count s src" "src_count s src \<le> sv_maxPerSrc s" for src
    by (auto simp: srv_inv_def count_inv_def)
  have less: "src_count ?t src = src_count s src - sess_at src x" for src
    using gsum_gdel [OF wf, of "sess_at src" sid] Some by (simp add: src_count_def)
  have "sess_at src x \<le> gsum (sess_at src) (sv_sessions s)" for src by (rule gsum_ge_member [OF wf Some]) simp
  moreover have "0 \<le> gsum (pend_at src) (sv_pending s)" for src by (rule gsum_nonneg) simp
  ultimately have ge: "sess_at src x \<le> src_count s src" for src unfolding src_count_def by (metis add_increasing)
  have "per_source ?t src = src_count ?t src" for src
    using ge [of src] cnt(1) [of src] less [of src] by (auto simp: per_source_dec sess_at_def)
  moreover have "src_count ?t src \<le> sv_maxPerSrc ?t" for src
    using less [of src] cnt(2) [of src] by (simp add: sess_at_def)
  ultimately have "count_inv ?t" using inv by (simp add: srv_inv_def count_inv_def gwf_gdel)
  moreover have "pool_inv ?t"
  proof -
    from inv have pi: "pool_inv s" by (simp add: srv_inv_def)
    have "gget (gdel (sx_poolIP x) (sv_byPool s)) ip = Some k \<longleftrightarrow> (\<exists>y. gget (gdel sid (sv_sessions s)) k = Some y \<and> sx_poolIP y = ip)" for ip k
    proof -
      have by_pool: "gget (sv_byPool s) ip = Some k \<longleftrightarrow> (\<exists>y. gget (sv_sessions s) k = Some y \<and> sx_poolIP y = ip)" using pi by (simp add: pool_inv_def)
      show ?thesis
      proof (cases "k = sid")
        case True
        with by_pool Some show ?thesis by (auto simp: gget_gdel)
      next
        case False
        then have "sx_poolIP y \<noteq> sx_poolIP x" if "gget (sv_sessions s) k = Some y" for y using pool_unique [OF pi Some that] by blast
        with False by_pool show ?thesis by (auto simp: gget_gdel)
      qed
    qed
    with pi show ?thesis by (auto simp: pool_inv_def gomap_simps gwf_gdel inPool_def)
  qed
  moreover have "id_inv ?t" using inv by (auto simp: srv_inv_def id_inv_def gomap_simps)
  moreover have "cap_inv M ?t" using inv length_gdel_le [of sid "sv_sessions s"] by (simp add: srv_inv_def cap_inv_def)
  ultimately show ?thesis using Some by (simp add: px_remove_def srv_inv_def)
qed

lemma srv_inv_remove_all: "srv_inv M s \<Longrightarrow> srv_inv M (snd (px_remove_all C ids s))"
  by (induction ids arbitrary: s) (simp_all add: case_prod_beta Let_def srv_inv_remove)

lemma srv_inv_drop_all:
  "srv_inv M s \<Longrightarrow> gwf ps \<Longrightarrow> (\<And>sid p. gget ps sid = Some p \<Longrightarrow> gget (sv_pending s) sid = Some p) \<Longrightarrow> srv_inv M (drop_pending P ps s)"
proof (induction P ps s rule: drop_pending.induct)
  case (2 P sid p ps s)
  from 2(2-4) have p: "gget (sv_pending s) sid = Some p" and fresh: "gget ps sid = None" and wf: "gwf ps"
    by (auto simp: gwf_def map_of_eq_None_iff)
  show ?case
    unfolding drop_pending.simps
  proof (rule 2(1))
    show "srv_inv M (if P p then decSource (ua_IP (pe_addr p)) (s\<lparr>sv_pending := gdel sid (sv_pending s)\<rparr>) else s)"
      using 2(2) srv_inv_drop_pending [OF 2(2) p] by simp
    show "gwf ps" by (rule wf)
    fix k q
    assume q: "gget ps k = Some q"
    then have "k \<noteq> sid" using fresh by auto
    with q 2(4) [of k q] show "gget (sv_pending (if P p then decSource (ua_IP (pe_addr p)) (s\<lparr>sv_pending := gdel sid (sv_pending s)\<rparr>) else s)) k = Some q"
      by (simp add: gomap_simps)
  qed
qed simp

lemma srv_inv_pending: "srv_inv M s \<Longrightarrow> srv_inv M (drop_pending P (sv_pending s) s)"
  by (rule srv_inv_drop_all) (auto simp: srv_inv_def count_inv_def)

lemma srv_inv_closeAll: "srv_inv M s \<Longrightarrow> srv_inv M (snd (px_closeAll C s))"
  by (simp add: px_closeAll_def srv_inv_remove_all srv_inv_pending)

lemma seal_sid [simp]: "ch_sid (snd (px_seal C c k b)) = ch_sid c"
  by (simp add: px_seal_def Let_def)

lemma open_sid: "px_open C c d = (r, c') \<Longrightarrow> ch_sid c' = ch_sid c"
  by (auto simp: px_open_def px_open_commit_def split: sum.splits prod.splits if_splits)

lemma srv_inv_send:
  "srv_inv M s \<Longrightarrow> gget (sv_sessions s) sid = Some y \<Longrightarrow> same_session x y \<Longrightarrow> srv_inv M (snd (px_send_sealed C sid x a k b s))"
  unfolding px_send_sealed_def case_prod_beta Let_def snd_conv
  by (rule srv_inv_put [where x = y]) (simp_all add: same_session_def)

lemma new_sid_fresh: "new_sid s rs = Some sid \<Longrightarrow> gget (sv_pending s) sid = None \<and> gget (sv_sessions s) sid = None \<and> sid \<noteq> 0"
  by (induction s rs rule: new_sid.induct) (auto split: if_splits)

lemma srv_inv_deny [simp]: "srv_inv M (snd (px_deny a r s)) = srv_inv M s"
  by (simp add: px_deny_def)

lemma srv_inv_admit:
  assumes inv: "srv_inv M s" and fresh: "gget (sv_pending s) sid = None" "gget (sv_sessions s) sid = None"
    and room: "per_source s (ua_IP (pe_addr p)) < sv_maxPerSrc s"
  shows "srv_inv M (incSource (ua_IP (pe_addr p)) (s\<lparr>sv_pending := gput sid p (sv_pending s)\<rparr>))" (is "srv_inv M ?t")
proof -
  from inv have cnt: "per_source s src = src_count s src" "src_count s src \<le> sv_maxPerSrc s" for src
    by (auto simp: srv_inv_def count_inv_def)
  have more: "src_count ?t src = src_count s src + pend_at src p" for src
    using fresh by (simp add: src_count_def incSource_def gsum_gput)
  have "per_source ?t src = src_count ?t src" for src
    using cnt(1) [of src] more [of src] by (auto simp: incSource_def per_source_def gomap_simps pend_at_def)
  moreover have "src_count ?t src \<le> sv_maxPerSrc ?t" for src
    using cnt [of src] more [of src] room by (auto simp: pend_at_def incSource_def)
  ultimately have "count_inv ?t" using inv by (simp add: srv_inv_def count_inv_def incSource_def gwf_gput)
  moreover have "pool_inv ?t" using inv by (simp add: srv_inv_def pool_inv_def incSource_def)
  moreover have "id_inv ?t" using inv fresh by (auto simp: srv_inv_def id_inv_def incSource_def gomap_simps)
  moreover have "cap_inv M ?t" using inv by (simp add: srv_inv_def cap_inv_def incSource_def)
  ultimately show ?thesis by (simp add: srv_inv_def)
qed


lemma srv_inv_hello:
  assumes inv: "srv_inv M s"
  shows "srv_inv M (snd (onHello C N rnd now data raddr s))"
proof -
  obtain ok h where h: "rate_allow (sv_hellos s) now = (ok, h)" by fastforce
  define s1 where "s1 = s\<lparr>sv_hellos := h\<rparr>"
  obtain q l where q: "QuotaExceeded (sv_limits s1) now = (q, l)" by fastforce
  define s2 where "s2 = s1\<lparr>sv_limits := l\<rparr>"
  have i2: "srv_inv M s1" "srv_inv M s2" using inv by (simp_all add: s2_def s1_def)
  have adm: "srv_inv M (incSource (ua_IP raddr) (s2\<lparr>sv_pending := gput sid \<lparr>pe_hs = hs, pe_pqss = ss, pe_addr = raddr, pe_created = now\<rparr> (sv_pending s2)\<rparr>))"
    if "newSessionID s2 rs = Some sid" "per_source s2 (ua_IP raddr) < sv_maxPerSrc s2" for sid hs ss rs
    using srv_inv_admit [OF i2(2), of sid "\<lparr>pe_hs = hs, pe_pqss = ss, pe_addr = raddr, pe_created = now\<rparr>"] new_sid_fresh [of s2 "take 8 rs" sid] that
    by (simp add: newSessionID_def)
  show ?thesis
    unfolding onHello_def
    using inv i2 adm
    by (auto simp: h q Let_def simp flip: s1_def s2_def split: if_splits option.splits prod.splits)
qed

lemma srv_inv_new_session:
  assumes inv: "srv_inv M s" and p: "gget (sv_pending s) sid = Some p" and a: "allocLocked r (s\<lparr>sv_pending := gdel sid (sv_pending s)\<rparr>) = Some ip"
    and x: "sx_src x = ua_IP (pe_addr p)" "sx_poolIP x = ip" "ch_sid (sx_ch x) = sid"
    and room: "int (length (sv_sessions s)) < sv_maxClients s"
  shows "srv_inv M (put_session sid x (s\<lparr>sv_pending := gdel sid (sv_pending s), sv_byPool := gput ip sid (sv_byPool s)\<rparr>))" (is "srv_inv M ?t")
proof -
  from inv p have none: "gget (sv_sessions s) sid = None" unfolding srv_inv_def id_inv_def by (metis option.distinct(1))
  from inv have wf: "gwf (sv_pending s)" by (simp add: srv_inv_def count_inv_def)
  have "pool_inv (s\<lparr>sv_pending := gdel sid (sv_pending s)\<rparr>)" using inv by (simp add: srv_inv_def pool_inv_def)
  note free = alloc_locked [OF this a, simplified]
  have "src_count ?t src = src_count s src" for src
    using gsum_gdel [OF wf, of "pend_at src" sid] p none x by (simp add: src_count_def gsum_gput pend_at_def sess_at_def)
  moreover have "per_source ?t src = per_source s src" for src by (simp add: per_source_def)
  ultimately have "count_inv ?t" using inv by (simp add: srv_inv_def count_inv_def gwf_gput gwf_gdel)
  moreover have "pool_inv ?t"
  proof -
    from inv have pi: "pool_inv s" by (simp add: srv_inv_def)
    have "gget (gput ip sid (sv_byPool s)) i = Some k \<longleftrightarrow> (\<exists>y. gget (gput sid x (sv_sessions s)) k = Some y \<and> sx_poolIP y = i)" for i k
    proof -
      have "gget (sv_byPool s) i = Some k \<longleftrightarrow> (\<exists>y. gget (sv_sessions s) k = Some y \<and> sx_poolIP y = i)" using pi by (simp add: pool_inv_def)
      then show ?thesis using none free(1) x by (cases "i = ip"; cases "k = sid") (auto simp: gomap_simps)
    qed
    with pi free x show ?thesis by (auto simp: pool_inv_def gomap_simps gwf_gput inPool_def)
  qed
  moreover have "id_inv ?t" using inv x by (auto simp: srv_inv_def id_inv_def gomap_simps)
  moreover have "cap_inv M ?t" using inv none room by (simp add: srv_inv_def cap_inv_def length_gput)
  ultimately show ?thesis by (simp add: srv_inv_def)
qed

lemma srv_inv_establish:
  assumes inv: "srv_inv M s" and p: "gget (sv_pending s) sid = Some p" and a: "allocLocked r (s\<lparr>sv_pending := gdel sid (sv_pending s)\<rparr>) = Some ip"
    and x: "sx_src x = ua_IP (pe_addr p)" "sx_poolIP x = ip" "ch_sid (sx_ch x) = sid"
    and room: "int (length (sv_sessions s)) < sv_maxClients s"
  shows "srv_inv M (snd (px_establish C sid x raddr (s\<lparr>sv_pending := gdel sid (sv_pending s)\<rparr>)))"
proof -
  let ?t = "put_session sid x (s\<lparr>sv_pending := gdel sid (sv_pending s), sv_byPool := gput ip sid (sv_byPool s)\<rparr>)"
  have "srv_inv M (snd (px_send_sealed C sid x raddr k b (?t\<lparr>sv_statSessions := m, sv_limits := l\<rparr>)))" for k b m l
    by (rule srv_inv_send [where y = x]) (use srv_inv_new_session [OF assms] in \<open>simp_all add: same_session_def gomap_simps\<close>)
  then show ?thesis by (simp add: px_establish_def Let_def x(2))
qed

lemma srv_inv_finish:
  assumes inv: "srv_inv M s"
  shows "srv_inv M (snd (onFinish C N rnd now data raddr s))"
proof -
  let ?sid = "be_u32 (drop 2 data)"
  show ?thesis
  proof (cases "gget (sv_sessions s) ?sid")
    case (Some x)
    have "srv_inv M (snd (px_send_sealed C ?sid x raddr pxInAssign (assignBody x) s))"
      by (rule srv_inv_send [OF inv Some]) (simp add: same_session_def)
    with Some inv show ?thesis by (simp add: onFinish_def Let_def)
  next
    case None
    show ?thesis
    proof (cases "gget (sv_pending s) ?sid")
      case None
      with \<open>gget (sv_sessions s) ?sid = None\<close> inv show ?thesis by (simp add: onFinish_def Let_def)
    next
      case (Some p)
      let ?s1 = "s\<lparr>sv_pending := gdel ?sid (sv_pending s)\<rparr>"
      note drop = srv_inv_drop_pending [OF inv Some]
      have new: "srv_inv M (snd (px_establish C ?sid (new_srv_session C now ?sid p raddr ks ip bps) raddr ?s1))"
        if al: "allocLocked r ?s1 = Some ip" and room: "int (length (sv_sessions s)) < sv_maxClients s" for ip r ks bps
        by (rule srv_inv_establish [OF inv Some al _ _ _ room]) (simp_all add: new_srv_session_def new_pxChannel_def split: prod.splits)
      show ?thesis
        unfolding onFinish_def Let_def using None Some inv drop new by (auto split: option.split)
    qed
  qed
qed


lemma px_isSelf_frame:
  "px_isSelf E now ip s = (b, s1) \<Longrightarrow> srv_inv M s1 = srv_inv M s \<and> sv_sessions s1 = sv_sessions s \<and> sv_blocked s1 = sv_blocked s \<and>
    (\<exists>m. sv_selfIPs s1 = Some m \<and> time_sub now (sv_selfSeen s1) \<le> minute \<and> (b \<longleftrightarrow> ip \<in> set m))"
  by (auto simp: px_isSelf_def time_sub_def duration_defs min_duration_def max_duration_def split: option.splits if_splits)

definition internet_only :: "px_env \<Rightarrow> u16 list \<Rightarrow> pxIPv4 \<Rightarrow> bool" where
  "internet_only E blocked p \<longleftrightarrow>
     px_ihl p = 20 \<and> pxIsPublicIPv4 (px_dst p) \<and> \<not> in_overlay E (px_dst p) \<and>
     (px_proto p = 6 \<or> px_proto p = 17 \<or> px_proto p = 1 \<and> (px_firstFrg p \<longrightarrow> px_icmpType p = 8)) \<and>
     (px_hasPort p \<longrightarrow> px_dport p \<notin> set blocked)"

definition not_self :: "go_time \<Rightarrow> 'hs pxServer \<Rightarrow> byte list \<Rightarrow> bool" where
  "not_self now s ip \<longleftrightarrow> (\<exists>m. sv_selfIPs s = Some m \<and> time_sub now (sv_selfSeen s) \<le> minute \<and> ip \<notin> set m)"

lemma allowed_frame:
  assumes "pxAllowedDestination E now p s = (b, s1)"
  shows "srv_inv M s1 = srv_inv M s" "sv_sessions s1 = sv_sessions s"
    "b \<Longrightarrow> internet_only E (sv_blocked s) p \<and> not_self now s1 (px_dst p)"
proof -
  obtain self t where t: "px_isSelf E now (px_dst p) s = (self, t)" by fastforce
  note f = px_isSelf_frame [OF t]
  show "srv_inv M s1 = srv_inv M s" "sv_sessions s1 = sv_sessions s"
    using assms f by (auto simp: pxAllowedDestination_def t Let_def split: if_splits)
  assume b
  with assms have c: "px_ihl p = 20" "pxIsPublicIPv4 (px_dst p)" "\<not> in_overlay E (px_dst p)" "\<not> self" "s1 = t"
    "\<not> (px_proto p = 1 \<and> px_firstFrg p \<and> px_icmpType p \<noteq> 8)" "px_proto p = 6 \<or> px_proto p = 17 \<or> px_proto p = 1"
    "\<not> (px_hasPort p \<and> px_dport p \<in> set (sv_blocked t))"
    by (auto simp: pxAllowedDestination_def t Let_def split: if_splits)
  show "internet_only E (sv_blocked s) p \<and> not_self now s1 (px_dst p)"
    using c f by (auto simp: internet_only_def not_self_def)
qed

lemma flow_frame: "flowAllowed now p x = (b, x1) \<Longrightarrow> same_session x1 x"
  by (auto simp: flowAllowed_def same_session_def Let_def split: if_splits prod.splits)

lemma same_session_trans: "same_session x y \<Longrightarrow> same_session y z \<Longrightarrow> same_session x z"
  by (simp add: same_session_def)

lemma same_session_fields [simp]:
  "same_session (x\<lparr>sx_up := b\<rparr>) y = same_session x y" "same_session (x\<lparr>sx_down := b\<rparr>) y = same_session x y"
  "same_session (x\<lparr>sx_bytesUp := n\<rparr>) y = same_session x y" "same_session (x\<lparr>sx_bytesDown := n\<rparr>) y = same_session x y"
  "same_session (x\<lparr>sx_lastSeen := t\<rparr>) y = same_session x y" "same_session (x\<lparr>sx_addr := a\<rparr>) y = same_session x y"
  by (simp_all add: same_session_def)

lemma fromClient_step:
  assumes inv: "srv_inv M s" and x: "gget (sv_sessions s) sid = Some x" and r: "fromClient E now sid x pkt s = (effs, t)"
  shows "srv_inv M t"
    "e \<in> set effs \<Longrightarrow> \<exists>p q. e = PxTun q \<and> pxParse q = Some p \<and> px_src p = sx_poolIP x \<and> internet_only E (sv_blocked s) p \<and> not_self now t (px_dst p)"
proof -
  have "srv_inv M t \<and> (e \<in> set effs \<longrightarrow> (\<exists>p q. e = PxTun q \<and> pxParse q = Some p \<and> px_src p = sx_poolIP x \<and> internet_only E (sv_blocked s) p \<and> not_self now t (px_dst p)))"
  proof (cases "pxParse pkt")
    case None
    with r inv show ?thesis by (auto simp: fromClient_def)
  next
    case (Some p)
    obtain al s1 where al: "pxAllowedDestination E now p s = (al, s1)" by fastforce
    note a = allowed_frame [OF al]
    have i1: "srv_inv M s1" "gget (sv_sessions s1) sid = Some x" using a inv x by simp_all
    show ?thesis
    proof (cases al)
      case False
      with r Some al i1 show ?thesis by (auto simp: fromClient_def)
    next
      case True
      obtain fl x1 where fl: "(if px_firstFrg p then flowAllowed now p x else (True, x)) = (fl, x1)" by fastforce
      have sx1: "same_session x1 x" using fl flow_frame by (auto simp: same_session_def split: if_splits)
      obtain u b where u: "Allow (sx_up x1) now (int (length pkt)) = (u, b)" by fastforce
      obtain v l where v: "AllowUp (sv_limits s1) now (int (length pkt)) = (v, l)" by fastforce
      obtain ok q where q: "pxRewrite pkt True (sx_poolIP x1) = (ok, q)" by fastforce
      have put: "srv_inv M (put_session sid y s2)" if "same_session y x" "srv_inv M s2" "sv_sessions s2 = sv_sessions s1" for y s2
        by (rule srv_inv_put [OF that(2), where x = x]) (use that i1 in simp_all)
      have "srv_inv M t" using r Some al True fl u v q sx1 i1
        by (auto simp: fromClient_def Let_def intro!: put split: if_splits)
      moreover have "\<exists>p q. e = PxTun q \<and> pxParse q = Some p \<and> px_src p = sx_poolIP x \<and> internet_only E (sv_blocked s) p \<and> not_self now t (px_dst p)"
        if "e \<in> set effs"
      proof -
        have e: "e = PxTun q" "not_self now t (px_dst p) = not_self now s1 (px_dst p)" using that r Some al True fl u v q
          by (auto simp: fromClient_def Let_def not_self_def put_session_def split: if_splits)
        have "length (sx_poolIP x1) = 4" using inv x sx1 by (auto simp: srv_inv_def pool_inv_def same_session_def)
        then have "pxParse q = Some (px_with True (sx_poolIP x) p)" using rewrite_parse [of "sx_poolIP x1" pkt p True] Some q sx1 by (simp add: same_session_def)
        moreover have "internet_only E (sv_blocked s) (px_with True (sx_poolIP x) p)" using a(3) True by (simp add: internet_only_def px_with_def)
        ultimately show ?thesis using e a(3) True by (auto simp: px_with_def)
      qed
      ultimately show ?thesis by blast
    qed
  qed
  then show "srv_inv M t"
    "e \<in> set effs \<Longrightarrow> \<exists>p q. e = PxTun q \<and> pxParse q = Some p \<and> px_src p = sx_poolIP x \<and> internet_only E (sv_blocked s) p \<and> not_self now t (px_dst p)"
    by blast+
qed


lemma handleData_inv:
  assumes inv: "srv_inv M s" and r: "px_handleData C E now sid data raddr s = (b, effs, t)"
  shows "srv_inv M t"
    "PxTun q \<in> set effs \<Longrightarrow> \<exists>p x. gget (sv_sessions s) sid = Some x \<and> pxParse q = Some p \<and> px_src p = sx_poolIP x \<and>
      internet_only E (sv_blocked s) p \<and> not_self now t (px_dst p)"
proof -
  have "srv_inv M t \<and> (PxTun q \<in> set effs \<longrightarrow> (\<exists>p x. gget (sv_sessions s) sid = Some x \<and> pxParse q = Some p \<and> px_src p = sx_poolIP x \<and>
      internet_only E (sv_blocked s) p \<and> not_self now t (px_dst p)))"
  proof (cases "gget (sv_sessions s) sid")
    case None
    with r inv show ?thesis by (simp add: px_handleData_def)
  next
    case (Some x)
    obtain res c where o1: "px_open C (sx_ch x) data = (res, c)" by fastforce
    have sid: "ch_sid c = ch_sid (sx_ch x)" by (rule open_sid [OF o1])
    have put: "srv_inv M (put_session sid y s)" if "same_session y x" for y by (rule srv_inv_put [OF inv Some that])
    show ?thesis
    proof (cases res)
      case (Inl e)
      with r Some o1 put [of "x\<lparr>sx_ch := c\<rparr>"] sid show ?thesis
        by (cases e) (auto simp: px_handleData_def same_session_def)
    next
      case (Inr kb)
      obtain kind body where kb: "kb = (kind, body)" by fastforce
      define x1 where "x1 = x\<lparr>sx_ch := c, sx_addr := raddr, sx_lastSeen := now\<rparr>"
      let ?s1 = "put_session sid x1 s"
      have same: "same_session x1 x" "sx_poolIP x1 = sx_poolIP x" using sid by (simp_all add: x1_def same_session_def)
      have i1: "srv_inv M ?s1" "gget (sv_sessions ?s1) sid = Some x1" using put same by (simp_all add: gomap_simps)
      have et: "(effs, t) = (if kind = pxInPacket then (if sv_enabled ?s1 then fromClient E now sid x1 body ?s1 else ([], ?s1))
                else if kind = pxInPing then (if length body \<le> 64 then px_send_sealed C sid x1 raddr pxInPong body ?s1 else ([], ?s1))
                else if kind = pxInClose then px_remove C sid False ?s1
                else ([], ?s1))"
      proof -
        have "(True, if kind = pxInPacket then (if sv_enabled ?s1 then fromClient E now sid x1 body ?s1 else ([], ?s1))
                else if kind = pxInPing then (if length body \<le> 64 then px_send_sealed C sid x1 raddr pxInPong body ?s1 else ([], ?s1))
                else if kind = pxInClose then px_remove C sid False ?s1
                else ([], ?s1)) = (b, effs, t)"
          using r unfolding px_handleData_def by (simp only: Some o1 Inr kb option.case sum.case prod.case Let_def x1_def)
        then show ?thesis by (simp only: prod.inject)
      qed
      show ?thesis
      proof (cases "kind = pxInPacket \<and> sv_enabled ?s1")
        case True
        with et have f: "fromClient E now sid x1 body ?s1 = (effs, t)" by simp
        show ?thesis using fromClient_step [OF i1 f] Some same(2) by fastforce
      next
        case False
        have snd_inv: "srv_inv M (snd (px_send_sealed C sid x1 raddr pxInPong body ?s1))"
          by (rule srv_inv_send [OF i1]) (simp add: same_session_def)
        have "srv_inv M t"
        proof -
          have "t = snd (effs, t)" by simp
          also have "srv_inv M \<dots>" unfolding et using False i1(1) snd_inv srv_inv_remove [OF i1(1)] by simp
          finally show ?thesis by simp
        qed
        moreover have "PxTun q \<notin> set effs"
        proof -
          have "effs = fst (effs, t)" by simp
          also have "PxTun q \<notin> set \<dots>" unfolding et using False
            by (simp add: px_send_sealed_def px_remove_def Let_def split: prod.splits option.splits)
          finally show ?thesis by simp
        qed
        ultimately show ?thesis by blast
      qed
    qed
  qed
  then show "srv_inv M t" "PxTun q \<in> set effs \<Longrightarrow> \<exists>p x. gget (sv_sessions s) sid = Some x \<and> pxParse q = Some p \<and> px_src p = sx_poolIP x \<and>
      internet_only E (sv_blocked s) p \<and> not_self now t (px_dst p)" by blast+
qed

lemma fromTUN_inv:
  assumes inv: "srv_inv M s" and r: "pubExitFromTUN C now pkt s = (b, effs, t)"
  shows "srv_inv M t"
    "e \<in> set effs \<Longrightarrow> sv_enabled s \<and> pxIsPublicIPv4 (take 4 (drop 12 pkt)) \<and>
      (\<exists>sid x d c. gget (sv_sessions s) sid = Some x \<and> sx_poolIP x = take 4 (drop 16 pkt) \<and>
         e = PxSend (sx_addr x) d \<and> px_seal C (sx_ch x) pxInPacket pkt = (d, c))"
proof -
  let ?dst = "take 4 (drop 16 pkt)" and ?P = "\<lambda>sid. map_option (Pair sid) (gget (sv_sessions s) sid)"
  have put: "srv_inv M (put_session sid y s2)" if "same_session y x" "srv_inv M s2" "sv_sessions s2 = sv_sessions s" "gget (sv_sessions s) sid = Some x" for sid y s2 x
    by (rule srv_inv_put [OF that(2), where x = x]) (use that in simp_all)
  have snd_inv: "srv_inv M (snd (px_send_sealed C sid y a k bd s2))" if "same_session y x" "srv_inv M s2" "sv_sessions s2 = sv_sessions s" "gget (sv_sessions s) sid = Some x" for sid y s2 x a k bd
    by (rule srv_inv_send [OF that(2), where y = x]) (use that in simp_all)
  have "srv_inv M t \<and> (e \<in> set effs \<longrightarrow> sv_enabled s \<and> pxIsPublicIPv4 (take 4 (drop 12 pkt)) \<and>
      (\<exists>sid x d c. gget (sv_sessions s) sid = Some x \<and> sx_poolIP x = ?dst \<and> e = PxSend (sx_addr x) d \<and> px_seal C (sx_ch x) pxInPacket pkt = (d, c)))"
  proof (cases "Option.bind (gget (sv_byPool s) ?dst) ?P")
    case None
    with r inv show ?thesis by (auto simp: pubExitFromTUN_def Let_def split: if_splits)
  next
    case (Some sx)
    obtain sid x where sx: "sx = (sid, x)" by fastforce
    with Some have bp: "gget (sv_byPool s) ?dst = Some sid" and x: "gget (sv_sessions s) sid = Some x" by (auto simp: bind_eq_Some_conv)
    have pip: "sx_poolIP x = ?dst" using inv bp x unfolding srv_inv_def pool_inv_def by (metis option.inject)
    obtain d b1 where d: "Allow (sx_down x) now (int (length pkt)) = (d, b1)" by fastforce
    obtain v l where v: "AllowDown (sv_limits s) now (int (length pkt)) = (v, l)" by fastforce
    have ss: "same_session x x" by (simp add: same_session_def)
    have "srv_inv M t" using r Some sx d v inv ss x
      by (auto simp: pubExitFromTUN_def Let_def intro!: put snd_inv split: if_splits prod.splits dest!: arg_cong [where f = snd])
    moreover obtain d1 c1 where sl: "px_seal C (sx_ch x) pxInPacket pkt = (d1, c1)" by fastforce
    moreover have "e \<in> set effs \<longrightarrow> sv_enabled s \<and> pxIsPublicIPv4 (take 4 (drop 12 pkt)) \<and> e = PxSend (sx_addr x) d1"
      using r Some sx d v sl by (auto simp: pubExitFromTUN_def Let_def px_send_sealed_def split: if_splits)
    ultimately show ?thesis using x pip by blast
  qed
  then show "srv_inv M t"
    "e \<in> set effs \<Longrightarrow> sv_enabled s \<and> pxIsPublicIPv4 (take 4 (drop 12 pkt)) \<and>
      (\<exists>sid x d c. gget (sv_sessions s) sid = Some x \<and> sx_poolIP x = take 4 (drop 16 pkt) \<and>
         e = PxSend (sx_addr x) d \<and> px_seal C (sx_ch x) pxInPacket pkt = (d, c))" by blast+
qed


section \<open>Runs of the server\<close>

text \<open>The server half of \<open>handlePubExitPacket\<close>.\<close>

definition px_server_packet ::
  "e2e_crypto \<Rightarrow> 'hs px_noise \<Rightarrow> px_env \<Rightarrow> px_rand \<Rightarrow> go_time \<Rightarrow> byte list \<Rightarrow> udp_addr \<Rightarrow> 'hs pxServer \<Rightarrow> px_effect list \<times> 'hs pxServer" where
  "px_server_packet C N E rnd now data raddr s =
     (if length data < 2 then ([], s)
      else if data ! 1 = pxHello \<or> data ! 1 = pxFinish then px_handleHandshake C N rnd now data raddr s
      else if data ! 1 = pxData then
        (case pxSessionID data of None \<Rightarrow> ([], s) | Some sid \<Rightarrow> snd (px_handleData C E now sid data raddr s))
      else ([], s))"

datatype px_input = PxDatagram px_rand "byte list" udp_addr | PxFromTUN "byte list" | PxTick
  | PxRequest "byte list" "string option" publicExitRequest

type_synonym px_event = "px_env \<times> go_time \<times> px_input"

fun px_step :: "e2e_crypto \<Rightarrow> 'hs px_noise \<Rightarrow> px_event \<Rightarrow> 'hs pxServer \<Rightarrow> px_effect list \<times> 'hs pxServer" where
  "px_step C N (E, now, PxDatagram rnd data raddr) s = px_server_packet C N E rnd now data raddr s"
| "px_step C N (E, now, PxFromTUN pkt) s = snd (pubExitFromTUN C now pkt s)"
| "px_step C N (E, now, PxTick) s = px_janitor C E now s"
| "px_step C N (E, now, PxRequest key nerr req) s = snd (applyPublicExitRequest C E now key nerr req s)"

lemma choose_pool: "pxChoosePool E = Some n \<Longrightarrow> pool_cfg (Some n) (be_u32 (fst n)) (push_bit (32 - snd n) 1 - 2)"
  by (auto simp: pxChoosePool_def pool_cfg_def pxPoolCandidates_def split: if_splits)

lemma prepare_inv: "srv_inv M s \<Longrightarrow> srv_inv M (snd (px_prepare E key nerr s))"
proof -
  assume inv: "srv_inv M s"
  define s1 where "s1 = (if sv_static s = [] then s\<lparr>sv_static := key\<rparr> else s)"
  have i1: "srv_inv M s1" using inv by (simp add: s1_def)
  have "srv_inv M (s1\<lparr>sv_pool := Some n, sv_poolBase := be_u32 (fst n), sv_poolSize := push_bit (32 - snd n) 1 - 2\<rparr>)"
    if "sv_pool s1 = None" "pxChoosePool E = Some n" for n
  proof -
    have none: "gget (sv_sessions s1) sid = None" for sid
      using i1 that(1) unfolding srv_inv_def pool_inv_def inPool_def by (cases "gget (sv_sessions s1) sid") auto
    then show ?thesis using i1 choose_pool [OF that(2)]
      by (simp add: srv_inv_def count_inv_def pool_inv_def id_inv_def cap_inv_def src_count_def per_source_def)
  qed
  with i1 show ?thesis by (auto simp: px_prepare_def Let_def simp flip: s1_def split: option.split)
qed

lemma setEnabled_inv: "srv_inv M s \<Longrightarrow> srv_inv M (snd (snd (px_SetEnabled C E key nerr on s)))"
  by (simp add: px_SetEnabled_def srv_inv_closeAll case_prod_beta Let_def prepare_inv)

lemma gmap_inv:
  assumes inv: "srv_inv M s" and f: "\<And>k x. same_session (f k x) x"
  shows "srv_inv M (s\<lparr>sv_sessions := gmap f (sv_sessions s)\<rparr>)"
proof -
  have "gsum (sess_at src) (gmap f m) = gsum (sess_at src) m" for src m
    using f by (induction m) (auto simp: gsum_def gmap_def sess_at_def same_session_def)
  moreover have "length (gmap f m) = length m" for m by (simp add: gmap_def)
  ultimately show ?thesis using inv f
    by (auto simp: srv_inv_def count_inv_def pool_inv_def id_inv_def cap_inv_def src_count_def gget_gmap gwf_gmap same_session_def)
qed

lemma configure_inv:
  assumes "srv_inv M s" "maxC \<le> M"
  shows "srv_inv M (px_Configure up down quota maxC perClient s)"
proof -
  have "srv_inv M (s\<lparr>sv_maxClients := if maxC > 0 then maxC else sv_maxClients s\<rparr>)"
    using assms by (simp add: srv_inv_defs)
  then have "srv_inv M (s\<lparr>sv_limits := l, sv_maxClients := (if maxC > 0 then maxC else sv_maxClients s), sv_clientBps := b\<rparr>)" for l b
    by (simp add: srv_inv_defs)
  then show ?thesis unfolding px_Configure_def Let_def by (intro gmap_inv) (simp_all add: same_session_def)
qed

lemma px_janitor_inv: "srv_inv M s \<Longrightarrow> srv_inv M (snd (px_janitor C E now s))"
proof -
  assume inv: "srv_inv M s"
  define s1 where "s1 = drop_pending (\<lambda>p. pxHandshakeTTL < time_sub now (pe_created p)) (sv_pending s) s"
  define s2 where "s2 = snd (px_remove_all C (map fst (filter (\<lambda>(_, x). px_expired now x) (sv_sessions s1))) s1)"
  have i: "srv_inv M s2" unfolding s2_def s1_def by (intro srv_inv_remove_all srv_inv_pending inv)
  then show ?thesis
    by (simp add: px_janitor_def Let_def case_prod_beta setEnabled_inv srv_inv_closeAll flip: s1_def s2_def)
qed

definition input_ok :: "int \<Rightarrow> px_event \<Rightarrow> bool" where
  "input_ok M e = (case snd (snd e) of PxRequest _ _ req \<Rightarrow> (case rq_MaxClients req of None \<Rightarrow> True | Some n \<Rightarrow> n \<le> M) | _ \<Rightarrow> True)"

lemma px_packet_inv:
  assumes inv: "srv_inv M s"
  shows "srv_inv M (snd (px_server_packet C N E rnd now data raddr s))"
proof -
  have "srv_inv M (snd (px_handleHandshake C N rnd now data raddr s))"
    using inv srv_inv_hello [OF inv] srv_inv_finish [OF inv] by (simp add: px_handleHandshake_def)
  moreover have "srv_inv M (snd (snd (px_handleData C E now sid data raddr s)))" for sid
    using handleData_inv(1) [OF inv, of C E now sid data raddr] by (metis prod.collapse)
  ultimately show ?thesis using inv by (simp add: px_server_packet_def split: option.split)
qed

lemma step_keeps:
  assumes inv: "srv_inv M s" and ok: "input_ok M e" and M: "0 \<le> M"
  shows "srv_inv M (snd (px_step C N e s))"
proof -
  obtain E now inp where e: "e = (E, now, inp)" by (cases e)
  show ?thesis
  proof (cases inp)
    case (PxDatagram rnd data raddr)
    show ?thesis using px_packet_inv [OF inv] by (simp add: e PxDatagram)
  next
    case (PxFromTUN pkt)
    have "srv_inv M (snd (snd (pubExitFromTUN C now pkt s)))" using fromTUN_inv(1) [OF inv, of C now pkt] by (metis prod.collapse)
    then show ?thesis by (simp add: e PxFromTUN)
  next
    case PxTick
    then show ?thesis using px_janitor_inv [OF inv] by (simp add: e)
  next
    case (PxRequest key nerr req)
    have mx: "(case rq_MaxClients req of None \<Rightarrow> 0 | Some n \<Rightarrow> n) \<le> M" using ok M by (simp add: input_ok_def e PxRequest split: option.splits)
    have "srv_inv M (px_Configure a b c (case rq_MaxClients req of None \<Rightarrow> 0 | Some n \<Rightarrow> n) d (s\<lparr>sv_limits := l\<rparr>))" for a b c d l
      by (rule configure_inv [OF _ mx]) (use inv in simp)
    then have "srv_inv M (case rq_BlockedPorts req of None \<Rightarrow> px_Configure a b c (case rq_MaxClients req of None \<Rightarrow> 0 | Some n \<Rightarrow> n) d (s\<lparr>sv_limits := l\<rparr>)
        | Some t \<Rightarrow> setBlockedPorts (Some (parse_ports t)) (px_Configure a b c (case rq_MaxClients req of None \<Rightarrow> 0 | Some n \<Rightarrow> n) d (s\<lparr>sv_limits := l\<rparr>)))" for a b c d l
      by (cases "rq_BlockedPorts req") (simp_all add: setBlockedPorts_def)
    then show ?thesis by (cases "rq_Enabled req") (simp_all add: e PxRequest applyPublicExitRequest_def Let_def setEnabled_inv)
  qed
qed

lemma px_start_inv: "(if maxC > 0 then maxC else pxDefaultMaxClients) \<le> M \<Longrightarrow> srv_inv M (startPublicExit now up down quota days maxC per ports path file)"
  by (simp add: startPublicExit_def Let_def setBlockedPorts_def srv_inv_defs pool_cfg_def pxDefaultMaxPerSource_def gsum_def pxDefaultMaxClients_def split: if_splits)

interpretation exit_tables: step_invariant "px_step C N" "input_ok M" "\<lambda>s. srv_inv M s \<and> 0 \<le> M" "\<lambda>e a. True"
  for C N M
  by unfold_locales (auto simp: step_keeps)


text \<open>Every run stays under the largest client limit it was ever given.\<close>

definition req_limit :: "px_event \<Rightarrow> int" where
  "req_limit e = (case snd (snd e) of PxRequest _ _ req \<Rightarrow> (case rq_MaxClients req of None \<Rightarrow> 0 | Some n \<Rightarrow> n) | _ \<Rightarrow> 0)"

lemma all_inputs_ok: "list_all (input_ok (max k (Max (insert 0 (req_limit ` set es))))) es"
proof -
  have "input_ok (max k (Max (insert 0 (req_limit ` set es)))) e" if "e \<in> set es" for e
  proof -
    have "req_limit e \<le> Max (insert 0 (req_limit ` set es))" using that by (intro Max_ge) auto
    then show ?thesis by (auto simp: input_ok_def req_limit_def split: px_input.splits option.splits)
  qed
  then show ?thesis by (simp add: list_all_iff)
qed

lemma run_inv_ex:
  "\<exists>M. srv_inv M (snd (run_steps (px_step C N) es (startPublicExit t0 up down quota days maxC per ports path file)))"
proof -
  let ?k = "if maxC > 0 then maxC else pxDefaultMaxClients"
  let ?M = "max ?k (Max (insert 0 (req_limit ` set es)))"
  have "0 \<le> ?M" by (auto simp: pxDefaultMaxClients_def intro: le_max_iff_disj [THEN iffD2])
  moreover have "srv_inv ?M (startPublicExit t0 up down quota days maxC per ports path file)" by (rule px_start_inv) simp
  ultimately show ?thesis using exit_tables.run_inv [OF all_inputs_ok, where s = "startPublicExit t0 up down quota days maxC per ports path file"]
    by blast
qed

text \<open>Only data of a client reaches the TUN.\<close>

definition no_tun :: "px_effect list \<Rightarrow> bool" where
  "no_tun effs \<longleftrightarrow> (\<forall>q. PxTun q \<notin> set effs)"

lemma no_tun_simps [simp]: "no_tun []" "no_tun (PxSend a d # es) = no_tun es" "no_tun (es @ fs) \<longleftrightarrow> no_tun es \<and> no_tun fs"
  by (auto simp: no_tun_def)

lemma no_tun_deny [simp]: "no_tun (fst (px_deny a r s))"
  by (simp add: px_deny_def)

lemma no_tun_send [simp]: "no_tun (fst (px_send_sealed C sid x a k b s))"
  by (simp add: px_send_sealed_def case_prod_beta Let_def)

lemma no_tun_hello: "no_tun (fst (onHello C N rnd now data raddr s))"
  by (simp add: onHello_def Let_def case_prod_beta split: option.split)

lemma no_tun_finish: "no_tun (fst (onFinish C N rnd now data raddr s))"
  by (simp add: onFinish_def px_establish_def Let_def split: option.split)

lemma no_tun_remove: "no_tun (fst (px_remove C sid n s))"
  by (simp add: px_remove_def split: option.split)

lemma no_tun_remove_all: "no_tun (fst (px_remove_all C ids s))"
  by (induction ids arbitrary: s) (simp_all add: case_prod_beta Let_def no_tun_remove)

lemma no_tun_enabled: "no_tun (fst (snd (px_SetEnabled C E key nerr on s)))"
  by (simp add: px_SetEnabled_def px_closeAll_def no_tun_remove_all case_prod_beta Let_def)

lemma no_tun_janitor: "no_tun (fst (px_janitor C E now s))"
  by (simp add: px_janitor_def px_closeAll_def no_tun_remove_all no_tun_enabled case_prod_beta Let_def)

lemma tun_only_from_data:
  assumes inv: "srv_inv M s" and st: "px_step C N (E, now, inp) s = (effs, t)" and q: "PxTun q \<in> set effs"
  shows "\<exists>p sid x. gget (sv_sessions s) sid = Some x \<and> pxParse q = Some p \<and> px_src p = sx_poolIP x \<and>
      internet_only E (sv_blocked s) p \<and> not_self now t (px_dst p)"
proof (cases inp)
  case (PxDatagram rnd data raddr)
  have "no_tun (fst (px_handleHandshake C N rnd now data raddr s))"
    by (simp add: px_handleHandshake_def no_tun_hello no_tun_finish)
  with st q PxDatagram obtain sid where "snd (px_handleData C E now sid data raddr s) = (effs, t)"
    by (auto simp: px_server_packet_def no_tun_def split: if_splits option.splits)
  then obtain b where "px_handleData C E now sid data raddr s = (b, effs, t)" by (metis prod.collapse)
  from handleData_inv(2) [OF inv this q] show ?thesis by blast
next
  case (PxFromTUN pkt)
  with st obtain b where "pubExitFromTUN C now pkt s = (b, effs, t)" by (metis prod.collapse px_step.simps(2))
  from fromTUN_inv(2) [OF inv this q] show ?thesis by blast
next
  case PxTick
  with st q no_tun_janitor [of C E now s] show ?thesis by (simp add: no_tun_def)
next
  case (PxRequest key nerr req)
  have "no_tun (fst (snd (applyPublicExitRequest C E now key nerr req s)))"
    by (simp add: applyPublicExitRequest_def Let_def no_tun_enabled split: option.split)
  with st q PxRequest show ?thesis by (simp add: no_tun_def)
qed

section \<open>Properties\<close>

text \<open>
  C4: Structural isolation of a public exit. In every state the server can reach, by any datagrams from anyone,
  any packets from the TUN, any control requests and ticks, whatever the next input makes it write to the TUN is an
  IPv4 packet whose source is the pool address of one of its clients (whatever source the client wrote) and whose
  destination is on the public internet, outside the overlay, none of this host's own addresses as listed at most
  a minute ago, without IP options, TCP, UDP or an echo request, and not on a blocked port.
\<close>

theorem exit_isolation:
  "let s = snd (run_steps (px_step C N) es (startPublicExit t0 up down quota days maxC per ports path file));
       (effs, t) = px_step C N (E, now, inp) s
   in list_all (\<lambda>e. case e of PxSend a d \<Rightarrow> True
        | PxTun q \<Rightarrow> \<exists>p sid x. pxParse q = Some p \<and> gget (sv_sessions s) sid = Some x \<and> px_src p = sx_poolIP x \<and> inPool s (px_src p) \<and>
            internet_only E (sv_blocked s) p \<and> not_self now t (px_dst p)) effs"
proof -
  let ?s = "snd (run_steps (px_step C N) es (startPublicExit t0 up down quota days maxC per ports path file))"
  obtain M where M: "srv_inv M ?s" using run_inv_ex by blast
  obtain effs t where st: "px_step C N (E, now, inp) ?s = (effs, t)" by fastforce
  have "inPool ?s (sx_poolIP x)" if "gget (sv_sessions ?s) sid = Some x" for sid x
    using M that by (auto simp: srv_inv_def pool_inv_def)
  with tun_only_from_data [OF M st] show ?thesis
    unfolding Let_def st by (auto simp: list_all_iff split: px_effect.split) metis
qed

text \<open>
  C38: The way back, and between clients. In every reachable state a packet read from the TUN is sent to a client
  only if it came from a public address and is addressed to that client's pool address, and then to that client's
  own endpoint; since no pool address is public (and the exit writes no packet to one), clients never hear of each
  other.
\<close>

theorem exit_return_path:
  "let s = snd (run_steps (px_step C N) es (startPublicExit t0 up down quota days maxC per ports path file));
       effs = fst (px_step C N (E, now, PxFromTUN pkt) s)
   in list_all (\<lambda>e. pxIsPublicIPv4 (take 4 (drop 12 pkt)) \<and> \<not> inPool s (take 4 (drop 12 pkt)) \<and>
        (\<exists>sid x. gget (sv_sessions s) sid = Some x \<and> sx_poolIP x = take 4 (drop 16 pkt) \<and>
           e = PxSend (sx_addr x) (fst (px_seal C (sx_ch x) pxInPacket pkt)))) effs"
proof -
  let ?s = "snd (run_steps (px_step C N) es (startPublicExit t0 up down quota days maxC per ports path file))"
  obtain M where M: "srv_inv M ?s" using run_inv_ex by blast
  obtain b effs t where r: "pubExitFromTUN C now pkt ?s = (b, effs, t)" by (metis prod.collapse)
  have cfg: "pool_cfg (sv_pool ?s) (sv_poolBase ?s) (sv_poolSize ?s)" using M by (simp add: srv_inv_def pool_inv_def)
  have "pxIsPublicIPv4 (take 4 (drop 12 pkt)) \<and> \<not> inPool ?s (take 4 (drop 12 pkt)) \<and>
        (\<exists>sid x. gget (sv_sessions ?s) sid = Some x \<and> sx_poolIP x = take 4 (drop 16 pkt) \<and>
           e = PxSend (sx_addr x) (fst (px_seal C (sx_ch x) pxInPacket pkt)))" if "e \<in> set effs" for e
    using fromTUN_inv(2) [OF M r that] pool_not_public [OF cfg] by (metis fst_conv)
  then show ?thesis using r by (simp add: Let_def list_all_iff)
qed


text \<open>
  C40: The tables of a public exit agree in every reachable state: the count kept per source address is the number
  of its handshakes and sessions and never above the limit per source; the clients never exceed the largest limit
  configured; the pool index names exactly the sessions, so no two clients share an address; and every address is
  inside the pool.
\<close>

theorem exit_tables_agree:
  assumes "list_all (input_ok M) es" "(if maxC > 0 then maxC else pxDefaultMaxClients) \<le> M"
    and s_def: "s = snd (run_steps (px_step C N) es (startPublicExit t0 up down quota days maxC per ports path file))"
  shows "per_source s src = src_count s src \<and> src_count s src \<le> sv_maxPerSrc s \<and> int (length (sv_sessions s)) \<le> M \<and>
    (gget (sv_byPool s) ip = Some sid \<longleftrightarrow> (\<exists>x. gget (sv_sessions s) sid = Some x \<and> sx_poolIP x = ip \<and> inPool s ip))"
proof -
  have "0 \<le> M" using assms(2) by (simp add: pxDefaultMaxClients_def split: if_splits)
  then have inv: "srv_inv M s" unfolding s_def
    using exit_tables.run_inv [OF assms(1)] px_start_inv [OF assms(2)] by blast
  have "gget (sv_byPool s) ip = Some sid \<longleftrightarrow> (\<exists>x. gget (sv_sessions s) sid = Some x \<and> sx_poolIP x = ip)"
    "gget (sv_sessions s) sid = Some x \<Longrightarrow> inPool s (sx_poolIP x)" for x
    using inv by (simp_all add: srv_inv_def pool_inv_def)
  moreover have "per_source s src = src_count s src \<and> src_count s src \<le> sv_maxPerSrc s" "int (length (sv_sessions s)) \<le> M"
    using inv by (simp_all add: srv_inv_def count_inv_def cap_inv_def)
  ultimately show ?thesis by blast
qed

definition sent_bytes :: "px_effect list \<Rightarrow> nat" where
  "sent_bytes effs = sum_list (map (\<lambda>e. case e of PxSend a d \<Rightarrow> length d | PxTun q \<Rightarrow> 0) effs)"

text \<open>
  A public exit cannot be used to amplify: what the server sends in answer to a hello, whoever claims to have
  sent it and whatever state the server is in, is shorter than the hello.
\<close>

theorem hello_never_amplified:
  assumes "2 \<le> length data" "data ! 1 = pxHello"
  shows "sent_bytes (fst (px_server_packet C N E rnd now data raddr s)) < length data"
proof -
  have small: "sent_bytes (fst (px_deny raddr r s2)) = 3" for r and s2 :: "'a pxServer" by (simp add: px_deny_def sent_bytes_def)
  have "sent_bytes (fst (onHello C N rnd now data raddr s)) < length data"
  proof (cases "length data = pxHelloSize")
    case False
    moreover have "0 < length data" using assms(1) by linarith
    ultimately show ?thesis by (simp add: onHello_def sent_bytes_def)
  next
    case True
    have "sent_bytes (fst (onHello C N rnd now data raddr s)) < pxHelloSize"
      unfolding onHello_def
      by (auto simp: small sent_bytes_def pxHelloSize_def Let_def case_prod_beta px_deny_def split: option.split)
    with True show ?thesis by simp
  qed
  moreover have "sent_bytes (fst (px_deny raddr pxDenyDisabled s)) < length data" if "length data = pxHelloSize" using that by (simp add: small pxHelloSize_def)
  ultimately show ?thesis using assms
    by (auto simp: px_server_packet_def px_handleHandshake_def sent_bytes_def)
qed

lemma drop_pending_all:
  "gwf (sv_pending s) \<Longrightarrow> sv_pending (drop_pending (\<lambda>p. True) (sv_pending s) s) = []"
proof -
  have "sv_pending (drop_pending (\<lambda>p. True) ps s) = filter (\<lambda>(k, v). k \<notin> fst ` set ps) (sv_pending s)" for ps
    by (induction "\<lambda>p :: 'a pxPending. True" ps s rule: drop_pending.induct) (auto simp: AList.delete_eq intro!: filter_cong)
  then show ?thesis by (auto simp: filter_empty_conv image_iff)
qed

lemma remove_all_sessions:
  "sv_sessions (snd (px_remove_all C ids s)) = filter (\<lambda>(k, v). k \<notin> set ids) (sv_sessions s) \<and>
   sv_pending (snd (px_remove_all C ids s)) = sv_pending s \<and> sv_enabled (snd (px_remove_all C ids s)) = sv_enabled s"
proof (induction ids arbitrary: s)
  case (Cons k ids)
  have "sv_sessions (snd (px_remove C k True s)) = filter (\<lambda>(j, v). j \<noteq> k) (sv_sessions s) \<and>
    sv_pending (snd (px_remove C k True s)) = sv_pending s \<and> sv_enabled (snd (px_remove C k True s)) = sv_enabled s"
  proof (cases "gget (sv_sessions s) k")
    case None
    then have "filter (\<lambda>(j, v). j \<noteq> k) (sv_sessions s) = sv_sessions s"
      by (auto simp: filter_id_conv map_of_eq_None_iff image_iff)
    with None show ?thesis by (simp add: px_remove_def)
  next
    case (Some x)
    then show ?thesis by (auto simp: px_remove_def AList.delete_eq intro!: filter_cong)
  qed
  with Cons [of "snd (px_remove C k True s)"] show ?case by (auto simp: case_prod_beta Let_def intro!: filter_cong)
qed simp

lemma drop_pending_frame [simp]:
  "sv_sessions (drop_pending P ps s) = sv_sessions s" "sv_enabled (drop_pending P ps s) = sv_enabled s"
  by (induction P ps s rule: drop_pending.induct) simp_all

text \<open>
  Switching the service off is complete: whatever sessions and half-finished handshakes there were, none is
  left, and no source address is charged for anything any more.
\<close>

theorem switch_off_complete:
  assumes "srv_inv M s" "sv_enabled s"
    and t_def: "t = snd (snd (px_SetEnabled C E key nerr False s))"
  shows "\<not> sv_enabled t \<and> sv_sessions t = [] \<and> sv_pending t = [] \<and> per_source t src = 0"
proof -
  let ?s = "s\<lparr>sv_enabled := False\<rparr>" let ?d = "drop_pending (\<lambda>p. True) (sv_pending ?s) ?s"
  have t: "t = snd (px_remove_all C (map fst (sv_sessions ?s)) ?d)" using assms by (simp add: px_SetEnabled_def px_closeAll_def)
  have inv: "srv_inv M t" unfolding t_def by (rule setEnabled_inv [OF assms(1)])
  have "gwf (sv_pending ?s)" using assms(1) by (simp add: srv_inv_def count_inv_def)
  then have "sv_pending ?d = []" by (rule drop_pending_all)
  then have e: "sv_pending t = []" "\<not> sv_enabled t" using remove_all_sessions [of C "map fst (sv_sessions ?s)" ?d] by (simp_all add: t)
  have "sv_sessions t = []" using remove_all_sessions [of C "map fst (sv_sessions ?s)" ?d] by (auto simp: t filter_empty_conv image_iff)
  moreover from this e inv have "per_source t src = 0" by (simp add: srv_inv_def count_inv_def src_count_def gsum_def)
  ultimately show ?thesis using e by blast
qed


lemma mod_shift_inj: "(a + i) mod m = (a + j) mod m \<Longrightarrow> i < m \<Longrightarrow> j < m \<Longrightarrow> i = j" for a i j m :: nat
proof (induction i j rule: linorder_wlog)
  case (le i j)
  then have "m dvd (a + j) - (a + i)" by (metis mod_eq_dvd_iff_nat add_le_cancel_left)
  then have "m dvd j - i" by simp
  with le show ?case by (meson diff_is_0_eq dvd_imp_le le_antisym less_imp_diff_less not_le zero_less_diff)
next
  case (sym i j)
  then show ?case by simp
qed

lemma pool_slot:
  assumes "pool_inv s" "sv_pool s \<noteq> None" "length (sv_byPool s) < 65533"
  shows "\<exists>ip. allocLocked r s = Some ip \<and> gget (sv_byPool s) ip = None \<and> inPool s ip"
proof (cases "allocLocked r s")
  case (Some ip)
  with alloc_locked [OF assms(1) Some] show ?thesis by blast
next
  case None
  from assms obtain n where n: "sv_pool s = Some n" and cfg: "pool_cfg (Some n) (sv_poolBase s) (sv_poolSize s)" by (auto simp: pool_inv_def)
  then have hosts: "sv_poolSize s = 65534" by (simp add: pool_cfg_def)
  let ?a = "r mod 65533" let ?h = "\<lambda>j. (?a + of_nat j) mod 65533 :: u32"
  from None have "alloc_loop s ?a 0 65533 = None" by (simp add: allocLocked_def hosts)
  from alloc_none [OF this] have used: "gget (sv_byPool s) (pool_ip s (?h j)) \<noteq> None" if "j < 65533" for j using that by (simp add: hosts)
  have av: "unat ?a < 65533" by (simp add: unat_mod_distrib)
  have hv: "unat (?h j) = (unat ?a + j) mod 65533" if "j < 65533" for j
  proof -
    have "unat (of_nat j :: u32) = j" using that by (simp add: unat_of_nat)
    then have "unat (?a + of_nat j) = unat ?a + j" using av that by (simp add: unat_word_ariths)
    then show ?thesis by (simp add: unat_mod_distrib)
  qed
  have lt: "?h j < sv_poolSize s - 1" if "j < 65533" for j using hv [OF that] by (simp add: hosts word_less_nat_alt)
  have "inj_on (\<lambda>j. pool_ip s (?h j)) {..<65533}"
  proof (rule inj_onI)
    fix i j
    assume ij: "i \<in> {..<65533}" "j \<in> {..<65533}" "pool_ip s (?h i) = pool_ip s (?h j)"
    then have "?h i = ?h j" using pool_ip_inj [OF cfg lt lt] by simp
    then have "(unat ?a + i) mod 65533 = (unat ?a + j) mod 65533" using hv ij by (metis lessThan_iff)
    then show "i = j" using mod_shift_inj ij by (metis lessThan_iff)
  qed
  then have "card ((\<lambda>j. pool_ip s (?h j)) ` {..<65533}) = 65533" by (simp add: card_image)
  moreover have "(\<lambda>j. pool_ip s (?h j)) ` {..<65533} \<subseteq> fst ` set (sv_byPool s)"
  proof (rule image_subsetI)
    fix j assume "j \<in> {..<65533::nat}"
    with used [of j] show "pool_ip s (?h j) \<in> fst ` set (sv_byPool s)" by (auto simp: map_of_eq_None_iff)
  qed
  ultimately have "65533 \<le> card (fst ` set (sv_byPool s))" by (metis card_mono finite_imageI finite_set)
  also have "\<dots> \<le> length (sv_byPool s)" by (metis card_length length_map set_map)
  finally show ?thesis using assms(3) by simp
qed

text \<open>
  The pool never runs dry early: while fewer than 65533 addresses are in use the search finds a free one, from
  whatever random start, and what it finds is in the pool and in nobody's use.
\<close>

theorem pool_address_found:
  assumes "pool_inv s" "sv_pool s \<noteq> None" "length (sv_byPool s) < 65533"
  shows "\<exists>ip. allocLocked r s = Some ip \<and> gget (sv_byPool s) ip = None \<and> inPool s ip"
  using assms by (rule pool_slot)

lemma flow_alike: "sx_flows y = sx_flows x \<Longrightarrow> sx_newFlows y = sx_newFlows x \<Longrightarrow> fst (flowAllowed now p y) = fst (flowAllowed now p x)"
  by (auto simp: flowAllowed_def Let_def case_prod_beta)

lemma flow_up: "sx_up (snd (flowAllowed now p x)) = sx_up x"
  by (simp add: flowAllowed_def Let_def case_prod_beta)

lemma rewrite_ok: "pxParse pkt = Some p \<Longrightarrow> fst (pxRewrite pkt src addr)"
  by (simp add: pxRewrite_def Let_def)

lemma served:
  assumes C: "crypto_ok C" and x: "gget (sv_sessions s) sid = Some x" and on: "sv_enabled s"
    and key: "ch_send c = ch_recv (sx_ch x)" and fresh: "win_ok (ch_win (sx_ch x)) (ch_sendCtr c + 1)"
    and p: "pxParse pkt = Some p" "internet_only E (sv_blocked s) p" "sv_selfIPs s = None" "px_dst p \<notin> set (px_own_ips E)"
    and budget: "fst (flowAllowed now p x)" "fst (Allow (sx_up x) now (int (length pkt)))" "fst (AllowUp (sv_limits s) now (int (length pkt)))"
  shows "fst (snd (px_handleData C E now sid (fst (px_seal C c pxInPacket pkt)) raddr s)) = [PxTun (snd (pxRewrite pkt True (sx_poolIP x)))]"
proof -
  let ?c = "(sx_ch x)\<lparr>ch_win := win_mark (ch_win (sx_ch x)) (ch_sendCtr c + 1)\<rparr>"
  define x1 where "x1 = x\<lparr>sx_ch := ?c, sx_addr := raddr, sx_lastSeen := now\<rparr>"
  define s1 where "s1 = put_session sid x1 s"
  have opened: "px_open C (sx_ch x) (fst (px_seal C c pxInPacket pkt)) = (Inr (pxInPacket, pkt), ?c)"
    using open_sealed [OF C key [symmetric]] fresh by (simp add: px_seal_def Let_def)
  obtain s2 where al: "pxAllowedDestination E now p s1 = (True, s2)" and l2: "sv_limits s2 = sv_limits s"
    using p(2-4) by (auto simp: pxAllowedDestination_def internet_only_def px_isSelf_def s1_def put_session_def)
  obtain x2 where fl: "(if px_firstFrg p then flowAllowed now p x1 else (True, x1)) = (True, x2)" and up: "sx_up x2 = sx_up x" and ip: "sx_poolIP x2 = sx_poolIP x"
  proof (cases "px_firstFrg p")
    case True
    have "fst (flowAllowed now p x1)" using budget(1) flow_alike [of x1 x] by (simp add: x1_def)
    then obtain x2 where f: "flowAllowed now p x1 = (True, x2)" by (metis prod.collapse)
    moreover have "sx_up x2 = sx_up x" using flow_up [of now p x1] f by (simp add: x1_def)
    moreover have "sx_poolIP x2 = sx_poolIP x" using flow_frame [OF f] by (simp add: same_session_def x1_def)
    ultimately show ?thesis using that True by simp
  next
    case False
    then show ?thesis using that by (simp add: x1_def)
  qed
  obtain b where b: "Allow (sx_up x) now (int (length pkt)) = (True, b)" using budget(2) by (metis prod.collapse)
  obtain l where l: "AllowUp (sv_limits s) now (int (length pkt)) = (True, l)" using budget(3) by (metis prod.collapse)
  obtain q where q: "pxRewrite pkt True (sx_poolIP x) = (True, q)" using rewrite_ok [OF p(1)] by (metis prod.collapse)
  have "fst (fromClient E now sid x1 pkt s1) = [PxTun q]" by (simp add: fromClient_def p(1) al fl up ip b l l2 q)
  then show ?thesis using x opened on q by (simp add: px_handleData_def Let_def flip: x1_def s1_def)
qed


text \<open>
  An honest client is served: a packet sealed on the client's end of a session, under a counter the exit has
  not seen, that the policy allows and the budgets cover, is written to the TUN with the client's pool address as
  its source, and nothing else happens on the network.
\<close>

theorem exit_serves:
  assumes C: "crypto_ok C" and x: "gget (sv_sessions s) sid = Some x" and on: "sv_enabled s"
    and key: "ch_send c = ch_recv (sx_ch x)" and fresh: "win_ok (ch_win (sx_ch x)) (ch_sendCtr c + 1)"
    and p: "pxParse pkt = Some p" "internet_only E (sv_blocked s) p" "sv_selfIPs s = None" "px_dst p \<notin> set (px_own_ips E)"
    and budget: "fst (flowAllowed now p x)" "fst (Allow (sx_up x) now (int (length pkt)))" "fst (AllowUp (sv_limits s) now (int (length pkt)))"
  shows "fst (snd (px_handleData C E now sid (fst (px_seal C c pxInPacket pkt)) raddr s)) = [PxTun (snd (pxRewrite pkt True (sx_poolIP x)))]"
  by (rule served [OF assms])


section \<open>Witnesses\<close>

definition demo_env :: px_env where
  "demo_env = \<lparr>env_overlay = Some ([10, 0, 0, 0], 8), env_ifs = [], env_pub = [], env_ip6 = (\<lambda>_. None), env_dht = True, env_relay = True\<rparr>"

definition demo_noise :: "unit px_noise" where
  "demo_noise = \<lparr>nz_new = (\<lambda>_ _. Some ()), nz_read1 = (\<lambda>_ m. Some (m, ())), nz_encap = (\<lambda>_ pk. Some ([1], [2])),
     nz_write2 = (\<lambda>_ pl. Some ([3], ())), nz_read3 = (\<lambda>_ m. Some ([1], [2], [3]))\<rparr>"

definition demo_start :: "unit pxServer" where
  "demo_start = startPublicExit 0 [] [] [] 0 0 [] None [] None"

definition demo_client :: pxSrvSession where
  "demo_client = \<lparr>sx_ch = new_pxChannel 7 ([], []), sx_addr = \<lparr>ua_IP = Some (V4 [9, 9, 9, 9]), ua_Port = 5, ua_Zone = []\<rparr>,
     sx_src = Some (V4 [9, 9, 9, 9]), sx_poolIP = [198, 18, 0, 2], sx_created = 0, sx_lastSeen = 0, sx_up = newTokenBucket 0 0,
     sx_down = newTokenBucket 0 0, sx_newFlows = newPxRate 0 20 200, sx_flows = [], sx_bytesUp = 0, sx_bytesDown = 0\<rparr>"

definition demo_running :: "unit pxServer" where
  "demo_running = demo_start\<lparr>sv_enabled := True, sv_sessions := [(7, demo_client)], sv_byPool := [([198, 18, 0, 2], 7)],
     sv_perSource := [(Some (V4 [9, 9, 9, 9]), 1)], sv_pool := Some ([198, 18, 0, 0], 16), sv_poolBase := be_u32 [198, 18, 0, 0], sv_poolSize := 65534\<rparr>"

lemma parseRate_empty: "parseRate [] = 0"
  by (simp add: parseRate_def trimLowerSpace_def trim_space_def to_lower_def)

lemma demo_running_inv: "srv_inv 16 demo_running"
proof -
  have "inPool demo_running [198, 18, 0, 2]" by (simp add: inPool_def demo_running_def net_contains_def be_nat_def)
  then show ?thesis
    by (auto simp: srv_inv_def count_inv_def pool_inv_def id_inv_def cap_inv_def src_count_def per_source_def pool_cfg_def
        demo_running_def demo_start_def startPublicExit_def setBlockedPorts_def Let_def demo_client_def gsum_def sess_at_def gwf_def
        new_pxChannel_def pxPoolCandidates_def pxDefaultMaxPerSource_def pxDefaultMaxClients_def split: if_splits)
qed

theorem exit_tables_agree_witness:
  "int (length (sv_sessions (snd (run_steps (px_step xor_crypto demo_noise) [(demo_env, 5, PxTick), (demo_env, 6, PxFromTUN [])] demo_start)))) \<le> 16"
  using exit_tables_agree [where M = 16 and es = "[(demo_env, 5, PxTick), (demo_env, 6, PxFromTUN [])]" and maxC = 0, OF _ _ refl,
      of xor_crypto demo_noise 0 "[]" "[]" "[]" 0 "[]" None "[]" None]
  unfolding demo_start_def by (simp add: input_ok_def pxDefaultMaxClients_def)

theorem hello_never_amplified_witness:
  "sent_bytes (fst (px_server_packet xor_crypto demo_noise demo_env \<lparr>rd_noise = [], rd_sids = [], rd_alloc = 0\<rparr> 0 (replicate 1400 1)
      \<lparr>ua_IP = Some (V4 [9, 9, 9, 9]), ua_Port = 5, ua_Zone = []\<rparr> demo_start)) < 1400"
  using hello_never_amplified [of "replicate 1400 1" xor_crypto demo_noise demo_env "\<lparr>rd_noise = [], rd_sids = [], rd_alloc = 0\<rparr>" 0
      "\<lparr>ua_IP = Some (V4 [9, 9, 9, 9]), ua_Port = 5, ua_Zone = []\<rparr>" demo_start] by (simp add: pxHello_def)

theorem switch_off_complete_witness:
  "sv_sessions demo_running \<noteq> [] \<and> sv_sessions (snd (snd (px_SetEnabled xor_crypto demo_env [] None False demo_running))) = []"
  using switch_off_complete [OF demo_running_inv _ refl, of xor_crypto demo_env "[]" None] by (simp add: demo_running_def)

theorem pool_address_found_witness:
  "\<exists>ip. allocLocked 5 demo_running = Some ip \<and> inPool demo_running ip"
  using pool_address_found [of demo_running 5] demo_running_inv by (auto simp: srv_inv_def demo_running_def)

definition sample_fields :: pxIPv4 where
  "sample_fields = \<lparr>px_ihl = 20, px_proto = 17, px_src = [10, 1, 2, 3], px_dst = [8, 8, 8, 8],
    px_firstFrg = True, px_dport = 53, px_hasPort = True, px_icmpType = 0, px_tcpFlags = 0\<rparr>"

lemma demo_allowed: "internet_only demo_env (sv_blocked demo_running) sample_fields"
  by (simp add: sample_fields_def internet_only_def pxIsPublicIPv4_def pxNonPublic_def net_contains_def be_nat_def in_overlay_def demo_env_def
      demo_running_def demo_start_def startPublicExit_def setBlockedPorts_def blocked_ports_def pxDefaultBlockedPorts_def Let_def)

lemma demo_own: "sv_selfIPs demo_running = None" "px_own_ips demo_env = []"
  by (simp_all add: demo_running_def demo_start_def startPublicExit_def setBlockedPorts_def Let_def px_own_ips_def demo_env_def split_host_port_def)

lemma demo_budget:
  "fst (flowAllowed 1 sample_fields demo_client)" "fst (Allow (sx_up demo_client) 1 28)" "fst (AllowUp (sv_limits demo_running) 1 28)"
  by (simp_all add: sample_fields_def flowAllowed_def demo_client_def pxMaxFlows_def rate_allow_def newPxRate_def seconds_def time_sub_def min_duration_def
      max_duration_def Let_def newTokenBucket_def SetRate_def Allow_def demo_running_def demo_start_def startPublicExit_def setBlockedPorts_def
      parseRate_empty newBandwidthLimiter_def bw_load_def AllowUp_def QuotaExceeded_def rollPeriodLocked_def case_prod_beta)

lemma demo_found: "gget (sv_sessions demo_running) 7 = Some demo_client" "sv_enabled demo_running"
  by (simp_all add: demo_running_def)

lemma sample_parsed: "pxParse sample_udp = Some sample_fields"
  by (simp add: sample_parse sample_fields_def)

lemmas demo_served = sample_parsed sample_length demo_allowed demo_own demo_budget demo_found

theorem exit_serves_witness:
  "fst (snd (px_handleData xor_crypto demo_env 1 7 (fst (px_seal xor_crypto (new_pxChannel 7 ([], [])) pxInPacket sample_udp))
      \<lparr>ua_IP = Some (V4 [9, 9, 9, 9]), ua_Port = 6, ua_Zone = []\<rparr> demo_running)) = [PxTun (snd (pxRewrite sample_udp True [198, 18, 0, 2]))]"
  using exit_serves [OF xor_crypto_ok demo_found, of "new_pxChannel 7 ([], [])" sample_udp sample_fields demo_env 1]
  by (simp add: demo_served) (simp add: demo_client_def new_pxChannel_def win_ok_def new_e2eWindow_def)

end
