(* ===== verification/Exit_Client.thy ===== *)
theory Exit_Client
  imports Exit_Server
begin

text \<open>
  Using a public exit, \<open>client/pubexit_client.go\<close>: when one is wanted, the candidates and their order, the
  handshake with several exits at once, and the two directions of the tunnel; and the demultiplexer that hands a
  public-exit datagram to the server or the client half of a node.

  \<open>'hc\<close> is the client's end of a Noise handshake together with its ML-KEM key; \<open>px_cnoise\<close> holds the calls, each
  reporting its errors as \<open>None\<close>. An attempt is reached by pointer from \<open>attempts\<close> and \<open>bySID\<close>: both maps hold a
  number here, and \<open>cl_heap\<close> the attempts. What the platform answers is the argument \<open>px_cenv\<close>; a handler runs
  under one clock reading and is one step.
\<close>

section \<open>State\<close>

definition pxClientGrace :: duration where "pxClientGrace = 8 * second"
definition pxClientPingEvery :: duration where "pxClientPingEvery = 15 * second"
definition pxClientDeadAfter :: duration where "pxClientDeadAfter = 45 * second"
definition pxClientAttemptTTL :: duration where "pxClientAttemptTTL = 10 * second"
definition pxClientParallel :: nat where "pxClientParallel = 3"
definition pxClientMaxCands :: nat where "pxClientMaxCands = 64"
definition pxRediscoverEmpty :: duration where "pxRediscoverEmpty = minute"
definition pxRediscoverRefresh :: duration where "pxRediscoverRefresh = 10 * minute"

record pxCand =
  cd_ep :: string
  cd_failUntil :: go_time
  cd_rtt :: duration

record 'hc pxAttempt =
  at_ep :: string
  at_addr :: udp_addr
  at_hs :: 'hc
  at_started :: go_time
  at_sid :: u32
  at_ch :: "pxChannel option"
  at_finish :: "byte list option"
  at_finishAt :: go_time
  at_resends :: nat

record pxActive =
  ac_ep :: string
  ac_addr :: udp_addr
  ac_ch :: pxChannel
  ac_poolIP :: "byte list"
  ac_since :: go_time
  ac_lease :: duration
  ac_lastRx :: go_time
  ac_lastPing :: "go_time option"
  ac_pingSent :: "go_time option"
  ac_rtt :: int

record 'hc pxClient =
  cl_cands :: "(string \<times> pxCand) list"
  cl_lastDiscover :: "go_time option"
  cl_heap :: "(nat \<times> 'hc pxAttempt) list"
  cl_next :: nat
  cl_attempts :: "(udp_addr \<times> nat) list"
  cl_bySID :: "(u32 \<times> nat) list"
  cl_active :: "pxActive option"
  cl_noInternal :: "go_time option"
  cl_statSent :: u64
  cl_statRecv :: u64
  cl_statDropped :: u64

record px_cenv =
  ce_usingExit :: bool
  ce_usePublic :: bool
  ce_pinned :: bool
  ce_internal :: bool
  ce_self :: string
  ce_ip6 :: "string \<Rightarrow> ip_addr option"
  ce_resolve :: "string \<Rightarrow> udp_addr option"
  ce_found :: "string list"
  ce_valid :: "string \<Rightarrow> bool"

record 'hc px_cnoise =
  cz_start :: "byte list \<Rightarrow> (byte list \<times> 'hc) option"
  cz_read2 :: "'hc \<Rightarrow> byte list \<Rightarrow> (byte list \<times> 'hc) option"
  cz_decap :: "'hc \<Rightarrow> byte list \<Rightarrow> byte list option"
  cz_write3 :: "'hc \<Rightarrow> byte list \<Rightarrow> (byte list \<times> (byte list \<times> byte list \<times> byte list) \<times> 'hc) option"

definition startPubExitClient :: "'hc pxClient" where
  "startPubExitClient = \<lparr>cl_cands = [], cl_lastDiscover = None, cl_heap = [], cl_next = 0, cl_attempts = [], cl_bySID = [],
     cl_active = None, cl_noInternal = None, cl_statSent = 0, cl_statRecv = 0, cl_statDropped = 0\<rparr>"

section \<open>Candidates\<close>

definition px_wanted :: "px_cenv \<Rightarrow> go_time \<Rightarrow> 'hc pxClient \<Rightarrow> bool \<times> 'hc pxClient" where
  "px_wanted E now c =
     (if \<not> ce_usingExit E \<or> \<not> ce_usePublic E then (False, c\<lparr>cl_noInternal := None\<rparr>)
      else if ce_pinned E then (True, c)
      else if ce_internal E then (False, c\<lparr>cl_noInternal := None\<rparr>)
      else
        let t = (case cl_noInternal c of None \<Rightarrow> now | Some t \<Rightarrow> t) in
        (pxClientGrace \<le> time_sub now t, c\<lparr>cl_noInternal := Some t\<rparr>))"

text \<open>One pass of the insertion sort: the new element moves left past the slower ones.\<close>

definition ins_back :: "pxCand list \<Rightarrow> pxCand \<Rightarrow> pxCand list" where
  "ins_back ys x =
     (let slow = takeWhile (\<lambda>y. cd_rtt x < cd_rtt y) (rev ys) in take (length ys - length slow) ys @ x # rev slow)"

definition sort_known :: "pxCand list \<Rightarrow> pxCand list" where
  "sort_known cs = foldl ins_back [] cs"

definition swap_at :: "nat \<Rightarrow> nat \<Rightarrow> 'a list \<Rightarrow> 'a list" where
  "swap_at i j xs = xs[i := xs ! j, j := xs ! i]"

text \<open>\<open>draw i\<close> is the random index at position \<open>i\<close>, at most \<open>i\<close>.\<close>

fun shuffle :: "(nat \<Rightarrow> nat) \<Rightarrow> nat \<Rightarrow> 'a list \<Rightarrow> 'a list" where
  "shuffle draw 0 xs = xs"
| "shuffle draw (Suc i) xs = shuffle draw i (swap_at (Suc i) (draw (Suc i)) xs)"

definition usableLocked :: "(nat \<Rightarrow> nat) \<Rightarrow> go_time \<Rightarrow> 'hc pxClient \<Rightarrow> string list" where
  "usableLocked draw now c =
     (let cds = filter (\<lambda>cd. \<not> now < cd_failUntil cd) (map snd (cl_cands c));
          known = filter (\<lambda>cd. 0 < cd_rtt cd) cds; unknown = filter (\<lambda>cd. \<not> 0 < cd_rtt cd) cds
      in map cd_ep (sort_known known @ shuffle draw (length unknown - 1) unknown))"

definition failLocked :: "go_time \<Rightarrow> string \<Rightarrow> duration \<Rightarrow> 'hc pxClient \<Rightarrow> 'hc pxClient" where
  "failLocked now ep d c =
     (case gget (cl_cands c) ep of
        None \<Rightarrow> c
      | Some cd \<Rightarrow> c\<lparr>cl_cands := gput ep (cd\<lparr>cd_failUntil := now + d, cd_rtt := 0\<rparr>) (cl_cands c)\<rparr>)"

definition add_found :: "px_cenv \<Rightarrow> (string \<times> pxCand) list \<Rightarrow> string \<Rightarrow> (string \<times> pxCand) list" where
  "add_found E m ep =
     (if gget m ep \<noteq> None \<or> pxClientMaxCands \<le> length m \<or> \<not> ce_valid E ep then m
      else gput ep \<lparr>cd_ep = ep, cd_failUntil = 0, cd_rtt = 0\<rparr> m)"

text \<open>\<open>discover\<close>, with what the DHT and the trackers return.\<close>

definition px_discover :: "px_cenv \<Rightarrow> go_time \<Rightarrow> 'hc pxClient \<Rightarrow> 'hc pxClient" where
  "px_discover E now c = c\<lparr>cl_lastDiscover := Some now, cl_cands := foldl (add_found E) (cl_cands c) (ce_found E)\<rparr>"

definition AddCandidate :: "string \<Rightarrow> 'hc pxClient \<Rightarrow> 'hc pxClient" where
  "AddCandidate ep c =
     (if split_host_port ep = None then c
      else if gget (cl_cands c) ep \<noteq> None then c
      else c\<lparr>cl_cands := gput ep \<lparr>cd_ep = ep, cd_failUntil = 0, cd_rtt = 0\<rparr> (cl_cands c)\<rparr>)"

section \<open>Handshakes\<close>

definition put_attempt :: "nat \<Rightarrow> 'hc pxAttempt \<Rightarrow> 'hc pxClient \<Rightarrow> 'hc pxClient" where
  "put_attempt i a c = c\<lparr>cl_heap := gput i a (cl_heap c)\<rparr>"

definition hello_bytes :: "byte list \<Rightarrow> byte list" where
  "hello_bytes msg1 =
     [PktPubExit, pxHello, pxVersion] @ put_u16 (of_nat (length msg1)) @ msg1 @ replicate (pxHelloSize - 5 - length msg1) 0"

definition startAttempt ::
  "px_cenv \<Rightarrow> 'hc px_cnoise \<Rightarrow> byte list \<Rightarrow> go_time \<Rightarrow> string \<Rightarrow> 'hc pxClient \<Rightarrow> px_effect list \<times> 'hc pxClient" where
  "startAttempt E Z rnd now ep c =
     (case ce_resolve E ep of
        None \<Rightarrow> ([], failLocked now ep (10 * minute) c)
      | Some addr \<Rightarrow>
          (case cz_start Z rnd of
             None \<Rightarrow> ([], c)
           | Some (msg1, hs) \<Rightarrow>
               if pxHelloSize < 5 + length msg1 then ([], c)
               else ([PxSend addr (hello_bytes msg1)],
                     (put_attempt (cl_next c) \<lparr>at_ep = ep, at_addr = addr, at_hs = hs, at_started = now, at_sid = 0, at_ch = None,
                        at_finish = None, at_finishAt = 0, at_resends = 0\<rparr> c)
                       \<lparr>cl_next := cl_next c + 1, cl_attempts := gput addr (cl_next c) (cl_attempts c)\<rparr>)))"

definition deny_backoff :: "byte list \<Rightarrow> duration" where
  "deny_backoff data =
     (if length data < 3 then 2 * minute
      else if data ! 2 = pxDenyQuota then 30 * minute
      else if data ! 2 = pxDenyDisabled \<or> data ! 2 = pxDenyVersion then hour
      else 2 * minute)"

definition finish_bytes :: "u32 \<Rightarrow> byte list \<Rightarrow> byte list" where
  "finish_bytes sid msg3 = [PktPubExit, pxFinish] @ put_u32 sid @ put_u16 (of_nat (length msg3)) @ msg3"

definition cl_handleHandshake ::
  "e2e_crypto \<Rightarrow> 'hc px_cnoise \<Rightarrow> go_time \<Rightarrow> byte list \<Rightarrow> udp_addr \<Rightarrow> 'hc pxClient \<Rightarrow> px_effect list \<times> 'hc pxClient" where
  "cl_handleHandshake C Z now data raddr c =
     (case Option.bind (gget (cl_attempts c) raddr) (\<lambda>i. map_option (Pair i) (gget (cl_heap c) i)) of
        None \<Rightarrow> ([], c)
      | Some (i, a) \<Rightarrow>
          if at_sid a \<noteq> 0 then ([], c)
          else if data ! 1 = pxDeny then
            ([], failLocked now (at_ep a) (deny_backoff data) (c\<lparr>cl_attempts := gdel raddr (cl_attempts c)\<rparr>))
          else if length data < 8 then ([], c)
          else
            let sid = be_u32 (drop 2 data); n = unat (be_u16 (drop 6 data)) in
            if sid = 0 \<or> n = 0 \<or> length data < 8 + n then ([], c)
            else case cz_read2 Z (at_hs a) (take n (drop 8 data)) of
                None \<Rightarrow> ([], c)
              | Some (payload, hs1) \<Rightarrow>
                  let c1 = put_attempt i (a\<lparr>at_hs := hs1\<rparr>) c in
                  if length payload < 2 \<or> payload ! 0 \<noteq> pxVersion then ([], c1)
                  else case cz_decap Z hs1 (tl payload) of
                      None \<Rightarrow> ([], c1)
                    | Some pqss \<Rightarrow> (case cz_write3 Z hs1 [pxVersion] of
                        None \<Rightarrow> ([], c1)
                      | Some (msg3, (c2s, s2c, binding), hs2) \<Rightarrow>
                          let fin = finish_bytes sid msg3;
                              a2 = a\<lparr>at_hs := hs2, at_sid := sid, at_ch := Some (new_pxChannel sid (pxDeriveKeys C True c2s s2c binding pqss)),
                                     at_finish := Some fin, at_finishAt := now\<rparr>
                          in ([PxSend (at_addr a) fin], (put_attempt i a2 c)\<lparr>cl_bySID := gput sid i (cl_bySID c)\<rparr>)))"

section \<open>The tunnel\<close>

definition cl_deliver :: "px_cenv \<Rightarrow> pxActive \<Rightarrow> byte list \<Rightarrow> 'hc pxClient \<Rightarrow> px_effect list \<times> 'hc pxClient" where
  "cl_deliver E act pkt c =
     (case pxParse pkt of
        None \<Rightarrow> ([], c\<lparr>cl_statDropped := cl_statDropped c + 1\<rparr>)
      | Some p \<Rightarrow>
          if \<not> pxIsPublicIPv4 (px_src p) \<or> px_dst p \<noteq> ac_poolIP act then ([], c\<lparr>cl_statDropped := cl_statDropped c + 1\<rparr>)
          else case to4 (parse_ip (ce_ip6 E) (ce_self E)) of
              None \<Rightarrow> ([], c)
            | Some me \<Rightarrow>
                let (ok, buf) = pxRewrite pkt False me in
                if \<not> ok then ([], c\<lparr>cl_statDropped := cl_statDropped c + 1\<rparr>)
                else ([PxTun buf], c\<lparr>cl_statRecv := cl_statRecv c + 1\<rparr>))"

definition pxClientSend :: "e2e_crypto \<Rightarrow> byte list \<Rightarrow> 'hc pxClient \<Rightarrow> bool \<times> px_effect list \<times> 'hc pxClient" where
  "pxClientSend C pkt c =
     (case cl_active c of
        None \<Rightarrow> (False, [], c)
      | Some act \<Rightarrow>
          (case pxParse pkt of
             None \<Rightarrow> (True, [], c\<lparr>cl_statDropped := cl_statDropped c + 1\<rparr>)
           | Some p \<Rightarrow>
               if \<not> pxIsPublicIPv4 (px_dst p) then (True, [], c\<lparr>cl_statDropped := cl_statDropped c + 1\<rparr>)
               else let (d, ch) = px_seal C (ac_ch act) pxInPacket pkt in
                 (True, [PxSend (ac_addr act) d], c\<lparr>cl_statSent := cl_statSent c + 1, cl_active := Some (act\<lparr>ac_ch := ch\<rparr>)\<rparr>)))"

definition cl_active_data ::
  "e2e_crypto \<Rightarrow> px_cenv \<Rightarrow> go_time \<Rightarrow> pxActive \<Rightarrow> byte list \<Rightarrow> udp_addr \<Rightarrow> 'hc pxClient \<Rightarrow> px_effect list \<times> 'hc pxClient" where
  "cl_active_data C E now act data raddr c =
     (if ac_addr act \<noteq> raddr then ([], c)
      else case px_open C (ac_ch act) data of
          (Inl e, ch) \<Rightarrow> ([], c\<lparr>cl_active := Some (act\<lparr>ac_ch := ch\<rparr>)\<rparr>)
        | (Inr (kind, body), ch) \<Rightarrow>
            let act1 = act\<lparr>ac_ch := ch, ac_lastRx := now\<rparr>; c1 = c\<lparr>cl_active := Some act1\<rparr> in
            if kind = pxInPacket then cl_deliver E act1 body c1
            else if kind = pxInPong then
              (case ac_pingSent act1 of
                 None \<Rightarrow> ([], c1)
               | Some t \<Rightarrow> ([], c1\<lparr>cl_active := Some (act1\<lparr>ac_rtt := time_sub now t div 1000000\<rparr>)\<rparr>))
            else if kind = pxInClose then ([], failLocked now (ac_ep act1) (2 * minute) (c1\<lparr>cl_active := None\<rparr>))
            else ([], c1))"

text \<open>The assignment that completes a handshake.\<close>

definition cl_assigned ::
  "e2e_crypto \<Rightarrow> go_time \<Rightarrow> 'hc pxAttempt \<Rightarrow> pxChannel \<Rightarrow> byte list \<Rightarrow> 'hc pxClient \<Rightarrow> px_effect list \<times> 'hc pxClient" where
  "cl_assigned C now a ch body c =
     (let rtt = time_sub now (at_started a);
          na = \<lparr>ac_ep = at_ep a, ac_addr = at_addr a, ac_ch = ch, ac_poolIP = take 4 body, ac_since = now,
                ac_lease = int (unat (be_u32 (drop 6 body))) * second, ac_lastRx = now, ac_lastPing = None, ac_pingSent = None, ac_rtt = rtt div 1000000\<rparr>;
          cands = (case gget (cl_cands c) (at_ep a) of None \<Rightarrow> cl_cands c | Some cd \<Rightarrow> gput (at_ep a) (cd\<lparr>cd_rtt := rtt\<rparr>) (cl_cands c));
          close = (case cl_active c of
                     None \<Rightarrow> []
                   | Some old \<Rightarrow> if ch_sid (ac_ch old) \<noteq> ch_sid ch then [PxSend (ac_addr old) (fst (px_seal C (ac_ch old) pxInClose []))] else [])
      in (close, c\<lparr>cl_active := Some na, cl_cands := cands, cl_attempts := [], cl_bySID := []\<rparr>))"

definition cl_attempt_data ::
  "e2e_crypto \<Rightarrow> go_time \<Rightarrow> u32 \<Rightarrow> byte list \<Rightarrow> udp_addr \<Rightarrow> 'hc pxClient \<Rightarrow> px_effect list \<times> 'hc pxClient" where
  "cl_attempt_data C now sid data raddr c =
     (case Option.bind (gget (cl_bySID c) sid) (\<lambda>i. map_option (Pair i) (gget (cl_heap c) i)) of
        None \<Rightarrow> ([], c)
      | Some (i, a) \<Rightarrow>
          (case at_ch a of
             None \<Rightarrow> ([], c)
           | Some ch \<Rightarrow>
               if at_addr a \<noteq> raddr then ([], c)
               else case px_open C ch data of
                   (Inl e, ch1) \<Rightarrow> ([], put_attempt i (a\<lparr>at_ch := Some ch1\<rparr>) c)
                 | (Inr (kind, body), ch1) \<Rightarrow>
                     if kind \<noteq> pxInAssign \<or> length body < 10 \<or> pxIsPublicIPv4 (take 4 body) then ([], put_attempt i (a\<lparr>at_ch := Some ch1\<rparr>) c)
                     else cl_assigned C now a ch1 body c))"

definition cl_handleData ::
  "e2e_crypto \<Rightarrow> px_cenv \<Rightarrow> go_time \<Rightarrow> u32 \<Rightarrow> byte list \<Rightarrow> udp_addr \<Rightarrow> 'hc pxClient \<Rightarrow> px_effect list \<times> 'hc pxClient" where
  "cl_handleData C E now sid data raddr c =
     (case cl_active c of
        Some act \<Rightarrow>
          if ch_sid (ac_ch act) = sid then cl_active_data C E now act data raddr c
          else cl_attempt_data C now sid data raddr c
      | None \<Rightarrow> cl_attempt_data C now sid data raddr c)"

section \<open>The timer\<close>

definition cl_stop :: "e2e_crypto \<Rightarrow> 'hc pxClient \<Rightarrow> px_effect list \<times> 'hc pxClient" where
  "cl_stop C c =
     (case cl_active c of None \<Rightarrow> [] | Some act \<Rightarrow> [PxSend (ac_addr act) (fst (px_seal C (ac_ch act) pxInClose []))],
      c\<lparr>cl_active := None, cl_attempts := [], cl_bySID := []\<rparr>)"

text \<open>Expiry of one attempt, or its finish sent again.\<close>

definition expire_one :: "go_time \<Rightarrow> udp_addr \<times> nat \<Rightarrow> 'hc pxClient \<Rightarrow> px_effect list \<times> 'hc pxClient" where
  "expire_one now e c =
     (case e of (key, i) \<Rightarrow>
       (case gget (cl_heap c) i of
          None \<Rightarrow> ([], c)
        | Some a \<Rightarrow>
            if pxClientAttemptTTL < time_sub now (at_started a) then
              ([], failLocked now (at_ep a) minute
                     (c\<lparr>cl_attempts := gdel key (cl_attempts c),
                        cl_bySID := (if at_sid a \<noteq> 0 then gdel (at_sid a) (cl_bySID c) else cl_bySID c)\<rparr>))
            else case at_finish a of
                None \<Rightarrow> ([], c)
              | Some fin \<Rightarrow>
                  if 2 * second < time_sub now (at_finishAt a) \<and> at_resends a < 3 then
                    ([PxSend (at_addr a) fin], put_attempt i (a\<lparr>at_resends := at_resends a + 1, at_finishAt := now\<rparr>) c)
                  else ([], c)))"

fun expire_all :: "go_time \<Rightarrow> (udp_addr \<times> nat) list \<Rightarrow> 'hc pxClient \<Rightarrow> px_effect list \<times> 'hc pxClient" where
  "expire_all now [] c = ([], c)"
| "expire_all now (e # es) c =
     (let (o1, c1) = expire_one now e c; (o2, c2) = expire_all now es c1 in (o1 @ o2, c2))"

text \<open>The exit in use: given up, pinged, or due for renewal (the flag).\<close>

definition tend_active :: "e2e_crypto \<Rightarrow> go_time \<Rightarrow> 'hc pxClient \<Rightarrow> bool \<times> px_effect list \<times> 'hc pxClient" where
  "tend_active C now c =
     (case cl_active c of
        None \<Rightarrow> (False, [], c)
      | Some act \<Rightarrow>
          if pxClientDeadAfter < time_sub now (ac_lastRx act) then
            (False, [], (failLocked now (ac_ep act) (2 * minute) c)\<lparr>cl_active := None\<rparr>)
          else
            let renew = (0 < ac_lease act \<and> ac_lease act - 10 * minute < time_sub now (ac_since act)) in
            if (case ac_lastPing act of None \<Rightarrow> True | Some t \<Rightarrow> pxClientPingEvery \<le> time_sub now t) then
              (let (d, ch) = px_seal C (ac_ch act) pxInPing (put_u64 (of_int now)) in
               (renew, [PxSend (ac_addr act) d], c\<lparr>cl_active := Some (act\<lparr>ac_ch := ch, ac_lastPing := Some now, ac_pingSent := Some now\<rparr>)\<rparr>))
            else (renew, [], c))"

definition need_discover :: "go_time \<Rightarrow> string list \<Rightarrow> 'hc pxClient \<Rightarrow> bool" where
  "need_discover now eps c =
     (case cl_lastDiscover c of
        None \<Rightarrow> True
      | Some t \<Rightarrow> pxRediscoverRefresh < time_sub now t \<or> eps = [] \<and> pxRediscoverEmpty < time_sub now t)"

fun start_all ::
  "px_cenv \<Rightarrow> 'hc px_cnoise \<Rightarrow> byte list list \<Rightarrow> go_time \<Rightarrow> string list \<Rightarrow> 'hc pxClient \<Rightarrow> px_effect list \<times> 'hc pxClient" where
  "start_all E Z rnds now [] c = ([], c)"
| "start_all E Z rnds now (ep # eps) c =
     (let (o1, c1) = startAttempt E Z (hd (rnds @ [[]])) now ep c; (o2, c2) = start_all E Z (tl rnds) now eps c1 in (o1 @ o2, c2))"

definition cl_tick ::
  "e2e_crypto \<Rightarrow> px_cenv \<Rightarrow> 'hc px_cnoise \<Rightarrow> (nat \<Rightarrow> nat) \<Rightarrow> byte list list \<Rightarrow> go_time \<Rightarrow> 'hc pxClient \<Rightarrow> px_effect list \<times> 'hc pxClient" where
  "cl_tick C E Z draw rnds now c =
     (let (want, c1) = px_wanted E now c in
      if \<not> want then cl_stop C c1
      else
        let (o1, c2) = expire_all now (cl_attempts c1) c1; (renew, o2, c3) = tend_active C now c2 in
        if cl_active c3 \<noteq> None \<and> \<not> renew \<or> cl_attempts c3 \<noteq> [] then (o1 @ o2, c3)
        else
          let eps = usableLocked draw now c3;
              c4 = (if need_discover now eps c3 then px_discover E now c3 else c3);
              (o3, c5) = start_all E Z rnds now (take pxClientParallel eps) c4
          in (o1 @ o2 @ o3, c5))"

section \<open>The demultiplexer\<close>

text \<open>A node that may serve (\<open>srv\<close>) and use (\<open>cl\<close>) public exits.\<close>

record ('hs, 'hc) px_node =
  pn_srv :: "'hs pxServer option"
  pn_cl :: "'hc pxClient option"

definition handlePubExitPacket ::
  "e2e_crypto \<Rightarrow> 'hs px_noise \<Rightarrow> 'hc px_cnoise \<Rightarrow> px_env \<Rightarrow> px_cenv \<Rightarrow> px_rand \<Rightarrow> go_time \<Rightarrow> byte list \<Rightarrow> udp_addr \<Rightarrow> ('hs, 'hc) px_node
   \<Rightarrow> px_effect list \<times> ('hs, 'hc) px_node" where
  "handlePubExitPacket C N Z E F rnd now data raddr n =
     (if length data < 2 then ([], n)
      else if data ! 1 = pxHello \<or> data ! 1 = pxFinish then
        (case pn_srv n of
           None \<Rightarrow> ([], n)
         | Some s \<Rightarrow> (let (o1, s1) = px_handleHandshake C N rnd now data raddr s in (o1, n\<lparr>pn_srv := Some s1\<rparr>)))
      else if data ! 1 = pxData then
        (case pxSessionID data of
           None \<Rightarrow> ([], n)
         | Some sid \<Rightarrow>
             let (mine, o1, n1) =
               (case pn_srv n of
                  None \<Rightarrow> (False, [], n)
                | Some s \<Rightarrow> (let (b, o1, s1) = px_handleData C E now sid data raddr s in (b, o1, n\<lparr>pn_srv := Some s1\<rparr>)))
             in if mine then (o1, n1)
                else case pn_cl n1 of
                    None \<Rightarrow> (o1, n1)
                  | Some c \<Rightarrow> (let (o2, c1) = cl_handleData C F now sid data raddr c in (o1 @ o2, n1\<lparr>pn_cl := Some c1\<rparr>)))
      else if data ! 1 = pxHelloReply \<or> data ! 1 = pxDeny then
        (case pn_cl n of
           None \<Rightarrow> ([], n)
         | Some c \<Rightarrow> (let (o1, c1) = cl_handleHandshake C Z now data raddr c in (o1, n\<lparr>pn_cl := Some c1\<rparr>)))
      else ([], n))"

section \<open>The order of candidates\<close>

lemma ins_back_sorted:
  assumes "sorted (map cd_rtt ys)"
  shows "ins_back ys x = filter (\<lambda>y. cd_rtt y \<le> cd_rtt x) ys @ x # filter (\<lambda>y. cd_rtt x < cd_rtt y) ys"
proof -
  have "takeWhile (\<lambda>y. cd_rtt x < cd_rtt y) (rev ys) = rev (filter (\<lambda>y. cd_rtt x < cd_rtt y) ys) \<and>
    take (length ys - length (filter (\<lambda>y. cd_rtt x < cd_rtt y) ys)) ys = filter (\<lambda>y. cd_rtt y \<le> cd_rtt x) ys"
    using assms
  proof (induction ys rule: rev_induct)
    case (snoc y ys)
    then have so: "sorted (map cd_rtt ys)" and le: "\<forall>z \<in> set ys. cd_rtt z \<le> cd_rtt y" by (auto simp: sorted_append)
    note IH = snoc.IH [OF so]
    show ?case
    proof (cases "cd_rtt x < cd_rtt y")
      case True
      moreover have "length (filter (\<lambda>y. cd_rtt x < cd_rtt y) ys) \<le> length ys" by simp
      ultimately show ?thesis using IH by (simp add: Suc_diff_le)
    next
      case False
      with le have none: "filter (\<lambda>y. cd_rtt x < cd_rtt y) ys = []" by (auto simp: filter_empty_conv)
      with le False have "filter (\<lambda>y. cd_rtt y \<le> cd_rtt x) ys = ys" by (auto simp: filter_id_conv)
      with none False show ?thesis by simp
    qed
  qed simp
  then show ?thesis by (simp add: ins_back_def Let_def)
qed


lemma sort_known_props: "sorted (map cd_rtt (sort_known cs)) \<and> mset (sort_known cs) = mset cs \<and>
    (\<forall>k. filter (\<lambda>y. cd_rtt y = k) (sort_known cs) = filter (\<lambda>y. cd_rtt y = k) cs)"
proof (induction cs rule: rev_induct)
  case (snoc x cs)
  let ?ys = "sort_known cs"
  from snoc have so: "sorted (map cd_rtt ?ys)" by simp
  have eq: "sort_known (cs @ [x]) = filter (\<lambda>y. cd_rtt y \<le> cd_rtt x) ?ys @ x # filter (\<lambda>y. cd_rtt x < cd_rtt y) ?ys"
    using ins_back_sorted [OF so, of x] by (simp add: sort_known_def)
  have "sorted (map cd_rtt (sort_known (cs @ [x])))"
    unfolding eq using so by (auto simp: sorted_append sorted_filter)
  moreover have "mset (sort_known (cs @ [x])) = mset (cs @ [x])"
    unfolding eq using snoc by (simp add: mset_filter not_le [symmetric] multiset_partition [symmetric])
  moreover have "filter (\<lambda>y. cd_rtt y = k) (sort_known (cs @ [x])) = filter (\<lambda>y. cd_rtt y = k) (cs @ [x])" for k
  proof -
    have f: "filter (\<lambda>y. cd_rtt y = k) (filter (\<lambda>y. cd_rtt y \<le> cd_rtt x) ?ys) = (if k \<le> cd_rtt x then filter (\<lambda>y. cd_rtt y = k) ?ys else [])"
      "filter (\<lambda>y. cd_rtt y = k) (filter (\<lambda>y. cd_rtt x < cd_rtt y) ?ys) = (if k \<le> cd_rtt x then [] else filter (\<lambda>y. cd_rtt y = k) ?ys)"
      by (auto simp: filter_empty_conv intro!: filter_cong)
    show ?thesis unfolding eq using snoc f by auto
  qed
  ultimately show ?case by blast
qed (simp add: sort_known_def)

lemma sort_known_is_sort: "sort_known cs = sort_key cd_rtt cs"
  by (rule properties_for_sort_key [symmetric]) (use sort_known_props [of cs] in \<open>auto simp: eq_commute\<close>)

lemma mset_shuffle: "n < length xs \<Longrightarrow> (\<And>i. draw i \<le> i) \<Longrightarrow> mset (shuffle draw n xs) = mset xs"
proof (induction draw n xs rule: shuffle.induct)
  case (2 draw i xs)
  from 2(3) [of "Suc i"] have "draw (Suc i) < length xs" using 2(2) by simp
  with 2 show ?case by (simp add: swap_at_def mset_swap)
qed simp

text \<open>
  The order in which a client tries public exits: the exits with a measured round-trip time first, sorted by it
  (the hand-written insertion sort is the stable sort of the library), then the unmeasured ones in some order; every
  candidate not in back-off occurs exactly as often as in the table and nothing else does, whatever the shuffle draws.
\<close>

theorem usable_fastest_first:
  fixes c :: "'hc pxClient" and now :: go_time
  assumes "\<And>i. draw i \<le> i"
  defines "cds \<equiv> filter (\<lambda>cd. cd_failUntil cd \<le> now) (map snd (cl_cands c))"
  shows "\<exists>rest. usableLocked draw now c = map cd_ep (sort_key cd_rtt (filter (\<lambda>cd. 0 < cd_rtt cd) cds)) @ rest \<and>
    mset rest = mset (map cd_ep (filter (\<lambda>cd. cd_rtt cd \<le> 0) cds))"
proof -
  let ?u = "filter (\<lambda>cd. cd_rtt cd \<le> 0) cds"
  have "mset (shuffle draw (length ?u - 1) ?u) = mset ?u"
  proof (cases ?u)
    case (Cons a as)
    then show ?thesis by (intro mset_shuffle assms) simp
  qed simp
  then have "mset (map cd_ep (shuffle draw (length ?u - 1) ?u)) = mset (map cd_ep ?u)" by (metis mset_map)
  then show ?thesis by (intro exI [of _ "map cd_ep (shuffle draw (length ?u - 1) ?u)"])
    (simp add: usableLocked_def sort_known_is_sort Let_def not_less cds_def)
qed

theorem usable_fastest_first_witness:
  "\<exists>rest. usableLocked (\<lambda>i. 0) 5 (startPubExitClient\<lparr>cl_cands := [(''a'', \<lparr>cd_ep = ''a'', cd_failUntil = 0, cd_rtt = 9\<rparr>), (''b'', \<lparr>cd_ep = ''b'', cd_failUntil = 0, cd_rtt = 0\<rparr>),
      (''c'', \<lparr>cd_ep = ''c'', cd_failUntil = 0, cd_rtt = 4\<rparr>), (''d'', \<lparr>cd_ep = ''d'', cd_failUntil = 7, cd_rtt = 1\<rparr>)]\<rparr>) = [''c'', ''a''] @ rest \<and> mset rest = mset [''b'']"
  using usable_fastest_first [of "\<lambda>i. 0" 5 "startPubExitClient\<lparr>cl_cands := [(''a'', \<lparr>cd_ep = ''a'', cd_failUntil = 0, cd_rtt = 9\<rparr>), (''b'', \<lparr>cd_ep = ''b'', cd_failUntil = 0, cd_rtt = 0\<rparr>),
      (''c'', \<lparr>cd_ep = ''c'', cd_failUntil = 0, cd_rtt = 4\<rparr>), (''d'', \<lparr>cd_ep = ''d'', cd_failUntil = 7, cd_rtt = 1\<rparr>)]\<rparr>"]
  by (simp add: startPubExitClient_def)

section \<open>What a stranger can do to a client\<close>

text \<open>\<open>net.ParseIP\<close> followed by \<open>To4\<close> yields four bytes.\<close>

definition ip6_ok :: "(string \<Rightarrow> ip_addr option) \<Rightarrow> bool" where
  "ip6_ok ip6 \<longleftrightarrow> (\<forall>s b. ip6 s = Some (V4 b) \<longrightarrow> length b = 4)"

lemma parse_ip_length: "ip6_ok ip6 \<Longrightarrow> to4 (parse_ip ip6 s) = Some b \<Longrightarrow> length b = 4"
  by (auto simp: parse_ip_def ip6_ok_def parse_ipv4_def split: option.splits list.splits elim!: to4.elims)

definition from_internet :: "px_cenv \<Rightarrow> byte list \<Rightarrow> bool" where
  "from_internet E q \<longleftrightarrow>
     (\<exists>p. pxParse q = Some p \<and> pxIsPublicIPv4 (px_src p) \<and> to4 (parse_ip (ce_ip6 E) (ce_self E)) = Some (px_dst p))"

lemma deliver_clean:
  assumes "PxTun q \<in> set (fst (cl_deliver E act pkt c))" and ip6: "ip6_ok (ce_ip6 E)"
  shows "from_internet E q"
proof -
  from assms(1) obtain p me where p: "pxParse pkt = Some p" "pxIsPublicIPv4 (px_src p)" "to4 (parse_ip (ce_ip6 E) (ce_self E)) = Some me"
    and q: "pxRewrite pkt False me = (True, q)"
    by (auto simp: cl_deliver_def split: option.splits prod.splits if_splits)
  have "pxParse q = Some (px_with False me p)"
    using rewrite_parse [OF parse_ip_length [OF ip6 p(3)] p(1), of False] q by simp
  with p show ?thesis by (auto simp: from_internet_def px_with_def)
qed

lemma handleData_clean:
  assumes "PxTun q \<in> set (fst (cl_handleData C E now sid data raddr c))" and "ip6_ok (ce_ip6 E)"
  shows "from_internet E q"
proof -
  have no: "PxTun q \<notin> set (fst (cl_attempt_data C now sid data raddr c))"
    by (auto simp: cl_attempt_data_def cl_assigned_def Let_def split: option.splits prod.splits sum.splits if_splits)
  from assms(1) no obtain act where "PxTun q \<in> set (fst (cl_active_data C E now act data raddr c))"
    by (auto simp: cl_handleData_def split: option.splits if_splits)
  with assms(2) show ?thesis
    by (auto simp: cl_active_data_def Let_def dest: deliver_clean split: option.splits prod.splits sum.splits if_splits)
qed



section \<open>Client and server together\<close>

text \<open>What the two Noise and ML-KEM libraries promise of one handshake: the messages are read back as they were
  written, the ciphertext decapsulates to the encapsulated secret, and both ends derive the same cipher states.\<close>

record ('hs, 'hc) noise_run =
  nr_msg1 :: "byte list"
  nr_h0 :: 'hc
  nr_k0 :: 'hs
  nr_pk :: "byte list"
  nr_k1 :: 'hs
  nr_ct :: "byte list"
  nr_ss :: "byte list"
  nr_msg2 :: "byte list"
  nr_k2 :: 'hs
  nr_h1 :: 'hc
  nr_msg3 :: "byte list"
  nr_keys :: "byte list \<times> byte list \<times> byte list"
  nr_h2 :: 'hc

definition noise_agrees :: "'hs px_noise \<Rightarrow> 'hc px_cnoise \<Rightarrow> byte list \<Rightarrow> byte list \<Rightarrow> byte list \<Rightarrow> ('hs, 'hc) noise_run \<Rightarrow> bool" where
  "noise_agrees N Z rs rc static r \<longleftrightarrow>
     cz_start Z rc = Some (nr_msg1 r, nr_h0 r) \<and> nz_new N rs static = Some (nr_k0 r) \<and>
     nz_read1 N (nr_k0 r) (nr_msg1 r) = Some (nr_pk r, nr_k1 r) \<and> nz_encap N rs (nr_pk r) = Some (nr_ct r, nr_ss r) \<and>
     nz_write2 N (nr_k1 r) (pxVersion # nr_ct r) = Some (nr_msg2 r, nr_k2 r) \<and>
     cz_read2 Z (nr_h0 r) (nr_msg2 r) = Some (pxVersion # nr_ct r, nr_h1 r) \<and> cz_decap Z (nr_h1 r) (nr_ct r) = Some (nr_ss r) \<and>
     cz_write3 Z (nr_h1 r) [pxVersion] = Some (nr_msg3 r, nr_keys r, nr_h2 r) \<and> nz_read3 N (nr_k2 r) (nr_msg3 r) = Some (nr_keys r) \<and>
     nr_msg1 r \<noteq> [] \<and> length (nr_msg1 r) \<le> 1395 \<and> nr_ct r \<noteq> [] \<and> nr_msg2 r \<noteq> [] \<and> length (nr_msg2 r) < 1392 \<and>
     nr_msg3 r \<noteq> [] \<and> length (nr_msg3 r) < 65536"

definition reply_bytes :: "u32 \<Rightarrow> byte list \<Rightarrow> byte list" where
  "reply_bytes sid msg2 = [PktPubExit, pxHelloReply] @ put_u32 sid @ put_u16 (of_nat (length msg2)) @ msg2"

definition linked :: "pxChannel \<Rightarrow> pxChannel \<Rightarrow> bool" where
  "linked a b \<longleftrightarrow> ch_sid a = ch_sid b \<and> ch_send a = ch_recv b \<and> ch_recv a = ch_send b \<and>
     win_ok (ch_win a) (ch_sendCtr b + 1) \<and> win_ok (ch_win b) (ch_sendCtr a + 1)"

definition hello_accepted :: "px_rand \<Rightarrow> go_time \<Rightarrow> udp_addr \<Rightarrow> u32 \<Rightarrow> 'hs pxServer \<Rightarrow> bool" where
  "hello_accepted rnd now me sid s \<longleftrightarrow>
     sv_enabled s \<and> fst (rate_allow (sv_hellos s) now) \<and> \<not> fst (QuotaExceeded (sv_limits s) now) \<and>
     int (length (sv_sessions s)) < sv_maxClients s \<and> length (sv_pending s) < pxMaxPending \<and>
     per_source s (ua_IP me) < sv_maxPerSrc s \<and> newSessionID s (rd_sids rnd) = Some sid"

lemma put_u16_length: "n < 65536 \<Longrightarrow> unat (be_u16 (put_u16 (of_nat n) @ r)) = n"
  by (simp add: unat_of_nat)

lemma new_sid_frame:
  "sv_pending s' = sv_pending s \<Longrightarrow> sv_sessions s' = sv_sessions s \<Longrightarrow> new_sid s' rs = new_sid s rs"
  by (induction s rs rule: new_sid.induct) auto

lemma hello_answered:
  assumes na: "noise_agrees N Z (rd_noise rnd) rc (sv_static s) r" and ok: "hello_accepted rnd now me sid s"
  shows "\<exists>h l. px_server_packet C N E rnd now (hello_bytes (nr_msg1 r)) me s =
    ([PxSend me (reply_bytes sid (nr_msg2 r))],
     incSource (ua_IP me) (s\<lparr>sv_hellos := h, sv_limits := l,
        sv_pending := gput sid \<lparr>pe_hs = nr_k2 r, pe_pqss = nr_ss r, pe_addr = me, pe_created = now\<rparr> (sv_pending s)\<rparr>))"
proof -
  let ?d = "hello_bytes (nr_msg1 r)"
  obtain h where h: "rate_allow (sv_hellos s) now = (True, h)" using ok by (cases "rate_allow (sv_hellos s) now") (simp add: hello_accepted_def)
  obtain l where l: "QuotaExceeded (sv_limits s) now = (False, l)" using ok by (cases "QuotaExceeded (sv_limits s) now") (simp add: hello_accepted_def)
  have n: "nr_msg1 r \<noteq> []" "length (nr_msg1 r) \<le> 1395" "nr_msg2 r \<noteq> []" "length (nr_msg2 r) < 1392" using na by (simp_all add: noise_agrees_def)
  have d: "length ?d = pxHelloSize" "?d ! Suc 0 = pxHello" "?d ! 2 = pxVersion" "unat (be_u16 (drop 3 ?d)) = length (nr_msg1 r)"
    "take (length (nr_msg1 r)) (drop 5 ?d) = nr_msg1 r"
    using n by (simp_all add: hello_bytes_def pxHelloSize_def put_u16_length del: be_u16_put)
  have sid: "newSessionID (s\<lparr>sv_hellos := h, sv_limits := l\<rparr>) (rd_sids rnd) = Some sid"
    using ok new_sid_frame [of "s\<lparr>sv_hellos := h, sv_limits := l\<rparr>" s] by (simp add: hello_accepted_def newSessionID_def)
  have ps: "per_source (s\<lparr>sv_hellos := h, sv_limits := l\<rparr>) x = per_source s x" for x by (simp add: per_source_def)
  have "px_server_packet C N E rnd now ?d me s = onHello C N rnd now ?d me s"
    using d ok by (simp add: px_server_packet_def px_handleHandshake_def pxHelloSize_def hello_accepted_def)
  moreover have "onHello C N rnd now ?d me s =
    ([PxSend me (reply_bytes sid (nr_msg2 r))],
     incSource (ua_IP me) (s\<lparr>sv_hellos := h, sv_limits := l,
        sv_pending := gput sid \<lparr>pe_hs = nr_k2 r, pe_pqss = nr_ss r, pe_addr = me, pe_created = now\<rparr> (sv_pending s)\<rparr>))"
    using na ok n by (simp add: onHello_def d h l sid ps noise_agrees_def hello_accepted_def pxHelloSize_def Let_def reply_bytes_def)
  ultimately show ?thesis by auto
qed

lemma reply_finished:
  assumes na: "noise_agrees N Z rs rc static r" and a: "gget (cl_attempts c) ex = Some i" "gget (cl_heap c) i = Some a"
    "at_sid a = 0" "at_hs a = nr_h0 r" and sid: "sid \<noteq> 0"
  shows "cl_handleHandshake C Z now (reply_bytes sid (nr_msg2 r)) ex c =
    ([PxSend (at_addr a) (finish_bytes sid (nr_msg3 r))],
     (put_attempt i (a\<lparr>at_hs := nr_h2 r, at_sid := sid,
        at_ch := Some (new_pxChannel sid (case nr_keys r of (c2s, s2c, b) \<Rightarrow> pxDeriveKeys C True c2s s2c b (nr_ss r))),
        at_finish := Some (finish_bytes sid (nr_msg3 r)), at_finishAt := now\<rparr>) c)\<lparr>cl_bySID := gput sid i (cl_bySID c)\<rparr>)"
proof -
  let ?d = "reply_bytes sid (nr_msg2 r)"
  have n: "nr_msg2 r \<noteq> []" "length (nr_msg2 r) < 1392" "nr_ct r \<noteq> []" using na by (simp_all add: noise_agrees_def)
  have d: "?d ! Suc 0 = pxHelloReply" "\<not> length ?d < 8" "be_u32 (drop 2 ?d) = sid" "unat (be_u16 (drop 6 ?d)) = length (nr_msg2 r)"
    "length ?d = 8 + length (nr_msg2 r)" "take (length (nr_msg2 r)) (drop 8 ?d) = nr_msg2 r"
    using n by (simp_all add: reply_bytes_def put_u16_length del: be_u16_put)
  obtain c2s s2c b where ks: "nr_keys r = (c2s, s2c, b)" by (cases "nr_keys r")
  have ct: "\<not> length (pxVersion # nr_ct r) < 2" using n(3) by (cases "nr_ct r") simp_all
  show ?thesis unfolding cl_handleHandshake_def
    using na a sid n ct ks by (simp add: d noise_agrees_def Let_def pxHelloReply_def pxDeny_def)
qed


lemma fresh_windows: "win_ok new_e2eWindow 1" "win_ok (win_mark new_e2eWindow 1) 2"
proof -
  show one: "win_ok new_e2eWindow 1" by (rule relay_window.tracks_ok_complete [OF relay_window.tracks_init]) simp_all
  show "win_ok (win_mark new_e2eWindow 1) 2"
    by (rule relay_window.tracks_ok_complete [OF relay_window.tracks_mark [OF relay_window.tracks_init one]]) (simp_all add: e2eWindowWords_def)
qed

lemma finish_accepted:
  assumes inv: "srv_inv M s" and on: "sv_enabled s" and p: "gget (sv_pending s) sid = Some p" "pe_addr p = me" "pe_created p = now"
    and read: "nz_read3 N (pe_hs p) msg3 = Some ks" "msg3 \<noteq> []" "length msg3 < 65536"
    and room: "int (length (sv_sessions s)) < sv_maxClients s" "sv_pool s \<noteq> None" "length (sv_byPool s) < 65533"
  shows "\<exists>ip t. px_server_packet C N E rnd now (finish_bytes sid msg3) me s =
      ([PxSend me (fst (px_seal C (new_pxChannel sid (case ks of (c2s, s2c, b) \<Rightarrow> pxDeriveKeys C False c2s s2c b (pe_pqss p))) pxInAssign
          (ip @ put_u16 pxMTU @ put_u32 (of_int (pxLease div second)))))], t) \<and> length ip = 4 \<and> \<not> pxIsPublicIPv4 ip \<and>
    (\<exists>x. gget (sv_sessions t) sid = Some x \<and> sx_poolIP x = ip \<and> sx_addr x = me \<and>
      sx_ch x = (new_pxChannel sid (case ks of (c2s, s2c, b) \<Rightarrow> pxDeriveKeys C False c2s s2c b (pe_pqss p)))\<lparr>ch_sendCtr := 1\<rparr>)"
proof -
  let ?d = "finish_bytes sid msg3" and ?s1 = "s\<lparr>sv_pending := gdel sid (sv_pending s)\<rparr>"
  have d: "?d ! Suc 0 = pxFinish" "\<not> length ?d < 8" "be_u32 (drop 2 ?d) = sid" "unat (be_u16 (drop 6 ?d)) = length msg3"
    "length ?d = 8 + length msg3" "take (length msg3) (drop 8 ?d) = msg3"
    using read by (simp_all add: finish_bytes_def put_u16_length del: be_u16_put)
  from inv p have none: "gget (sv_sessions s) sid = None" unfolding srv_inv_def id_inv_def by (metis option.distinct(1))
  have pi: "pool_inv ?s1" using inv by (simp add: srv_inv_def pool_inv_def)
  obtain ip where ip: "allocLocked (rd_alloc rnd) ?s1 = Some ip" using pool_slot [OF pi] room by auto
  note al = alloc_locked [OF pi ip]
  have cfg: "pool_cfg (sv_pool s) (sv_poolBase s) (sv_poolSize s)" using inv by (simp add: srv_inv_def pool_inv_def)
  have np: "\<not> pxIsPublicIPv4 ip" using pool_not_public [OF cfg, of ip] al(2) by simp
  let ?x = "new_srv_session C now sid p me ks ip (sv_clientBps ?s1)"
  have "px_server_packet C N E rnd now ?d me s = px_establish C sid ?x me ?s1"
    using d p read none room ip on
    by (simp add: px_server_packet_def px_handleHandshake_def pxFinish_def pxHello_def onFinish_def Let_def time_sub_def
        pxHandshakeTTL_def duration_defs min_duration_def max_duration_def)
  moreover obtain c2s s2c b where ks: "ks = (c2s, s2c, b)" by (cases ks)
  ultimately show ?thesis using al(3) np
    by (auto simp: px_establish_def px_send_sealed_def px_seal_def new_srv_session_def assignBody_def gomap_simps Let_def new_pxChannel_def)
qed

lemma assignment_taken:
  assumes C: "crypto_ok C" and act: "cl_active c = None" and a: "gget (cl_bySID c) sid = Some i" "gget (cl_heap c) i = Some a" "at_addr a = ex"
    and ch: "at_ch a = Some (new_pxChannel sid (pxDeriveKeys C True c2s s2c b ss))" and ip: "length ip = 4" "\<not> pxIsPublicIPv4 ip"
  shows "\<exists>c1 k. cl_handleData C F now sid (fst (px_seal C (new_pxChannel sid (pxDeriveKeys C False c2s s2c b ss)) pxInAssign
      (ip @ put_u16 pxMTU @ put_u32 (of_int (pxLease div second))))) ex c = ([], c1) \<and> cl_active c1 = Some k \<and> ac_poolIP k = ip \<and> ac_addr k = ex \<and>
      ac_ch k = (new_pxChannel sid (pxDeriveKeys C True c2s s2c b ss))\<lparr>ch_win := win_mark new_e2eWindow 1\<rparr>"
proof -
  let ?cl = "new_pxChannel sid (pxDeriveKeys C True c2s s2c b ss)" and ?sv = "new_pxChannel sid (pxDeriveKeys C False c2s s2c b ss)"
  let ?body = "ip @ put_u16 pxMTU @ put_u32 (of_int (pxLease div second))"
  have "ch_recv ?cl = ch_send ?sv" by (simp add: new_pxChannel_def keys_mirror)
  then have "px_open C ?cl (fst (px_seal C ?sv pxInAssign ?body)) = (Inr (pxInAssign, ?body), ?cl\<lparr>ch_win := win_mark new_e2eWindow 1\<rparr>)"
    using open_sealed [OF C, of ?cl] fresh_windows(1) by (simp add: px_seal_def Let_def new_pxChannel_def)
  then show ?thesis using act a ch ip by (simp add: cl_handleData_def cl_attempt_data_def cl_assigned_def Let_def)
qed

text \<open>
  C18: Client and exit come together: if the libraries behave, the exit is on and has room, and no datagram is lost,
  the five messages of a handshake leave the exit with a session and the client with an active exit that agree on the
  pool address and hold the two ends of one channel, ready in both directions.
\<close>

theorem tunnel_established:
  assumes C: "crypto_ok C" and na: "noise_agrees N Z (rd_noise rnd) rc (sv_static s) r"
    and cl: "ce_resolve F ep = Some ex" "cl_active c = None"
    and srv: "srv_inv M s" "hello_accepted rnd now me sid s" "sv_pool s \<noteq> None" "length (sv_byPool s) < 65533"
  shows "\<exists>hello c1 reply s1 fin c2 asg s2 c3 x k.
    startAttempt F Z rc now ep c = ([PxSend ex hello], c1) \<and>
    px_server_packet C N E rnd now hello me s = ([PxSend me reply], s1) \<and>
    cl_handleHandshake C Z now reply ex c1 = ([PxSend ex fin], c2) \<and>
    px_server_packet C N E rnd now fin me s1 = ([PxSend me asg], s2) \<and>
    cl_handleData C F now sid asg ex c2 = ([], c3) \<and>
    gget (sv_sessions s2) sid = Some x \<and> cl_active c3 = Some k \<and> ac_poolIP k = sx_poolIP x \<and> linked (ac_ch k) (sx_ch x)"
proof -
  let ?a = "\<lparr>at_ep = ep, at_addr = ex, at_hs = nr_h0 r, at_started = now, at_sid = 0, at_ch = None, at_finish = None, at_finishAt = 0, at_resends = 0\<rparr>"
  let ?c1 = "(put_attempt (cl_next c) ?a c)\<lparr>cl_next := cl_next c + 1, cl_attempts := gput ex (cl_next c) (cl_attempts c)\<rparr>"
  have n: "cz_start Z rc = Some (nr_msg1 r, nr_h0 r)" "length (nr_msg1 r) \<le> 1395" "nz_read3 N (nr_k2 r) (nr_msg3 r) = Some (nr_keys r)"
    "nr_msg3 r \<noteq> []" "length (nr_msg3 r) < 65536"
    using na by (simp_all add: noise_agrees_def)
  have 1: "startAttempt F Z rc now ep c = ([PxSend ex (hello_bytes (nr_msg1 r))], ?c1)"
    using cl n by (simp add: startAttempt_def pxHelloSize_def)
  obtain h l where 2: "px_server_packet C N E rnd now (hello_bytes (nr_msg1 r)) me s = ([PxSend me (reply_bytes sid (nr_msg2 r))],
     incSource (ua_IP me) (s\<lparr>sv_hellos := h, sv_limits := l,
        sv_pending := gput sid \<lparr>pe_hs = nr_k2 r, pe_pqss = nr_ss r, pe_addr = me, pe_created = now\<rparr> (sv_pending s)\<rparr>))" (is "_ = (_, ?s1)")
    using hello_answered [OF na srv(2)] by blast
  have fresh: "sid \<noteq> 0" using srv(2) new_sid_fresh [of s "take 8 (rd_sids rnd)" sid] by (simp add: hello_accepted_def newSessionID_def)
  obtain c2s s2c b where ks: "nr_keys r = (c2s, s2c, b)" by (cases "nr_keys r")
  define a2 where "a2 = ?a\<lparr>at_hs := nr_h2 r, at_sid := sid, at_ch := Some (new_pxChannel sid (pxDeriveKeys C True c2s s2c b (nr_ss r))),
        at_finish := Some (finish_bytes sid (nr_msg3 r)), at_finishAt := now\<rparr>"
  let ?c2 = "(put_attempt (cl_next c) a2 ?c1)\<lparr>cl_bySID := gput sid (cl_next c) (cl_bySID ?c1)\<rparr>"
  have 3: "cl_handleHandshake C Z now (reply_bytes sid (nr_msg2 r)) ex ?c1 = ([PxSend ex (finish_bytes sid (nr_msg3 r))], ?c2)"
    using reply_finished [OF na, of ?c1 ex "cl_next c" ?a sid C now] fresh ks by (simp add: put_attempt_def gomap_simps a2_def)
  have "srv_inv M ?s1" using px_packet_inv [OF srv(1), of C N E rnd now "hello_bytes (nr_msg1 r)" me] 2 by simp
  moreover have "sv_enabled ?s1" "int (length (sv_sessions ?s1)) < sv_maxClients ?s1" "sv_pool ?s1 \<noteq> None" "length (sv_byPool ?s1) < 65533"
    using srv by (simp_all add: incSource_def hello_accepted_def)
  moreover have "gget (sv_pending ?s1) sid = Some \<lparr>pe_hs = nr_k2 r, pe_pqss = nr_ss r, pe_addr = me, pe_created = now\<rparr>" by (simp add: incSource_def gomap_simps)
  ultimately obtain ip s2 x where
    4: "px_server_packet C N E rnd now (finish_bytes sid (nr_msg3 r)) me ?s1 =
      ([PxSend me (fst (px_seal C (new_pxChannel sid (pxDeriveKeys C False c2s s2c b (nr_ss r))) pxInAssign
          (ip @ put_u16 pxMTU @ put_u32 (of_int (pxLease div second)))))], s2)"
    and ip: "length ip = 4" "\<not> pxIsPublicIPv4 ip"
    and x: "gget (sv_sessions s2) sid = Some x" "sx_poolIP x = ip" "sx_ch x = (new_pxChannel sid (pxDeriveKeys C False c2s s2c b (nr_ss r)))\<lparr>ch_sendCtr := 1\<rparr>"
    using finish_accepted [of M ?s1 sid "\<lparr>pe_hs = nr_k2 r, pe_pqss = nr_ss r, pe_addr = me, pe_created = now\<rparr>" me now N "nr_msg3 r" "nr_keys r" C E rnd] n(3-5) ks
    by auto
  have a2: "at_addr a2 = ex" "at_ch a2 = Some (new_pxChannel sid (pxDeriveKeys C True c2s s2c b (nr_ss r)))" by (simp_all add: a2_def)
  obtain c3 k where 5: "cl_handleData C F now sid (fst (px_seal C (new_pxChannel sid (pxDeriveKeys C False c2s s2c b (nr_ss r))) pxInAssign
      (ip @ put_u16 pxMTU @ put_u32 (of_int (pxLease div second))))) ex ?c2 = ([], c3)"
    and k: "cl_active c3 = Some k" "ac_poolIP k = ip" "ac_ch k = (new_pxChannel sid (pxDeriveKeys C True c2s s2c b (nr_ss r)))\<lparr>ch_win := win_mark new_e2eWindow 1\<rparr>"
    using assignment_taken [OF C, of ?c2 sid "cl_next c" a2 ex c2s s2c b "nr_ss r" ip F now] cl a2 ip by (auto simp: put_attempt_def gomap_simps)
  have "linked (ac_ch k) (sx_ch x)" using fresh_windows by (simp add: linked_def k x new_pxChannel_def keys_mirror)
  with 1 2 3 4 5 x k show ?thesis by metis
qed


text \<open>A packet the exit seals on its end of the channel reaches the client's TUN.\<close>

lemma client_delivers:
  assumes C: "crypto_ok C" and act: "cl_active c = Some k" "ch_sid (ac_ch k) = sid"
    and ch: "ch_send b = ch_recv (ac_ch k)" "win_ok (ch_win (ac_ch k)) (ch_sendCtr b + 1)"
    and p: "pxParse pkt = Some p" "pxIsPublicIPv4 (px_src p)" "px_dst p = ac_poolIP k" "to4 (parse_ip (ce_ip6 F) (ce_self F)) = Some self"
  shows "fst (cl_handleData C F now sid (fst (px_seal C b pxInPacket pkt)) (ac_addr k) c) = [PxTun (snd (pxRewrite pkt False self))]"
proof -
  have "px_open C (ac_ch k) (fst (px_seal C b pxInPacket pkt)) =
      (Inr (pxInPacket, pkt), (ac_ch k)\<lparr>ch_win := win_mark (ch_win (ac_ch k)) (ch_sendCtr b + 1)\<rparr>)"
    using open_sealed [OF C ch(1) [symmetric]] ch(2) by (simp add: px_seal_def Let_def)
  moreover obtain q where "pxRewrite pkt False self = (True, q)" using rewrite_ok [OF p(1)] by (metis prod.collapse)
  ultimately show ?thesis using act p by (simp add: cl_handleData_def cl_active_data_def cl_deliver_def Let_def)
qed


section \<open>Witnesses\<close>

definition demo_cnoise :: "unit px_cnoise" where
  "demo_cnoise = \<lparr>cz_start = (\<lambda>_. Some ([5], ())), cz_read2 = (\<lambda>_ m. Some ([1, 1], ())), cz_decap = (\<lambda>_ ct. Some [2]),
     cz_write3 = (\<lambda>_ p. Some ([4], ([1], [2], [3]), ()))\<rparr>"

definition demo_cenv :: px_cenv where
  "demo_cenv = \<lparr>ce_usingExit = True, ce_usePublic = True, ce_pinned = True, ce_internal = False, ce_self = ''10.0.0.7'', ce_ip6 = (\<lambda>_. None),
     ce_resolve = (\<lambda>_. Some \<lparr>ua_IP = Some (V4 [7, 7, 7, 7]), ua_Port = 9, ua_Zone = []\<rparr>), ce_found = [], ce_valid = (\<lambda>_. True)\<rparr>"

definition demo_rand :: px_rand where
  "demo_rand = \<lparr>rd_noise = [], rd_sids = [Some 9], rd_alloc = 5\<rparr>"

definition demo_me :: udp_addr where
  "demo_me = \<lparr>ua_IP = Some (V4 [8, 8, 4, 4]), ua_Port = 5, ua_Zone = []\<rparr>"

definition demo_run :: "(unit, unit) noise_run" where
  "demo_run = \<lparr>nr_msg1 = [5], nr_h0 = (), nr_k0 = (), nr_pk = [5], nr_k1 = (), nr_ct = [1], nr_ss = [2], nr_msg2 = [3], nr_k2 = (), nr_h1 = (),
     nr_msg3 = [4], nr_keys = ([1], [2], [3]), nr_h2 = ()\<rparr>"

theorem tunnel_established_witness:
  "\<exists>hello c1 reply s1 fin c2 asg s2 c3 x k.
    startAttempt demo_cenv demo_cnoise [] 1 ''x:9'' (startPubExitClient :: unit pxClient) = ([PxSend \<lparr>ua_IP = Some (V4 [7, 7, 7, 7]), ua_Port = 9, ua_Zone = []\<rparr> hello], c1) \<and>
    px_server_packet xor_crypto demo_noise demo_env demo_rand 1 hello demo_me demo_running = ([PxSend demo_me reply], s1) \<and>
    cl_handleHandshake xor_crypto demo_cnoise 1 reply \<lparr>ua_IP = Some (V4 [7, 7, 7, 7]), ua_Port = 9, ua_Zone = []\<rparr> c1 =
      ([PxSend \<lparr>ua_IP = Some (V4 [7, 7, 7, 7]), ua_Port = 9, ua_Zone = []\<rparr> fin], c2) \<and>
    px_server_packet xor_crypto demo_noise demo_env demo_rand 1 fin demo_me s1 = ([PxSend demo_me asg], s2) \<and>
    cl_handleData xor_crypto demo_cenv 1 9 asg \<lparr>ua_IP = Some (V4 [7, 7, 7, 7]), ua_Port = 9, ua_Zone = []\<rparr> c2 = ([], c3) \<and>
    gget (sv_sessions s2) 9 = Some x \<and> cl_active c3 = Some k \<and> ac_poolIP k = sx_poolIP x \<and> linked (ac_ch k) (sx_ch x)"
proof (rule tunnel_established [OF xor_crypto_ok])
  show "noise_agrees demo_noise demo_cnoise (rd_noise demo_rand) [] (sv_static demo_running) demo_run"
    by (simp add: noise_agrees_def demo_noise_def demo_cnoise_def demo_run_def pxVersion_def)
  show "srv_inv 16 demo_running" by (rule demo_running_inv)
  show "hello_accepted demo_rand 1 demo_me 9 demo_running"
    by (simp add: hello_accepted_def demo_running_def demo_start_def startPublicExit_def setBlockedPorts_def Let_def parseRate_empty newBandwidthLimiter_def
        bw_load_def QuotaExceeded_def rollPeriodLocked_def rate_allow_def newPxRate_def pxHellosPerSec_def seconds_def time_sub_def min_duration_def max_duration_def
        pxMaxPending_def per_source_def pxDefaultMaxPerSource_def pxDefaultMaxClients_def newSessionID_def demo_rand_def demo_me_def)
qed (simp_all add: demo_cenv_def startPubExitClient_def demo_running_def)

text \<open>A client on the other end of the demonstration session, and an answer from the internet.\<close>

definition demo_active :: pxActive where
  "demo_active = \<lparr>ac_ep = ''x:9'', ac_addr = demo_me, ac_ch = new_pxChannel 7 ([], []), ac_poolIP = [198, 18, 0, 2],
     ac_since = 0, ac_lease = pxLease, ac_lastRx = 0, ac_lastPing = None, ac_pingSent = None, ac_rtt = 0\<rparr>"

definition demo_tunnel :: "unit pxClient" where
  "demo_tunnel = startPubExitClient\<lparr>cl_active := Some demo_active\<rparr>"

definition demo_reply :: "byte list" where
  "demo_reply = [0x45, 0, 0, 28, 0, 0, 0, 0, 64, 17, 0, 0, 8, 8, 8, 8, 198, 18, 0, 2, 0, 53, 0x30, 0x39, 0, 8, 0x12, 0x34]"

lemma demo_reply_parsed: "pxParse demo_reply = Some \<lparr>px_ihl = 20, px_proto = 17, px_src = [8, 8, 8, 8], px_dst = [198, 18, 0, 2],
    px_firstFrg = True, px_dport = 12345, px_hasPort = True, px_icmpType = 0, px_tcpFlags = 0\<rparr>"
  by (simp add: demo_reply_def pxParse_def px_base_def px_transport_def be_u16_def be_nat_def Let_def)

lemma demo_public: "pxIsPublicIPv4 [8, 8, 8, 8]"
  by (simp add: pxIsPublicIPv4_def pxNonPublic_def net_contains_def be_nat_def)

lemma demo_self: "to4 (parse_ip (ce_ip6 demo_cenv) (ce_self demo_cenv)) = Some [10, 0, 0, 7]"
  unfolding demo_cenv_def by code_simp

lemma demo_linked: "linked (new_pxChannel 7 ([], [])) (new_pxChannel 7 ([], []))"
  by (simp add: linked_def new_pxChannel_def win_ok_def new_e2eWindow_def)

lemma demo_ends:
  "cl_active demo_tunnel = Some demo_active" "ac_ch demo_active = new_pxChannel 7 ([], [])"
  "ac_addr demo_active = demo_me" "ac_poolIP demo_active = [198, 18, 0, 2]"
  "sx_ch demo_client = new_pxChannel 7 ([], [])" "sx_poolIP demo_client = [198, 18, 0, 2]" "ch_sid (new_pxChannel 7 ([], [])) = 7"
  by (simp_all add: demo_tunnel_def demo_active_def demo_client_def new_pxChannel_def)


lemma sealed_header:
  "pxSessionID (fst (px_seal C c k b)) = Some (ch_sid c)" "fst (px_seal C c k b) ! Suc 0 = pxData" "\<not> length (fst (px_seal C c k b)) < 2"
  by (simp add: px_seal_def Let_def header_sid, simp_all add: px_seal_def Let_def px_header_def)



end
