(* ===== verification/Replica_Packet.thy ===== *)
theory Replica_Packet
  imports Exit_Packet
begin

text \<open>
  The packets of a replicated service, \<open>client/replicas.go\<close>: the flow of a packet and the rewriting of
  an address and a port in place, with the incremental update of the two checksums.

  Shown here: the packet that was rewritten is one of the intended flow, of the same length, its payload untouched; the
  sums that the header and the transport checksums cover are the same modulo 65535, so that a receiver accepts the
  packet exactly if it would have accepted the original; and the checksum update agrees with the one of
  \<open>pubexit_proto.go\<close>.
\<close>

section \<open>Flows\<close>

definition protoTCP :: byte where "protoTCP = 6"
definition protoUDP :: byte where "protoUDP = 17"

record flowKey =
  fk_proto :: byte
  fk_src :: "byte list"
  fk_dst :: "byte list"
  fk_sport :: u16
  fk_dport :: u16

definition flow_ihl :: "byte list \<Rightarrow> nat" where
  "flow_ihl pkt = unat (pkt ! 0 AND 0x0F) * 4"

text \<open>The flow and whether the packet opens a TCP connection; \<open>None\<close> for a packet without ports.\<close>

definition parseFlow :: "byte list \<Rightarrow> (flowKey \<times> bool) option" where
  "parseFlow pkt =
     (if length pkt < 20 \<or> drop_bit 4 (pkt ! 0) \<noteq> 4 then None
      else
        let ihl = flow_ihl pkt in
        if ihl < 20 \<or> length pkt < ihl + 4 then None
        else if be_u16 (drop 6 pkt) AND 0x3FFF \<noteq> 0 then None
        else if pkt ! 9 \<noteq> protoTCP \<and> pkt ! 9 \<noteq> protoUDP then None
        else
          Some (\<lparr>fk_proto = pkt ! 9, fk_src = take 4 (drop 12 pkt), fk_dst = take 4 (drop 16 pkt),
                 fk_sport = be_u16 (drop ihl pkt), fk_dport = be_u16 (drop (ihl + 2) pkt)\<rparr>,
                pkt ! 9 = protoTCP \<and> ihl + 14 \<le> length pkt \<and> pkt ! (ihl + 13) AND 2 \<noteq> 0 \<and> pkt ! (ihl + 13) AND 0x10 = 0))"

section \<open>Rewriting\<close>

fun csum_acc :: "u32 \<Rightarrow> byte list \<Rightarrow> byte list \<Rightarrow> u32" where
  "csum_acc acc (a # b # r) (c # d # s) = csum_acc (acc + ucast (NOT (px_word a b)) + ucast (px_word c d)) r s"
| "csum_acc acc _ _ = acc"

definition csumAdjust :: "u16 \<Rightarrow> byte list \<Rightarrow> byte list \<Rightarrow> u16" where
  "csumAdjust c old new = NOT (ucast (px_fold (csum_acc (ucast (NOT c)) old new)))"

definition csum_off :: "byte list \<Rightarrow> nat" where
  "csum_off pkt = flow_ihl pkt + (if pkt ! 9 = protoUDP then 6 else 16)"

text \<open>The transport checksum of a packet whose address and port were replaced.\<close>

definition fix_transport :: "byte list \<Rightarrow> byte list \<Rightarrow> byte list \<Rightarrow> byte list \<Rightarrow> byte list \<Rightarrow> byte list" where
  "fix_transport oldIP ip oldPort newPort pkt =
     (let off = csum_off pkt; c = be_u16 (drop off pkt) in
      if length pkt < off + 2 then pkt
      else if pkt ! 9 = protoUDP \<and> c = 0 then pkt
      else
        let c1 = csumAdjust (csumAdjust c oldIP ip) oldPort newPort;
            c2 = (if pkt ! 9 = protoUDP \<and> c1 = 0 then 0xFFFF else c1)
        in put_at off (put_u16 c2) pkt)"

definition addr_off :: "bool \<Rightarrow> nat" where
  "addr_off dst = (if dst then 16 else 12)"

definition port_off :: "bool \<Rightarrow> byte list \<Rightarrow> nat" where
  "port_off dst pkt = (if dst then flow_ihl pkt + 2 else flow_ihl pkt)"

definition fix_header :: "byte list \<Rightarrow> byte list \<Rightarrow> byte list \<Rightarrow> byte list" where
  "fix_header oldIP ip pkt = put_at 10 (put_u16 (csumAdjust (be_u16 (drop 10 pkt)) oldIP ip)) pkt"

definition rewriteAddrPort :: "byte list \<Rightarrow> bool \<Rightarrow> byte list \<Rightarrow> u16 \<Rightarrow> byte list" where
  "rewriteAddrPort pkt dst ip port =
     (let oldIP = take 4 (drop (addr_off dst) pkt); oldPort = take 2 (drop (port_off dst pkt) pkt); newPort = put_u16 port;
          p1 = put_at (port_off dst pkt) newPort (put_at (addr_off dst) ip pkt)
      in fix_transport oldIP ip oldPort newPort (fix_header oldIP ip p1))"

section \<open>The checksum update\<close>

lemma px_word_value: "unat (px_word x y) = unat x * 256 + unat y"
  unfolding px_word_def by (rule unat_byte_pair) simp

lemma csum_acc_value:
  "length old = length new \<Longrightarrow> even (length old) \<Longrightarrow> unat acc + 65535 * length old < 2 ^ 32 \<Longrightarrow>
   unat (csum_acc acc old new) + word_sum old = unat acc + word_sum new + 65535 * (length old div 2)"
proof (induction acc old new rule: csum_acc.induct)
  case (1 acc a b r c d s)
  note w = unat_u16_le [of "px_word a b"] unat_u16_le [of "px_word c d"]
  have u: "unat (acc + ucast (NOT (px_word a b)) + ucast (px_word c d) :: u32) = unat acc + (65535 - unat (px_word a b)) + unat (px_word c d)"
    using 1(4) w by (simp add: unat_word_ariths u16_words unat_not16)
  have "unat (csum_acc (acc + ucast (NOT (px_word a b)) + ucast (px_word c d)) r s) + word_sum r =
      unat (acc + ucast (NOT (px_word a b)) + ucast (px_word c d) :: u32) + word_sum s + 65535 * (length r div 2)"
    by (rule 1(1)) (use 1(2-4) u w in simp_all)
  then show ?case using u w by (simp add: px_word_value)
qed auto

lemma csum_value:
  assumes "length old = length new" "even (length old)" "length old \<le> 4"
  shows "(unat (csumAdjust s old new) + word_sum new) mod 65535 = (unat s + word_sum old) mod 65535"
proof -
  let ?a = "csum_acc (ucast (NOT s)) old new"
  define r where "r = csumAdjust s old new"
  have a: "unat ?a + word_sum old = (65535 - unat s) + word_sum new + 65535 * (length old div 2)"
    using csum_acc_value [of old new "ucast (NOT s)"] assms unat_u16_le [of s] by (simp add: u16_words unat_not16)
  have f: "unat (px_fold ?a) < 65536" "unat (px_fold ?a) mod 65535 = unat ?a mod 65535" using px_fold_props [of ?a] by simp_all
  have r: "unat r + unat (px_fold ?a) = 65535" using f(1) by (simp add: r_def csumAdjust_def unat_not16 unat_fold16)
  have "(unat r + unat ?a) mod 65535 = (unat r + unat (px_fold ?a)) mod 65535"
    by (subst (1 2) mod_add_right_eq [symmetric]) (simp only: f(2))
  then have "(unat r + unat ?a) mod 65535 = 0" by (simp only: r mod_self)
  then have "((unat r + unat ?a) + (unat s + word_sum old)) mod 65535 = (unat s + word_sum old) mod 65535"
    by (subst mod_add_left_eq [symmetric]) (simp only: add_0)
  moreover have "(unat r + unat ?a) + (unat s + word_sum old) = unat r + word_sum new + (1 + length old div 2) * 65535"
    using a unat_u16_le [of s] by (simp add: algebra_simps)
  ultimately have "(unat r + word_sum new) mod 65535 = (unat s + word_sum old) mod 65535" by (metis mod_mult_self1)
  then show ?thesis by (simp add: r_def)
qed

text \<open>
  Two routines of the program update a one's complement checksum when an address changes, \<open>csumAdjust\<close> of the
  replicas and \<open>pxAdjust\<close> of the public exits. They write the same two bytes.
\<close>

theorem csum_updates_agree:
  assumes "length old = 4" "length new = 4"
  shows "put_u16 (csumAdjust (be_u16 field) old new) = pxAdjust field old new"
proof -
  obtain a b c d where old: "old = [a, b, c, d]" using assms(1) by (auto simp: length_Suc_conv numeral_eq_Suc)
  obtain e f g h where new: "new = [e, f, g, h]" using assms(2) by (auto simp: length_Suc_conv numeral_eq_Suc)
  show ?thesis by (simp add: csumAdjust_def pxAdjust_def old new Let_def add.assoc)
qed

section \<open>What a rewriting leaves in place\<close>

lemma take_put_after: "n \<le> i \<Longrightarrow> i + length bs \<le> length l \<Longrightarrow> take n (put_at i bs l) = take n l"
  by (simp add: put_at_def min_def)

lemma drop_put_after: "n \<le> i \<Longrightarrow> i + length bs \<le> length l \<Longrightarrow> drop n (put_at i bs l) = put_at (i - n) bs (drop n l)"
  by (simp add: put_at_def drop_take)

lemma slice_put: "i + length bs \<le> length l \<Longrightarrow> take (length bs) (drop i (put_at i bs l)) = bs"
  by (simp add: put_at_def min_def)

lemma slice_cong:
  assumes "length q = length l" "k + m \<le> length l" "\<And>j. k \<le> j \<Longrightarrow> j < k + m \<Longrightarrow> q ! j = l ! j"
  shows "take m (drop k q) = take m (drop k l)"
  using assms by (intro nth_equalityI) auto

lemma mod_cancel: "(a + c) mod n = (b + c) mod n \<Longrightarrow> a mod n = b mod n" for a b c n :: nat
proof -
  assume "(a + c) mod n = (b + c) mod n"
  then have "int ((a + c) mod n) = int ((b + c) mod n)" by (rule arg_cong)
  then have "int a mod int n = int b mod int n" by (simp add: of_nat_mod mod_eq_dvd_iff)
  then have "int (a mod n) = int (b mod n)" by (simp only: of_nat_mod)
  then show ?thesis by (simp only: of_nat_eq_iff)
qed

text \<open>A packet that has a flow.\<close>

definition has_flow :: "byte list \<Rightarrow> bool" where
  "has_flow pkt \<longleftrightarrow> 20 \<le> flow_ihl pkt \<and> flow_ihl pkt + 4 \<le> length pkt \<and> (pkt ! 9 = protoTCP \<or> pkt ! 9 = protoUDP)"

lemma parse_has_flow: "parseFlow pkt = Some r \<Longrightarrow> has_flow pkt"
  by (auto simp: parseFlow_def has_flow_def Let_def split: if_splits)

lemma flow_ihl_even: "even (flow_ihl pkt)"
  by (simp add: flow_ihl_def)

lemma off_bounds:
  "addr_off dst \<in> {12, 16}" "port_off dst pkt \<in> {flow_ihl pkt, flow_ihl pkt + 2}" "csum_off pkt \<in> {flow_ihl pkt + 6, flow_ihl pkt + 16}"
  by (auto simp: addr_off_def port_off_def csum_off_def)

text \<open>The three stages of a rewriting.\<close>

definition stage1 :: "byte list \<Rightarrow> bool \<Rightarrow> byte list \<Rightarrow> u16 \<Rightarrow> byte list" where
  "stage1 pkt dst ip port = put_at (port_off dst pkt) (put_u16 port) (put_at (addr_off dst) ip pkt)"

definition stage2 :: "byte list \<Rightarrow> bool \<Rightarrow> byte list \<Rightarrow> u16 \<Rightarrow> byte list" where
  "stage2 pkt dst ip port = fix_header (take 4 (drop (addr_off dst) pkt)) ip (stage1 pkt dst ip port)"

lemma rewrite_stages:
  "rewriteAddrPort pkt dst ip port =
     fix_transport (take 4 (drop (addr_off dst) pkt)) ip (take 2 (drop (port_off dst pkt) pkt)) (put_u16 port) (stage2 pkt dst ip port)"
  by (simp add: rewriteAddrPort_def stage2_def stage1_def Let_def)

lemma length_stages:
  assumes "has_flow pkt" "length ip = 4"
  shows "length (stage1 pkt dst ip port) = length pkt" "length (stage2 pkt dst ip port) = length pkt"
  using assms off_bounds(1) [of dst] off_bounds(2) [of dst pkt] by (auto simp: stage1_def stage2_def fix_header_def has_flow_def)

lemma length_fix_transport [simp]: "length (fix_transport a b c d pkt) = length pkt"
  by (simp add: fix_transport_def Let_def)

lemma length_rewrite: "has_flow pkt \<Longrightarrow> length ip = 4 \<Longrightarrow> length (rewriteAddrPort pkt dst ip port) = length pkt"
  by (simp add: rewrite_stages length_stages)

lemma stage1_nth:
  assumes "has_flow pkt" "length ip = 4" "j < length pkt"
  shows "stage1 pkt dst ip port ! j =
    (if port_off dst pkt \<le> j \<and> j < port_off dst pkt + 2 then put_u16 port ! (j - port_off dst pkt)
     else if addr_off dst \<le> j \<and> j < addr_off dst + 4 then ip ! (j - addr_off dst) else pkt ! j)"
  using assms off_bounds(1) [of dst] off_bounds(2) [of dst pkt]
  by (auto simp: stage1_def has_flow_def nth_put_at)

lemma stage2_nth:
  assumes "has_flow pkt" "length ip = 4" "j < length pkt" "j \<noteq> 10" "j \<noteq> 11"
  shows "stage2 pkt dst ip port ! j = stage1 pkt dst ip port ! j"
  using assms length_stages(1) [of pkt ip dst port]
  by (auto simp: stage2_def fix_header_def nth_put_at has_flow_def)

lemma stage2_fixed:
  assumes "has_flow pkt" "length ip = 4"
  shows "flow_ihl (stage2 pkt dst ip port) = flow_ihl pkt" "stage2 pkt dst ip port ! 9 = pkt ! 9" "csum_off (stage2 pkt dst ip port) = csum_off pkt"
proof -
  have l: "24 \<le> length pkt" using assms by (simp add: has_flow_def)
  have "stage2 pkt dst ip port ! j = pkt ! j" if "j < 10" for j
    using stage2_nth [OF assms, of j dst port] stage1_nth [OF assms, of j dst port] that l off_bounds(1) [of dst] off_bounds(2) [of dst pkt] assms(1)
    by (auto simp: has_flow_def)
  from this [of 0] this [of 9] show "flow_ihl (stage2 pkt dst ip port) = flow_ihl pkt" "stage2 pkt dst ip port ! 9 = pkt ! 9"
      "csum_off (stage2 pkt dst ip port) = csum_off pkt"
    by (simp_all add: flow_ihl_def csum_off_def)
qed

lemma fix_transport_nth:
  assumes "j < length pkt" "j \<noteq> csum_off pkt" "j \<noteq> csum_off pkt + 1"
  shows "fix_transport a b c d pkt ! j = pkt ! j"
  using assms by (auto simp: fix_transport_def Let_def nth_put_at)

lemma rewrite_nth:
  assumes "has_flow pkt" "length ip = 4" "j < length pkt" "j \<notin> {10, 11, csum_off pkt, csum_off pkt + 1}"
  shows "rewriteAddrPort pkt dst ip port ! j =
    (if port_off dst pkt \<le> j \<and> j < port_off dst pkt + 2 then put_u16 port ! (j - port_off dst pkt)
     else if addr_off dst \<le> j \<and> j < addr_off dst + 4 then ip ! (j - addr_off dst) else pkt ! j)"
  using assms
  by (simp add: rewrite_stages fix_transport_nth stage2_fixed length_stages stage2_nth stage1_nth)

section \<open>The rewritten flow\<close>

definition redirected :: "bool \<Rightarrow> byte list \<Rightarrow> u16 \<Rightarrow> flowKey \<Rightarrow> flowKey" where
  "redirected dst ip port k = (if dst then k\<lparr>fk_dst := ip, fk_dport := port\<rparr> else k\<lparr>fk_src := ip, fk_sport := port\<rparr>)"

lemma be_u16_slice: "take 2 (drop i a) = take 2 (drop i b) \<Longrightarrow> be_u16 (drop i a) = be_u16 (drop i b)"
  by (simp add: be_u16_def)

lemma rewrite_slice:
  assumes f: "has_flow pkt" "length ip = 4" and m: "i + m \<le> length pkt"
    and d: "i + m \<le> 10 \<or> 12 \<le> i" "i + m \<le> csum_off pkt \<or> csum_off pkt + 2 \<le> i"
      "i + m \<le> port_off dst pkt \<or> port_off dst pkt + 2 \<le> i" "i + m \<le> addr_off dst \<or> addr_off dst + 4 \<le> i"
  shows "take m (drop i (rewriteAddrPort pkt dst ip port)) = take m (drop i pkt)"
  by (rule slice_cong) (use d m in \<open>auto simp: length_rewrite [OF f] rewrite_nth [OF f]\<close>)

lemma rewrite_addr_slice:
  assumes f: "has_flow pkt" "length ip = 4"
  shows "take 4 (drop (addr_off dst) (rewriteAddrPort pkt dst ip port)) = ip"
proof (rule nth_equalityI)
  show "length (take 4 (drop (addr_off dst) (rewriteAddrPort pkt dst ip port))) = length ip"
    using f off_bounds(1) [of dst] by (auto simp: length_rewrite [OF f] has_flow_def)
  fix j assume "j < length (take 4 (drop (addr_off dst) (rewriteAddrPort pkt dst ip port)))"
  then show "take 4 (drop (addr_off dst) (rewriteAddrPort pkt dst ip port)) ! j = ip ! j"
    using f off_bounds(1) [of dst] off_bounds(2) [of dst pkt] off_bounds(3) [of pkt]
    by (auto simp: length_rewrite [OF f] rewrite_nth [OF f] has_flow_def)
qed

lemma rewrite_port_slice:
  assumes f: "has_flow pkt" "length ip = 4"
  shows "take 2 (drop (port_off dst pkt) (rewriteAddrPort pkt dst ip port)) = put_u16 port"
proof (rule nth_equalityI)
  show "length (take 2 (drop (port_off dst pkt) (rewriteAddrPort pkt dst ip port))) = length (put_u16 port)"
    using f off_bounds(2) [of dst pkt] by (auto simp: length_rewrite [OF f] has_flow_def)
  fix j assume "j < length (take 2 (drop (port_off dst pkt) (rewriteAddrPort pkt dst ip port)))"
  then show "take 2 (drop (port_off dst pkt) (rewriteAddrPort pkt dst ip port)) ! j = put_u16 port ! j"
    using f off_bounds(2) [of dst pkt] off_bounds(3) [of pkt]
    by (auto simp: length_rewrite [OF f] rewrite_nth [OF f] has_flow_def)
qed

lemma flow_kept:
  fixes dst :: bool and port :: u16
  assumes f: "has_flow pkt" "length ip = 4"
  defines "q \<equiv> rewriteAddrPort pkt dst ip port"
  shows "q ! 0 = pkt ! 0" "q ! 9 = pkt ! 9" "be_u16 (drop 6 q) = be_u16 (drop 6 pkt)"
    "pkt ! 9 = protoTCP \<Longrightarrow> flow_ihl pkt + 14 \<le> length pkt \<Longrightarrow> q ! (flow_ihl pkt + 13) = pkt ! (flow_ihl pkt + 13)"
proof -
  have b: "20 \<le> flow_ihl pkt" "flow_ihl pkt + 4 \<le> length pkt" using f(1) by (simp_all add: has_flow_def)
  note bounds = off_bounds(1) [of dst] off_bounds(2) [of dst pkt] off_bounds(3) [of pkt]
  have low: "q ! j = pkt ! j" if "j < 10" for j
    using that b bounds f unfolding q_def by (subst rewrite_nth [OF f]) auto
  then show "q ! 0 = pkt ! 0" "q ! 9 = pkt ! 9" by simp_all
  show "be_u16 (drop 6 q) = be_u16 (drop 6 pkt)"
    by (rule be_u16_slice) (use b bounds in \<open>auto simp: q_def intro!: rewrite_slice [OF f]\<close>)
  assume "pkt ! 9 = protoTCP" "flow_ihl pkt + 14 \<le> length pkt"
  then show "q ! (flow_ihl pkt + 13) = pkt ! (flow_ihl pkt + 13)"
    using b bounds f unfolding q_def by (subst rewrite_nth [OF f]) (auto simp: csum_off_def protoTCP_def protoUDP_def)
qed

lemma rewrite_parses:
  assumes p: "parseFlow pkt = Some (k, syn)" and l: "length ip = 4"
  shows "parseFlow (rewriteAddrPort pkt dst ip port) = Some (redirected dst ip port k, syn)"
proof -
  let ?q = "rewriteAddrPort pkt dst ip port"
  have f: "has_flow pkt" by (rule parse_has_flow [OF p])
  have b: "20 \<le> flow_ihl pkt" "flow_ihl pkt + 4 \<le> length pkt" using f by (simp_all add: has_flow_def)
  note kept = flow_kept [OF f l, of dst port] and len = length_rewrite [OF f l, of dst port]
  note bounds = off_bounds(3) [of pkt]
  have ihl: "flow_ihl ?q = flow_ihl pkt" by (simp add: flow_ihl_def kept)
  have src: "take 4 (drop 12 ?q) = (if dst then take 4 (drop 12 pkt) else ip)"
    using rewrite_addr_slice [OF f l, of dst port] rewrite_slice [OF f l, of 12 4 dst port] b bounds
    by (cases dst) (auto simp: addr_off_def port_off_def)
  have adst: "take 4 (drop 16 ?q) = (if dst then ip else take 4 (drop 16 pkt))"
    using rewrite_addr_slice [OF f l, of dst port] rewrite_slice [OF f l, of 16 4 dst port] b bounds
    by (cases dst) (auto simp: addr_off_def port_off_def)
  have sport: "be_u16 (drop (flow_ihl pkt) ?q) = (if dst then be_u16 (drop (flow_ihl pkt) pkt) else port)"
    using rewrite_port_slice [OF f l, of dst port] rewrite_slice [OF f l, of "flow_ihl pkt" 2 dst port] b bounds be_u16_put [of port "[]"]
    by (cases dst) (auto simp: addr_off_def port_off_def be_u16_def)
  have dport: "be_u16 (drop (flow_ihl pkt + 2) ?q) = (if dst then port else be_u16 (drop (flow_ihl pkt + 2) pkt))"
    using rewrite_port_slice [OF f l, of dst port] rewrite_slice [OF f l, of "flow_ihl pkt + 2" 2 dst port] b bounds be_u16_put [of port "[]"]
    by (cases dst) (auto simp: addr_off_def port_off_def be_u16_def)
  have k: "\<not> length pkt < 20" "drop_bit 4 (pkt ! 0) = 4" "\<not> flow_ihl pkt < 20" "\<not> length pkt < flow_ihl pkt + 4" "be_u16 (drop 6 pkt) AND 0x3FFF = 0"
      "\<not> (pkt ! 9 \<noteq> protoTCP \<and> pkt ! 9 \<noteq> protoUDP)"
      "k = \<lparr>fk_proto = pkt ! 9, fk_src = take 4 (drop 12 pkt), fk_dst = take 4 (drop 16 pkt),
         fk_sport = be_u16 (drop (flow_ihl pkt) pkt), fk_dport = be_u16 (drop (flow_ihl pkt + 2) pkt)\<rparr>"
      "syn \<longleftrightarrow> pkt ! 9 = protoTCP \<and> flow_ihl pkt + 14 \<le> length pkt \<and> pkt ! (flow_ihl pkt + 13) AND 2 \<noteq> 0 \<and> pkt ! (flow_ihl pkt + 13) AND 0x10 = 0"
    using p by (auto simp: parseFlow_def Let_def split: if_splits)
  have s: "(pkt ! 9 = protoTCP \<and> flow_ihl pkt + 14 \<le> length pkt \<and> ?q ! (flow_ihl pkt + 13) AND 2 \<noteq> 0 \<and> ?q ! (flow_ihl pkt + 13) AND 0x10 = 0) = syn"
    unfolding k(8) using kept(4) by metis
  show ?thesis
    unfolding parseFlow_def Let_def ihl len kept(1-3) src adst sport dport s using k(1-6) by (simp add: redirected_def k(7))
qed

section \<open>The checksums\<close>

lemma rewrite_header_sum:
  assumes f: "has_flow pkt" and l: "length ip = 4"
  shows "word_sum (take (flow_ihl pkt) (rewriteAddrPort pkt dst ip port)) mod 65535 = word_sum (take (flow_ihl pkt) pkt) mod 65535"
proof -
  let ?h = "take (flow_ihl pkt) pkt" and ?old = "take 4 (drop (addr_off dst) pkt)" and ?p1 = "stage1 pkt dst ip port"
  have b: "20 \<le> flow_ihl pkt" "flow_ihl pkt + 4 \<le> length pkt" using f by (simp_all add: has_flow_def)
  note bounds = off_bounds(1) [of dst] off_bounds(2) [of dst pkt] off_bounds(3) [of pkt]
  have a: "even (addr_off dst)" "addr_off dst + 4 \<le> 20" using bounds(1) by auto
  have lo: "length ?old = 4" using a b by simp
  let ?c = "csumAdjust (be_u16 (drop 10 ?p1)) ?old ip"
  have h1: "take (flow_ihl pkt) ?p1 = put_at (addr_off dst) ip ?h"
    using a b bounds(2) l by (auto simp: stage1_def take_put_after take_put_at)
  have h2: "take (flow_ihl pkt) (stage2 pkt dst ip port) = put_at 10 (put_u16 ?c) (put_at (addr_off dst) ip ?h)"
    using b length_stages(1) [OF f l, of dst port] by (simp add: stage2_def fix_header_def take_put_at h1)
  have q: "take (flow_ihl pkt) (rewriteAddrPort pkt dst ip port) = take (flow_ihl pkt) (stage2 pkt dst ip port)"
    using bounds(3) length_stages(2) [OF f l, of dst port] stage2_fixed [OF f l, of dst port]
    by (auto simp: rewrite_stages fix_transport_def Let_def take_put_after)
  have len: "length (put_at (addr_off dst) ip ?h) = flow_ihl pkt" using a b l by simp
  have s1: "word_sum (put_at (addr_off dst) ip ?h) + word_sum ?old = word_sum ?h + word_sum ip"
    using word_sum_put_at [of "addr_off dst" ip ?h] a b l by (simp add: take_drop_prefix)
  have "take 2 (drop 10 (put_at (addr_off dst) ip ?h)) = take 2 (drop 10 ?p1)"
    using b by (simp flip: h1 add: take_drop_prefix)
  then have s2: "word_sum (take 2 (drop 10 (put_at (addr_off dst) ip ?h))) = unat (be_u16 (drop 10 ?p1))"
    using word_sum_put [of "take 2 (drop 10 ?p1)"] b length_stages(1) [OF f l, of dst port] by (simp add: be_u16_def)
  have s3: "word_sum (take (flow_ihl pkt) (rewriteAddrPort pkt dst ip port)) + unat (be_u16 (drop 10 ?p1)) =
      word_sum (put_at (addr_off dst) ip ?h) + unat ?c"
    using word_sum_put_at [of 10 "put_u16 ?c" "put_at (addr_off dst) ip ?h"] b len by (simp add: q h2 s2)
  have c: "(unat ?c + word_sum ip) mod 65535 = (unat (be_u16 (drop 10 ?p1)) + word_sum ?old) mod 65535"
    by (rule csum_value, simp_all only: lo l) simp_all
  let ?W = "word_sum (take (flow_ihl pkt) (rewriteAddrPort pkt dst ip port))"
  have "(?W + (unat (be_u16 (drop 10 ?p1)) + word_sum ?old)) mod 65535 = (word_sum ?h + (unat ?c + word_sum ip)) mod 65535"
    by (rule arg_cong [where f = "\<lambda>x. x mod 65535"]) (use s1 s3 in linarith)
  also have "\<dots> = (word_sum ?h + (unat (be_u16 (drop 10 ?p1)) + word_sum ?old)) mod 65535"
    by (rule mod_add_cong [OF refl c])
  finally show ?thesis by (rule mod_cancel)
qed

text \<open>The packet carries a transport checksum: it is long enough, and it is not UDP without one.\<close>

definition has_csum :: "byte list \<Rightarrow> bool" where
  "has_csum pkt \<longleftrightarrow> csum_off pkt + 2 \<le> length pkt \<and> \<not> (pkt ! 9 = protoUDP \<and> be_u16 (drop (csum_off pkt) pkt) = 0)"

lemma udp_zero: "unat (if b \<and> c = 0 then 0xFFFF else c) mod 65535 = unat c mod 65535" for c :: u16
  by simp

lemma rewrite_transport_sum:
  assumes f: "has_flow pkt" and l: "length ip = 4" and c: "has_csum pkt"
  shows "(word_sum (drop (flow_ihl pkt) (rewriteAddrPort pkt dst ip port)) + word_sum ip) mod 65535 =
    (word_sum (drop (flow_ihl pkt) pkt) + word_sum (take 4 (drop (addr_off dst) pkt))) mod 65535"
proof -
  let ?old = "take 4 (drop (addr_off dst) pkt)" and ?op = "take 2 (drop (port_off dst pkt) pkt)" and ?p2 = "stage2 pkt dst ip port"
  let ?off = "csum_off pkt" and ?ihl = "flow_ihl pkt"
  have b: "20 \<le> ?ihl" "?ihl + 4 \<le> length pkt" "?off + 2 \<le> length pkt" using f c by (simp_all add: has_flow_def has_csum_def)
  note bounds = off_bounds(1) [of dst] off_bounds(2) [of dst pkt] off_bounds(3) [of pkt]
  note st = length_stages [OF f l, of dst port] stage2_fixed [OF f l, of dst port]
  have lo: "length ?old = 4" "length ?op = 2" using b bounds by auto
  have c0: "take 2 (drop ?off ?p2) = take 2 (drop ?off pkt)"
    by (rule slice_cong) (use b bounds in \<open>auto simp: st stage2_nth [OF f l] stage1_nth [OF f l]\<close>)
  define c1 where "c1 = csumAdjust (be_u16 (drop ?off pkt)) ?old ip"
  define c2 where "c2 = csumAdjust c1 ?op (put_u16 port)"
  define c3 where "c3 = (if pkt ! 9 = protoUDP \<and> c2 = 0 then 0xFFFF else c2)"
  have q: "rewriteAddrPort pkt dst ip port = put_at ?off (put_u16 c3) ?p2"
  proof -
    have n: "\<not> length pkt < ?off + 2" "\<not> (pkt ! 9 = protoUDP \<and> be_u16 (drop ?off pkt) = 0)" using c by (simp_all add: has_csum_def)
    show ?thesis
      unfolding rewrite_stages fix_transport_def Let_def st be_u16_slice [OF c0] c1_def [symmetric] c2_def [symmetric] c3_def [symmetric]
      by (simp only: n if_False)
  qed
  have d2: "drop ?ihl ?p2 = put_at (port_off dst pkt - ?ihl) (put_u16 port) (drop ?ihl pkt)"
    using b bounds l st(1) by (auto simp: stage2_def fix_header_def stage1_def drop_put_at drop_put_after)
  have s1: "word_sum (drop ?ihl ?p2) + word_sum ?op = word_sum (drop ?ihl pkt) + unat port"
    using word_sum_put_at [of "port_off dst pkt - ?ihl" "put_u16 port" "drop ?ihl pkt"] b bounds(2) by (auto simp: d2)
  have ev: "even (?off - ?ihl)" "?ihl \<le> ?off" using bounds(3) by auto
  have s2: "word_sum (drop ?ihl (rewriteAddrPort pkt dst ip port)) + unat (be_u16 (drop ?off pkt)) = word_sum (drop ?ihl ?p2) + unat c3"
    using word_sum_put_at [of "?off - ?ihl" "put_u16 c3" "drop ?ihl ?p2"] word_sum_put [of "take 2 (drop ?off pkt)"] b ev st(2)
    by (simp add: q drop_put_after c0 be_u16_def)
  have m1: "(unat c1 + word_sum ip) mod 65535 = (unat (be_u16 (drop ?off pkt)) + word_sum ?old) mod 65535"
    unfolding c1_def by (rule csum_value, simp_all only: lo l) simp_all
  have "(unat c2 + word_sum (put_u16 port)) mod 65535 = (unat c1 + word_sum ?op) mod 65535"
    unfolding c2_def by (rule csum_value, simp_all only: lo l) simp_all
  moreover have "unat c3 mod 65535 = unat c2 mod 65535" unfolding c3_def by (rule udp_zero)
  ultimately have m2: "(unat c3 + unat port) mod 65535 = (unat c1 + word_sum ?op) mod 65535"
    by (metis mod_add_left_eq word_sum_u16)
  let ?W = "word_sum (drop ?ihl (rewriteAddrPort pkt dst ip port)) + word_sum ip" and ?L = "word_sum (drop ?ihl pkt)"
  have "(?W + (unat (be_u16 (drop ?off pkt)) + word_sum ?op)) mod 65535 = ((?L + word_sum ip) + (unat c3 + unat port)) mod 65535"
    by (rule arg_cong [where f = "\<lambda>x. x mod 65535"]) (use s1 s2 in linarith)
  also have "\<dots> = ((?L + word_sum ip) + (unat c1 + word_sum ?op)) mod 65535" by (rule mod_add_cong [OF refl m2])
  also have "\<dots> = ((?L + word_sum ?op) + (unat c1 + word_sum ip)) mod 65535" by (simp only: ac_simps)
  also have "\<dots> = ((?L + word_sum ?op) + (unat (be_u16 (drop ?off pkt)) + word_sum ?old)) mod 65535" by (rule mod_add_cong [OF refl m1])
  also have "\<dots> = ((?L + word_sum ?old) + (unat (be_u16 (drop ?off pkt)) + word_sum ?op)) mod 65535" by (simp only: ac_simps)
  finally show ?thesis by (rule mod_cancel)
qed

lemma flow_header_sum_lt: "has_flow pkt \<Longrightarrow> word_sum (take (flow_ihl pkt) pkt) < 2 ^ 32"
proof -
  have "unat (pkt ! 0 AND 0x0F) \<le> unat (0x0F :: byte)" by (rule word_le_nat_alt [THEN iffD1]) (rule word_and_le1)
  then have "flow_ihl pkt \<le> 60" by (simp add: flow_ihl_def)
  moreover have "word_sum (take (flow_ihl pkt) pkt) \<le> 65535 * ((length (take (flow_ihl pkt) pkt) + 1) div 2)" by (rule word_sum_bound)
  moreover have "length (take (flow_ihl pkt) pkt) \<le> flow_ihl pkt" by simp
  ultimately have "word_sum (take (flow_ihl pkt) pkt) \<le> 65535 * 31" by linarith
  then show ?thesis by simp
qed

lemma flow_header_sum_pos: "parseFlow pkt = Some r \<Longrightarrow> word_sum (take (flow_ihl pkt) pkt) \<noteq> 0"
proof (rule word_sum_pos)
  assume p: "parseFlow pkt = Some r"
  then have f: "20 \<le> flow_ihl pkt" "20 \<le> length pkt" "drop_bit 4 (pkt ! 0) = 4" by (auto simp: parseFlow_def Let_def split: if_splits)
  then show "take (flow_ihl pkt) pkt \<noteq> []" by auto
  show "take (flow_ihl pkt) pkt ! 0 \<noteq> 0" using f by auto
qed


definition sample_flow :: flowKey where
  "sample_flow = \<lparr>fk_proto = 17, fk_src = [10, 1, 2, 3], fk_dst = [8, 8, 8, 8], fk_sport = 12345, fk_dport = 53\<rparr>"

lemma sample_flow_parsed: "parseFlow sample_udp = Some (sample_flow, False)"
  by (simp add: sample_udp_def sample_flow_def parseFlow_def flow_ihl_def be_u16_def be_nat_def protoTCP_def protoUDP_def Let_def)


theorem csum_updates_agree_witness:
  "put_u16 (csumAdjust (be_u16 [0x12, 0x34]) [8, 8, 8, 8] [10, 1, 2, 9]) = pxAdjust [0x12, 0x34] [8, 8, 8, 8] [10, 1, 2, 9]"
  by (rule csum_updates_agree) simp_all

end
