(* ===== verification/Replica_Text.thy ===== *)
theory Replica_Text
  imports Connect IP_Binding Replica_Packet
begin

text \<open>
  The settings and the announce of a replicated service, \<open>client/replicas.go\<close>: port maps and node
  lists as text, and the owner's side, which health-checks the copies and builds the \<open>I\<close> frame.

  A Go map of ports is an association list; \<open>String\<close> prints it in the canonical order. The TCP dial of the
  health check is the argument \<open>dial\<close>, true if the connection was accepted; the checks of one round run in parallel in
  the code and write disjoint results.
\<close>

definition replicaMaxNodes :: nat where "replicaMaxNodes = 64"
definition replicaAnnounceVersion :: byte where "replicaAnnounceVersion = 2"

section \<open>Port maps\<close>

record portKey =
  pk_proto :: byte
  pk_port :: u16

type_synonym replicaPorts = "(portKey \<times> u16) list"

definition protoName :: "byte \<Rightarrow> string" where
  "protoName p = (if p = protoUDP then ''udp'' else ''tcp'')"

text \<open>The order of \<open>String\<close>: by protocol, then by port.\<close>

definition port_rank :: "portKey \<Rightarrow> nat" where
  "port_rank k = unat (pk_proto k) * 65536 + unat (pk_port k)"

definition port_item :: "portKey \<Rightarrow> u16 \<Rightarrow> string" where
  "port_item k t = protoName (pk_proto k) @ ''/'' @ show_nat (unat (pk_port k)) @ ''='' @ show_nat (unat t)"

definition ports_String :: "replicaPorts \<Rightarrow> string" where
  "ports_String m = join '','' (map (\<lambda>k. port_item k (the (gget m k))) (sort_key port_rank (map fst m)))"

definition parsePort :: "string \<Rightarrow> u16 option" where
  "parsePort s =
     (case parse_int64 (trim_space s) of
        None \<Rightarrow> None
      | Some n \<Rightarrow> if n < 1 \<or> 65535 < n then None else Some (word_of_int n))"

text \<open>\<open>strings.Cut\<close>.\<close>

definition cut_on :: "char \<Rightarrow> string \<Rightarrow> string \<times> string \<times> bool" where
  "cut_on c s = (if c \<in> set s then (takeWhile (\<lambda>x. x \<noteq> c) s, tl (dropWhile (\<lambda>x. x \<noteq> c) s), True) else (s, [], False))"

definition parse_proto :: "string \<Rightarrow> byte option" where
  "parse_proto s =
     (let p = to_lower (trim_space s) in
      if p = ''tcp'' then Some protoTCP else if p = ''udp'' then Some protoUDP else None)"

definition parse_port_item :: "string \<Rightarrow> (portKey \<times> u16) option" where
  "parse_port_item item =
     (case cut_on (CHR ''='') item of
        (from, to, mapped) \<Rightarrow>
          (case cut_on (CHR ''/'') (trim_space from) of
             (proto, portStr, ok) \<Rightarrow>
               if \<not> ok then None
               else case parse_proto proto of
                   None \<Rightarrow> None
                 | Some p \<Rightarrow>
                     (case parsePort portStr of
                        None \<Rightarrow> None
                      | Some port \<Rightarrow>
                          (case (if mapped then parsePort to else Some port) of
                             None \<Rightarrow> None
                           | Some target \<Rightarrow> Some (\<lparr>pk_proto = p, pk_port = port\<rparr>, target)))))"

fun parse_port_items :: "replicaPorts \<Rightarrow> string list \<Rightarrow> replicaPorts option" where
  "parse_port_items m [] = Some m"
| "parse_port_items m (item # items) =
     (if trim_space item = [] then parse_port_items m items
      else case parse_port_item (trim_space item) of
          None \<Rightarrow> None
        | Some (k, target) \<Rightarrow> parse_port_items (gput k target m) items)"

definition parseReplicaPorts :: "string \<Rightarrow> replicaPorts option" where
  "parseReplicaPorts s =
     (case parse_port_items [] (split_on (CHR '','') s) of
        None \<Rightarrow> None
      | Some m \<Rightarrow> if m = [] then None else Some m)"

section \<open>Node lists\<close>

definition list_sep :: "char \<Rightarrow> bool" where
  "list_sep c \<longleftrightarrow> c \<in> {CHR '','', CHR '' '', CHR 0x09, CHR 0x0A}"

lemma fields_decreases: "dropWhile p s \<noteq> [] \<Longrightarrow> length (dropWhile (\<lambda>c. \<not> p c) (dropWhile p s)) < length s"
proof -
  assume ne: "dropWhile p s \<noteq> []"
  then have "\<not> p (hd (dropWhile p s))" by (rule hd_dropWhile)
  with ne have "length (dropWhile (\<lambda>c. \<not> p c) (dropWhile p s)) < length (dropWhile p s)"
    by (cases "dropWhile p s") (simp_all add: less_Suc_eq_le length_dropWhile_le)
  also have "\<dots> \<le> length s" by (rule length_dropWhile_le)
  finally show ?thesis .
qed

text \<open>\<open>strings.FieldsFunc\<close>.\<close>

function fields_by :: "(char \<Rightarrow> bool) \<Rightarrow> string \<Rightarrow> string list" where
  "fields_by p s =
     (let t = dropWhile p s in
      if t = [] then [] else takeWhile (\<lambda>c. \<not> p c) t # fields_by p (dropWhile (\<lambda>c. \<not> p c) t))"
  by auto

termination by (relation "measure (\<lambda>(p, s). length s)") (simp_all add: fields_decreases)

declare fields_by.simps [simp del]

fun add_nodes :: "(string \<Rightarrow> byte list option) \<Rightarrow> bind_env \<Rightarrow> string \<Rightarrow> string list \<Rightarrow> string list \<Rightarrow> string list" where
  "add_nodes ip6 E except out [] = out"
| "add_nodes ip6 E except out (f # fs) =
     (case parseIP ip6 f of
        None \<Rightarrow> add_nodes ip6 E except out fs
      | Some b \<Rightarrow>
          let s = show_ipv4 b in
          if s = except \<or> s \<in> set out \<or> \<not> inOverlaySubnet ip6 E s then add_nodes ip6 E except out fs
          else if length out + 1 = replicaMaxNodes then out @ [s]
          else add_nodes ip6 E except (out @ [s]) fs)"

definition parseNodeList :: "(string \<Rightarrow> byte list option) \<Rightarrow> bind_env \<Rightarrow> string list \<Rightarrow> string \<Rightarrow> string list" where
  "parseNodeList ip6 E items except = add_nodes ip6 E except [] (concat (map (fields_by list_sep) items))"

section \<open>The owner\<close>

record replicaOwner =
  ow_ports :: "replicaPorts option"
  ow_nodes :: "string list"
  ow_healthy :: "(string \<times> bool) list"

text \<open>\<open>initReplicas\<close> with the settings of the configuration and of the environment, which win.\<close>

definition initReplicas ::
  "(string \<Rightarrow> byte list option) \<Rightarrow> bind_env \<Rightarrow> string \<Rightarrow> string list \<Rightarrow> string \<Rightarrow> string \<Rightarrow> replicaOwner \<Rightarrow> replicaOwner" where
  "initReplicas ip6 E cfgPorts cfgNodes envPorts envNodes st =
     (let portSpec = (if trim_space envPorts \<noteq> [] then trim_space envPorts else trim_space cfgPorts);
          nodeSpec = (if trim_space envNodes \<noteq> [] then [trim_space envNodes] else cfgNodes)
      in if portSpec = [] \<and> nodeSpec = [] then st
         else case parseReplicaPorts portSpec of
             None \<Rightarrow> st
           | Some ports \<Rightarrow>
               if \<not> list_ex (\<lambda>(k, t). pk_proto k = protoTCP) ports then st
               else
                 let nodes = parseNodeList ip6 E nodeSpec (be_self E) in
                 if nodes = [] then st else \<lparr>ow_ports = Some ports, ow_nodes = nodes, ow_healthy = []\<rparr>)"

definition checkReplicaNode :: "(string \<Rightarrow> bool) \<Rightarrow> replicaPorts \<Rightarrow> string \<Rightarrow> bool" where
  "checkReplicaNode dial ports ip =
     list_all (\<lambda>(k, target). pk_proto k \<noteq> protoTCP \<or> dial (joinHostPort ip (show_nat (unat target)))) ports"

definition runReplicaHealthChecks :: "(string \<Rightarrow> bool) \<Rightarrow> replicaOwner \<Rightarrow> replicaOwner" where
  "runReplicaHealthChecks dial st =
     st\<lparr>ow_healthy := foldl (\<lambda>h ip. gput ip (checkReplicaNode dial (case ow_ports st of None \<Rightarrow> [] | Some p \<Rightarrow> p) ip) h) (ow_healthy st) (ow_nodes st)\<rparr>"

definition healthy_nodes :: "string \<Rightarrow> replicaOwner \<Rightarrow> string list" where
  "healthy_nodes me st = filter (\<lambda>ip. gget (ow_healthy st) ip = Some True \<and> ip \<noteq> me) (ow_nodes st)"

definition buildReplicaAnnounce :: "string \<Rightarrow> replicaOwner \<Rightarrow> byte list option" where
  "buildReplicaAnnounce me st =
     (case ow_ports st of
        None \<Rightarrow> None
      | Some ports \<Rightarrow>
          if me = [] then None
          else Some (ctlMagic @ [of_char (CHR ''I''), replicaAnnounceVersion] @
                 bytes_of (me @ ''|'' @ ports_String ports @ ''|'' @ join '','' (healthy_nodes me st))))"

section \<open>Port maps travel\<close>

lemma trim_id: "\<forall>c \<in> set s. \<not> is_space c \<Longrightarrow> trim_space s = s"
proof -
  assume s: "\<forall>c \<in> set s. \<not> is_space c"
  have d: "dropWhile is_space t = t" if "\<forall>c \<in> set t. \<not> is_space c" for t using that by (cases t) auto
  show ?thesis using s by (simp add: trim_space_def d)
qed

lemma cut_on_append: "c \<notin> set a \<Longrightarrow> cut_on c (a @ c # b) = (a, b, True)"
proof -
  assume "c \<notin> set a"
  then have "takeWhile (\<lambda>x. x \<noteq> c) (a @ c # b) = a \<and> dropWhile (\<lambda>x. x \<noteq> c) (a @ c # b) = c # b" by (induction a) auto
  then show ?thesis by (simp add: cut_on_def)
qed

lemma not_digit: "digit_val c = None" if "is_space c \<or> c \<in> {CHR ''='', CHR ''/'', CHR '','', CHR ''|''}"
  using that by (auto simp: is_space_def digit_val_def)

lemma show_nat_text: "c \<in> set (show_nat n) \<Longrightarrow> \<not> is_space c \<and> c \<notin> {CHR ''='', CHR ''/'', CHR '','', CHR ''|''}"
proof -
  assume "c \<in> set (show_nat n)"
  then obtain d where "d < 10" "c = digit_char d" using set_show_nat by blast
  then have "digit_val c \<noteq> None" by simp
  then show ?thesis using not_digit [of c] by (metis (no_types, lifting))
qed

lemma small_int64: "n \<le> 65535 \<Longrightarrow> int64_range (int n)"
  by (simp add: int64_range_def)

lemma parse_show_port: "p \<noteq> 0 \<Longrightarrow> parsePort (show_nat (unat p)) = Some p"
proof -
  assume p: "p \<noteq> 0"
  have r: "0 < unat p" "unat p \<le> 65535" using p unat_u16_le [of p] by (simp_all add: unat_gt_0)
  have "parse_int64 (show_int (int (unat p))) = Some (int (unat p))" by (rule parse_show_int [OF small_int64 [OF r(2)]])
  moreover have "show_int (int (unat p)) = show_nat (unat p)" by (simp add: show_int_def)
  moreover have "trim_space (show_nat (unat p)) = show_nat (unat p)" using show_nat_text by (blast intro: trim_id)
  moreover have "word_of_int (int (unat p)) = p" by simp
  moreover have "\<not> int (unat p) < 1" "\<not> 65535 < int (unat p)" using r by linarith+
  ultimately show ?thesis by (simp add: parsePort_def)
qed

text \<open>What a parsed map looks like: TCP and UDP, no port zero, no key twice.\<close>

definition ports_ok :: "replicaPorts \<Rightarrow> bool" where
  "ports_ok m \<longleftrightarrow> m \<noteq> [] \<and> gwf m \<and> list_all (\<lambda>(k, t). pk_proto k \<in> {protoTCP, protoUDP} \<and> pk_port k \<noteq> 0 \<and> t \<noteq> 0) m"

lemma proto_round_trip: "p \<in> {protoTCP, protoUDP} \<Longrightarrow> parse_proto (protoName p) = Some p"
  by (auto simp: parse_proto_def protoName_def protoTCP_def protoUDP_def trim_space_def is_space_def to_lower_def lower_char_def Let_def)

lemma item_text: "c \<in> set (port_item k t) \<Longrightarrow> \<not> is_space c \<and> c \<noteq> CHR '','' \<and> c \<noteq> CHR ''|''"
  by (auto simp: port_item_def protoName_def split: if_splits dest!: show_nat_text) (simp_all add: is_space_def)

lemma item_round_trip:
  assumes "pk_proto k \<in> {protoTCP, protoUDP}" "pk_port k \<noteq> 0" "t \<noteq> 0"
  shows "parse_port_item (port_item k t) = Some (k, t)"
proof -
  let ?f = "protoName (pk_proto k) @ ''/'' @ show_nat (unat (pk_port k))"
  have eq: "CHR ''='' \<notin> set ?f" using show_nat_text [of "CHR ''=''"] by (auto simp: protoName_def)
  have c1: "cut_on (CHR ''='') (port_item k t) = (?f, show_nat (unat t), True)"
    using cut_on_append [OF eq, of "show_nat (unat t)"] by (simp add: port_item_def)
  have tr: "trim_space ?f = ?f"
    using show_nat_text by (intro trim_id) (auto simp: protoName_def is_space_def)
  have c2: "cut_on (CHR ''/'') ?f = (protoName (pk_proto k), show_nat (unat (pk_port k)), True)"
    using cut_on_append [of "CHR ''/''" "protoName (pk_proto k)" "show_nat (unat (pk_port k))"] by (simp add: protoName_def)
  show ?thesis
    by (simp only: parse_port_item_def c1 tr c2 prod.case if_True if_False not_True_eq_False proto_round_trip [OF assms(1)]
        parse_show_port [OF assms(2)] parse_show_port [OF assms(3)] option.case portKey.surjective)
      simp
qed

lemma items_round_trip:
  assumes "list_all (\<lambda>k. pk_proto k \<in> {protoTCP, protoUDP} \<and> pk_port k \<noteq> 0 \<and> f k \<noteq> 0) ks"
  shows "parse_port_items m (map (\<lambda>k. port_item k (f k)) ks) = Some (foldl (\<lambda>m k. gput k (f k) m) m ks)"
  using assms
proof (induction ks arbitrary: m)
  case (Cons k ks)
  have tr: "trim_space (port_item k (f k)) = port_item k (f k)" using item_text by (blast intro: trim_id)
  have ne: "port_item k (f k) \<noteq> []" by (simp add: port_item_def protoName_def)
  show ?case using Cons item_round_trip [of k "f k"] by (simp add: tr ne)
qed simp

lemma puts_lookup: "gget (foldl (\<lambda>m k. gput k (f k) m) m ks) k = (if k \<in> set ks then Some (f k) else gget m k)"
  by (induction ks arbitrary: m) (auto simp: gomap_simps)

lemma parse_String:
  assumes "ports_ok m"
  shows "\<exists>m'. parseReplicaPorts (ports_String m) = Some m' \<and> (\<forall>k. gget m' k = gget m k)"
proof -
  let ?f = "\<lambda>k. the (gget m k)" and ?ks = "sort_key port_rank (map fst m)"
  let ?items = "map (\<lambda>k. port_item k (?f k)) ?ks"
  have ok: "m \<noteq> []" "gwf m" "\<And>k t. gget m k = Some t \<Longrightarrow> pk_proto k \<in> {protoTCP, protoUDP} \<and> pk_port k \<noteq> 0 \<and> t \<noteq> 0"
    using assms by (auto simp: ports_ok_def list_all_iff dest!: map_of_SomeD)
  have key: "k \<in> set ?ks \<longleftrightarrow> gget m k \<noteq> None" for k by (simp add: map_of_eq_None_iff)
  have "list_all (\<lambda>x. CHR '','' \<notin> set x) ?items" using item_text by (fastforce simp: list_all_iff)
  then have split: "split_on (CHR '','') (ports_String m) = ?items" using ok(1) unfolding ports_String_def by (intro split_on_join) (auto simp flip: set_empty)
  have "list_all (\<lambda>k. pk_proto k \<in> {protoTCP, protoUDP} \<and> pk_port k \<noteq> 0 \<and> ?f k \<noteq> 0) ?ks"
    unfolding list_all_iff using key ok(3) by (metis option.collapse)
  then have p: "parse_port_items [] ?items = Some (foldl (\<lambda>m k. gput k (?f k) m) [] ?ks)" by (rule items_round_trip)
  have look: "gget (foldl (\<lambda>m k. gput k (?f k) m) [] ?ks) k = gget m k" for k using key [of k] by (auto simp: puts_lookup)
  have "gget m (fst (hd m)) \<noteq> None" using ok(1) by (simp add: map_of_eq_None_iff)
  with look have "foldl (\<lambda>m k. gput k (?f k) m) [] ?ks \<noteq> []" by (metis map_of.simps(1))
  then show ?thesis using look by (auto simp: parseReplicaPorts_def split p)
qed

lemma parse_port_valid: "parsePort s = Some p \<Longrightarrow> p \<noteq> 0"
proof -
  assume "parsePort s = Some p"
  then obtain n where n: "parse_int64 (trim_space s) = Some n" "\<not> n < 1" "\<not> 65535 < n" "word_of_int n = p"
    by (auto simp: parsePort_def split: option.splits if_splits)
  then have "uint p = n" by (intro word_of_int_inverse) simp_all
  with n(2) show ?thesis by auto
qed

lemma parse_item_valid: "parse_port_item s = Some (k, t) \<Longrightarrow> pk_proto k \<in> {protoTCP, protoUDP} \<and> pk_port k \<noteq> 0 \<and> t \<noteq> 0"
  by (auto simp: parse_port_item_def parse_proto_def Let_def dest: parse_port_valid split: prod.splits option.splits if_splits)

lemma parse_items_valid:
  assumes "gwf m" "list_all (\<lambda>(k, t). pk_proto k \<in> {protoTCP, protoUDP} \<and> pk_port k \<noteq> 0 \<and> t \<noteq> 0) m" "parse_port_items m items = Some m'"
  shows "gwf m' \<and> list_all (\<lambda>(k, t). pk_proto k \<in> {protoTCP, protoUDP} \<and> pk_port k \<noteq> 0 \<and> t \<noteq> 0) m'"
  using assms
proof (induction m items rule: parse_port_items.induct)
  case (2 m item items)
  show ?case
  proof (cases "trim_space item = []")
    case False
    with 2(5) obtain k t where k: "parse_port_item (trim_space item) = Some (k, t)" "parse_port_items (gput k t m) items = Some m'"
      by (auto split: option.splits)
    have "list_all (\<lambda>(k, t). pk_proto k \<in> {protoTCP, protoUDP} \<and> pk_port k \<noteq> 0 \<and> t \<noteq> 0) (gput k t m)"
      using 2(4) parse_item_valid [OF k(1)] set_gput_subset [of k t m] by (fastforce simp: list_all_iff)
    with 2(2) [OF False k(1) refl] 2(3) k(2) show ?thesis by (simp add: gwf_gput)
  qed (use 2 in auto)
qed simp

lemma parsed_ports_ok: "parseReplicaPorts s = Some m \<Longrightarrow> ports_ok m"
  using parse_items_valid [of "[]" "split_on (CHR '','') s"]
  by (auto simp: parseReplicaPorts_def ports_ok_def gwf_def split: option.splits if_splits)

text \<open>
  Port maps are canonical text. Whatever text is accepted as a port map, the map is well formed (only TCP and UDP, no
  port 0, each key once), and printing it gives text that is accepted again as the same map.
\<close>

theorem ports_round_trip:
  assumes "parseReplicaPorts s = Some m"
  shows "ports_ok m \<and> (\<exists>m'. parseReplicaPorts (ports_String m) = Some m' \<and> gget m' = gget m)"
proof -
  have ok: "ports_ok m" by (rule parsed_ports_ok [OF assms])
  with parse_String [OF ok] show ?thesis by (auto simp: fun_eq_iff)
qed

theorem ports_round_trip_witness:
  "\<exists>s m m'. parseReplicaPorts s = Some m \<and> ports_ok m \<and> parseReplicaPorts (ports_String m) = Some m' \<and> gget m' \<lparr>pk_proto = 6, pk_port = 443\<rparr> = Some 6943"
proof -
  let ?m = "[(\<lparr>pk_proto = 6, pk_port = 443\<rparr>, 6943), (\<lparr>pk_proto = 17, pk_port = 53\<rparr>, 53)]"
  have "ports_ok ?m" by (simp add: ports_ok_def gwf_def protoTCP_def protoUDP_def)
  from parse_String [OF this] obtain m where m: "parseReplicaPorts (ports_String ?m) = Some m" "\<forall>k. gget m k = gget ?m k" by blast
  have "gget m \<lparr>pk_proto = 6, pk_port = 443\<rparr> = Some 6943" by (simp add: m(2))
  with ports_round_trip [OF m(1)] m(1) show ?thesis by metis
qed

section \<open>Node lists travel\<close>

lemma fields_end: "fields_by p [] = []"
  by (simp add: fields_by.simps)

lemma fields_word:
  assumes "w \<noteq> []" "\<forall>c \<in> set w. \<not> p c"
  shows "fields_by p w = [w]" "p c \<Longrightarrow> fields_by p (w @ c # r) = w # fields_by p r"
proof -
  have d: "dropWhile p (w @ r') = w @ r'" for r' using assms by (cases w) auto
  have d0: "dropWhile p w = w" using d [of "[]"] by (simp only: append_Nil2)
  have t: "takeWhile (\<lambda>c. \<not> p c) w = w" "dropWhile (\<lambda>c. \<not> p c) w = []" using assms(2) by (induction w) auto
  show "fields_by p w = [w]" using assms(1) by (subst fields_by.simps) (simp add: d0 t fields_end)
  assume c: "p c"
  have t2: "takeWhile (\<lambda>c. \<not> p c) (w @ c # r) = w" "dropWhile (\<lambda>c. \<not> p c) (w @ c # r) = c # r" using assms(2) c by (induction w) auto
  have "fields_by p (c # r) = fields_by p r" using c by (subst (1 2) fields_by.simps) simp
  then show "fields_by p (w @ c # r) = w # fields_by p r"
    using assms(1) by (subst fields_by.simps) (simp add: d t2)
qed

lemma fields_join:
  "list_all (\<lambda>w. w \<noteq> [] \<and> (\<forall>c \<in> set w. \<not> list_sep c)) ws \<Longrightarrow> fields_by list_sep (join '','' ws) = ws"
  by (induction "'',''" ws rule: join.induct) (auto simp: fields_end fields_word list_sep_def)

text \<open>The text of an overlay address: four bytes, printed.\<close>

definition ov_text :: "(string \<Rightarrow> byte list option) \<Rightarrow> bind_env \<Rightarrow> string \<Rightarrow> bool" where
  "ov_text ip6 E s \<longleftrightarrow> (case parse_ipv4 s of None \<Rightarrow> False | Some b \<Rightarrow> length b = 4 \<and> s = show_ipv4 b) \<and> inOverlaySubnet ip6 E s"

lemma ov_textD: "ov_text ip6 E s \<Longrightarrow> \<exists>b. length b = 4 \<and> s = show_ipv4 b \<and> parseIP ip6 s = Some b"
  by (auto simp: ov_text_def parseIP_def split: option.splits)

lemma sep_not_digit: "list_sep c \<Longrightarrow> digit_val c = None"
  by (auto simp: list_sep_def digit_val_def)

lemma show_ipv4_chars: "c \<in> set (show_ipv4 b) \<Longrightarrow> c = CHR ''.'' \<or> digit_val c \<noteq> None"
proof -
  assume "c \<in> set (show_ipv4 b)"
  then consider "c = CHR ''.''" | n where "c \<in> set (show_nat n)" by (auto simp: show_ipv4_def)
  then show ?thesis
  proof cases
    case (2 n)
    then obtain d where "d < 10" "c = digit_char d" using set_show_nat by blast
    then show ?thesis by simp
  qed simp
qed

lemma show_ipv4_no_sep: "c \<in> set (show_ipv4 b) \<Longrightarrow> \<not> list_sep c"
  using show_ipv4_chars [of c b] sep_not_digit [of c] by (auto simp: list_sep_def)

lemma show_ipv4_no_bar: "CHR ''|'' \<notin> set (show_ipv4 b)"
  using show_ipv4_chars [of "CHR ''|''" b] by (auto simp: digit_val_def)

lemma ov_text_words: "list_all (ov_text ip6 E) ns \<Longrightarrow> list_all (\<lambda>w. w \<noteq> [] \<and> (\<forall>c \<in> set w. \<not> list_sep c)) ns"
proof -
  assume all: "list_all (ov_text ip6 E) ns"
  have "w \<noteq> [] \<and> (\<forall>c \<in> set w. \<not> list_sep c)" if "w \<in> set ns" for w
  proof -
    from that all have "ov_text ip6 E w" by (simp add: list_all_iff)
    then obtain b where "w = show_ipv4 b" using ov_textD by blast
    moreover have "show_ipv4 b \<noteq> []" by (simp add: show_ipv4_def)
    ultimately show ?thesis by (auto dest: show_ipv4_no_sep)
  qed
  then show ?thesis by (simp add: list_all_iff)
qed

lemma add_nodes_same:
  "list_all (ov_text ip6 E) ns \<Longrightarrow> distinct (out @ ns) \<Longrightarrow> except \<notin> set ns \<Longrightarrow> length (out @ ns) \<le> replicaMaxNodes \<Longrightarrow>
   add_nodes ip6 E except out ns = out @ ns"
proof (induction ns arbitrary: out)
  case (Cons n ns)
  have "ov_text ip6 E n" using Cons(2) by simp
  from ov_textD [OF this] obtain b where b: "n = show_ipv4 b" "parseIP ip6 n = Some b" by blast
  have ov: "inOverlaySubnet ip6 E n" using Cons(2) by (simp add: ov_text_def)
  have n: "\<not> (n = except \<or> n \<in> set out \<or> \<not> inOverlaySubnet ip6 E n)" using Cons(3,4) ov by auto
  show ?case
  proof (cases "length out + 1 = replicaMaxNodes")
    case True
    then have "ns = []" using Cons(5) by (cases ns) simp_all
    with True n b(2) show ?thesis by (simp flip: b(1))
  next
    case False
    have "add_nodes ip6 E except (out @ [n]) ns = (out @ [n]) @ ns" by (rule Cons(1)) (use Cons in simp_all)
    with False n b(2) show ?thesis by (simp flip: b(1))
  qed
qed simp

definition nodes_ok :: "(string \<Rightarrow> byte list option) \<Rightarrow> bind_env \<Rightarrow> string \<Rightarrow> string list \<Rightarrow> bool" where
  "nodes_ok ip6 E except ns \<longleftrightarrow> list_all (ov_text ip6 E) ns \<and> distinct ns \<and> except \<notin> set ns \<and> length ns \<le> replicaMaxNodes"

lemma nodes_travel: "nodes_ok ip6 E except ns \<Longrightarrow> parseNodeList ip6 E [join '','' ns] except = ns"
  using add_nodes_same [of ip6 E ns "[]" except] fields_join [of ns] ov_text_words [of ip6 E ns]
  by (simp add: parseNodeList_def nodes_ok_def)

lemma add_nodes_sound:
  assumes "\<And>s b. ip6 s = Some b \<Longrightarrow> length b = 4"
    and "list_all (ov_text ip6 E) out" "distinct out" "except \<notin> set out" "length out < replicaMaxNodes"
  shows "nodes_ok ip6 E except (add_nodes ip6 E except out fs)"
  using assms(2-5)
proof (induction fs arbitrary: out)
  case (Cons f fs)
  show ?case
  proof (cases "parseIP ip6 f")
    case (Some b)
    let ?s = "show_ipv4 b"
    have l: "length b = 4" using Some assms(1) by (auto simp: parseIP_def parse_ipv4_def split: option.splits list.splits)
    show ?thesis
    proof (cases "?s = except \<or> ?s \<in> set out \<or> \<not> inOverlaySubnet ip6 E ?s")
      case True
      with Cons Some show ?thesis by (simp add: Let_def)
    next
      case False
      then have "ov_text ip6 E ?s" using l by (simp add: ov_text_def parse_show_ipv4)
      then have os: "list_all (ov_text ip6 E) (out @ [?s])" "distinct (out @ [?s])" "except \<notin> set (out @ [?s])" using Cons False by auto
      show ?thesis
      proof (cases "length out + 1 = replicaMaxNodes")
        case True
        with os False Some show ?thesis by (simp add: nodes_ok_def Let_def)
      next
        case ne: False
        then have "length (out @ [?s]) < replicaMaxNodes" using Cons(5) by simp
        with Cons(1) [OF os] False Some ne show ?thesis by (simp add: Let_def)
      qed
    qed
  qed (use Cons in simp)
qed (simp add: nodes_ok_def)

lemma parsed_nodes_ok: "(\<And>s b. ip6 s = Some b \<Longrightarrow> length b = 4) \<Longrightarrow> nodes_ok ip6 E except (parseNodeList ip6 E items except)"
  unfolding parseNodeList_def by (rule add_nodes_sound) (simp_all add: replicaMaxNodes_def)

text \<open>
  Node lists. Whatever the settings or an announce say, the nodes taken from it are overlay addresses in their canonical
  form, none twice, never the address itself, at most 64; and such a list survives being printed and read again unchanged.
\<close>

theorem node_list_sound:
  assumes "\<And>s b. ip6 s = Some b \<Longrightarrow> length b = 4"
  shows "nodes_ok ip6 E except (parseNodeList ip6 E items except) \<and>
    parseNodeList ip6 E [join '','' (parseNodeList ip6 E items except)] except = parseNodeList ip6 E items except"
proof -
  have "nodes_ok ip6 E except (parseNodeList ip6 E items except)" by (rule parsed_nodes_ok) (rule assms)
  then show ?thesis using nodes_travel by blast
qed

definition demo_bind :: bind_env where
  "demo_bind = \<lparr>be_cidr = ''10.0.0.0/24'', be_net = Some ([10, 0, 0, 0], 24), be_strict = False, be_ones = 24, be_prov = None, be_rev = None,
     be_peerIPs = [], be_roster = [], be_self = ''10.0.0.5'', be_live = (\<lambda>_. False), be_sessions = []\<rparr>"

theorem node_list_sound_witness:
  "nodes_ok (\<lambda>_. None) demo_bind ''10.0.0.5'' (parseNodeList (\<lambda>_. None) demo_bind [''10.0.0.7, 10.0.0.5 x,10.0.0.7'', ''8.8.8.8''] ''10.0.0.5'') \<and>
   parseNodeList (\<lambda>_. None) demo_bind [join '','' (parseNodeList (\<lambda>_. None) demo_bind [''10.0.0.7, 10.0.0.5 x,10.0.0.7'', ''8.8.8.8''] ''10.0.0.5'')] ''10.0.0.5'' =
   parseNodeList (\<lambda>_. None) demo_bind [''10.0.0.7, 10.0.0.5 x,10.0.0.7'', ''8.8.8.8''] ''10.0.0.5''"
  by (rule node_list_sound) simp

section \<open>The owner\<close>

text \<open>A set-up owner: the maps and lists are as parsed.\<close>

definition owner_ok :: "(string \<Rightarrow> byte list option) \<Rightarrow> bind_env \<Rightarrow> replicaOwner \<Rightarrow> bool" where
  "owner_ok ip6 E st \<longleftrightarrow> (case ow_ports st of None \<Rightarrow> True | Some m \<Rightarrow> ports_ok m \<and> nodes_ok ip6 E (be_self E) (ow_nodes st))"

lemma init_owner_ok:
  assumes "\<And>s b. ip6 s = Some b \<Longrightarrow> length b = 4" "owner_ok ip6 E st"
  shows "owner_ok ip6 E (initReplicas ip6 E cp cn ep en st)"
  using assms(2) by (auto simp: initReplicas_def owner_ok_def Let_def intro: parsed_ports_ok parsed_nodes_ok [OF assms(1)] split: option.splits)

lemma health_owner_ok: "owner_ok ip6 E st \<Longrightarrow> owner_ok ip6 E (runReplicaHealthChecks dial st)"
  by (simp add: owner_ok_def runReplicaHealthChecks_def split: option.splits)

lemma health_result:
  "gget (foldl (\<lambda>h ip. gput ip (f ip) h) h ns) ip = (if ip \<in> set ns then Some (f ip) else gget h ip)"
  by (induction ns arbitrary: h) (auto simp: gomap_simps)

lemma health_exact:
  "ow_ports st = Some m \<Longrightarrow> healthy_nodes me (runReplicaHealthChecks dial st) = filter (\<lambda>ip. checkReplicaNode dial m ip \<and> ip \<noteq> me) (ow_nodes st)"
  by (auto simp: healthy_nodes_def runReplicaHealthChecks_def health_result intro!: filter_cong)

lemma sub_nodes_ok: "nodes_ok ip6 E except ns \<Longrightarrow> except' \<notin> set (filter P ns) \<Longrightarrow> nodes_ok ip6 E except' (filter P ns)"
  by (auto simp: nodes_ok_def list_all_iff intro: order_trans [OF length_filter_le])

lemma announce_parts:
  assumes "ov_text ip6 E me" "list_all (ov_text ip6 E) ns"
  shows "split3 (me @ ''|'' @ ports_String m @ ''|'' @ join '','' ns) = Some (me, ports_String m, join '','' ns)"
proof (rule split_on_single)
  from ov_textD [OF assms(1)] show "CHR ''|'' \<notin> set me" using show_ipv4_no_bar by auto
  have j: "CHR ''|'' \<notin> set (join '','' ws)" if "list_all (\<lambda>w. CHR ''|'' \<notin> set w) ws" for ws
    using that by (induction "'',''" ws rule: join.induct) auto
  have "list_all (\<lambda>w. CHR ''|'' \<notin> set w) (map (\<lambda>k. port_item k (the (gget m k))) (sort_key port_rank (map fst m)))"
    using item_text by (fastforce simp: list_all_iff)
  then show "CHR ''|'' \<notin> set (ports_String m)" unfolding ports_String_def by (rule j)
  have "CHR ''|'' \<notin> set n" if "n \<in> set ns" for n
  proof -
    from that assms(2) have "ov_text ip6 E n" by (simp add: list_all_iff)
    from ov_textD [OF this] show ?thesis using show_ipv4_no_bar by auto
  qed
  then show "CHR ''|'' \<notin> set (join '','' ns)" by (intro j) (simp add: list_all_iff)
qed

end
