(* ===== verification/Spec2Isabelle.thy ===== *)
theory Spec2Isabelle
  imports DHT E2E_Node Policy_Config Connect Exit_Client Replica_Text
begin

text \<open>
  APGO is a peer-to-peer overlay network: every device runs a node (\<open>client/\<close>, in Go) that
  finds the other devices of its network without a central server, keeps a Noise session with
  each, and carries IP packets between them. A network administrator admits and removes devices
  with signed records that the nodes gossip. This development models the node.

  \<^bold>\<open>The parts of the program and how they interact.\<close>
  A datagram from the UDP socket is told apart by its first byte: a DHT message, a public-relay
  message or an overlay packet. An overlay data packet goes to the session of its source address
  (\<open>sessions.go\<close>), through the replay window, the Noise cipher, the post-quantum wrapper
  (\<open>pq.go\<close>) and the LZ4 frame (\<open>recvPacket\<close>, \<open>main.go\<close>); a packet from an unknown address is
  tried against every session (\<open>RoamData\<close>). The source address of the inner IP packet updates
  the learned routes (\<open>ip_learning.go\<close>), which name the session to send to. Before anything is
  delivered, the node asks the approval store whether the peer's key is admitted
  (\<open>approvals.go\<close>) and the block list whether it is revoked (\<open>revocation.go\<close>); both hold records
  signed with the admin key a node trusts (\<open>adminsig.go\<close>, \<open>adminpin.go\<close>), as does the store
  that binds overlay addresses to keys (\<open>provstore.go\<close>). Peers are found through trackers
  (\<open>bencode.go\<close>) and through a Kademlia table (\<open>dht.go\<close>); nodes that cannot reach each other
  meet at a public relay (\<open>publicrelay.go\<close>), which meters what it donates (\<open>bandwidth.go\<close>).

  \<^bold>\<open>Theories, in the order of the plan.\<close>
  \<^item> \<open>APGO_Prelude\<close>: Go's bytes, machine integers, times, durations and maps, big-endian
    encoding. \<open>Go_Strings\<close>: the \<open>strings\<close>, \<open>strconv\<close>, base64 and hex functions the source calls.
  \<^item> \<open>Replay_Window\<close>: \<open>replayCheck\<close>, \<open>replayMark\<close>, \<open>shiftWindow\<close> of \<open>sessions.go\<close> and \<open>ok\<close>,
    \<open>mark\<close>, \<open>shift\<close> of \<open>e2erelay.go\<close>, on 64-bit words. The locale \<open>replay_window\<close> states what a
    bitmap window must provide relative to a set of nonces; both windows interpret it, and
    their properties say that a nonce is accepted exactly if it is new and recent enough.
  \<^item> \<open>Data_Plane\<close>: \<open>sendPacket\<close>, \<open>recvPacket\<close>, the compression frame with its give-up counters
    and the post-quantum wrapper. Shown: no packet is accepted twice, whatever the network
    delivers, and what one end sends is what the other end gets, through all layers.
  \<^item> \<open>Net_Addr\<close>: the address classes of package \<open>net\<close> and the path classes of
    \<open>ip_learning.go\<close>, and that the two classifications of a path agree.
  \<^item> \<open>Session_Table\<close>: the state record \<open>mesh\<close> (sessions by address, learned routes, back-off,
    failure counts) and the operations of \<open>SessionTable\<close> and \<open>IPLearning\<close> on it. Shown: forged
    packets cannot tear a live session down while real traffic arrives, a desynchronised
    session is torn down, eviction removes exactly the stale sessions, the back-off laws of
    known and unknown peers, and the routes a new session leaves behind.
  \<^item> \<open>Routing\<close>: \<open>Learn\<close> and \<open>RoamData\<close>. Shown: the route of a live direct session is not taken
    by another peer, roaming needs an authentic packet, and two ways in which the code is
    weaker than its comments (a replayed packet roams; a relay circuit becomes a route).
  \<^item> \<open>Seq_Store\<close>: the locale \<open>newest_wins\<close>, the contract of the stores of signed records, with
    its convergence theorem. \<open>Admin_Trust\<close>: the trusted key, its fingerprint pin and the
    adoption of a seeded key. \<open>Approvals\<close>, \<open>Revocation\<close>, \<open>Provisions\<close>: the three stores, their
    signed formats, gossip handlers and gates; the first two interpret \<open>newest_wins\<close>. Shown:
    a pinned node adopts no other key, a signature determines the record it covers, admission
    and blocking follow the newest signed record, stores that saw the same records agree,
    an address has one owner and a stale claim to it never returns.
  \<^item> \<open>Bencode\<close>: decoder, encoder and tracker responses. Shown: decoding inverts encoding, the
    decoder ends on every input within its nesting bound, and a length near the largest
    \<open>int\<close> makes the decoder panic, because the bound check wraps around.
  \<^item> \<open>Bandwidth\<close>: token bucket, period quota, limit parser, with the bounds on the bytes they
    admit. \<open>Public_Relay\<close>: reservations, circuits and every handler of the relay server, as
    functions and as the reachability relation \<open>relay_reachable\<close>; the accounting invariant
    holds in every reachable state and yields the resource bounds, the separation of groups and
    the immediate effect of switching the relay off.
  \<^item> \<open>DHT\<close>: routing table, compact encodings, tokens, transactions, peer store and the handler
    of a datagram. Shown: the table's invariant under any sequence of operations, that the
    nearest nodes are returned, that the peer store is bounded and that announcing needs a
    token issued for the sender's address.

  \<^bold>\<open>State, errors and loops.\<close>
  A mutex-protected struct is a \<open>record\<close> passed and returned; the critical sections of the code
  are single calls here, so an interleaving of goroutines is a sequence of calls, over which the
  run theorems quantify. Go maps are association lists with distinct keys; the order of
  \<open>range\<close> is the order of the list, and the theorems hold for every order. Error
  returns are \<open>None\<close> or values of a result type; a run-time panic is a value of its own
  (\<open>BPanic\<close>, or \<open>None\<close> of a DHT handler). One \<open>now\<close> stands for every \<open>time.Now()\<close> of a call.
  UDP addresses are equal when their \<open>String()\<close> is. Floating-point numbers are exact rationals.

  \<^bold>\<open>Bounds and fuel.\<close>
  Loops are structural recursions or folds, except two. The bencode decoder runs on fuel: twice the length of
  the input and one more is proved to be enough for every input. The choice of a circuit id
  draws random numbers until one is free: the draws are an argument, and
  \<open>newCircuitID_returns\<close> gives the draws with which it returns.

  \<^bold>\<open>Parameters.\<close>
  Code outside the repository enters as arguments: the signature scheme (\<open>sigscheme\<close>), the Noise
  cipher states, the AEAD of the post-quantum layer, LZ4, \<open>json.Unmarshal\<close>, SHA-256 and HMAC.
  So do values that other parts of the node supply: the address a key has announced, the
  subnets of the host's interfaces, the overlay prefix length.

  \<^bold>\<open>Not modelled.\<close>
  Operating-system glue (TUN devices, firewall, routes, port mapping), user interfaces, the
  HTTP control socket and log output have no counterpart. Still open, in this order: the Noise
  handshake with its cookies and simultaneous initiation (\<open>sessions.go\<close>, \<open>main.go\<close>), sealing and
  forwarding of relayed packets (\<open>e2erelay.go\<close>), the ML-KEM negotiation (\<open>pq.go\<close>, \<open>pqheal.go\<close>),
  overlay address claims (\<open>ipbinding.go\<close>, \<open>ipclaim.go\<close>), the policy and network-configuration
  records (\<open>policy.go\<close>, \<open>netconfig.go\<close>), the relay policy (\<open>relaypolicy.go\<close>), the packet parser of
  public exits (\<open>pubexit_proto.go\<close>) and the relay client (\<open>relayclient.go\<close>).
\<close>

end
